(* ===== verification/Qonduit_Prelude.thy ===== *)
theory Qonduit_Prelude
  imports Complex_Main "HOL-Library.Word" "HOL-Library.List_Lexorder"
begin

text \<open>
  Shared vocabulary of the development: machine integers, byte strings, the three outcomes a
  Rust function can have (a value, an error, a panic), checked reads of byte slices, the
  little- and big-endian conversions of the standard library, saturating arithmetic, and the
  two interfaces every wire format and every storage key relies on: a fixed-width byte codec
  and an order-preserving one.  The named collections \<open>outcome_simps\<close>, \<open>codec_simps\<close> and
  \<open>read_simps\<close> are what the component theories simplify with.
\<close>

named_theorems outcome_simps
named_theorems codec_simps
named_theorems read_simps

type_synonym u8 = "8 word"
type_synonym u16 = "16 word"
type_synonym u32 = "32 word"
type_synonym u64 = "64 word"
type_synonym i64 = int
type_synonym i32 = int
type_synonym i16 = int
type_synonym usize = nat
type_synonym bytes = "u8 list"

section \<open>Outcomes\<close>

text \<open>
  A call returns a value (\<open>Ok\<close>), an \<^verbatim>\<open>anyhow\<close> error (\<open>Err\<close>) or panics.  Errors keep the data
  the message of the source shows; panics keep what went wrong.
\<close>

datatype error =
    PayloadTooSmall string nat nat
  | InvalidEpoch u16
  | InvalidComputorIndex u16
  | Io string
  | Timeout string
  | NodeReply string
  | Storage string
  | Nats string
  | Json string
  | Hex string
  | Other string

datatype panic = IndexOutOfBounds | SliceOutOfRange | RemainderByZero | UnwrapFailed

datatype 'a outcome = Ok 'a | Err error | Panic panic

fun bindR :: "'a outcome \<Rightarrow> ('a \<Rightarrow> 'b outcome) \<Rightarrow> 'b outcome" where
  "bindR (Ok x) f = f x"
| "bindR (Err e) f = Err e"
| "bindR (Panic p) f = Panic p"

fun is_panic :: "'a outcome \<Rightarrow> bool" where
  "is_panic (Panic p) = True"
| "is_panic (Ok x) = False"
| "is_panic (Err e) = False"

fun is_ok :: "'a outcome \<Rightarrow> bool" where
  "is_ok (Ok x) = True"
| "is_ok (Err e) = False"
| "is_ok (Panic p) = False"

lemma bindR_assoc [outcome_simps]: "bindR (bindR m f) g = bindR m (\<lambda>x. bindR (f x) g)"
  by (cases m) simp_all

lemma bindR_eq_Ok [outcome_simps]: "bindR m f = Ok y \<longleftrightarrow> (\<exists>x. m = Ok x \<and> f x = Ok y)"
  by (cases m) simp_all

lemma bindR_eq_Err [outcome_simps]:
  "bindR m f = Err e \<longleftrightarrow> m = Err e \<or> (\<exists>x. m = Ok x \<and> f x = Err e)"
  by (cases m) simp_all

lemma is_panic_bindR [outcome_simps]:
  "is_panic (bindR m f) \<longleftrightarrow> is_panic m \<or> (\<exists>x. m = Ok x \<and> is_panic (f x))"
  by (cases m) simp_all

lemma is_okE: "is_ok m \<Longrightarrow> (\<And>x. m = Ok x \<Longrightarrow> P) \<Longrightarrow> P"
  by (cases m) simp_all

fun mapM :: "('a \<Rightarrow> 'b outcome) \<Rightarrow> 'a list \<Rightarrow> 'b list outcome" where
  "mapM f [] = Ok []"
| "mapM f (x # xs) = bindR (f x) (\<lambda>y. bindR (mapM f xs) (\<lambda>ys. Ok (y # ys)))"

lemma mapM_Ok: "(\<And>x. x \<in> set xs \<Longrightarrow> f x = Ok (g x)) \<Longrightarrow> mapM f xs = Ok (map g xs)"
  by (induction xs) simp_all

section \<open>Little- and big-endian integers\<close>

fun nat_to_le :: "nat \<Rightarrow> nat \<Rightarrow> bytes" where
  "nat_to_le 0 n = []"
| "nat_to_le (Suc k) n = word_of_nat (n mod 256) # nat_to_le k (n div 256)"

fun nat_from_le :: "bytes \<Rightarrow> nat" where
  "nat_from_le [] = 0"
| "nat_from_le (b # bs) = unat b + 256 * nat_from_le bs"

lemma length_nat_to_le [simp]: "length (nat_to_le k n) = k"
  by (induction k arbitrary: n) simp_all

lemma unat_lt_pow: "unat (w :: 'a::len word) < 2 ^ LENGTH('a)"
  by (rule unsigned_less)

lemma unat_byte_lt: "unat (b :: u8) < 256"
  using unsigned_less [of b] by simp

lemma unat_word_of_nat_byte [simp]: "unat (word_of_nat (n mod 256) :: u8) = n mod 256"
  by (simp add: unat_of_nat)

lemma nat_from_le_to_le: "nat_from_le (nat_to_le k n) = n mod 256 ^ k"
proof (induction k arbitrary: n)
  case 0
  then show ?case by simp
next
  case (Suc k)
  then show ?case by (simp add: mod_mult2_eq)
qed

lemma nat_from_le_bound: "nat_from_le bs < 256 ^ length bs"
proof (induction bs)
  case Nil
  then show ?case by simp
next
  case (Cons b bs)
  have "unat b < 256" by (rule unat_byte_lt)
  with Cons show ?case by simp
qed

lemma nat_to_le_from_le: "nat_to_le (length bs) (nat_from_le bs) = bs"
proof (induction bs)
  case Nil
  then show ?case by simp
next
  case (Cons b bs)
  have b: "unat b < 256" by (rule unat_byte_lt)
  then have "(unat b + 256 * nat_from_le bs) mod 256 = unat b" by simp
  moreover from b have "(unat b + 256 * nat_from_le bs) div 256 = nat_from_le bs" by simp
  ultimately show ?case using Cons by simp
qed

text \<open>\<^verbatim>\<open>uN::to_le_bytes\<close>, \<^verbatim>\<open>from_le_bytes\<close> and their big-endian forms, and the signed readings.\<close>

definition u16_to_le :: "u16 \<Rightarrow> bytes" where "u16_to_le w = nat_to_le 2 (unat w)"
definition u32_to_le :: "u32 \<Rightarrow> bytes" where "u32_to_le w = nat_to_le 4 (unat w)"
definition u64_to_le :: "u64 \<Rightarrow> bytes" where "u64_to_le w = nat_to_le 8 (unat w)"
definition u16_from_le :: "bytes \<Rightarrow> u16" where "u16_from_le bs = word_of_nat (nat_from_le bs)"
definition u32_from_le :: "bytes \<Rightarrow> u32" where "u32_from_le bs = word_of_nat (nat_from_le bs)"
definition u64_from_le :: "bytes \<Rightarrow> u64" where "u64_from_le bs = word_of_nat (nat_from_le bs)"
definition i16_from_le :: "bytes \<Rightarrow> i16" where "i16_from_le bs = sint (u16_from_le bs)"
definition i32_from_le :: "bytes \<Rightarrow> i32" where "i32_from_le bs = sint (u32_from_le bs)"
definition i64_from_le :: "bytes \<Rightarrow> i64" where "i64_from_le bs = sint (u64_from_le bs)"
definition u16_to_be :: "u16 \<Rightarrow> bytes" where "u16_to_be w = rev (u16_to_le w)"
definition u32_to_be :: "u32 \<Rightarrow> bytes" where "u32_to_be w = rev (u32_to_le w)"
definition u16_from_be :: "bytes \<Rightarrow> u16" where "u16_from_be bs = u16_from_le (rev bs)"
definition u32_from_be :: "bytes \<Rightarrow> u32" where "u32_from_be bs = u32_from_le (rev bs)"

text \<open>The signed 64-bit image of an integer, as \<^verbatim>\<open>i64::to_le_bytes\<close> writes it.\<close>

definition i64_to_le :: "i64 \<Rightarrow> bytes" where "i64_to_le i = u64_to_le (word_of_int i)"

section \<open>Byte codecs\<close>

text \<open>
  The contract of a fixed-width encoding: encoding has a fixed length, and encoding and decoding
  are inverse to each other.  Wire records and storage keys are built from such codecs.
\<close>

locale byte_codec =
  fixes enc :: "'a \<Rightarrow> bytes" and dec :: "bytes \<Rightarrow> 'a" and width :: nat
  assumes length_enc: "length (enc x) = width"
    and dec_enc: "dec (enc x) = x"
    and enc_dec: "length bs = width \<Longrightarrow> enc (dec bs) = bs"
begin

lemma enc_inject: "enc x = enc y \<longleftrightarrow> x = y"
  by (metis dec_enc)

lemma dec_inject: "length bs = width \<Longrightarrow> length cs = width \<Longrightarrow> dec bs = dec cs \<longleftrightarrow> bs = cs"
  by (metis enc_dec)

lemma enc_append_inject: "enc x @ r = enc y @ s \<longleftrightarrow> x = y \<and> r = s"
  by (simp add: append_eq_append_conv length_enc enc_inject)

lemma take_enc: "take width (enc x @ r) = enc x"
  by (simp add: length_enc)

lemma drop_enc: "drop width (enc x @ r) = r"
  by (simp add: length_enc)

lemma dec_take: "dec (take width (enc x @ r)) = x"
  by (simp only: take_enc dec_enc)

end

text \<open>
  A codec that also preserves the order, with respect to the bytewise lexicographic order of
  keys: what range scans over an ordered store rely on.
\<close>

locale order_codec = byte_codec enc dec width
  for enc :: "'a::linorder \<Rightarrow> bytes" and dec :: "bytes \<Rightarrow> 'a" and width :: nat +
  assumes enc_less: "enc x < enc y \<longleftrightarrow> x < y"
begin

lemma enc_le: "enc x \<le> enc y \<longleftrightarrow> x \<le> y"
  by (metis enc_less not_le)

end

lemma list_less_append_same_length:
  fixes xs ys :: "'a::linorder list"
  assumes "length xs = length ys"
  shows "xs @ r < ys @ s \<longleftrightarrow> xs < ys \<or> xs = ys \<and> r < s"
  using assms by (induction xs ys rule: list_induct2) auto

lemma list_le_append_same_length:
  fixes xs ys :: "'a::linorder list"
  assumes "length xs = length ys"
  shows "xs @ r \<le> ys @ s \<longleftrightarrow> xs < ys \<or> xs = ys \<and> r \<le> s"
  using list_less_append_same_length [OF assms, of r s] assms
  by (auto simp: le_less)

context order_codec
begin

lemma enc_append_less: "enc x @ r < enc y @ s \<longleftrightarrow> x < y \<or> x = y \<and> r < s"
  by (simp add: list_less_append_same_length length_enc enc_less enc_inject)

lemma enc_append_le: "enc x @ r \<le> enc y @ s \<longleftrightarrow> x < y \<or> x = y \<and> r \<le> s"
  by (simp add: list_le_append_same_length length_enc enc_less enc_inject)

lemma enc_le_append: "enc x \<le> enc y @ s \<longleftrightarrow> x \<le> y"
  using enc_append_le [of x "[]" y s] by (cases s) (auto simp: le_less)

end

lemma word_of_nat_unat_le:
  assumes "256 ^ k = (2 :: nat) ^ LENGTH('a::len)"
  shows "word_of_nat (nat_from_le (nat_to_le k (unat w))) = (w :: 'a word)"
proof -
  have "unat w < 256 ^ k" using unsigned_less [of w] assms by simp
  then show ?thesis by (simp add: nat_from_le_to_le)
qed

lemma nat_to_le_of_word:
  assumes "length bs = k" and "256 ^ k = (2 :: nat) ^ LENGTH('a::len)"
  shows "nat_to_le k (unat (word_of_nat (nat_from_le bs) :: 'a word)) = bs"
proof -
  have "nat_from_le bs < 2 ^ LENGTH('a)"
    using nat_from_le_bound [of bs] assms by simp
  then have "unat (word_of_nat (nat_from_le bs) :: 'a word) = nat_from_le bs"
    by (simp add: unat_of_nat)
  then show ?thesis using nat_to_le_from_le [of bs] assms(1) by simp
qed

interpretation u16_le: byte_codec u16_to_le u16_from_le 2
  by unfold_locales
    (simp_all add: u16_to_le_def u16_from_le_def word_of_nat_unat_le nat_to_le_of_word)

interpretation u32_le: byte_codec u32_to_le u32_from_le 4
  by unfold_locales
    (simp_all add: u32_to_le_def u32_from_le_def word_of_nat_unat_le nat_to_le_of_word)

interpretation u64_le: byte_codec u64_to_le u64_from_le 8
  by unfold_locales
    (simp_all add: u64_to_le_def u64_from_le_def word_of_nat_unat_le nat_to_le_of_word)


lemma i64_from_to_le: "- (2 ^ 63) \<le> i \<Longrightarrow> i < 2 ^ 63 \<Longrightarrow> i64_from_le (i64_to_le i) = i"
  by (simp add: i64_from_le_def i64_to_le_def u64_le.dec_enc sint_word_ariths signed_of_int
      signed_take_bit_int_eq_self_iff)

lemma length_i64_to_le [simp]: "length (i64_to_le i) = 8"
  by (simp add: i64_to_le_def u64_le.length_enc)

lemma i64_from_le_bounds: "- (2 ^ 63) \<le> i64_from_le bs \<and> i64_from_le bs < 2 ^ 63"
  using sint_greater_eq [of "u64_from_le bs"] sint_less [of "u64_from_le bs"]
  by (simp add: i64_from_le_def)

lemmas codec_length [simp] = u16_le.length_enc u32_le.length_enc u64_le.length_enc
lemmas codec_dec_enc [simp] = u16_le.dec_enc u32_le.dec_enc u64_le.dec_enc

text \<open>Big-endian words compare as their bytes do.\<close>

lemma nat_from_le_snoc: "nat_from_le (bs @ [b]) = nat_from_le bs + 256 ^ length bs * unat b"
  by (induction bs) (simp_all add: algebra_simps)

lemma be_less_iff:
  assumes "length bs = length cs"
  shows "bs < cs \<longleftrightarrow> nat_from_le (rev bs) < nat_from_le (rev cs)"
  using assms
proof (induction bs cs rule: list_induct2)
  case Nil
  then show ?case by simp
next
  case (Cons b bs c cs)
  let ?B = "nat_from_le (rev bs)" and ?C = "nat_from_le (rev cs)"
  let ?P = "256 ^ length bs :: nat"
  have B: "?B < ?P" and C: "?C < ?P"
    using nat_from_le_bound [of "rev bs"] nat_from_le_bound [of "rev cs"] Cons.hyps by simp_all
  have lt: "unat x < unat y \<Longrightarrow> X < ?P \<Longrightarrow> X + ?P * unat x < Y + ?P * unat y"
    for x y :: u8 and X Y :: nat
  proof -
    assume a: "unat x < unat y" and X: "X < ?P"
    have "X + ?P * unat x < ?P * Suc (unat x)" using X by simp
    also have "\<dots> \<le> ?P * unat y" using a by (intro mult_le_mono2) simp
    finally show ?thesis by simp
  qed
  show ?case
  proof (cases b c rule: linorder_cases)
    case less
    then have "unat b < unat c" by (simp add: word_less_nat_alt)
    with lt [OF this B] less show ?thesis by (simp add: nat_from_le_snoc Cons.hyps)
  next
    case equal
    then show ?thesis using Cons by (simp add: nat_from_le_snoc)
  next
    case greater
    then have "unat c < unat b" by (simp add: word_less_nat_alt)
    with lt [OF this C, of ?B] greater show ?thesis
      by (auto simp add: nat_from_le_snoc Cons.hyps)
  qed
qed

lemma be_word_less:
  assumes "256 ^ k = (2 :: nat) ^ LENGTH('a::len)"
  shows "rev (nat_to_le k (unat x)) < rev (nat_to_le k (unat y)) \<longleftrightarrow> x < (y :: 'a word)"
proof -
  have "unat x < 256 ^ k" "unat y < 256 ^ k"
    using unsigned_less [of x] unsigned_less [of y] assms by simp_all
  then show ?thesis
    by (subst be_less_iff) (simp_all add: nat_from_le_to_le word_less_nat_alt)
qed

interpretation u16_be: order_codec u16_to_be u16_from_be 2
proof unfold_locales
  fix x y :: u16 and bs :: bytes
  show "length (u16_to_be x) = 2" by (simp add: u16_to_be_def)
  show "u16_from_be (u16_to_be x) = x" by (simp add: u16_to_be_def u16_from_be_def)
  show "length bs = 2 \<Longrightarrow> u16_to_be (u16_from_be bs) = bs"
    by (simp add: u16_to_be_def u16_from_be_def u16_le.enc_dec)
  show "(u16_to_be x < u16_to_be y) = (x < y)"
    by (simp add: u16_to_be_def u16_to_le_def be_word_less)
qed

interpretation u32_be: order_codec u32_to_be u32_from_be 4
proof unfold_locales
  fix x y :: u32 and bs :: bytes
  show "length (u32_to_be x) = 4" by (simp add: u32_to_be_def)
  show "u32_from_be (u32_to_be x) = x" by (simp add: u32_to_be_def u32_from_be_def)
  show "length bs = 4 \<Longrightarrow> u32_to_be (u32_from_be bs) = bs"
    by (simp add: u32_to_be_def u32_from_be_def u32_le.enc_dec)
  show "(u32_to_be x < u32_to_be y) = (x < y)"
    by (simp add: u32_to_be_def u32_to_le_def be_word_less)
qed

lemmas be_length [simp] = u16_be.length_enc u32_be.length_enc
lemmas be_dec_enc [simp] = u16_be.dec_enc u32_be.dec_enc

section \<open>Checked reads of byte slices\<close>

text \<open>
  \<^verbatim>\<open>[p[o], p[o + 1], ...]\<close> indexes \<open>n\<close> consecutive bytes and panics past the end;
  \<^verbatim>\<open>p[a..b]\<close> panics when the range is reversed or leaves the slice.
\<close>

definition index_bytes :: "bytes \<Rightarrow> nat \<Rightarrow> nat \<Rightarrow> bytes outcome" where
  "index_bytes p off n =
     (if off + n \<le> length p then Ok (take n (drop off p)) else Panic IndexOutOfBounds)"

definition slice :: "bytes \<Rightarrow> nat \<Rightarrow> nat \<Rightarrow> bytes outcome" where
  "slice p a b =
     (if a \<le> b \<and> b \<le> length p then Ok (take (b - a) (drop a p)) else Panic SliceOutOfRange)"

definition slice_from :: "bytes \<Rightarrow> nat \<Rightarrow> bytes outcome" where
  "slice_from p a = (if a \<le> length p then Ok (drop a p) else Panic SliceOutOfRange)"

definition index_u8 :: "bytes \<Rightarrow> nat \<Rightarrow> u8 outcome" where
  "index_u8 p i = (if i < length p then Ok (p ! i) else Panic IndexOutOfBounds)"

definition rd_u16 :: "bytes \<Rightarrow> nat \<Rightarrow> u16 outcome" where
  "rd_u16 p off = bindR (index_bytes p off 2) (\<lambda>b. Ok (u16_from_le b))"
definition rd_u32 :: "bytes \<Rightarrow> nat \<Rightarrow> u32 outcome" where
  "rd_u32 p off = bindR (index_bytes p off 4) (\<lambda>b. Ok (u32_from_le b))"
definition rd_u64 :: "bytes \<Rightarrow> nat \<Rightarrow> u64 outcome" where
  "rd_u64 p off = bindR (index_bytes p off 8) (\<lambda>b. Ok (u64_from_le b))"
definition rd_i16 :: "bytes \<Rightarrow> nat \<Rightarrow> i16 outcome" where
  "rd_i16 p off = bindR (index_bytes p off 2) (\<lambda>b. Ok (i16_from_le b))"
definition rd_i32 :: "bytes \<Rightarrow> nat \<Rightarrow> i32 outcome" where
  "rd_i32 p off = bindR (index_bytes p off 4) (\<lambda>b. Ok (i32_from_le b))"
definition rd_i64 :: "bytes \<Rightarrow> nat \<Rightarrow> i64 outcome" where
  "rd_i64 p off = bindR (index_bytes p off 8) (\<lambda>b. Ok (i64_from_le b))"

lemma index_bytes_Ok [read_simps]:
  "off + n \<le> length p \<Longrightarrow> index_bytes p off n = Ok (take n (drop off p))"
  by (simp add: index_bytes_def)

lemma slice_Ok [read_simps]:
  "a \<le> b \<Longrightarrow> b \<le> length p \<Longrightarrow> slice p a b = Ok (take (b - a) (drop a p))"
  by (simp add: slice_def)

lemma slice_from_Ok [read_simps]: "a \<le> length p \<Longrightarrow> slice_from p a = Ok (drop a p)"
  by (simp add: slice_from_def)

lemma index_u8_Ok [read_simps]: "i < length p \<Longrightarrow> index_u8 p i = Ok (p ! i)"
  by (simp add: index_u8_def)

lemma rd_Ok [read_simps]:
  "off + 2 \<le> length p \<Longrightarrow> rd_u16 p off = Ok (u16_from_le (take 2 (drop off p)))"
  "off + 4 \<le> length p \<Longrightarrow> rd_u32 p off = Ok (u32_from_le (take 4 (drop off p)))"
  "off + 8 \<le> length p \<Longrightarrow> rd_u64 p off = Ok (u64_from_le (take 8 (drop off p)))"
  "off + 2 \<le> length p \<Longrightarrow> rd_i16 p off = Ok (i16_from_le (take 2 (drop off p)))"
  "off + 4 \<le> length p \<Longrightarrow> rd_i32 p off = Ok (i32_from_le (take 4 (drop off p)))"
  "off + 8 \<le> length p \<Longrightarrow> rd_i64 p off = Ok (i64_from_le (take 8 (drop off p)))"
  by (simp_all add: rd_u16_def rd_u32_def rd_u64_def rd_i16_def rd_i32_def rd_i64_def
      index_bytes_Ok)

section \<open>Fixed-width chunks\<close>

lemma length_concat_const:
  "(\<And>i. i \<in> set xs \<Longrightarrow> length (f i) = n) \<Longrightarrow> length (concat (map f xs)) = n * length xs"
  by (induction xs) simp_all

definition chunk :: "nat \<Rightarrow> 'a list \<Rightarrow> nat \<Rightarrow> 'a list" where
  "chunk n xs i = take n (drop (i * n) xs)"

lemma concat_chunks: "concat (map (chunk n xs) [0..<k]) = take (k * n) xs"
  by (induction k) (simp_all add: chunk_def take_add [symmetric] add.commute)

lemma length_chunk: "(i + 1) * n \<le> length xs \<Longrightarrow> length (chunk n xs i) = n"
  by (simp add: chunk_def algebra_simps)

lemma chunk_append_same:
  assumes "length x = n"
  shows "chunk n (x @ xs) 0 = x" and "chunk n (x @ xs) (Suc i) = chunk n xs i"
  using assms by (simp_all add: chunk_def)

lemma chunk_concat:
  assumes "\<And>x. x \<in> set xss \<Longrightarrow> length x = n" and "i < length xss"
  shows "chunk n (concat xss @ r) i = xss ! i"
  using assms
proof (induction xss arbitrary: i)
  case Nil
  then show ?case by simp
next
  case (Cons x xss)
  have x: "length x = n" using Cons.prems(1) by simp
  show ?case
  proof (cases i)
    case 0
    then show ?thesis using chunk_append_same(1) [OF x] by simp
  next
    case (Suc j)
    then show ?thesis using Cons chunk_append_same(2) [OF x] by simp
  qed
qed

section \<open>Saturating and wrapping arithmetic\<close>

definition sat_sub :: "'a::len word \<Rightarrow> 'a word \<Rightarrow> 'a word" where
  "sat_sub a b = (if b \<le> a then a - b else 0)"

definition sat_add :: "'a::len word \<Rightarrow> 'a word \<Rightarrow> 'a word" where
  "sat_add a b =
     (if unat a + unat b < 2 ^ LENGTH('a) then a + b else - 1)"

definition sat_mul :: "'a::len word \<Rightarrow> 'a word \<Rightarrow> 'a word" where
  "sat_mul a b =
     (if unat a * unat b < 2 ^ LENGTH('a) then a * b else - 1)"

lemma unat_sat_sub: "unat (sat_sub a b) = unat a - unat b"
  by (simp add: sat_sub_def unat_sub word_le_nat_alt)

lemma unat_max_word: "unat (- 1 :: 'a::len word) = 2 ^ LENGTH('a) - 1"
  by (simp add: unsigned_minus_1_eq_mask mask_eq_exp_minus_1)

lemma unat_sat_add: "unat (sat_add (a :: 'a::len word) b) = min (unat a + unat b) (2 ^ LENGTH('a) - 1)"
  by (auto simp: sat_add_def unat_word_ariths unat_max_word min_def)

lemma sat_add_ge: "a \<le> sat_add (a :: 'a::len word) b"
proof -
  have "unat a < 2 ^ LENGTH('a)" by (rule unsigned_less)
  then have "unat a \<le> 2 ^ LENGTH('a) - 1" by linarith
  then show ?thesis by (simp add: word_le_nat_alt unat_sat_add)
qed

lemma unat_word_of_nat_u32: "n < 2 ^ 32 \<Longrightarrow> unat (word_of_nat n :: u32) = n"
  by (simp add: unsigned_of_nat take_bit_nat_eq_self)

lemma upt_split: "i \<le> j \<Longrightarrow> j \<le> k \<Longrightarrow> [i..<j] @ [j..<k] = [i..<k]"
  by (metis le_Suc_ex upt_add_eq_append)

section \<open>Stateful calls\<close>

text \<open>
  A call that changes state returns its outcome and the state it leaves behind; the state survives
  an error.  \<open>bindS\<close> is the sequence of two such calls with the \<^verbatim>\<open>?\<close> operator between them.
\<close>

fun bindS :: "'a outcome \<times> 's \<Rightarrow> ('a \<Rightarrow> 's \<Rightarrow> 'b outcome \<times> 's) \<Rightarrow> 'b outcome \<times> 's" where
  "bindS (Ok x, s) f = f x s"
| "bindS (Err e, s) f = (Err e, s)"
| "bindS (Panic p, s) f = (Panic p, s)"

text \<open>A pure step inside a stateful call.\<close>

definition liftS :: "'a outcome \<Rightarrow> 's \<Rightarrow> 'a outcome \<times> 's" where
  "liftS r s = (r, s)"

lemma bindS_liftS [simp]:
  "bindS (liftS (Ok x) s) f = f x s"
  "bindS (liftS (Err e) s) f = (Err e, s)"
  "bindS (liftS (Panic p) s) f = (Panic p, s)"
  by (simp_all add: liftS_def)

lemma bindS_assoc [outcome_simps]: "bindS (bindS m f) g = bindS m (\<lambda>x s. bindS (f x s) g)"
  by (cases m; cases "fst m") auto

lemma fst_bindS_Ok [outcome_simps]:
  "fst (bindS m f) = Ok y \<longleftrightarrow> (\<exists>x. fst m = Ok x \<and> fst (f x (snd m)) = Ok y)"
  by (cases m; cases "fst m") auto

text \<open>Calls in sequence, stopping at the first one that does not return a value.\<close>

fun forS :: "('a \<Rightarrow> 's \<Rightarrow> unit outcome \<times> 's) \<Rightarrow> 'a list \<Rightarrow> 's \<Rightarrow> unit outcome \<times> 's" where
  "forS f [] s = (Ok (), s)"
| "forS f (x # xs) s = bindS (f x s) (\<lambda>_. forS f xs)"

section \<open>Decimal numbers\<close>

fun show_nat :: "nat \<Rightarrow> string" where
  "show_nat n = (if n < 10 then [char_of (48 + n)]
     else show_nat (n div 10) @ [char_of (48 + n mod 10)])"

declare show_nat.simps [simp del]

definition decimal_value :: "string \<Rightarrow> nat" where
  "decimal_value = foldl (\<lambda>v c. 10 * v + (of_char c - 48)) 0"

lemma decimal_value_show_nat [simp]: "decimal_value (show_nat n) = n"
proof (induction n rule: less_induct)
  case (less n)
  have d: "of_char (char_of (48 + k) :: char) = 48 + k" if "k < 10" for k :: nat
    using that by simp
  show ?case
  proof (cases "n < 10")
    case True
    then show ?thesis by (subst show_nat.simps) (simp add: decimal_value_def d)
  next
    case False
    then have "decimal_value (show_nat (n div 10)) = n div 10" by (intro less) simp
    with False show ?thesis
      by (subst show_nat.simps) (simp add: decimal_value_def d)
  qed
qed

lemma show_nat_inject [simp]: "show_nat m = show_nat n \<longleftrightarrow> m = n"
  by (metis decimal_value_show_nat)

lemma length_show_nat: "0 < length (show_nat n)"
  by (subst show_nat.simps) simp

end
