(* ===== verification/Pending.thy ===== *)
theory Pending
  imports Qonduit_Prelude
begin

text \<open>
  \<^verbatim>\<open>crates/ingestion/src/pending.rs\<close>: the map from correlation ids to the channels of waiting
  requests.  A \<^verbatim>\<open>oneshot\<close> channel is a number; the state records what its receiver can observe and
  whether the receiver has been dropped.
\<close>

datatype channel = Waiting | Received "bytes list" | SenderDropped

record pending =
  pending_map :: "u32 \<rightharpoonup> nat"
  channels :: "nat \<Rightarrow> channel"
  receiver_dropped :: "nat set"
  next_channel :: nat

definition new_pending :: pending where
  "new_pending = \<lparr>pending_map = Map.empty, channels = (\<lambda>_. SenderDropped), receiver_dropped = {},
     next_channel = 0\<rparr>"

text \<open>Inserting over an entry drops the sender that was there.\<close>

definition register :: "u32 \<Rightarrow> pending \<Rightarrow> nat \<times> pending" where
  "register dejavu p =
     (let c = next_channel p;
          chans = (case pending_map p dejavu of None \<Rightarrow> channels p
                   | Some old \<Rightarrow> (channels p)(old := SenderDropped))
      in (c, p\<lparr>pending_map := (pending_map p)(dejavu \<mapsto> c), channels := chans(c := Waiting),
             next_channel := c + 1\<rparr>))"

definition deliver :: "u32 \<Rightarrow> bytes list \<Rightarrow> pending \<Rightarrow> bool \<times> pending" where
  "deliver dejavu responses p =
     (case pending_map p dejavu of
        Some c \<Rightarrow>
          (True, p\<lparr>pending_map := (pending_map p)(dejavu := None),
             channels := (channels p)(c := (if c \<in> receiver_dropped p then SenderDropped
               else Received responses))\<rparr>)
      | None \<Rightarrow> (False, p))"

definition cleanup :: "pending \<Rightarrow> pending" where
  "cleanup p = p\<lparr>pending_map := (\<lambda>d. case pending_map p d of None \<Rightarrow> None
     | Some c \<Rightarrow> if c \<in> receiver_dropped p then None else Some c)\<rparr>"

definition pending_count :: "pending \<Rightarrow> nat" where
  "pending_count p = card (dom (pending_map p))"

text \<open>A requester gives up and drops its receiver.\<close>

definition drop_receiver :: "nat \<Rightarrow> pending \<Rightarrow> pending" where
  "drop_receiver c p = p\<lparr>receiver_dropped := insert c (receiver_dropped p)\<rparr>"

section \<open>Reachable states\<close>

inductive pending_step :: "pending \<Rightarrow> pending \<Rightarrow> bool" where
  register: "pending_step p (snd (register d p))"
| deliver: "pending_step p (snd (deliver d rs p))"
| cleanup: "pending_step p (cleanup p)"
| give_up: "pending_step p (drop_receiver c p)"

inductive pending_reachable :: "pending \<Rightarrow> bool" where
  init: "pending_reachable new_pending"
| step: "pending_reachable p \<Longrightarrow> pending_step p p' \<Longrightarrow> pending_reachable p'"

inductive_cases pending_stepE: "pending_step p p'"

text \<open>Every registered channel is one that was handed out, and no two ids share one.\<close>

definition pending_inv :: "pending \<Rightarrow> bool" where
  "pending_inv p \<longleftrightarrow> finite (dom (pending_map p))
     \<and> (\<forall>d c. pending_map p d = Some c \<longrightarrow> c < next_channel p)
     \<and> (\<forall>d d' c. pending_map p d = Some c \<longrightarrow> pending_map p d' = Some c \<longrightarrow> d = d')"

lemma pending_inv_cleanup: "pending_inv p \<Longrightarrow> pending_inv (cleanup p)"
proof -
  assume inv: "pending_inv p"
  have m: "pending_map (cleanup p) d = Some c \<Longrightarrow> pending_map p d = Some c" for d c
    by (simp add: cleanup_def split: option.splits if_splits)
  then have "dom (pending_map (cleanup p)) \<subseteq> dom (pending_map p)" by auto
  then have "finite (dom (pending_map (cleanup p)))"
    using inv finite_subset unfolding pending_inv_def by blast
  moreover have "next_channel (cleanup p) = next_channel p" by (simp add: cleanup_def)
  ultimately show ?thesis using inv m unfolding pending_inv_def by metis
qed

lemma pending_inv_register: "pending_inv p \<Longrightarrow> pending_inv (snd (register d p))"
  unfolding pending_inv_def register_def Let_def
  by (auto simp: less_Suc_eq split: if_splits)

lemma pending_inv_deliver: "pending_inv p \<Longrightarrow> pending_inv (snd (deliver d rs p))"
  unfolding pending_inv_def deliver_def
  by (auto split: option.splits if_splits)

lemma pending_inv_step: "pending_step p p' \<Longrightarrow> pending_inv p \<Longrightarrow> pending_inv p'"
  by (erule pending_stepE)
    (auto simp: pending_inv_register pending_inv_deliver pending_inv_cleanup,
     simp add: pending_inv_def drop_receiver_def)

lemma pending_inv_reachable: "pending_reachable p \<Longrightarrow> pending_inv p"
proof (induction rule: pending_reachable.induct)
  case init
  then show ?case by (simp add: pending_inv_def new_pending_def)
next
  case (step p p')
  then show ?case by (blast intro: pending_inv_step)
qed

lemma channel_kept:
  assumes "pending_inv p" and "pending_step p p'" and "c < next_channel p"
    and "\<forall>d. pending_map p d \<noteq> Some c"
  shows "channels p' c = channels p c \<and> c < next_channel p' \<and> (\<forall>d. pending_map p' d \<noteq> Some c)"
  using assms(2)
proof (cases rule: pending_step.cases)
  case (register d)
  then show ?thesis using assms(3,4) by (auto simp: register_def Let_def split: option.split)
next
  case (deliver d rs)
  then show ?thesis using assms(3,4) by (auto simp: deliver_def split: option.split)
next
  case cleanup
  then show ?thesis using assms(3,4) by (auto simp: cleanup_def split: option.split)
next
  case (give_up c')
  then show ?thesis using assms(3,4) by (simp add: drop_receiver_def)
qed

section \<open>Properties\<close>



text \<open>
  a correlation id that is registered again while a request waits on it cancels that request:
  its sender is dropped, and the response goes to the new one.
\<close>

theorem register_cancels_previous:
  assumes "pending_reachable p" and "pending_map p d = Some old" and "register d p = (c, p')"
  shows "c \<noteq> old \<and> channels p' old = SenderDropped \<and> channels p' c = Waiting
    \<and> pending_map p' d = Some c \<and> pending_count p' = pending_count p"
proof -
  have "old < next_channel p"
    using pending_inv_reachable [OF assms(1)] assms(2) by (simp add: pending_inv_def)
  moreover have "dom (pending_map p) = insert d (dom (pending_map p))" using assms(2) by auto
  ultimately show ?thesis
    using assms(2,3) by (auto simp: register_def Let_def pending_count_def)
qed

theorem register_cancels_previous_witness:
  "\<exists>c p' c2 p2. register 7 new_pending = (c, p') \<and> register 7 p' = (c2, p2)
     \<and> channels p2 c = SenderDropped"
proof -
  obtain c p' where r: "register 7 new_pending = (c, p')" by fastforce
  obtain c2 p2 where r2: "register 7 p' = (c2, p2)" by fastforce
  have "pending_reachable p'"
    using pending_reachable.step [OF pending_reachable.init pending_step.register [of _ 7]] r by simp
  moreover have "pending_map p' 7 = Some c" using r by (auto simp: register_def Let_def)
  ultimately show ?thesis using register_cancels_previous [of p' 7 c c2 p2] r r2 by blast
qed

end
