(* ===== verification/Hot.thy ===== *)
theory Hot
  imports Qonduit_Prelude "HOL-Library.AList"
begin

text \<open>
  \<^verbatim>\<open>crates/storage/src/hot.rs\<close>: the in-memory cache.  A \<^verbatim>\<open>HashMap\<close> is an association list in its
  iteration order, which decides ties between entries of the same age; an \<^verbatim>\<open>Instant\<close> is a number
  and every operation that reads the clock takes it as an argument.
\<close>

record cached =
  data :: bytes
  cached_at :: nat

type_synonym 'k cache = "('k \<times> cached) list"

record hot_cache =
  current_tick :: "u32 option"
  current_epoch :: "u16 option"
  tick_cache :: "u32 cache"
  entity_cache :: "bytes cache"
  computors_cache :: "(u16 \<times> bytes) option"
  max_ticks :: nat
  max_entities :: nat

definition new_hot_cache :: "nat \<Rightarrow> nat \<Rightarrow> hot_cache" where
  "new_hot_cache mt me = \<lparr>current_tick = None, current_epoch = None, tick_cache = [],
     entity_cache = [], computors_cache = None, max_ticks = mt, max_entities = me\<rparr>"

definition get_current_tick :: "hot_cache \<Rightarrow> u32 option" where
  "get_current_tick h = current_tick h"

definition set_current_tick :: "u32 \<Rightarrow> hot_cache \<Rightarrow> hot_cache" where
  "set_current_tick tick h = h\<lparr>current_tick := Some tick\<rparr>"

definition get_current_epoch :: "hot_cache \<Rightarrow> u16 option" where
  "get_current_epoch h = current_epoch h"

definition set_current_epoch :: "u16 \<Rightarrow> hot_cache \<Rightarrow> hot_cache" where
  "set_current_epoch epoch h = h\<lparr>current_epoch := Some epoch\<rparr>"

text \<open>\<^verbatim>\<open>min_by_key\<close>: the first entry of the least age stamp.\<close>

fun min_by_key :: "'k cache \<Rightarrow> ('k \<times> cached) option" where
  "min_by_key [] = None"
| "min_by_key (e # es) =
     (case min_by_key es of
        None \<Rightarrow> Some e
      | Some m \<Rightarrow> if cached_at (snd e) \<le> cached_at (snd m) then Some e else Some m)"

definition evict_oldest :: "'k cache \<Rightarrow> 'k cache" where
  "evict_oldest cache =
     (case min_by_key cache of None \<Rightarrow> cache | Some (oldest_key, _) \<Rightarrow> AList.delete oldest_key cache)"

definition put_bounded :: "nat \<Rightarrow> nat \<Rightarrow> 'k \<Rightarrow> bytes \<Rightarrow> 'k cache \<Rightarrow> 'k cache" where
  "put_bounded cap now k d cache =
     AList.update k \<lparr>data = d, cached_at = now\<rparr>
       (if cap \<le> length cache \<and> k \<notin> fst ` set cache then evict_oldest cache else cache)"

definition get_tick :: "u32 \<Rightarrow> hot_cache \<Rightarrow> bytes option" where
  "get_tick tick h = map_option data (map_of (tick_cache h) tick)"

definition put_tick :: "nat \<Rightarrow> u32 \<Rightarrow> bytes \<Rightarrow> hot_cache \<Rightarrow> hot_cache" where
  "put_tick now tick d h = h\<lparr>tick_cache := put_bounded (max_ticks h) now tick d (tick_cache h)\<rparr>"

definition get_entity :: "bytes \<Rightarrow> hot_cache \<Rightarrow> bytes option" where
  "get_entity identity h = map_option data (map_of (entity_cache h) identity)"

definition put_entity :: "nat \<Rightarrow> bytes \<Rightarrow> bytes \<Rightarrow> hot_cache \<Rightarrow> hot_cache" where
  "put_entity now identity d h =
     h\<lparr>entity_cache := put_bounded (max_entities h) now identity d (entity_cache h)\<rparr>"

definition get_computors :: "hot_cache \<Rightarrow> (u16 \<times> bytes) option" where
  "get_computors h = computors_cache h"

definition put_computors :: "u16 \<Rightarrow> bytes \<Rightarrow> hot_cache \<Rightarrow> hot_cache" where
  "put_computors epoch d h = h\<lparr>computors_cache := Some (epoch, d)\<rparr>"

definition evict_stale :: "nat \<Rightarrow> nat \<Rightarrow> hot_cache \<Rightarrow> hot_cache" where
  "evict_stale now max_age h =
     h\<lparr>tick_cache := filter (\<lambda>(_, e). now - cached_at e < max_age) (tick_cache h),
       entity_cache := filter (\<lambda>(_, e). now - cached_at e < max_age) (entity_cache h)\<rparr>"

section \<open>A bounded cache\<close>

lemma min_by_key_None [simp]: "min_by_key es = None \<longleftrightarrow> es = []"
  by (cases es) (auto split: option.splits)

lemma min_by_key_Some:
  "min_by_key es = Some e \<Longrightarrow> e \<in> set es \<and> (\<forall>e'\<in>set es. cached_at (snd e) \<le> cached_at (snd e'))"
proof (induction es arbitrary: e)
  case (Cons x es)
  then show ?case by (auto split: option.splits if_splits)
qed simp

lemma length_delete_distinct:
  "distinct (map fst al) \<Longrightarrow> k \<in> fst ` set al \<Longrightarrow> length (AList.delete k al) = length al - 1"
proof (induction al)
  case (Cons x al)
  show ?case
  proof (cases "fst x = k")
    case True
    then have "k \<notin> fst ` set al" using Cons.prems(1) by auto
    then have "AList.delete k al = al" by (induction al) (auto simp: AList.delete_eq)
    with True show ?thesis by (cases x) (simp add: AList.delete_eq)
  next
    case False
    then have "k \<in> fst ` set al" "al \<noteq> []" using Cons.prems(2) by auto
    with Cons False show ?thesis by (cases x) (simp add: AList.delete_eq)
  qed
qed simp

lemma update_new: "k \<notin> fst ` set al \<Longrightarrow> AList.update k v al = al @ [(k, v)]"
  by (induction al) auto

lemma length_update:
  "length (AList.update k v al) = (if k \<in> fst ` set al then length al else Suc (length al))"
  by (induction al) auto

lemma set_evict_oldest: "set (evict_oldest c) \<subseteq> set c"
  by (auto simp: evict_oldest_def AList.delete_eq split: option.split)

lemma distinct_evict_oldest: "distinct (map fst c) \<Longrightarrow> distinct (map fst (evict_oldest c))"
  by (auto simp: evict_oldest_def AList.delete_eq distinct_map_filter split: option.split)

lemma length_evict_oldest: "distinct (map fst c) \<Longrightarrow> length (evict_oldest c) = length c - 1"
  by (auto simp: evict_oldest_def length_delete_distinct rev_image_eqI
      split: option.split dest!: min_by_key_Some)

fun run_puts :: "(nat \<Rightarrow> 'k \<Rightarrow> bytes \<Rightarrow> 'h \<Rightarrow> 'h) \<Rightarrow> (nat \<times> 'k \<times> bytes) list \<Rightarrow> 'h \<Rightarrow> 'h" where
  "run_puts put [] h = h"
| "run_puts put ((now, k, d) # ops) h = run_puts put ops (put now k d h)"

lemma run_puts_append: "run_puts put (ops @ ops') h = run_puts put ops' (run_puts put ops h)"
proof (induction ops arbitrary: h)
  case (Cons op ops)
  then show ?case by (cases op) simp
qed simp

text \<open>
  The contract of a bounded cache: looking up what was just put finds it, a put leaves every other
  key as it was or drops it, the keys stay distinct, and the size stays within the capacity (one
  entry at least).
\<close>

locale bounded_cache =
  fixes put :: "nat \<Rightarrow> 'k \<Rightarrow> bytes \<Rightarrow> 'h \<Rightarrow> 'h" and get :: "'k \<Rightarrow> 'h \<Rightarrow> bytes option"
    and cache :: "'h \<Rightarrow> 'k cache" and cap :: "'h \<Rightarrow> nat"
  assumes cap_put: "cap (put now k d h) = cap h"
    and get_put_same: "get k (put now k d h) = Some d"
    and get_put_other: "k' \<noteq> k \<Longrightarrow> get k' (put now k d h) \<in> {None, get k' h}"
    and distinct_put: "distinct (map fst (cache h)) \<Longrightarrow> distinct (map fst (cache (put now k d h)))"
    and size_put: "distinct (map fst (cache h)) \<Longrightarrow> length (cache h) \<le> max 1 (cap h) \<Longrightarrow>
      length (cache (put now k d h)) \<le> max 1 (cap h)"
begin

lemma puts_bounded:
  assumes "distinct (map fst (cache h))" "length (cache h) \<le> max 1 (cap h)"
  shows "distinct (map fst (cache (run_puts put ops h)))
    \<and> length (cache (run_puts put ops h)) \<le> max 1 (cap h) \<and> cap (run_puts put ops h) = cap h"
  using assms
proof (induction ops arbitrary: h)
  case (Cons op ops)
  obtain now k d where op: "op = (now, k, d)" by (cases op)
  from Cons.IH [OF distinct_put [OF Cons.prems(1)], of now k d] size_put [OF Cons.prems]
  show ?case by (simp add: op cap_put)
qed simp

lemma puts_last: "get k (run_puts put (ops @ [(now, k, d)]) h) = Some d"
  by (simp add: run_puts_append get_put_same)

end

lemma map_of_update_same: "map_of (AList.update k v al) k = Some v"
  by (simp add: AList.update_conv)

lemma map_of_evict_oldest: "map_of (evict_oldest c) k \<in> {None, map_of c k}"
  by (auto simp: evict_oldest_def AList.delete_conv split: option.split)

lemma map_of_put_bounded_same: "map_of (put_bounded n now k d c) k = Some \<lparr>data = d, cached_at = now\<rparr>"
  by (simp add: put_bounded_def map_of_update_same)

lemma map_of_put_bounded_other:
  "k' \<noteq> k \<Longrightarrow> map_of (put_bounded n now k d c) k' \<in> {None, map_of c k'}"
  using map_of_evict_oldest [of c k'] by (auto simp: put_bounded_def AList.update_conv)

lemma distinct_put_bounded:
  "distinct (map fst c) \<Longrightarrow> distinct (map fst (put_bounded n now k d c))"
  by (simp add: put_bounded_def AList.distinct_update distinct_evict_oldest)

lemma length_put_bounded:
  assumes "distinct (map fst c)" "length c \<le> max 1 n"
  shows "length (put_bounded n now k d c) \<le> max 1 n"
proof -
  have "k \<notin> fst ` set c \<Longrightarrow> k \<notin> fst ` set (evict_oldest c)" using set_evict_oldest by blast
  then show ?thesis
    using assms by (auto simp: put_bounded_def length_update length_evict_oldest)
qed

interpretation ticks: bounded_cache put_tick get_tick tick_cache max_ticks
proof unfold_locales
  fix k' k :: u32 and now d h
  assume "k' \<noteq> k"
  then show "get_tick k' (put_tick now k d h) \<in> {None, get_tick k' h}"
    using map_of_put_bounded_other [of k' k "max_ticks h" now d "tick_cache h"]
    by (auto simp: put_tick_def get_tick_def)
next
  fix h :: hot_cache and now k d
  assume "distinct (map fst (tick_cache h))" "length (tick_cache h) \<le> max 1 (max_ticks h)"
  then show "length (tick_cache (put_tick now k d h)) \<le> max 1 (max_ticks h)"
    unfolding put_tick_def using length_put_bounded by simp
qed (simp_all add: put_tick_def get_tick_def map_of_put_bounded_same distinct_put_bounded)

interpretation entities: bounded_cache put_entity get_entity entity_cache max_entities
proof unfold_locales
  fix k' k :: bytes and now d h
  assume "k' \<noteq> k"
  then show "get_entity k' (put_entity now k d h) \<in> {None, get_entity k' h}"
    using map_of_put_bounded_other [of k' k "max_entities h" now d "entity_cache h"]
    by (auto simp: put_entity_def get_entity_def)
next
  fix h :: hot_cache and now k d
  assume "distinct (map fst (entity_cache h))" "length (entity_cache h) \<le> max 1 (max_entities h)"
  then show "length (entity_cache (put_entity now k d h)) \<le> max 1 (max_entities h)"
    unfolding put_entity_def using length_put_bounded by simp
qed (simp_all add: put_entity_def get_entity_def map_of_put_bounded_same distinct_put_bounded)

section \<open>Eviction order\<close>

text \<open>
  A cache of entries in the order of their age evicts its head; putting new keys in the order of
  time keeps it in order.
\<close>

definition entry_of :: "nat \<times> 'k \<times> bytes \<Rightarrow> 'k \<times> cached" where
  "entry_of = (\<lambda>(now, k, d). (k, \<lparr>data = d, cached_at = now\<rparr>))"

lemma min_by_key_sorted:
  "sorted_wrt (\<lambda>a b. cached_at (snd a) < cached_at (snd b)) (e # es) \<Longrightarrow> min_by_key (e # es) = Some e"
  by (fastforce split: option.split dest: min_by_key_Some)

lemma evict_oldest_sorted:
  assumes "sorted_wrt (\<lambda>a b. cached_at (snd a) < cached_at (snd b)) c" "distinct (map fst c)"
  shows "evict_oldest c = drop 1 c"
proof (cases c)
  case (Cons e es)
  then have "fst e \<notin> fst ` set es" using assms(2) by auto
  then have "AList.delete (fst e) es = es" by (induction es) (auto simp: AList.delete_eq)
  then show ?thesis
    using Cons min_by_key_sorted [of e es] assms(1)
    by (cases e) (simp add: evict_oldest_def AList.delete_eq del: min_by_key.simps)
qed (simp add: evict_oldest_def)

lemma sorted_wrt_drop: "sorted_wrt P xs \<Longrightarrow> sorted_wrt P (drop n xs)"
  by (metis append_take_drop_id sorted_wrt_append)

lemma put_bounded_fifo:
  assumes "0 < n" "sorted_wrt (\<lambda>a b. fst a < fst b) (ops @ [(now, k, d)])"
    and "distinct (map (fst \<circ> snd) (ops @ [(now, k, d)]))"
  shows "put_bounded n now k d (drop (length ops - n) (map entry_of ops))
    = drop (Suc (length ops) - n) (map entry_of (ops @ [(now, k, d)]))"
proof -
  let ?c = "drop (length ops - n) (map entry_of ops)"
  have srt: "sorted_wrt (\<lambda>a b. cached_at (snd a) < cached_at (snd b)) (map entry_of ops)"
    using assms(2) unfolding sorted_wrt_map sorted_wrt_append
    by (auto simp: entry_of_def case_prod_beta)
  have dst: "distinct (map fst (map entry_of ops))"
    using assms(3) by (simp add: entry_of_def comp_def case_prod_beta)
  have "fst ` set (map entry_of ops) = (fst \<circ> snd) ` set ops"
    by (force simp: entry_of_def)
  then have "k \<notin> fst ` set (map entry_of ops)" using assms(3) by auto
  then have new: "k \<notin> fst ` set (drop m (map entry_of ops))" for m
    using set_drop_subset [of m "map entry_of ops"] by blast
  have ev: "evict_oldest ?c = drop 1 ?c"
    using srt dst by (intro evict_oldest_sorted sorted_wrt_drop) (simp_all add: drop_map [symmetric] distinct_drop)
  show ?thesis
  proof (cases "n \<le> length ops")
    case True
    then have "put_bounded n now k d ?c = drop (Suc (length ops) - n) (map entry_of ops) @ [entry_of (now, k, d)]"
      using new ev by (simp add: put_bounded_def update_new entry_of_def Suc_diff_le)
    then show ?thesis using True assms(1) by simp
  next
    case False
    then have "put_bounded n now k d ?c = map entry_of ops @ [entry_of (now, k, d)]"
      using new [of 0] by (simp add: put_bounded_def update_new entry_of_def)
    then show ?thesis using False by simp
  qed
qed

lemma run_put_tick_fields: "max_ticks (run_puts put_tick ops h) = max_ticks h"
proof (induction ops arbitrary: h)
  case (Cons op ops)
  then show ?case by (cases op) (simp add: put_tick_def)
qed simp

lemma tick_cache_put_tick:
  "tick_cache (put_tick now k d h) = put_bounded (max_ticks h) now k d (tick_cache h)"
  by (simp add: put_tick_def)

section \<open>Properties\<close>

text \<open>
  C37: the tick and entity caches are bounded: whatever is put, in whatever order, neither ever
  holds more entries than its capacity (or one, when the capacity is zero), keys stay distinct,
  and the entry put last is there.
\<close>

theorem hot_cache_bounded:
  "length (tick_cache (run_puts put_tick ops (new_hot_cache mt me))) \<le> max 1 mt
   \<and> length (entity_cache (run_puts put_entity eops (new_hot_cache mt me))) \<le> max 1 me
   \<and> distinct (map fst (tick_cache (run_puts put_tick ops (new_hot_cache mt me))))
   \<and> distinct (map fst (entity_cache (run_puts put_entity eops (new_hot_cache mt me))))
   \<and> get_tick tick (run_puts put_tick (ops @ [(now, tick, d)]) (new_hot_cache mt me)) = Some d
   \<and> get_entity ident (run_puts put_entity (eops @ [(now, ident, d)]) (new_hot_cache mt me)) = Some d"
  using ticks.puts_bounded [of "new_hot_cache mt me" ops]
    entities.puts_bounded [of "new_hot_cache mt me" eops] ticks.puts_last entities.puts_last
  by (simp add: new_hot_cache_def)

text \<open>
  eviction is oldest first: after putting distinct ticks at increasing times, the cache holds
  exactly the last \<open>max_ticks\<close> of them.
\<close>

theorem put_tick_evicts_oldest:
  assumes "0 < mt" "sorted_wrt (\<lambda>a b. fst a < fst b) ops" "distinct (map (fst \<circ> snd) ops)"
  shows "tick_cache (run_puts put_tick ops (new_hot_cache mt me))
    = drop (length ops - mt) (map entry_of ops)"
  using assms(2,3)
proof (induction ops rule: rev_induct)
  case Nil
  then show ?case by (simp add: new_hot_cache_def)
next
  case (snoc op ops)
  obtain now k d where op: "op = (now, k, d)" by (cases op)
  have "tick_cache (run_puts put_tick ops (new_hot_cache mt me)) = drop (length ops - mt) (map entry_of ops)"
    using snoc by (simp add: sorted_wrt_append)
  moreover have "max_ticks (run_puts put_tick ops (new_hot_cache mt me)) = mt"
    by (simp add: run_put_tick_fields new_hot_cache_def)
  ultimately have "tick_cache (run_puts put_tick (ops @ [op]) (new_hot_cache mt me))
      = put_bounded mt now k d (drop (length ops - mt) (map entry_of ops))"
    by (simp add: op run_puts_append tick_cache_put_tick)
  also have "\<dots> = drop (Suc (length ops) - mt) (map entry_of (ops @ [op]))"
    unfolding op using assms(1) snoc.prems [unfolded op] by (rule put_bounded_fifo)
  finally show ?case by (simp only: length_append_singleton)
qed

theorem put_tick_evicts_oldest_witness:
  "tick_cache (run_puts put_tick [(1, 10, [1]), (2, 11, [2]), (3, 12, [3])] (new_hot_cache 2 0))
    = [(11, \<lparr>data = [2], cached_at = 2\<rparr>), (12, \<lparr>data = [3], cached_at = 3\<rparr>)]"
  by (subst put_tick_evicts_oldest) (simp_all add: entry_of_def)

end
