(* ===== verification/Externals.thy ===== *)
theory Externals
  imports Qonduit_Prelude
begin

text \<open>
  The pure functions of third-party crates that the core crate calls, as parameters of the model:
  the first three squeezed bytes of KangarooTwelve (\<^verbatim>\<open>kangarootwelve\<close>), SHA-256 (\<^verbatim>\<open>sha2\<close>) and
  the \<^verbatim>\<open>hex\<close> crate.  Nothing is assumed of them here; where a theorem needs documented
  behaviour of one of them, it names the hypothesis (\<open>hex_ok\<close>, \<open>sha_ok\<close>).
\<close>

record ext =
  k12_squeeze3 :: "bytes \<Rightarrow> u8 \<times> u8 \<times> u8"
  sha256_digest :: "bytes \<Rightarrow> bytes"
  hex_encode :: "bytes \<Rightarrow> string"
  hex_decode :: "string \<Rightarrow> bytes option"

text \<open>Documented behaviour of \<^verbatim>\<open>hex\<close>: decoding inverts encoding, two characters per byte.\<close>

definition hex_ok :: "ext \<Rightarrow> bool" where
  "hex_ok X \<longleftrightarrow>
     (\<forall>b. hex_decode X (hex_encode X b) = Some b \<and> length (hex_encode X b) = 2 * length b)"

text \<open>Documented behaviour of SHA-256: a digest has 32 bytes.\<close>

definition sha_ok :: "ext \<Rightarrow> bool" where
  "sha_ok X \<longleftrightarrow> (\<forall>b. length (sha256_digest X b) = 32)"

lemma hex_okD: "hex_ok X \<Longrightarrow> hex_decode X (hex_encode X b) = Some b"
  "hex_ok X \<Longrightarrow> length (hex_encode X b) = 2 * length b"
  by (simp_all add: hex_ok_def)

lemma hex_encode_inject: "hex_ok X \<Longrightarrow> hex_encode X a = hex_encode X b \<longleftrightarrow> a = b"
  by (metis hex_okD(1) option.inject)

text \<open>
  A concrete set of externals, used only to exhibit inputs at which the hypotheses hold: nibbles
  as the characters from \<^verbatim>\<open>A\<close> on, a constant digest, the first byte as checksum.
\<close>

definition nibble_char :: "nat \<Rightarrow> char" where
  "nibble_char n = char_of (65 + n)"

fun demo_hex_encode :: "bytes \<Rightarrow> string" where
  "demo_hex_encode [] = []"
| "demo_hex_encode (b # bs) =
     nibble_char (unat b div 16) # nibble_char (unat b mod 16) # demo_hex_encode bs"

fun demo_hex_decode :: "string \<Rightarrow> bytes option" where
  "demo_hex_decode [] = Some []"
| "demo_hex_decode [c] = None"
| "demo_hex_decode (c # d # cs) =
     (case demo_hex_decode cs of None \<Rightarrow> None
      | Some bs \<Rightarrow> Some (word_of_nat ((of_char c - 65) * 16 + (of_char d - 65)) # bs))"

definition demo_ext :: ext where
  "demo_ext = \<lparr>k12_squeeze3 = (\<lambda>b. (case b of [] \<Rightarrow> (0, 0, 0) | x # _ \<Rightarrow> (x, 1, 2))),
     sha256_digest = (\<lambda>b. replicate 32 (word_of_nat (length b))),
     hex_encode = demo_hex_encode, hex_decode = demo_hex_decode\<rparr>"

lemma of_char_nibble: "n < 16 \<Longrightarrow> of_char (nibble_char n) = 65 + n"
  by (simp add: nibble_char_def)

lemma demo_hex_roundtrip: "demo_hex_decode (demo_hex_encode bs) = Some bs"
proof (induction bs)
  case Nil
  then show ?case by simp
next
  case (Cons b bs)
  have "unat b < 256" by (rule unat_byte_lt)
  then have "unat b div 16 < 16" by (simp add: div_less_iff_less_mult)
  then show ?case using Cons by (simp add: of_char_nibble)
qed

lemma length_demo_hex_encode: "length (demo_hex_encode bs) = 2 * length bs"
  by (induction bs) simp_all

lemma demo_ext_hex_ok: "hex_ok demo_ext"
  by (simp add: hex_ok_def demo_ext_def demo_hex_roundtrip length_demo_hex_encode)

lemma demo_ext_sha_ok: "sha_ok demo_ext"
  by (simp add: sha_ok_def demo_ext_def)

end
