(* ===== verification/Identity.thy ===== *)
theory Identity
  imports Externals
begin

text \<open>
  \<^verbatim>\<open>crates/core/src/identity.rs\<close> and \<^verbatim>\<open>hash.rs\<close>: the base-26 identity of a public key with its
  K12 checksum, and the transaction hash.  Arithmetic is the release build's: the accumulator
  of the decoder is a \<open>64 word\<close> and wraps.
\<close>

unbundle bit_operations_syntax

section \<open>Definitions\<close>

definition PUBLIC_KEY_SIZE :: nat where "PUBLIC_KEY_SIZE = 32"
definition IDENTITY_LENGTH :: nat where "IDENTITY_LENGTH = 60"

text \<open>The digit loop \<^verbatim>\<open>*c = (b'A' + (val % 26) as u8) as char; val /= 26\<close>.\<close>

fun base26_digits :: "nat \<Rightarrow> nat \<Rightarrow> string" where
  "base26_digits 0 v = []"
| "base26_digits (Suc k) v = char_of (65 + v mod 26) # base26_digits k (v div 26)"

definition compute_checksum :: "ext \<Rightarrow> bytes \<Rightarrow> string" where
  "compute_checksum X public_key =
     (case k12_squeeze3 X public_key of (b0, b1, b2) \<Rightarrow>
       let checksum = (ucast b0 :: u32) OR push_bit 8 (ucast b1) OR push_bit 16 (ucast b2);
           masked = checksum AND 0x3FFFF
       in base26_digits 4 (unat masked))"

definition fragment :: "bytes \<Rightarrow> nat \<Rightarrow> u64" where
  "fragment bs frag_idx = u64_from_le (chunk 8 bs frag_idx)"

definition encode_base26 :: "ext \<Rightarrow> bytes \<Rightarrow> string" where
  "encode_base26 X bs =
     concat (map (\<lambda>frag_idx. base26_digits 14 (unat (fragment bs frag_idx))) [0..<4])
     @ compute_checksum X bs"

definition is_ascii_uppercase :: "char \<Rightarrow> bool" where
  "is_ascii_uppercase c \<longleftrightarrow> 65 \<le> (of_char c :: nat) \<and> (of_char c :: nat) \<le> 90"

text \<open>The inner loop over the digits of one fragment, most significant first.\<close>

fun decode_digits :: "string \<Rightarrow> u64 \<Rightarrow> u64 option" where
  "decode_digits [] acc = Some acc"
| "decode_digits (ch # cs) acc =
     (if \<not> is_ascii_uppercase ch then None
      else decode_digits cs (acc * 26 + word_of_nat (of_char ch - 65)))"

fun decode_fragments :: "string \<Rightarrow> nat list \<Rightarrow> bytes option" where
  "decode_fragments s [] = Some []"
| "decode_fragments s (frag_idx # is) =
     (case decode_digits (rev (chunk 14 s frag_idx)) 0 of
        None \<Rightarrow> None
      | Some f \<Rightarrow> (case decode_fragments s is of None \<Rightarrow> None
                   | Some rest \<Rightarrow> Some (u64_to_le f @ rest)))"

definition decode_base26 :: "ext \<Rightarrow> string \<Rightarrow> bytes option" where
  "decode_base26 X s =
     (if length s \<noteq> IDENTITY_LENGTH then None
      else case decode_fragments s [0..<4] of
             None \<Rightarrow> None
           | Some public_key \<Rightarrow>
               let expected = compute_checksum X public_key
               in if s ! 56 \<noteq> expected ! 0 \<or> s ! 57 \<noteq> expected ! 1
                     \<or> s ! 58 \<noteq> expected ! 2 \<or> s ! 59 \<noteq> expected ! 3
                  then None else Some public_key)"

record qubic_identity =
  public_key :: bytes

definition from_public_key :: "bytes \<Rightarrow> qubic_identity" where
  "from_public_key bs = \<lparr>public_key = bs\<rparr>"

definition to_identity :: "ext \<Rightarrow> qubic_identity \<Rightarrow> string" where
  "to_identity X q = encode_base26 X (public_key q)"

definition from_identity :: "ext \<Rightarrow> string \<Rightarrow> qubic_identity option" where
  "from_identity X s = map_option (\<lambda>bs. \<lparr>public_key = bs\<rparr>) (decode_base26 X s)"

text \<open>Hashes (\<^verbatim>\<open>hash.rs\<close>).\<close>

definition sha256 :: "ext \<Rightarrow> bytes \<Rightarrow> bytes" where
  "sha256 X data = sha256_digest X data"

definition compute_tx_hash :: "ext \<Rightarrow> bytes \<Rightarrow> u16 \<Rightarrow> bytes" where
  "compute_tx_hash X tx_bytes input_size =
     (let hash_len = 80 + unat input_size;
          hash_input = (if hash_len \<le> length tx_bytes then take hash_len tx_bytes else tx_bytes)
      in sha256 X hash_input)"

definition hash_to_identity :: "ext \<Rightarrow> bytes \<Rightarrow> string" where
  "hash_to_identity X hash = encode_base26 X hash"

definition hash_to_hex :: "ext \<Rightarrow> bytes \<Rightarrow> string" where
  "hash_to_hex X hash = hex_encode X hash"

section \<open>Base-26 digits\<close>

fun base26_value :: "string \<Rightarrow> nat" where
  "base26_value [] = 0"
| "base26_value (c # cs) = (of_char c - 65) + 26 * base26_value cs"

lemma length_base26_digits [simp]: "length (base26_digits k v) = k"
  by (induction k arbitrary: v) simp_all

lemma of_char_digit: "of_char (char_of (65 + v mod 26) :: char) = 65 + v mod (26 :: nat)"
proof -
  have "v mod 26 < 26" by simp
  then have "65 + v mod 26 < 256" by linarith
  then show ?thesis by simp
qed

lemma is_ascii_uppercase_digit [simp]: "is_ascii_uppercase (char_of (65 + v mod (26 :: nat)))"
proof -
  have "v mod 26 < 26" by simp
  then show ?thesis unfolding is_ascii_uppercase_def of_char_digit by linarith
qed

lemma base26_digits_upper: "\<forall>c\<in>set (base26_digits k v). is_ascii_uppercase c"
  by (induction k arbitrary: v) simp_all

lemma base26_value_digits: "base26_value (base26_digits k v) = v mod 26 ^ k"
proof (induction k arbitrary: v)
  case 0
  then show ?case by simp
next
  case (Suc k)
  then show ?case by (simp only: base26_digits.simps base26_value.simps of_char_digit)
      (simp add: mod_mult2_eq)
qed

lemma decode_digits_append:
  "decode_digits (xs @ ys) acc = Option.bind (decode_digits xs acc) (decode_digits ys)"
  by (induction xs arbitrary: acc) simp_all

lemma decode_digits_rev:
  "decode_digits (rev cs) acc =
     (if \<forall>c\<in>set cs. is_ascii_uppercase c
      then Some (acc * 26 ^ length cs + word_of_nat (base26_value cs)) else None)"
proof (induction cs)
  case Nil
  then show ?case by simp
next
  case (Cons c cs)
  then show ?case
    by (auto simp: decode_digits_append algebra_simps)
qed

section \<open>Identities and public keys\<close>

text \<open>The key a 60-character string denotes: the four fragments, each modulo \<open>2 ^ 64\<close>.\<close>

definition identity_key :: "string \<Rightarrow> bytes" where
  "identity_key s =
     concat (map (\<lambda>i. u64_to_le (word_of_nat (base26_value (chunk 14 s i)))) [0..<4])"

lemma length_identity_key [simp]: "length (identity_key s) = 32"
  unfolding identity_key_def by (subst length_concat_const [where n = 8]) simp_all

lemma length_compute_checksum [simp]: "length (compute_checksum X k) = 4"
  by (simp add: compute_checksum_def Let_def split: prod.split)

lemma compute_checksum_upper: "\<forall>c\<in>set (compute_checksum X k). is_ascii_uppercase c"
  using base26_digits_upper by (auto simp: compute_checksum_def Let_def split: prod.split)

lemma decode_fragments_spec:
  "decode_fragments s is =
     (if \<forall>i\<in>set is. \<forall>c\<in>set (chunk 14 s i). is_ascii_uppercase c
      then Some (concat (map (\<lambda>i. u64_to_le (word_of_nat (base26_value (chunk 14 s i)))) is))
      else None)"
  by (induction "is") (auto simp: decode_digits_rev)

lemma chunks_upper:
  "(\<forall>i\<in>set [0..<4]. \<forall>c\<in>set (chunk 14 s i). is_ascii_uppercase c)
     \<longleftrightarrow> (\<forall>c\<in>set (take 56 s). is_ascii_uppercase c)"
proof -
  have "set (take 56 s) = (\<Union>i\<in>set [0..<4]. set (chunk 14 s i))"
    using arg_cong [OF concat_chunks [of 14 s 4], of set] by simp
  then show ?thesis by auto
qed

lemma four_chars_iff:
  assumes "length s = 60" and "length e = 4"
  shows "(s ! 56 \<noteq> e ! 0 \<or> s ! 57 \<noteq> e ! 1 \<or> s ! 58 \<noteq> e ! 2 \<or> s ! 59 \<noteq> e ! 3) \<longleftrightarrow> drop 56 s \<noteq> e"
proof -
  have "drop 56 s = e \<longleftrightarrow> (\<forall>i<4. drop 56 s ! i = e ! i)"
    using assms by (simp add: list_eq_iff_nth_eq)
  also have "\<dots> \<longleftrightarrow> (\<forall>i<4. s ! (56 + i) = e ! i)" using assms by simp
  also have "\<dots> \<longleftrightarrow> s ! 56 = e ! 0 \<and> s ! 57 = e ! 1 \<and> s ! 58 = e ! 2 \<and> s ! 59 = e ! 3"
    by (simp add: numeral_eq_Suc All_less_Suc2)
  finally show ?thesis by blast
qed

lemma decode_base26_iff:
  "decode_base26 X s = Some k \<longleftrightarrow>
     length s = 60 \<and> (\<forall>c\<in>set (take 56 s). is_ascii_uppercase c)
     \<and> k = identity_key s \<and> drop 56 s = compute_checksum X k"
proof (cases "length s = 60 \<and> (\<forall>c\<in>set (take 56 s). is_ascii_uppercase c)")
  case True
  then have "decode_fragments s [0..<4] = Some (identity_key s)"
    unfolding decode_fragments_spec identity_key_def chunks_upper by simp
  with True four_chars_iff [of s "compute_checksum X (identity_key s)"] show ?thesis
    by (auto simp: decode_base26_def IDENTITY_LENGTH_def Let_def)
next
  case False
  then show ?thesis
    unfolding decode_base26_def decode_fragments_spec chunks_upper
    by (auto simp: IDENTITY_LENGTH_def)
qed

lemma fragments_concat:
  assumes "length k = 32"
  shows "concat (map (\<lambda>i. u64_to_le (fragment k i)) [0..<4]) = k"
proof -
  have "map (\<lambda>i. u64_to_le (fragment k i)) [0..<4] = map (chunk 8 k) [0..<4]"
    using assms by (intro map_cong) (auto simp: fragment_def u64_le.enc_dec length_chunk)
  then show ?thesis using concat_chunks [of 8 k 4] assms by (simp only:) simp
qed

lemma take56_encode: "take 56 (encode_base26 X k) =
    concat (map (\<lambda>i. base26_digits 14 (unat (fragment k i))) [0..<4])"
  and drop56_encode: "drop 56 (encode_base26 X k) = compute_checksum X k"
  and length_encode_base26 [simp]: "length (encode_base26 X k) = 60"
proof -
  let ?f = "\<lambda>i. base26_digits 14 (unat (fragment k i))"
  have "length (concat (map ?f [0..<4])) = 14 * length [0..<4]"
    by (rule length_concat_const) simp
  then have l: "length (concat (map ?f [0..<4])) = 56" by simp
  show "take 56 (encode_base26 X k) = concat (map ?f [0..<4])"
    and "drop 56 (encode_base26 X k) = compute_checksum X k"
    and "length (encode_base26 X k) = 60"
    using l by (simp_all add: encode_base26_def)
qed

lemma chunk_encode: "i < 4 \<Longrightarrow> chunk 14 (encode_base26 X k) i = base26_digits 14 (unat (fragment k i))"
proof -
  assume i: "i < 4"
  let ?xss = "map (\<lambda>i. base26_digits 14 (unat (fragment k i))) [0..<4]"
  have "chunk 14 (concat ?xss @ compute_checksum X k) i = ?xss ! i"
    by (rule chunk_concat) (use i in auto)
  then show ?thesis using i by (simp add: encode_base26_def)
qed

lemma encode_base26_upper: "\<forall>c\<in>set (encode_base26 X k). is_ascii_uppercase c"
  using base26_digits_upper compute_checksum_upper by (fastforce simp: encode_base26_def)

lemma unat_u64_lt_26_14: "unat (f :: u64) < 26 ^ 14"
  using unat_lt_pow [of f] by simp

lemma base26_value_fragment [simp]: "base26_value (base26_digits 14 (unat f)) = unat (f :: u64)"
  unfolding base26_value_digits by (rule mod_less) (rule unat_u64_lt_26_14)

lemma identity_key_of_fragments:
  assumes "length k = 32"
    and "\<And>i. i < 4 \<Longrightarrow> word_of_nat (base26_value (chunk 14 s i)) = fragment k i"
  shows "identity_key s = k"
proof -
  have "map (\<lambda>i. u64_to_le (word_of_nat (base26_value (chunk 14 s i)))) [0..<4]
      = map (\<lambda>i. u64_to_le (fragment k i)) [0..<4]"
    using assms(2) by (intro map_cong) auto
  then show ?thesis using fragments_concat [OF assms(1)] by (simp only: identity_key_def)
qed

lemma identity_key_encode: "length k = 32 \<Longrightarrow> identity_key (encode_base26 X k) = k"
  by (rule identity_key_of_fragments)
    (simp_all add: chunk_encode)

lemma decode_encode_key: "length k = 32 \<Longrightarrow> decode_base26 X (encode_base26 X k) = Some k"
  by (auto simp: decode_base26_iff identity_key_encode drop56_encode dest: in_set_takeD
      intro: encode_base26_upper [rule_format])

section \<open>Properties\<close>

text \<open>
  C32: encoding a 32-byte public key as an identity and decoding the identity gives the key back,
  whatever the checksum function is.
\<close>

theorem decode_encode_base26:
  assumes "length k = PUBLIC_KEY_SIZE"
  shows "decode_base26 X (encode_base26 X k) = Some k"
  using assms by (simp add: PUBLIC_KEY_SIZE_def decode_encode_key)

theorem decode_encode_base26_witness:
  "length (replicate 32 (66 :: u8)) = PUBLIC_KEY_SIZE
   \<and> decode_base26 demo_ext (encode_base26 demo_ext (replicate 32 66)) = Some (replicate 32 66)"
  using decode_encode_base26 [of "replicate 32 66" demo_ext] by (simp add: PUBLIC_KEY_SIZE_def)

text \<open>
  what the decoder accepts.  A string decodes to \<open>k\<close> exactly when it has 60 characters, its
  first 56 are upper-case letters, \<open>k\<close> is the concatenation of its four base-26 fragments reduced
  modulo \<open>2 ^ 64\<close>, and its last four characters are the checksum of \<open>k\<close>.
\<close>

theorem decode_base26_accepts:
  "decode_base26 X s = Some k \<longleftrightarrow>
     length s = IDENTITY_LENGTH \<and> list_all is_ascii_uppercase (take 56 s)
     \<and> k = concat (map (\<lambda>i. u64_to_le (word_of_nat (base26_value (chunk 14 s i)))) [0..<4])
     \<and> drop 56 s = compute_checksum X k"
  unfolding decode_base26_iff IDENTITY_LENGTH_def identity_key_def list_all_iff by blast

text \<open>
  the decoder is not injective.  For every 32-byte key there is a second 60-character
  upper-case string, different from the key's identity, that passes the checksum test and decodes
  to the same key: the first fragment plus \<open>2 ^ 64\<close> still fits in fourteen base-26 digits, and
  the accumulator of the decoder wraps.
\<close>

theorem decode_base26_alias:
  assumes "length k = PUBLIC_KEY_SIZE"
  shows "\<exists>s. s \<noteq> encode_base26 X k \<and> length s = IDENTITY_LENGTH \<and> decode_base26 X s = Some k"
proof -
  let ?n = "unat (fragment k 0) + 2 ^ 64"
  let ?s = "base26_digits 14 ?n @ drop 14 (encode_base26 X k)"
  have n: "?n < 26 ^ 14" using unat_lt_pow [of "fragment k 0"] by simp
  have c0: "chunk 14 ?s 0 = base26_digits 14 ?n" by (simp add: chunk_def)
  have cS: "chunk 14 ?s (Suc i) = chunk 14 (encode_base26 X k) (Suc i)" for i
    by (simp add: chunk_def add.commute)
  have word: "(word_of_nat ?n :: u64) = fragment k 0"
    by (simp add: word_of_nat_eq_iff take_bit_eq_mod unat_of_nat flip: unsigned_of_nat)
  have "word_of_nat (base26_value (chunk 14 ?s i)) = fragment k i" if "i < 4" for i
  proof (cases i)
    case 0
    then show ?thesis using word n by (simp only: c0 base26_value_digits mod_less)
  next
    case (Suc j)
    then show ?thesis using that by (simp only: cS chunk_encode) simp
  qed
  then have key: "identity_key ?s = k"
    using assms by (intro identity_key_of_fragments) (simp_all add: PUBLIC_KEY_SIZE_def)
  have up: "\<forall>c\<in>set ?s. is_ascii_uppercase c"
    using base26_digits_upper encode_base26_upper by (fastforce dest: in_set_dropD)
  have "decode_base26 X ?s = Some k"
    using up key by (auto simp: decode_base26_iff drop56_encode dest: in_set_takeD)
  moreover have "?s \<noteq> encode_base26 X k"
  proof
    assume "?s = encode_base26 X k"
    then have "base26_value (chunk 14 ?s 0) = base26_value (chunk 14 (encode_base26 X k) 0)" by simp
    then show False
      unfolding c0 using mod_less [OF n] by (simp add: chunk_encode base26_value_digits)
  qed
  ultimately show ?thesis by (intro exI [of _ ?s]) (simp add: IDENTITY_LENGTH_def)
qed

theorem decode_base26_alias_witness:
  "length (replicate 32 (0 :: u8)) = PUBLIC_KEY_SIZE
   \<and> (\<exists>s. s \<noteq> encode_base26 demo_ext (replicate 32 0) \<and> length s = IDENTITY_LENGTH
        \<and> decode_base26 demo_ext s = Some (replicate 32 0))"
  using decode_base26_alias [of "replicate 32 0" demo_ext] by (simp add: PUBLIC_KEY_SIZE_def)

end
