(* ===== verification/Structs.thy ===== *)
theory Structs
  imports Identity
begin

text \<open>
  The decoded records of \<^verbatim>\<open>crates/core/src/structs/\<close> and \<^verbatim>\<open>event.rs\<close>, with the constants of
  \<^verbatim>\<open>constants.rs\<close> the rest of the model uses.  Field names carry a prefix, as record fields share
  one name space: \<open>td_\<close> for \<^verbatim>\<open>TickData\<close>, \<open>tx_\<close> for \<^verbatim>\<open>Transaction\<close> and so on.
\<close>

section \<open>Constants\<close>

definition NUMBER_OF_COMPUTORS :: nat where "NUMBER_OF_COMPUTORS = 676"
definition QUORUM :: nat where "QUORUM = NUMBER_OF_COMPUTORS * 2 div 3 + 1"
definition SIGNATURE_SIZE :: nat where "SIGNATURE_SIZE = 64"
definition TX_HEADER_SIZE :: nat where "TX_HEADER_SIZE = 80"
definition NUMBER_OF_TRANSACTIONS_PER_TICK :: nat where "NUMBER_OF_TRANSACTIONS_PER_TICK = 4096"
definition NUMBER_OF_SPECIAL_EVENT_PER_TICK :: nat where "NUMBER_OF_SPECIAL_EVENT_PER_TICK = 6"
definition LOG_TX_PER_TICK :: nat where
  "LOG_TX_PER_TICK = NUMBER_OF_TRANSACTIONS_PER_TICK + NUMBER_OF_SPECIAL_EVENT_PER_TICK"
definition LOG_HEADER_SIZE :: nat where "LOG_HEADER_SIZE = 26"
definition ORACLE_QUERY_METADATA_SIZE :: nat where "ORACLE_QUERY_METADATA_SIZE = 72"

lemmas constants = NUMBER_OF_COMPUTORS_def SIGNATURE_SIZE_def TX_HEADER_SIZE_def
  NUMBER_OF_TRANSACTIONS_PER_TICK_def NUMBER_OF_SPECIAL_EVENT_PER_TICK_def LOG_TX_PER_TICK_def
  LOG_HEADER_SIZE_def ORACLE_QUERY_METADATA_SIZE_def PUBLIC_KEY_SIZE_def

lemma QUORUM_value: "QUORUM = 451"
  by (simp add: QUORUM_def NUMBER_OF_COMPUTORS_def)

section \<open>Records\<close>

record tick_data =
  td_computor_index :: u16
  td_epoch :: u16
  td_tick :: u32
  td_timestamp :: u64
  td_time_lock :: bytes
  td_transaction_digests_hex :: string
  td_contract_fees_hex :: string
  td_signature_hex :: string

record transaction =
  tx_hash :: string
  tx_source_hex :: string
  tx_source_identity :: string
  tx_destination_hex :: string
  tx_destination_identity :: string
  tx_amount :: i64
  tx_tick :: u32
  tx_input_type :: u16
  tx_input_size :: u16
  tx_input_hex :: string
  tx_input_type_name :: string
  tx_signature_hex :: string

datatype input_type =
    SimpleTransfer
  | SmartContractCall u16
  | AssetIssuance
  | AssetOwnershipTransfer
  | AssetPossessionTransfer
  | DividendDistribution
  | ContractBid
  | ContractAsk

definition classify :: "u16 \<Rightarrow> input_type" where
  "classify t =
     (if t = 0 then SimpleTransfer
      else if t = 1 then AssetIssuance
      else if t = 2 then AssetOwnershipTransfer
      else if t = 3 then AssetPossessionTransfer
      else if t = 24 then ContractBid
      else if t = 25 then ContractAsk
      else if t = 26 then DividendDistribution
      else SmartContractCall t)"

fun label :: "input_type \<Rightarrow> string" where
  "label SimpleTransfer = ''simple_transfer''"
| "label AssetIssuance = ''asset_issuance''"
| "label AssetOwnershipTransfer = ''asset_ownership_transfer''"
| "label AssetPossessionTransfer = ''asset_possession_transfer''"
| "label DividendDistribution = ''dividend_distribution''"
| "label ContractBid = ''contract_bid''"
| "label ContractAsk = ''contract_ask''"
| "label (SmartContractCall t) = ''smart_contract_call''"

record computors =
  cp_epoch :: u16
  cp_public_keys :: "bytes list"
  cp_public_key_identities :: "string list"

record entity_data =
  en_identity :: string
  en_incoming :: i64
  en_outgoing :: i64
  en_number_of_incoming_transfers :: u32
  en_number_of_outgoing_transfers :: u32
  en_latest_incoming_transfer_tick :: u32
  en_latest_outgoing_transfer_tick :: u32

record current_tick_info =
  ti_epoch :: u16
  ti_tick :: u32
  ti_number_of_aligned_votes :: u16
  ti_number_of_misaligned_votes :: u16
  ti_initial_tick :: u32
  ti_latest_voting_tick :: u32
  ti_time_since_last_voting_tick :: u64

record system_info_reply =
  si_version :: i16
  si_epoch :: u16
  si_tick :: u32
  si_initial_tick :: u32
  si_latest_created_tick :: u32
  si_initial_millisecond :: u16
  si_initial_second :: u8
  si_initial_minute :: u8
  si_initial_hour :: u8
  si_initial_day :: u8
  si_initial_month :: u8
  si_initial_year :: u8
  si_number_of_entities :: u32
  si_number_of_transactions :: u32
  si_random_mining_seed_hex :: string
  si_solution_threshold :: i32
  si_total_spectrum_amount :: u64
  si_current_entity_balance_dust_threshold :: u64
  si_target_tick_vote_signature :: u32
  si_computor_packet_signature :: u64
  si_solution_additional_threshold :: u64

record contract_bid =
  bid_identity :: string
  bid_amount :: i64

record contract_ipo =
  ipo_contract_index :: u32
  ipo_bids :: "contract_bid list"

record log_event =
  le_tick :: u32
  le_tx_index :: u32
  le_epoch :: u16
  le_amount :: i64
  le_event_type :: u8
  le_data :: bytes

record oracle_data_response =
  od_res_type :: u32
  od_payload_hex :: string

record oracle_query_metadata =
  oq_query_id :: i64
  oq_query_type :: u8
  oq_status :: u8
  oq_status_flags :: u16
  oq_query_tick :: u32
  oq_querying_entity_hex :: string
  oq_timeout :: u64
  oq_interface_index :: u32
  oq_subscription_id :: i32
  oq_reveal_tick :: u32
  oq_total_commits :: u16
  oq_agreeing_commits :: u16

record custom_mining_task =
  mt_source_public_key_hex :: string
  mt_code_file_trailer_digest_hex :: string
  mt_data_file_trailer_digest_hex :: string
  mt_job_id :: u64
  mt_custom_mining_type :: u8
  mt_payload_hex :: string
  mt_signature_hex :: string

record custom_mining_solution =
  ms_source_public_key_hex :: string
  ms_miner_public_key_hex :: string
  ms_job_id :: u64
  ms_custom_mining_type :: u8
  ms_payload_hex :: string
  ms_signature_hex :: string

record pruning_log_response =
  pl_success :: i64

record log_state_digest =
  ls_digest_hex :: string

record tx_status_response =
  ts_current_tick_of_node :: u32
  ts_tick :: u32
  ts_tx_count :: u32
  ts_money_flew_hex :: string
  ts_tx_digests :: "string list"

record log_id_ranges_response =
  lr_tick :: u32
  lr_tx_count :: nat
  lr_from_log_ids :: "i64 list"
  lr_lengths :: "i64 list"

record quorum_tick =
  qt_epoch :: u16
  qt_tick :: u32
  qt_vote_count :: u16
  qt_voted_computors :: "u16 list"

text \<open>The classification of input types loses nothing: only a contract call keeps its number.\<close>

lemma classify_contract_call:
  "classify t = SmartContractCall n \<longleftrightarrow> n = t \<and> t \<notin> {0, 1, 2, 3, 24, 25, 26}"
  by (auto simp: classify_def)

end
