(* ===== verification/Decoders.thy ===== *)
theory Decoders
  imports Structs
begin

text \<open>
  \<^verbatim>\<open>crates/ingestion/src/decoders.rs\<close>: the decoders from raw payload bytes to the records of
  \<open>Structs\<close>, every index and slice of the source a checked read that may panic.  The log event
  parser is in \<open>Log_Decoder\<close>.
\<close>

section \<open>Ticks\<close>

definition is_leap_year :: "nat \<Rightarrow> bool" where
  "is_leap_year year \<longleftrightarrow> (4 dvd year \<and> \<not> 100 dvd year) \<or> 400 dvd year"

definition days_in_month :: "nat list" where
  "days_in_month = [0, 31, 28, 31, 30, 31, 30, 31, 31, 30, 31, 30, 31]"

fun add_years :: "nat list \<Rightarrow> u64 \<Rightarrow> u64" where
  "add_years [] total_days = total_days"
| "add_years (y # ys) total_days =
     add_years ys (total_days + (if is_leap_year y then 366 else 365))"

fun add_months :: "nat \<Rightarrow> nat list \<Rightarrow> u64 \<Rightarrow> u64 outcome" where
  "add_months year [] total_days = Ok total_days"
| "add_months year (m # ms) total_days =
     (if m < length days_in_month
      then let total_days = total_days + word_of_nat (days_in_month ! m)
           in add_months year ms (if m = 2 \<and> is_leap_year year then total_days + 1 else total_days)
      else Panic IndexOutOfBounds)"

definition qubic_date_to_unix :: "nat \<Rightarrow> u8 \<Rightarrow> u8 \<Rightarrow> u8 \<Rightarrow> u8 \<Rightarrow> u8 \<Rightarrow> u64 outcome" where
  "qubic_date_to_unix year month day hour minute second =
     bindR (add_months year [1..<unat month] (add_years [1970..<year] 0)) (\<lambda>total_days.
       let total_days = total_days + word_of_nat (unat (sat_sub day 1))
       in Ok (total_days * 86400 + word_of_nat (unat hour) * 3600
              + word_of_nat (unat minute) * 60 + word_of_nat (unat second)))"

definition decode_tick :: "ext \<Rightarrow> bytes \<Rightarrow> tick_data outcome" where
  "decode_tick X payload =
     (if length payload < 48 then Err (PayloadTooSmall ''TickData'' (length payload) 48)
      else
        bindR (rd_u16 payload 0) (\<lambda>computor_index.
        bindR (rd_u16 payload 2) (\<lambda>epoch.
        bindR (rd_u32 payload 4) (\<lambda>tick.
        if 1000 < epoch then Err (InvalidEpoch epoch)
        else if 1000 < computor_index then Err (InvalidComputorIndex computor_index)
        else
          bindR (rd_u16 payload 8) (\<lambda>_.
          bindR (index_u8 payload 10) (\<lambda>second.
          bindR (index_u8 payload 11) (\<lambda>minute.
          bindR (index_u8 payload 12) (\<lambda>hour.
          bindR (index_u8 payload 13) (\<lambda>day.
          bindR (index_u8 payload 14) (\<lambda>month.
          bindR (index_u8 payload 15) (\<lambda>year.
          bindR (qubic_date_to_unix (2000 + unat year) month day hour minute second) (\<lambda>timestamp.
          bindR (slice payload 16 48) (\<lambda>time_lock.
          bindR (if 139376 \<le> length payload
                 then bindR (slice payload 48 131120) (\<lambda>digests.
                      bindR (slice payload 131120 139312) (\<lambda>fees.
                      bindR (slice payload 139312 139376) (\<lambda>signature.
                      Ok (hex_encode X digests, hex_encode X fees, hex_encode X signature))))
                 else if 48 < length payload
                 then bindR (slice_from payload 48) (\<lambda>rest. Ok (hex_encode X rest, [], []))
                 else Ok ([], [], [])) (\<lambda>(digests_hex, fees_hex, signature_hex).
          Ok \<lparr>td_computor_index = computor_index, td_epoch = epoch, td_tick = tick,
              td_timestamp = timestamp, td_time_lock = time_lock,
              td_transaction_digests_hex = digests_hex, td_contract_fees_hex = fees_hex,
              td_signature_hex = signature_hex\<rparr>))))))))))))))"

section \<open>Transactions, computors, entities\<close>

definition decode_transaction :: "ext \<Rightarrow> bytes \<Rightarrow> transaction outcome" where
  "decode_transaction X payload =
     (if length payload < TX_HEADER_SIZE
      then Err (PayloadTooSmall ''Transaction'' (length payload) TX_HEADER_SIZE)
      else
        bindR (slice payload 0 32) (\<lambda>source.
        bindR (slice payload 32 64) (\<lambda>destination.
        bindR (rd_i64 payload 64) (\<lambda>amount.
        bindR (rd_u32 payload 72) (\<lambda>tick.
        bindR (rd_u16 payload 76) (\<lambda>input_type.
        bindR (rd_u16 payload 78) (\<lambda>input_size.
        let input_end = TX_HEADER_SIZE + unat input_size;
            sig_start = input_end;
            sig_end = sig_start + SIGNATURE_SIZE
        in
        bindR (if 0 < input_size \<and> input_end \<le> length payload
               then bindR (slice payload TX_HEADER_SIZE input_end) (\<lambda>b. Ok (hex_encode X b))
               else Ok []) (\<lambda>input_hex.
        bindR (if sig_end \<le> length payload
               then bindR (slice payload sig_start sig_end) (\<lambda>b. Ok (hex_encode X b))
               else Ok []) (\<lambda>signature_hex.
        let hash = (if input_end \<le> length payload
                    then hash_to_hex X (compute_tx_hash X payload input_size) else [])
        in Ok \<lparr>tx_hash = hash, tx_source_hex = hex_encode X source,
               tx_source_identity = encode_base26 X source,
               tx_destination_hex = hex_encode X destination,
               tx_destination_identity = encode_base26 X destination, tx_amount = amount,
               tx_tick = tick, tx_input_type = input_type, tx_input_size = input_size,
               tx_input_hex = input_hex, tx_input_type_name = label (classify input_type),
               tx_signature_hex = signature_hex\<rparr>)))))))))"

fun read_keys :: "bytes \<Rightarrow> nat list \<Rightarrow> bytes list outcome" where
  "read_keys payload [] = Ok []"
| "read_keys payload (i # is) =
     (let offset = 2 + i * PUBLIC_KEY_SIZE
      in if offset + PUBLIC_KEY_SIZE \<le> length payload
         then bindR (slice payload offset (offset + PUBLIC_KEY_SIZE)) (\<lambda>key.
              bindR (read_keys payload is) (\<lambda>keys. Ok (key # keys)))
         else read_keys payload is)"

definition decode_computors :: "ext \<Rightarrow> bytes \<Rightarrow> computors outcome" where
  "decode_computors X payload =
     (if length payload < 21634 then Err (PayloadTooSmall ''Computors'' (length payload) 21634)
      else
        bindR (rd_u16 payload 0) (\<lambda>epoch.
        bindR (read_keys payload [0..<NUMBER_OF_COMPUTORS]) (\<lambda>public_keys.
        Ok \<lparr>cp_epoch = epoch, cp_public_keys = public_keys,
            cp_public_key_identities = map (encode_base26 X) public_keys\<rparr>)))"

definition decode_entity :: "ext \<Rightarrow> bytes \<Rightarrow> entity_data outcome" where
  "decode_entity X payload =
     (if length payload < 64 then Err (PayloadTooSmall ''Entity'' (length payload) 64)
      else
        bindR (slice payload 0 32) (\<lambda>pub_key.
        bindR (rd_i64 payload 32) (\<lambda>incoming.
        bindR (rd_i64 payload 40) (\<lambda>outgoing.
        bindR (rd_u32 payload 48) (\<lambda>number_in.
        bindR (rd_u32 payload 52) (\<lambda>number_out.
        bindR (rd_u32 payload 56) (\<lambda>latest_in.
        bindR (rd_u32 payload 60) (\<lambda>latest_out.
        Ok \<lparr>en_identity = encode_base26 X pub_key, en_incoming = incoming,
            en_outgoing = outgoing, en_number_of_incoming_transfers = number_in,
            en_number_of_outgoing_transfers = number_out,
            en_latest_incoming_transfer_tick = latest_in,
            en_latest_outgoing_transfer_tick = latest_out\<rparr>))))))))"

section \<open>Node status\<close>

definition decode_current_tick_info :: "bytes \<Rightarrow> current_tick_info outcome" where
  "decode_current_tick_info payload =
     (if length payload < 16 then Err (PayloadTooSmall ''CurrentTickInfo'' (length payload) 16)
      else
        bindR (rd_u16 payload 0) (\<lambda>_.
        bindR (rd_u16 payload 2) (\<lambda>epoch.
        bindR (rd_u32 payload 4) (\<lambda>tick.
        bindR (rd_u16 payload 8) (\<lambda>aligned.
        bindR (rd_u16 payload 10) (\<lambda>misaligned.
        bindR (rd_u32 payload 12) (\<lambda>initial_tick.
        bindR (if 20 \<le> length payload then rd_u32 payload 16 else Ok 0) (\<lambda>latest.
        bindR (if 28 \<le> length payload then rd_u64 payload 20 else Ok 0) (\<lambda>since.
        Ok \<lparr>ti_epoch = epoch, ti_tick = tick, ti_number_of_aligned_votes = aligned,
            ti_number_of_misaligned_votes = misaligned, ti_initial_tick = initial_tick,
            ti_latest_voting_tick = latest, ti_time_since_last_voting_tick = since\<rparr>)))))))))"

definition decode_system_info :: "ext \<Rightarrow> bytes \<Rightarrow> system_info_reply outcome" where
  "decode_system_info X payload =
     (if length payload < 128 then Err (PayloadTooSmall ''SystemInfo'' (length payload) 128)
      else
        bindR (rd_i16 payload 0) (\<lambda>version.
        bindR (rd_u16 payload 2) (\<lambda>epoch.
        bindR (rd_u32 payload 4) (\<lambda>tick.
        bindR (rd_u32 payload 8) (\<lambda>initial_tick.
        bindR (rd_u32 payload 12) (\<lambda>latest_created_tick.
        bindR (rd_u16 payload 16) (\<lambda>initial_millisecond.
        bindR (index_u8 payload 18) (\<lambda>initial_second.
        bindR (index_u8 payload 19) (\<lambda>initial_minute.
        bindR (index_u8 payload 20) (\<lambda>initial_hour.
        bindR (index_u8 payload 21) (\<lambda>initial_day.
        bindR (index_u8 payload 22) (\<lambda>initial_month.
        bindR (index_u8 payload 23) (\<lambda>initial_year.
        bindR (rd_u32 payload 24) (\<lambda>number_of_entities.
        bindR (rd_u32 payload 28) (\<lambda>number_of_transactions.
        bindR (slice payload 32 64) (\<lambda>seed.
        bindR (rd_i32 payload 64) (\<lambda>solution_threshold.
        bindR (slice payload 68 76) (\<lambda>total_spectrum_amount.
        bindR (slice payload 76 84) (\<lambda>dust_threshold.
        bindR (rd_u32 payload 84) (\<lambda>target_tick_vote_signature.
        bindR (slice payload 88 96) (\<lambda>computor_packet_signature.
        bindR (slice payload 96 104) (\<lambda>solution_additional_threshold.
        Ok \<lparr>si_version = version, si_epoch = epoch, si_tick = tick,
            si_initial_tick = initial_tick, si_latest_created_tick = latest_created_tick,
            si_initial_millisecond = initial_millisecond, si_initial_second = initial_second,
            si_initial_minute = initial_minute, si_initial_hour = initial_hour,
            si_initial_day = initial_day, si_initial_month = initial_month,
            si_initial_year = initial_year, si_number_of_entities = number_of_entities,
            si_number_of_transactions = number_of_transactions,
            si_random_mining_seed_hex = hex_encode X seed,
            si_solution_threshold = solution_threshold,
            si_total_spectrum_amount = u64_from_le total_spectrum_amount,
            si_current_entity_balance_dust_threshold = u64_from_le dust_threshold,
            si_target_tick_vote_signature = target_tick_vote_signature,
            si_computor_packet_signature = u64_from_le computor_packet_signature,
            si_solution_additional_threshold = u64_from_le solution_additional_threshold\<rparr>))))))))))))))))))))))"

section \<open>Contracts, oracles, custom mining\<close>

fun read_bids :: "ext \<Rightarrow> bytes \<Rightarrow> nat list \<Rightarrow> contract_bid list outcome" where
  "read_bids X payload [] = Ok []"
| "read_bids X payload (i # is) =
     (let key_off = 8 + i * PUBLIC_KEY_SIZE;
          price_off = 8 + NUMBER_OF_COMPUTORS * PUBLIC_KEY_SIZE + i * 8
      in bindR (slice payload key_off (key_off + PUBLIC_KEY_SIZE)) (\<lambda>identity_bytes.
         bindR (slice payload price_off (price_off + 8)) (\<lambda>price.
         bindR (read_bids X payload is) (\<lambda>bids.
         Ok (\<lparr>bid_identity = encode_base26 X identity_bytes, bid_amount = i64_from_le price\<rparr>
             # bids)))))"

definition decode_contract_ipo :: "ext \<Rightarrow> bytes \<Rightarrow> contract_ipo outcome" where
  "decode_contract_ipo X payload =
     (if length payload < 27048 then Err (PayloadTooSmall ''ContractIpo'' (length payload) 27048)
      else
        bindR (rd_u32 payload 0) (\<lambda>contract_index.
        bindR (read_bids X payload [0..<NUMBER_OF_COMPUTORS]) (\<lambda>bids.
        Ok \<lparr>ipo_contract_index = contract_index, ipo_bids = bids\<rparr>)))"

definition decode_oracle_data :: "ext \<Rightarrow> bytes \<Rightarrow> oracle_data_response outcome" where
  "decode_oracle_data X payload =
     (if length payload < 4 then Err (PayloadTooSmall ''OracleData'' (length payload) 4)
      else
        bindR (rd_u32 payload 0) (\<lambda>res_type.
        bindR (if 4 < length payload
               then bindR (slice_from payload 4) (\<lambda>b. Ok (hex_encode X b))
               else Ok []) (\<lambda>payload_hex.
        Ok \<lparr>od_res_type = res_type, od_payload_hex = payload_hex\<rparr>)))"

definition decode_oracle_query_metadata :: "ext \<Rightarrow> bytes \<Rightarrow> oracle_query_metadata outcome" where
  "decode_oracle_query_metadata X payload =
     (if length payload < ORACLE_QUERY_METADATA_SIZE
      then Err (PayloadTooSmall ''OracleQueryMetadata'' (length payload) ORACLE_QUERY_METADATA_SIZE)
      else
        bindR (rd_i64 payload 0) (\<lambda>query_id.
        bindR (index_u8 payload 8) (\<lambda>query_type.
        bindR (index_u8 payload 9) (\<lambda>status.
        bindR (rd_u16 payload 10) (\<lambda>status_flags.
        bindR (rd_u32 payload 12) (\<lambda>query_tick.
        bindR (slice payload 16 48) (\<lambda>querying_entity.
        bindR (rd_u64 payload 48) (\<lambda>timeout.
        bindR (rd_u32 payload 56) (\<lambda>interface_index.
        bindR (rd_i32 payload 60) (\<lambda>subscription_id.
        bindR (rd_u32 payload 64) (\<lambda>reveal_tick.
        bindR (rd_u16 payload 68) (\<lambda>total_commits.
        bindR (rd_u16 payload 70) (\<lambda>agreeing_commits.
        Ok \<lparr>oq_query_id = query_id, oq_query_type = query_type, oq_status = status,
            oq_status_flags = status_flags, oq_query_tick = query_tick,
            oq_querying_entity_hex = hex_encode X querying_entity, oq_timeout = timeout,
            oq_interface_index = interface_index, oq_subscription_id = subscription_id,
            oq_reveal_tick = reveal_tick, oq_total_commits = total_commits,
            oq_agreeing_commits = agreeing_commits\<rparr>)))))))))))))"

definition decode_custom_mining_task :: "ext \<Rightarrow> bytes \<Rightarrow> custom_mining_task outcome" where
  "decode_custom_mining_task X payload =
     (if length payload < 233 then Err (PayloadTooSmall ''CustomMiningTask'' (length payload) 233)
      else
        bindR (slice payload 0 32) (\<lambda>source.
        bindR (slice payload 96 128) (\<lambda>code_digest.
        bindR (slice payload 128 160) (\<lambda>data_digest.
        bindR (rd_u64 payload 160) (\<lambda>job_id.
        bindR (index_u8 payload 168) (\<lambda>ty.
        let sig_start = length payload - 64 in
        bindR (slice payload 169 sig_start) (\<lambda>body.
        bindR (slice_from payload sig_start) (\<lambda>signature.
        Ok \<lparr>mt_source_public_key_hex = hex_encode X source,
            mt_code_file_trailer_digest_hex = hex_encode X code_digest,
            mt_data_file_trailer_digest_hex = hex_encode X data_digest, mt_job_id = job_id,
            mt_custom_mining_type = ty, mt_payload_hex = hex_encode X body,
            mt_signature_hex = hex_encode X signature\<rparr>))))))))"

definition decode_custom_mining_solution :: "ext \<Rightarrow> bytes \<Rightarrow> custom_mining_solution outcome" where
  "decode_custom_mining_solution X payload =
     (if length payload < 201
      then Err (PayloadTooSmall ''CustomMiningSolution'' (length payload) 201)
      else
        bindR (slice payload 0 32) (\<lambda>source.
        bindR (slice payload 96 128) (\<lambda>miner.
        bindR (rd_u64 payload 128) (\<lambda>job_id.
        bindR (index_u8 payload 136) (\<lambda>ty.
        let sig_start = length payload - 64 in
        bindR (slice payload 137 sig_start) (\<lambda>body.
        bindR (slice_from payload sig_start) (\<lambda>signature.
        Ok \<lparr>ms_source_public_key_hex = hex_encode X source,
            ms_miner_public_key_hex = hex_encode X miner, ms_job_id = job_id,
            ms_custom_mining_type = ty, ms_payload_hex = hex_encode X body,
            ms_signature_hex = hex_encode X signature\<rparr>)))))))"

section \<open>Logging\<close>

definition decode_pruning_log_response :: "bytes \<Rightarrow> pruning_log_response outcome" where
  "decode_pruning_log_response payload =
     (if length payload < 8 then Err (PayloadTooSmall ''PruningLogResponse'' (length payload) 8)
      else bindR (rd_i64 payload 0) (\<lambda>success. Ok \<lparr>pl_success = success\<rparr>))"

definition decode_log_state_digest :: "ext \<Rightarrow> bytes \<Rightarrow> log_state_digest outcome" where
  "decode_log_state_digest X payload =
     (if length payload < 32 then Err (PayloadTooSmall ''LogStateDigest'' (length payload) 32)
      else bindR (slice payload 0 32) (\<lambda>b. Ok \<lparr>ls_digest_hex = hex_encode X b\<rparr>))"

definition decode_tx_status :: "ext \<Rightarrow> bytes \<Rightarrow> u32 \<Rightarrow> tx_status_response outcome" where
  "decode_tx_status X payload req_tick =
     (if length payload < 524 then Err (PayloadTooSmall ''TxStatus'' (length payload) 524)
      else
        bindR (slice payload 0 4) (\<lambda>current.
        bindR (slice payload 4 8) (\<lambda>tick.
        bindR (slice payload 8 12) (\<lambda>count.
        let tx_count = u32_from_le count in
        bindR (slice payload 12 524) (\<lambda>money_flew.
        let digests_start = 524; digests_end = digests_start + unat tx_count * 32 in
        bindR (if digests_end \<le> length payload
               then mapM (\<lambda>i. let off = digests_start + i * 32 in
                      bindR (slice payload off (off + 32)) (\<lambda>b. Ok (hex_encode X b)))
                      [0..<unat tx_count]
               else Ok []) (\<lambda>tx_digests.
        Ok \<lparr>ts_current_tick_of_node = u32_from_le current, ts_tick = u32_from_le tick,
            ts_tx_count = tx_count, ts_money_flew_hex = hex_encode X money_flew,
            ts_tx_digests = tx_digests\<rparr>))))))"

definition read_i64s :: "bytes \<Rightarrow> nat \<Rightarrow> nat \<Rightarrow> i64 list outcome" where
  "read_i64s payload start n =
     mapM (\<lambda>i. let off = start + i * 8 in
       bindR (slice payload off (off + 8)) (\<lambda>b. Ok (i64_from_le b))) [0..<n]"

definition decode_all_log_id_ranges :: "bytes \<Rightarrow> u32 \<Rightarrow> log_id_ranges_response outcome" where
  "decode_all_log_id_ranges payload tick =
     (let expected_size = LOG_TX_PER_TICK * 8 * 2
      in if length payload < expected_size
         then Err (PayloadTooSmall ''LogIdRanges'' (length payload) expected_size)
         else
           bindR (read_i64s payload 0 LOG_TX_PER_TICK) (\<lambda>from_log_ids.
           bindR (read_i64s payload (LOG_TX_PER_TICK * 8) LOG_TX_PER_TICK) (\<lambda>lengths.
           Ok \<lparr>lr_tick = tick, lr_tx_count = LOG_TX_PER_TICK, lr_from_log_ids = from_log_ids,
               lr_lengths = lengths\<rparr>)))"

section \<open>The calendar\<close>

text \<open>The reference: days since 1970-01-01 in the Gregorian calendar, in closed form.\<close>

definition days_before_year :: "nat \<Rightarrow> nat" where
  "days_before_year y = 365 * (y - 1) + (y - 1) div 4 - (y - 1) div 100 + (y - 1) div 400"

definition days_before_month :: "nat \<Rightarrow> nat \<Rightarrow> nat" where
  "days_before_month y m =
     [0, 31, 59, 90, 120, 151, 181, 212, 243, 273, 304, 334] ! (m - 1)
       + (if 2 < m \<and> is_leap_year y then 1 else 0)"

definition unix_days :: "nat \<Rightarrow> nat \<Rightarrow> nat \<Rightarrow> nat" where
  "unix_days y m d =
     days_before_year y - days_before_year 1970 + days_before_month y m + (d - 1)"

definition unix_seconds :: "nat \<Rightarrow> nat \<Rightarrow> nat \<Rightarrow> nat \<Rightarrow> nat \<Rightarrow> nat \<Rightarrow> nat" where
  "unix_seconds y mo d h mi s = 86400 * unix_days y mo d + 3600 * h + 60 * mi + s"

lemma days_before_year_Suc:
  assumes "1 \<le> y"
  shows "days_before_year (Suc y) = days_before_year y + (if is_leap_year y then 366 else 365)"
proof -
  obtain n where n: "y = Suc n" using assms by (cases y) auto
  have dv: "Suc n div k = n div k + (if k dvd Suc n then 1 else 0)" for k
    by (simp add: div_Suc dvd_eq_mod_eq_0)
  have "100 dvd Suc n \<Longrightarrow> 4 dvd Suc n" "400 dvd Suc n \<Longrightarrow> 100 dvd Suc n"
    using dvd_trans [of 4 "100::nat" "Suc n"] dvd_trans [of 100 "400::nat" "Suc n"] by simp_all
  moreover have "n div 100 \<le> n div 4" by (rule div_le_mono2) simp_all
  ultimately show ?thesis
    unfolding n days_before_year_def is_leap_year_def diff_Suc_1 dv [of 4] dv [of 100] dv [of 400]
    by (simp add: ac_simps split: if_splits)
qed

lemma days_before_year_mono: "1 \<le> y \<Longrightarrow> y \<le> z \<Longrightarrow> days_before_year y \<le> days_before_year z"
proof (induction z)
  case (Suc z)
  then show ?case using days_before_year_Suc [of z] by (cases "y = Suc z") simp_all
qed simp

lemma add_years_append: "add_years (xs @ ys) t = add_years ys (add_years xs t)"
  by (induction xs arbitrary: t) auto

lemma add_years_upt:
  assumes "1970 \<le> y"
  shows "add_years [1970..<y] 0 = word_of_nat (days_before_year y - days_before_year 1970)"
  using assms
proof (induction y)
  case (Suc y)
  show ?case
  proof (cases "1970 \<le> y")
    case True
    then have le: "days_before_year 1970 \<le> days_before_year y"
      by (intro days_before_year_mono) simp_all
    have "days_before_year (Suc y) = days_before_year y + (if is_leap_year y then 366 else 365)"
      using True by (intro days_before_year_Suc) simp
    then have d: "days_before_year (Suc y) - days_before_year 1970
        = days_before_year y - days_before_year 1970 + (if is_leap_year y then 366 else 365)"
      using le by simp
    have "[1970..<Suc y] = [1970..<y] @ [y]" using True by simp
    then have "add_years [1970..<Suc y] 0
        = add_years [1970..<y] 0 + (if is_leap_year y then 366 else 365)"
      by (simp only: add_years_append add_years.simps)
    also have "\<dots> = word_of_nat (days_before_year (Suc y) - days_before_year 1970)"
      unfolding d Suc.IH [OF True] by simp
    finally show ?thesis .
  next
    case False
    then have "Suc y = 1970" using Suc.prems by simp
    then show ?thesis by simp
  qed
qed simp

text \<open>The month loop, on a table that has entries for 0 to 12 only.\<close>

lemma add_months_Ok:
  assumes "1 \<le> m" "m \<le> 12"
  shows "add_months y [1..<m] t = Ok (t + word_of_nat (days_before_month y m))"
proof -
  have "m = 1 \<or> m = 2 \<or> m = 3 \<or> m = 4 \<or> m = 5 \<or> m = 6 \<or> m = 7 \<or> m = 8 \<or> m = 9 \<or> m = 10
      \<or> m = 11 \<or> m = 12" using assms by presburger
  then show ?thesis
    by (elim disjE)
      (simp_all add: upt_rec days_in_month_def days_before_month_def Let_def)
qed

lemma add_months_panic:
  "is_panic (add_months y ms t) \<longleftrightarrow> (\<exists>m\<in>set ms. 13 \<le> m)"
  by (induction ms arbitrary: t) (auto simp: Let_def days_in_month_def not_less)


lemma qubic_date_to_unix_Ok:
  assumes "1970 \<le> year" "1 \<le> month" "month \<le> 12"
  shows "qubic_date_to_unix year month day hour minute second
    = Ok (word_of_nat (unix_seconds year (unat month) (unat day) (unat hour) (unat minute)
        (unat second)))"
proof -
  have m: "1 \<le> unat month" "unat month \<le> 12"
    using assms(2,3) by (simp_all add: word_le_nat_alt)
  define N where "N = days_before_year year - days_before_year 1970"
  define D where "D = unat day - 1"
  have "add_months year [1..<unat month] (add_years [1970..<year] 0)
      = Ok (word_of_nat (N + days_before_month year (unat month)))"
    unfolding add_months_Ok [OF m] add_years_upt [OF assms(1)] N_def by simp
  moreover have "unat (sat_sub day 1) = D" by (simp add: unat_sat_sub D_def)
  moreover have "unix_days year (unat month) (unat day) = N + days_before_month year (unat month) + D"
    by (simp add: unix_days_def N_def D_def)
  ultimately show ?thesis
    by (simp add: qubic_date_to_unix_def unix_seconds_def algebra_simps)
qed

lemma qubic_date_to_unix_panic:
  "is_panic (qubic_date_to_unix year month day hour minute second) \<longleftrightarrow> 14 \<le> month"
  by (auto simp: qubic_date_to_unix_def Let_def outcome_simps add_months_panic word_le_nat_alt)

lemma qubic_date_to_unix_no_Err: "qubic_date_to_unix y mo d h mi s \<noteq> Err e"
proof -
  have "add_months y ms t \<noteq> Err e" for ms t
    by (induction ms arbitrary: t) (simp_all add: Let_def)
  then show ?thesis by (auto simp: qubic_date_to_unix_def Let_def outcome_simps)
qed

section \<open>Sized decoders\<close>

text \<open>
  The contract of every decoder but \<open>decode_tick\<close>: a payload shorter than the minimum is refused
  with the two sizes, any other is decoded.
\<close>

locale sized_decoder =
  fixes decode :: "bytes \<Rightarrow> 'a outcome" and min_size :: nat
  assumes too_small: "length p < min_size
      \<Longrightarrow> \<exists>what. decode p = Err (PayloadTooSmall what (length p) min_size)"
    and enough: "min_size \<le> length p \<Longrightarrow> \<exists>r. decode p = Ok r"
begin

lemma ok_iff: "is_ok (decode p) \<longleftrightarrow> min_size \<le> length p"
  using too_small [of p] enough [of p] by (cases "length p < min_size") auto

lemma no_panic: "\<not> is_panic (decode p)"
  using too_small [of p] enough [of p] by (cases "length p < min_size") auto

end

lemma mapM_slices:
  assumes "\<And>i. i < n \<Longrightarrow> off i + k \<le> length p"
  shows "mapM (\<lambda>i. bindR (slice p (off i) (off i + k)) (\<lambda>b. Ok (f b))) [0..<n]
    = Ok (map (\<lambda>i. f (take k (drop (off i) p))) [0..<n])"
  using assms by (intro mapM_Ok) (simp add: read_simps)

lemma read_keys_Ok:
  assumes "\<And>i. i \<in> set is \<Longrightarrow> 2 + i * 32 + 32 \<le> length p"
  shows "read_keys p is = Ok (map (\<lambda>i. take 32 (drop (2 + i * 32) p)) is)"
  using assms by (induction "is") (simp_all add: Let_def PUBLIC_KEY_SIZE_def read_simps)

lemma read_bids_Ok:
  assumes "\<And>i. i \<in> set is \<Longrightarrow> i < 676" and "27048 \<le> length p"
  shows "read_bids X p is = Ok (map (\<lambda>i. \<lparr>bid_identity = encode_base26 X (take 32 (drop (8 + i * 32) p)),
      bid_amount = i64_from_le (take 8 (drop (21640 + i * 8) p))\<rparr>) is)"
  using assms
proof (induction "is")
  case (Cons i "is")
  from Cons.prems have i: "i < 676" and "\<And>i. i \<in> set is \<Longrightarrow> i < 676" by simp_all
  with Cons.IH Cons.prems(2) have IH: "read_bids X p is = Ok (map (\<lambda>i.
      \<lparr>bid_identity = encode_base26 X (take 32 (drop (8 + i * 32) p)),
       bid_amount = i64_from_le (take 8 (drop (21640 + i * 8) p))\<rparr>) is)" by blast
  from i Cons.prems(2) show ?case by (simp add: Let_def constants read_simps IH)
qed simp

lemma read_i64s_Ok:
  assumes "start + n * 8 \<le> length p"
  shows "read_i64s p start n = Ok (map (\<lambda>i. i64_from_le (chunk 8 (drop start p) i)) [0..<n])"
  using assms unfolding read_i64s_def Let_def
  by (subst mapM_slices) (auto simp: chunk_def add.commute)

lemma read_digests_Ok:
  assumes "524 + n * 32 \<le> length p"
  shows "mapM (\<lambda>i. bindR (slice p (524 + i * 32) (556 + i * 32)) (\<lambda>b. Ok (hex_encode X b))) [0..<n]
    = Ok (map (\<lambda>i. hex_encode X (chunk 32 (drop 524 p) i)) [0..<n])"
  using assms by (intro mapM_Ok) (auto simp: read_simps chunk_def add.commute)

interpretation transaction: sized_decoder "decode_transaction X" 80
proof
  fix p :: bytes
  assume "80 \<le> length p"
  then show "\<exists>r. decode_transaction X p = Ok r"
    by (simp add: decode_transaction_def constants read_simps Let_def)
qed (simp add: decode_transaction_def constants)

interpretation computors: sized_decoder "decode_computors X" 21634
proof
  fix p :: bytes
  assume "21634 \<le> length p"
  moreover from this have "read_keys p [0..<676]
      = Ok (map (\<lambda>i. take 32 (drop (2 + i * 32) p)) [0..<676])" by (intro read_keys_Ok) auto
  ultimately show "\<exists>r. decode_computors X p = Ok r"
    by (simp add: decode_computors_def NUMBER_OF_COMPUTORS_def read_simps)
qed (simp add: decode_computors_def)

interpretation entity: sized_decoder "decode_entity X" 64
  by standard (simp_all add: decode_entity_def read_simps)

interpretation current_tick_info: sized_decoder decode_current_tick_info 16
  by standard (simp_all add: decode_current_tick_info_def read_simps)

interpretation system_info: sized_decoder "decode_system_info X" 128
  by standard (simp_all add: decode_system_info_def read_simps)

interpretation contract_ipo: sized_decoder "decode_contract_ipo X" 27048
proof
  fix p :: bytes
  assume "27048 \<le> length p"
  then show "\<exists>r. decode_contract_ipo X p = Ok r"
    using read_bids_Ok [of "[0..<676]" p X]
    by (simp add: decode_contract_ipo_def NUMBER_OF_COMPUTORS_def read_simps)
qed (simp add: decode_contract_ipo_def)

interpretation oracle_data: sized_decoder "decode_oracle_data X" 4
  by standard (simp_all add: decode_oracle_data_def read_simps)

interpretation oracle_query_metadata: sized_decoder "decode_oracle_query_metadata X" 72
  by standard (simp_all add: decode_oracle_query_metadata_def constants read_simps)

interpretation custom_mining_task: sized_decoder "decode_custom_mining_task X" 233
  by standard (simp_all add: decode_custom_mining_task_def read_simps Let_def)

interpretation custom_mining_solution: sized_decoder "decode_custom_mining_solution X" 201
  by standard (simp_all add: decode_custom_mining_solution_def read_simps Let_def)

interpretation pruning_log_response: sized_decoder decode_pruning_log_response 8
  by standard (simp_all add: decode_pruning_log_response_def read_simps)

interpretation log_state_digest: sized_decoder "decode_log_state_digest X" 32
  by standard (simp_all add: decode_log_state_digest_def read_simps)

interpretation tx_status: sized_decoder "\<lambda>p. decode_tx_status X p t" 524
proof
  fix p :: bytes
  assume "524 \<le> length p"
  then show "\<exists>r. decode_tx_status X p t = Ok r"
    using read_digests_Ok [of _ p X]
    by (simp add: decode_tx_status_def read_simps Let_def)
qed (simp add: decode_tx_status_def)

interpretation all_log_id_ranges: sized_decoder "\<lambda>p. decode_all_log_id_ranges p t" 65632
proof
  fix p :: bytes
  assume "65632 \<le> length p"
  then show "\<exists>r. decode_all_log_id_ranges p t = Ok r"
    by (simp add: decode_all_log_id_ranges_def constants Let_def read_i64s_Ok)
qed (simp add: decode_all_log_id_ranges_def constants)

section \<open>Properties\<close>

text \<open>
  C12: a complete tick data payload decodes to its fields: the numbers, the time lock, the hex of
  the 4096 digests, the fees and the signature, and the timestamp is the number of seconds since
  1970-01-01 of the date in the Gregorian calendar.
\<close>

theorem decode_tick_full:
  assumes "length time_lock = 32" "length digests = 131072" "length fees = 8192"
    and "length signature = 64" "epoch \<le> 1000" "ci \<le> 1000" "1 \<le> month" "month \<le> 12"
  shows "decode_tick X (u16_to_le ci @ u16_to_le epoch @ u32_to_le tick @ u16_to_le ms
      @ [second, minute, hour, day, month, year] @ time_lock @ digests @ fees @ signature)
    = Ok \<lparr>td_computor_index = ci, td_epoch = epoch, td_tick = tick,
        td_timestamp = word_of_nat (unix_seconds (2000 + unat year) (unat month) (unat day)
          (unat hour) (unat minute) (unat second)),
        td_time_lock = time_lock, td_transaction_digests_hex = hex_encode X digests,
        td_contract_fees_hex = hex_encode X fees, td_signature_hex = hex_encode X signature\<rparr>"
  using assms by (simp add: decode_tick_def read_simps qubic_date_to_unix_Ok not_less nth_append)

theorem decode_tick_full_witness:
  "decode_tick demo_ext (u16_to_le 5 @ u16_to_le 218 @ u32_to_le 60000000 @ u16_to_le 0
      @ [30, 15, 12, 29, 2, 24] @ replicate 32 1 @ replicate 131072 0 @ replicate 8192 0
      @ replicate 64 7)
    = Ok \<lparr>td_computor_index = 5, td_epoch = 218, td_tick = 60000000,
        td_timestamp = word_of_nat (unix_seconds 2024 2 29 12 15 30),
        td_time_lock = replicate 32 1,
        td_transaction_digests_hex = hex_encode demo_ext (replicate 131072 0),
        td_contract_fees_hex = hex_encode demo_ext (replicate 8192 0),
        td_signature_hex = hex_encode demo_ext (replicate 64 7)\<rparr>"
  using decode_tick_full [of "replicate 32 1" "replicate 131072 0" "replicate 8192 0"
      "replicate 64 7" 218 5 2 demo_ext 60000000 0 30 15 12 29 24] by simp

text \<open>
  C27: \<open>decode_tick\<close> panics, instead of refusing the payload, exactly on payloads that pass its
  length, epoch and computor checks and carry a month of 14 or more: the month loop indexes the
  13-entry table of days past its end.
\<close>

theorem decode_tick_panic:
  "is_panic (decode_tick X p) \<longleftrightarrow>
     48 \<le> length p \<and> u16_from_le (take 2 (drop 2 p)) \<le> 1000 \<and> u16_from_le (take 2 p) \<le> 1000
       \<and> 14 \<le> p ! 14"
proof (cases "length p < 48")
  case False
  then show ?thesis
    by (auto simp: decode_tick_def read_simps outcome_simps qubic_date_to_unix_panic not_less
        split: prod.split)
qed (simp add: decode_tick_def)

lemma transaction_fields:
  fixes tick :: u32 and ty :: u16
  assumes "length src = 32" "length dst = 32" "length input < 2 ^ 16" "length signature = 64"
    and "- (2 ^ 63) \<le> amount" "amount < 2 ^ 63"
    and "header = src @ dst @ i64_to_le amount @ u32_to_le tick @ u16_to_le ty
      @ u16_to_le (word_of_nat (length input))"
  shows "decode_transaction X (header @ input @ signature @ rest)
    = Ok \<lparr>tx_hash = hex_encode X (sha256_digest X (header @ input)),
        tx_source_hex = hex_encode X src, tx_source_identity = encode_base26 X src,
        tx_destination_hex = hex_encode X dst, tx_destination_identity = encode_base26 X dst,
        tx_amount = amount, tx_tick = tick, tx_input_type = ty,
        tx_input_size = word_of_nat (length input),
        tx_input_hex = (if input = [] then [] else hex_encode X input),
        tx_input_type_name = label (classify ty), tx_signature_hex = hex_encode X signature\<rparr>"
proof -
  have n: "unat (word_of_nat (length input) :: u16) = length input"
    using assms(3) by (simp add: unat_of_nat)
  have z: "0 < (word_of_nat (length input) :: u16) \<longleftrightarrow> input \<noteq> []"
    by (simp add: word_less_nat_alt n)
  have h: "length header = 80" using assms by simp
  have f: "take 32 header = src" "take 32 (drop 32 header) = dst"
    "take 8 (drop 64 header) = i64_to_le amount" "take 4 (drop 72 header) = u32_to_le tick"
    "take 2 (drop 76 header) = u16_to_le ty"
    "take 2 (drop 78 header) = u16_to_le (word_of_nat (length input))"
    using assms by simp_all
  have "take (80 + length input) (header @ input @ signature @ rest) = header @ input"
    using h by simp
  moreover have "i64_from_le (i64_to_le amount) = amount" using assms(5,6) by (rule i64_from_to_le)
  ultimately show ?thesis
    using h assms(4)
    by (simp add: decode_transaction_def constants read_simps Let_def f n z compute_tx_hash_def
        sha256_def hash_to_hex_def)
qed

text \<open>
  C19: a transaction payload decodes to its fields; the hash covers the header and the input and
  leaves out the signature and whatever follows it.
\<close>

theorem decode_transaction_layout:
  fixes tick :: u32 and ty :: u16
  assumes "length src = 32" "length dst = 32" "length input < 2 ^ 16" "length signature = 64"
    and "- (2 ^ 63) \<le> amount" "amount < 2 ^ 63"
    and "header = src @ dst @ i64_to_le amount @ u32_to_le tick @ u16_to_le ty
      @ u16_to_le (word_of_nat (length input))"
  shows "decode_transaction X (header @ input @ signature @ rest)
    = Ok \<lparr>tx_hash = hex_encode X (sha256_digest X (header @ input)),
        tx_source_hex = hex_encode X src, tx_source_identity = encode_base26 X src,
        tx_destination_hex = hex_encode X dst, tx_destination_identity = encode_base26 X dst,
        tx_amount = amount, tx_tick = tick, tx_input_type = ty,
        tx_input_size = word_of_nat (length input),
        tx_input_hex = (if input = [] then [] else hex_encode X input),
        tx_input_type_name = label (classify ty), tx_signature_hex = hex_encode X signature\<rparr>"
  using assms by (rule transaction_fields)

theorem decode_transaction_layout_witness:
  "\<exists>r. decode_transaction demo_ext ((replicate 32 1 @ replicate 32 2 @ i64_to_le (- 5)
      @ u32_to_le 9 @ u16_to_le 0 @ u16_to_le 2) @ [7, 8] @ replicate 64 3 @ []) = Ok r
    \<and> tx_amount r = - 5 \<and> tx_tick r = 9 \<and> tx_input_size r = 2
    \<and> tx_input_type_name r = ''simple_transfer''"
  using decode_transaction_layout [of "replicate 32 1" "replicate 32 2" "[7, 8]" "replicate 64 3"
      "- 5" _ 9 0, OF _ _ _ _ _ _ refl, of demo_ext "[]"] by (simp add: classify_def)

text \<open>
  C26: the decoders of every other message never panic, and decode exactly the payloads that
  have their minimum size: 80 bytes for transactions, 21634 for computors, and so on.
\<close>

theorem decoders_total:
  "is_ok (decode_transaction X p) = (80 \<le> length p) \<and> \<not> is_panic (decode_transaction X p)
   \<and> is_ok (decode_computors X p) = (21634 \<le> length p) \<and> \<not> is_panic (decode_computors X p)
   \<and> is_ok (decode_entity X p) = (64 \<le> length p) \<and> \<not> is_panic (decode_entity X p)
   \<and> is_ok (decode_current_tick_info p) = (16 \<le> length p)
   \<and> \<not> is_panic (decode_current_tick_info p)
   \<and> is_ok (decode_system_info X p) = (128 \<le> length p) \<and> \<not> is_panic (decode_system_info X p)
   \<and> is_ok (decode_contract_ipo X p) = (27048 \<le> length p)
   \<and> \<not> is_panic (decode_contract_ipo X p)
   \<and> is_ok (decode_oracle_data X p) = (4 \<le> length p) \<and> \<not> is_panic (decode_oracle_data X p)
   \<and> is_ok (decode_oracle_query_metadata X p) = (72 \<le> length p)
   \<and> \<not> is_panic (decode_oracle_query_metadata X p)
   \<and> is_ok (decode_custom_mining_task X p) = (233 \<le> length p)
   \<and> \<not> is_panic (decode_custom_mining_task X p)
   \<and> is_ok (decode_custom_mining_solution X p) = (201 \<le> length p)
   \<and> \<not> is_panic (decode_custom_mining_solution X p)
   \<and> is_ok (decode_pruning_log_response p) = (8 \<le> length p)
   \<and> \<not> is_panic (decode_pruning_log_response p)
   \<and> is_ok (decode_log_state_digest X p) = (32 \<le> length p)
   \<and> \<not> is_panic (decode_log_state_digest X p)
   \<and> is_ok (decode_tx_status X p t) = (524 \<le> length p) \<and> \<not> is_panic (decode_tx_status X p t)
   \<and> is_ok (decode_all_log_id_ranges p t) = (65632 \<le> length p)
   \<and> \<not> is_panic (decode_all_log_id_ranges p t)"
  by (intro conjI) (rule transaction.ok_iff computors.ok_iff entity.ok_iff
      current_tick_info.ok_iff system_info.ok_iff contract_ipo.ok_iff oracle_data.ok_iff
      oracle_query_metadata.ok_iff custom_mining_task.ok_iff custom_mining_solution.ok_iff
      pruning_log_response.ok_iff log_state_digest.ok_iff tx_status.ok_iff
      all_log_id_ranges.ok_iff transaction.no_panic computors.no_panic entity.no_panic
      current_tick_info.no_panic system_info.no_panic contract_ipo.no_panic oracle_data.no_panic
      oracle_query_metadata.no_panic custom_mining_task.no_panic custom_mining_solution.no_panic
      pruning_log_response.no_panic log_state_digest.no_panic tx_status.no_panic
      all_log_id_ranges.no_panic)+

text \<open>
  a computors payload yields the epoch and all 676 keys in order, each with its identity, from
  a two-byte epoch followed by the keys without padding.
\<close>

theorem decode_computors_layout:
  assumes "length keys = 676" and "list_all (\<lambda>k. length k = 32) keys"
  shows "decode_computors X (u16_to_le epoch @ concat keys @ rest)
    = Ok \<lparr>cp_epoch = epoch, cp_public_keys = keys,
        cp_public_key_identities = map (encode_base26 X) keys\<rparr>"
proof -
  let ?p = "u16_to_le epoch @ concat keys @ rest"
  have k: "\<And>k. k \<in> set keys \<Longrightarrow> length k = 32" using assms(2) by (simp add: list_all_iff)
  then have len: "length (concat keys) = 21632"
    using length_concat_const [of keys id 32] assms(1) by simp
  have "map (\<lambda>i. take 32 (drop (2 + i * 32) ?p)) [0..<676] = map (\<lambda>i. keys ! i) [0..<676]"
    using chunk_concat [OF k, where r = rest] assms(1) by (simp add: chunk_def)
  also have "\<dots> = keys" using assms(1) map_nth [of keys] by simp
  finally have "read_keys ?p [0..<676] = Ok keys"
    using len by (subst read_keys_Ok) auto
  then show ?thesis using len
    by (simp add: decode_computors_def NUMBER_OF_COMPUTORS_def read_simps)
qed

theorem decode_computors_layout_witness:
  "decode_computors demo_ext (u16_to_le 7 @ concat (replicate 676 (replicate 32 1)) @ [])
    = Ok \<lparr>cp_epoch = 7, cp_public_keys = replicate 676 (replicate 32 1),
        cp_public_key_identities = map (encode_base26 demo_ext) (replicate 676 (replicate 32 1))\<rparr>"
  by (rule decode_computors_layout) (simp_all add: list_all_iff)

text \<open>
  A transaction status keeps the node's count even when the digests are cut short: the list
  has one digest per announced transaction when all of them are in the payload, and is empty
  otherwise.
\<close>

theorem decode_tx_status_digests:
  assumes "decode_tx_status X p t = Ok r"
  shows "ts_tx_count r = u32_from_le (take 4 (drop 8 p))
    \<and> ts_tx_digests r = (if 524 + 32 * unat (ts_tx_count r) \<le> length p
        then map (\<lambda>i. hex_encode X (chunk 32 (drop 524 p) i)) [0..<unat (ts_tx_count r)] else [])"
proof -
  have "524 \<le> length p" using assms by (simp add: decode_tx_status_def split: if_splits)
  then show ?thesis using assms read_digests_Ok [of _ p X]
    by (auto simp: decode_tx_status_def read_simps Let_def mult.commute split: if_splits)
qed

theorem decode_tx_status_digests_witness:
  "\<exists>r. decode_tx_status demo_ext (replicate 8 0 @ [2, 0, 0, 0] @ replicate 512 0 @ replicate 40 9) 1
      = Ok r \<and> ts_tx_digests r = []"
proof -
  let ?p = "replicate 8 0 @ [2, 0, 0, 0] @ replicate 512 0 @ replicate 40 9 :: bytes"
  obtain r where r: "decode_tx_status demo_ext ?p 1 = Ok r"
    using tx_status.enough [of ?p demo_ext 1] by auto
  have "unat (u32_from_le (take 4 (drop 8 ?p))) = 2" by (simp add: u32_from_le_def)
  with decode_tx_status_digests [OF r] r show ?thesis by simp
qed

end
