(* ===== verification/Log_Decoder.thy ===== *)
theory Log_Decoder
  imports Decoders
begin

text \<open>
  \<^verbatim>\<open>decode_log_events\<close> of \<^verbatim>\<open>crates/ingestion/src/decoders.rs\<close>: the parser of packed log events.
  The \<^verbatim>\<open>while\<close> loop is \<open>log_loop\<close>, one iteration of it \<open>log_step\<close>, where \<open>Ok None\<close> is the \<^verbatim>\<open>break\<close>.
\<close>

definition read_length_prefix :: "bytes \<Rightarrow> nat \<Rightarrow> nat option outcome" where
  "read_length_prefix payload data_start =
     (if data_start + 2 \<le> length payload
      then bindR (rd_u16 payload data_start) (\<lambda>n. Ok (Some (unat n + 2)))
      else Ok None)"

definition log_data_size :: "bytes \<Rightarrow> nat \<Rightarrow> u8 \<Rightarrow> nat option outcome" where
  "log_data_size payload offset event_type =
     (let data_start = offset + LOG_HEADER_SIZE in
      if event_type = 0 then Ok (Some 64)
      else if event_type = 1 then Ok (Some 816)
      else if event_type = 2 then Ok (Some 64)
      else if event_type = 3 then Ok (Some 64)
      else if 4 \<le> event_type \<and> event_type \<le> 7 then read_length_prefix payload data_start
      else if event_type = 8 then Ok (Some 8)
      else if event_type = 9 then Ok (Some 8)
      else if event_type = 10 then Ok (Some 224)
      else if event_type = 11 then Ok (Some 64)
      else if event_type = 12 then Ok (Some 64)
      else if event_type = 13 then Ok (Some 8)
      else if event_type = 14 then Ok (Some 8)
      else if event_type = 15 then read_length_prefix payload data_start
      else if event_type = 255 then read_length_prefix payload data_start
      else if offset + 19 < length payload
      then bindR (index_u8 payload (offset + 19)) (\<lambda>size_byte.
             if 0 < size_byte then Ok (Some (unat size_byte)) else Ok None)
      else Ok None)"

definition log_step :: "bytes \<Rightarrow> nat \<Rightarrow> (log_event \<times> nat) option outcome" where
  "log_step payload offset =
     bindR (rd_u32 payload offset) (\<lambda>event_tick.
     bindR (rd_u32 payload (offset + 4)) (\<lambda>tx_index.
     bindR (rd_u16 payload (offset + 8)) (\<lambda>event_epoch.
     bindR (rd_i64 payload (offset + 10)) (\<lambda>amount.
     bindR (index_u8 payload (offset + 18)) (\<lambda>event_type.
     bindR (log_data_size payload offset event_type) (\<lambda>size.
     case size of None \<Rightarrow> Ok None
     | Some data_size \<Rightarrow>
         let data_start = offset + LOG_HEADER_SIZE;
             data_end = data_start + data_size
         in if length payload < data_end then Ok None
            else bindR (slice payload data_start data_end) (\<lambda>data.
                   Ok (Some (\<lparr>le_tick = event_tick, le_tx_index = tx_index,
                     le_epoch = event_epoch, le_amount = amount, le_event_type = event_type,
                     le_data = data\<rparr>, data_end)))))))))"

lemma log_step_progress:
  "log_step payload offset = Ok (Some (ev, next)) \<Longrightarrow> offset < next \<and> next \<le> length payload"
  by (auto simp: log_step_def outcome_simps Let_def LOG_HEADER_SIZE_def
      split: option.splits if_splits)

function log_loop :: "bytes \<Rightarrow> nat \<Rightarrow> log_event list \<Rightarrow> log_event list outcome" where
  "log_loop payload offset events =
     (if offset + LOG_HEADER_SIZE \<le> length payload
      then case log_step payload offset of
             Ok (Some (event, data_end)) \<Rightarrow> log_loop payload data_end (events @ [event])
           | Ok None \<Rightarrow> Ok events
           | Err e \<Rightarrow> Err e
           | Panic p \<Rightarrow> Panic p
      else Ok events)"
  by pat_completeness auto
termination
  by (relation "measure (\<lambda>(payload, offset, events). length payload - offset)")
    (auto simp: LOG_HEADER_SIZE_def dest: log_step_progress intro!: diff_less_mono2)

declare log_loop.simps [simp del]

definition decode_log_events :: "bytes \<Rightarrow> log_event list outcome" where
  "decode_log_events payload =
     (if length payload < 8 then Err (PayloadTooSmall ''BroadcastMessage'' (length payload) 8)
      else bindR (rd_u32 payload 0) (\<lambda>_. log_loop payload 8 []))"

section \<open>The layout of a log event\<close>

text \<open>
  The bytes of an event: a 26-byte header whose last seven bytes are reserved, then the data.
  The event type fixes the size of the data, or says where it is written: in a length prefix of
  the data, or, for an unknown type, in the first reserved byte.
\<close>

definition event_bytes :: "log_event \<times> bytes \<Rightarrow> bytes" where
  "event_bytes = (\<lambda>(ev, pad). u32_to_le (le_tick ev) @ u32_to_le (le_tx_index ev)
     @ u16_to_le (le_epoch ev) @ i64_to_le (le_amount ev) @ [le_event_type ev] @ pad @ le_data ev)"

definition fixed_sizes :: "(u8 \<times> nat) list" where
  "fixed_sizes = [(0, 64), (1, 816), (2, 64), (3, 64), (8, 8), (9, 8), (10, 224), (11, 64),
     (12, 64), (13, 8), (14, 8)]"

definition length_prefixed :: "u8 \<Rightarrow> bool" where
  "length_prefixed ty \<longleftrightarrow> ty \<in> {4, 5, 6, 7, 15, 255}"

definition data_sized :: "u8 \<Rightarrow> bytes \<Rightarrow> bytes \<Rightarrow> bool" where
  "data_sized ty pad data \<longleftrightarrow>
     (case map_of fixed_sizes ty of
        Some n \<Rightarrow> length data = n
      | None \<Rightarrow>
          if length_prefixed ty
          then 2 \<le> length data \<and> length data = unat (u16_from_le (take 2 data)) + 2
          else pad ! 0 \<noteq> 0 \<and> length data = unat (pad ! 0))"

definition wf_event :: "log_event \<times> bytes \<Rightarrow> bool" where
  "wf_event = (\<lambda>(ev, pad). length pad = 7 \<and> - (2 ^ 63) \<le> le_amount ev \<and> le_amount ev < 2 ^ 63
     \<and> data_sized (le_event_type ev) pad (le_data ev))"

lemma byte_le_7: "4 \<le> (b :: u8) \<and> b \<le> 7 \<longleftrightarrow> b \<in> {4, 5, 6, 7}"
proof -
  have "unat b \<in> {4..7} \<longleftrightarrow> unat b = 4 \<or> unat b = 5 \<or> unat b = 6 \<or> unat b = 7" by auto
  then show ?thesis by (simp add: word_le_nat_alt word_unat_eq_iff)
qed

lemma log_data_size_alt:
  "log_data_size p off ty =
     (case map_of fixed_sizes ty of
        Some n \<Rightarrow> Ok (Some n)
      | None \<Rightarrow>
          if length_prefixed ty then read_length_prefix p (off + 26)
          else if off + 19 < length p
          then bindR (index_u8 p (off + 19)) (\<lambda>b. if 0 < b then Ok (Some (unat b)) else Ok None)
          else Ok None)"
  unfolding log_data_size_def byte_le_7 Let_def LOG_HEADER_SIZE_def
  by (simp add: fixed_sizes_def length_prefixed_def)

lemma drop_off: "drop (off + k) p = drop k (drop off p)"
  by (simp add: add.commute)

lemma log_step_event:
  assumes wf: "wf_event (ev, pad)" and eq: "drop off p = event_bytes (ev, pad) @ rest"
  shows "log_step p off = Ok (Some (ev, off + 26 + length (le_data ev)))"
proof -
  let ?d = "le_data ev"
  have pad: "length pad = 7" and am: "i64_from_le (i64_to_le (le_amount ev)) = le_amount ev"
    and sized: "data_sized (le_event_type ev) pad ?d"
    using wf i64_from_to_le by (simp_all add: wf_event_def)
  have "length (drop off p) = 26 + length ?d + length rest"
    unfolding eq by (simp add: event_bytes_def pad)
  then have len: "length p = off + 26 + length ?d + length rest" by simp
  have r: "take 4 (drop off p) = u32_to_le (le_tick ev)"
    "take 4 (drop (off + 4) p) = u32_to_le (le_tx_index ev)"
    "take 2 (drop (off + 8) p) = u16_to_le (le_epoch ev)"
    "take 8 (drop (off + 10) p) = i64_to_le (le_amount ev)"
    "take (length ?d) (drop (off + 26) p) = ?d" "drop (off + 26) p = ?d @ rest"
    unfolding drop_off eq by (simp_all add: event_bytes_def pad)
  have "drop off p ! 18 = le_event_type ev" "drop off p ! 19 = pad ! 0"
    unfolding eq by (simp_all add: event_bytes_def pad nth_append)
  then have n: "p ! (off + 18) = le_event_type ev" "p ! (off + 19) = pad ! 0" using len by simp_all
  have "log_data_size p off (le_event_type ev) = Ok (Some (length ?d))"
    using sized len n r(6) unfolding log_data_size_alt data_sized_def
    by (auto simp: read_length_prefix_def read_simps word_gt_0 split: option.splits if_splits)
  then show ?thesis
    using len by (simp add: log_step_def read_simps n r am Let_def LOG_HEADER_SIZE_def)
qed

lemma log_step_sound:
  assumes "log_step p off = Ok (Some (ev, next))" and len: "off + 26 \<le> length p"
  shows "\<exists>pad. wf_event (ev, pad) \<and> drop off p = event_bytes (ev, pad) @ drop next p"
proof -
  define pad where "pad = take 7 (drop (off + 19) p)"
  obtain n where n: "log_data_size p off (p ! (off + 18)) = Ok (Some n)"
    using assms by (cases "log_data_size p off (p ! (off + 18))")
      (auto simp: log_step_def read_simps split: option.splits)
  have n_le: "off + 26 + n \<le> length p"
    using assms n by (auto simp: log_step_def read_simps Let_def LOG_HEADER_SIZE_def split: if_splits)
  have ev: "ev = \<lparr>le_tick = u32_from_le (take 4 (drop off p)),
      le_tx_index = u32_from_le (take 4 (drop (off + 4) p)),
      le_epoch = u16_from_le (take 2 (drop (off + 8) p)),
      le_amount = i64_from_le (take 8 (drop (off + 10) p)), le_event_type = p ! (off + 18),
      le_data = take n (drop (off + 26) p)\<rparr>" and nx: "next = off + 26 + n"
    using assms n n_le by (auto simp: log_step_def read_simps Let_def LOG_HEADER_SIZE_def)
  have pad0: "pad ! 0 = p ! (off + 19)" "length pad = 7" using len by (simp_all add: pad_def)
  have data: "length (le_data ev) = n" "take 2 (le_data ev) = take (min 2 n) (drop (off + 26) p)"
    using n_le by (simp_all add: ev)
  have "data_sized (le_event_type ev) pad (le_data ev)"
    using n data pad0 len n_le unfolding log_data_size_alt data_sized_def
    by (auto simp: read_length_prefix_def read_simps outcome_simps ev word_gt_0
        split: option.splits if_splits)
  moreover have "le_amount ev = i64_from_le (take 8 (drop (off + 10) p))" by (simp add: ev)
  ultimately have wf: "wf_event (ev, pad)"
    using i64_from_le_bounds [of "take 8 (drop (off + 10) p)"] pad0(2) by (simp add: wf_event_def)
  have "drop off p = event_bytes (ev, pad) @ drop next p"
  proof -
    have s: "drop (off + k) p = take m (drop (off + k) p) @ drop (off + (k + m)) p" for k m
      by (metis add.assoc append_take_drop_id drop_off)
    have t: "drop (off + 18) p = [p ! (off + 18)] @ drop (off + 19) p"
      using len Cons_nth_drop_Suc [of "off + 18" p] by (simp add: add.commute)
    have eb: "event_bytes (ev, pad) = take 4 (drop (off + 0) p) @ take 4 (drop (off + 4) p)
        @ take 2 (drop (off + 8) p) @ take 8 (drop (off + 10) p) @ [p ! (off + 18)]
        @ take 7 (drop (off + 19) p) @ take n (drop (off + 26) p)"
      using len by (simp add: event_bytes_def ev pad_def i64_to_le_def i64_from_le_def
          u64_le.enc_dec u32_le.enc_dec u16_le.enc_dec)
    have "drop (off + 0) p = event_bytes (ev, pad) @ drop (off + (26 + n)) p"
      unfolding eb append_assoc
      using s [of 0 4] s [of 4 4] s [of 8 2] s [of 10 8] t s [of 19 7] s [of 26 n]
      by (simp only: semiring_norm add_numeral_left numeral_plus_numeral)
    then show ?thesis by (simp add: nx add.assoc)
  qed
  with wf show ?thesis by blast
qed

lemma log_loop_events:
  assumes "list_all wf_event evs" and "drop off p = concat (map event_bytes evs) @ tail"
    and "length tail < 26"
  shows "log_loop p off acc = Ok (acc @ map fst evs)"
  using assms(1,2)
proof (induction evs arbitrary: off acc)
  case Nil
  then have "drop off p = tail" by simp
  then have "\<not> off + 26 \<le> length p"
    using assms(3) by (metis length_drop add_le_imp_le_diff add.commute not_le)
  then show ?case by (subst log_loop.simps) (simp add: LOG_HEADER_SIZE_def)
next
  case (Cons e evs)
  obtain ev pad where e: "e = (ev, pad)" by (cases e)
  let ?next = "off + 26 + length (le_data ev)"
  have q: "drop off p = event_bytes (ev, pad) @ (concat (map event_bytes evs) @ tail)"
    using Cons.prems by (simp add: e)
  have wf: "wf_event (ev, pad)" using Cons.prems by (simp add: e)
  then have l: "length (event_bytes (ev, pad)) = 26 + length (le_data ev)"
    by (simp add: event_bytes_def wf_event_def)
  have "length (drop off p) \<ge> 26" unfolding q using l by simp
  then have "off + 26 \<le> length p" by simp
  then have "log_loop p off acc = log_loop p ?next (acc @ [ev])"
    by (subst log_loop.simps) (simp add: LOG_HEADER_SIZE_def log_step_event [OF wf q])
  moreover have "drop ?next p = concat (map event_bytes evs) @ tail"
    unfolding add.assoc drop_off q l [symmetric] by simp
  ultimately show ?case using Cons by (simp add: e)
qed

lemma log_loop_sound:
  "\<exists>evs tail. log_loop p off acc = Ok (acc @ map fst evs) \<and> list_all wf_event evs
     \<and> drop off p = concat (map event_bytes evs) @ tail"
proof (induction p off acc rule: log_loop.induct)
  case (1 p off acc)
  show ?case
  proof (cases "off + 26 \<le> length p")
    case False
    then have "log_loop p off acc = Ok acc" by (subst log_loop.simps) (simp add: LOG_HEADER_SIZE_def)
    then show ?thesis by (intro exI [of _ "[]"] exI [of _ "drop off p"]) simp
  next
    case True
    have "\<exists>o'. log_step p off = Ok o'"
      using True by (auto simp: log_step_def read_simps log_data_size_alt read_length_prefix_def
          Let_def LOG_HEADER_SIZE_def split: option.split)
    then consider "log_step p off = Ok None"
      | ev nx where "log_step p off = Ok (Some (ev, nx))" by (metis not_Some_eq surj_pair)
    then show ?thesis
    proof cases
      case 1
      then have "log_loop p off acc = Ok acc" by (subst log_loop.simps) simp
      then show ?thesis by (intro exI [of _ "[]"] exI [of _ "drop off p"]) simp
    next
      case 2
      then have u: "log_loop p off acc = log_loop p nx (acc @ [ev])"
        using True by (subst log_loop.simps) (simp add: LOG_HEADER_SIZE_def)
      from "1.IH" [OF _ 2 refl refl] True obtain evs tail where
        "log_loop p nx (acc @ [ev]) = Ok ((acc @ [ev]) @ map fst evs)" "list_all wf_event evs"
        "drop nx p = concat (map event_bytes evs) @ tail"
        by (auto simp: LOG_HEADER_SIZE_def)
      moreover obtain pad where "wf_event (ev, pad)" "drop off p = event_bytes (ev, pad) @ drop nx p"
        using log_step_sound [OF 2 True] by blast
      ultimately show ?thesis unfolding u by (intro exI [of _ "(ev, pad) # evs"]) simp
    qed
  qed
qed

interpretation log_events: sized_decoder decode_log_events 8
proof
  fix p :: bytes
  assume "8 \<le> length p"
  then show "\<exists>r. decode_log_events p = Ok r"
    using log_loop_sound [of p 8 "[]"] by (auto simp: decode_log_events_def read_simps)
qed (simp add: decode_log_events_def)

section \<open>Properties\<close>

text \<open>
  C11: packed log events decode to exactly the events that were packed, of every type, fixed-size,
  length-prefixed or unknown, behind any eight byte message header; a tail too short for another
  header is ignored.
\<close>

theorem decode_log_events_complete:
  assumes "length msg_header = 8" "list_all wf_event evs" "length tail < 26"
  shows "decode_log_events (msg_header @ concat (map event_bytes evs) @ tail) = Ok (map fst evs)"
proof -
  let ?p = "msg_header @ concat (map event_bytes evs) @ tail"
  have "drop 8 ?p = concat (map event_bytes evs) @ tail" using assms(1) by simp
  from log_loop_events [OF assms(2) this assms(3), of "[]"] assms(1) show ?thesis
    by (simp add: decode_log_events_def read_simps)
qed

theorem decode_log_events_complete_witness:
  "decode_log_events ([1, 0, 0, 0, 0, 0, 0, 0] @ concat (map event_bytes
      [(\<lparr>le_tick = 1, le_tx_index = 2, le_epoch = 3, le_amount = - 4, le_event_type = 8,
         le_data = replicate 8 0\<rparr>, replicate 7 0),
       (\<lparr>le_tick = 1, le_tx_index = 3, le_epoch = 3, le_amount = 5, le_event_type = 200,
         le_data = [1, 2]\<rparr>, 2 # replicate 6 0)]) @ [])
    = Ok [\<lparr>le_tick = 1, le_tx_index = 2, le_epoch = 3, le_amount = - 4, le_event_type = 8,
         le_data = replicate 8 0\<rparr>,
        \<lparr>le_tick = 1, le_tx_index = 3, le_epoch = 3, le_amount = 5, le_event_type = 200,
         le_data = [1, 2]\<rparr>]"
  by (subst decode_log_events_complete)
    (simp_all add: wf_event_def data_sized_def fixed_sizes_def length_prefixed_def)

text \<open>
  C25: on every payload of at least eight bytes, however corrupted, the parser returns, and what it
  returns is there: the payload is its eight byte header, then the encodings of exactly the
  returned events, then the bytes it gave up on.
\<close>

theorem decode_log_events_sound:
  assumes "8 \<le> length p"
  shows "\<exists>evs tail. decode_log_events p = Ok (map fst evs) \<and> list_all wf_event evs
     \<and> p = take 8 p @ concat (map event_bytes evs) @ tail"
proof -
  obtain evs tail where "log_loop p 8 [] = Ok (map fst evs)" "list_all wf_event evs"
    "drop 8 p = concat (map event_bytes evs) @ tail"
    using log_loop_sound [of p 8 "[]"] by auto
  then show ?thesis using assms append_take_drop_id [of 8 p]
    by (intro exI [of _ evs] exI [of _ tail]) (simp add: decode_log_events_def read_simps)
qed

theorem decode_log_events_sound_witness:
  "\<exists>evs tail. decode_log_events (replicate 40 9) = Ok (map fst evs) \<and> list_all wf_event evs
     \<and> replicate 40 9 = take 8 (replicate 40 (9 :: u8)) @ concat (map event_bytes evs) @ tail"
  by (rule decode_log_events_sound) simp

end
