(* ===== verification/Votes.thy ===== *)
theory Votes
  imports Structs
begin

text \<open>
  The tick vote aggregator of \<^verbatim>\<open>crates/ingestion/src/decoder.rs\<close>: votes are collected per (epoch,
  tick), and the first time a quorum of distinct computors has voted for a tick, a quorum event
  is returned.  \<^verbatim>\<open>HashMap\<close> is a map, \<^verbatim>\<open>HashSet\<close> a set.
\<close>

type_synonym vote_key = "u16 \<times> u32"

record aggregator =
  votes :: "vote_key \<rightharpoonup> u16 set"
  quorum_published :: "vote_key set"

definition new_aggregator :: aggregator where
  "new_aggregator = \<lparr>votes = Map.empty, quorum_published = {}\<rparr>"

definition record_vote :: "u16 \<Rightarrow> u32 \<Rightarrow> u16 \<Rightarrow> aggregator \<Rightarrow> quorum_tick option \<times> aggregator" where
  "record_vote epoch tick computor_index agg =
     (let key = (epoch, tick);
          voted = insert computor_index (case votes agg key of None \<Rightarrow> {} | Some s \<Rightarrow> s);
          agg = agg\<lparr>votes := (votes agg)(key \<mapsto> voted)\<rparr>
      in if QUORUM \<le> card voted \<and> key \<notin> quorum_published agg
         then (Some \<lparr>qt_epoch = epoch, qt_tick = tick, qt_vote_count = word_of_nat (card voted),
                 qt_voted_computors = sorted_list_of_set voted\<rparr>,
               agg\<lparr>quorum_published := insert key (quorum_published agg)\<rparr>)
         else (None, agg))"

definition prune :: "u32 \<Rightarrow> u32 \<Rightarrow> aggregator \<Rightarrow> aggregator" where
  "prune latest_tick keep_ticks agg =
     (if keep_ticks < latest_tick
      then let cutoff = latest_tick - keep_ticks
           in agg\<lparr>votes := (\<lambda>key. if cutoff \<le> snd key then votes agg key else None),
                  quorum_published := {key \<in> quorum_published agg. cutoff \<le> snd key}\<rparr>
      else agg)"

section \<open>The aggregator as a state machine\<close>

text \<open>A run of the aggregator: votes in any order, pruned at any time.\<close>

inductive agg_step :: "aggregator \<Rightarrow> quorum_tick option \<Rightarrow> aggregator \<Rightarrow> bool" where
  vote: "record_vote epoch tick ci agg = (q, agg') \<Longrightarrow> agg_step agg q agg'"
| prune: "agg_step agg None (prune latest keep agg)"

inductive agg_reachable :: "aggregator \<Rightarrow> bool" where
  init: "agg_reachable new_aggregator"
| step: "agg_reachable agg \<Longrightarrow> agg_step agg q agg' \<Longrightarrow> agg_reachable agg'"

inductive_cases agg_stepE: "agg_step agg q agg'"

text \<open>
  The invariant: a tick is marked published exactly when a quorum of its voters is on record.
\<close>

definition agg_inv :: "aggregator \<Rightarrow> bool" where
  "agg_inv agg \<longleftrightarrow>
     (\<forall>key s. votes agg key = Some s \<longrightarrow>
        finite s \<and> (QUORUM \<le> card s \<longleftrightarrow> key \<in> quorum_published agg))
   \<and> (\<forall>key. key \<in> quorum_published agg \<longrightarrow> votes agg key \<noteq> None)"

lemma agg_invD:
  "agg_inv agg \<Longrightarrow> votes agg key = Some s \<Longrightarrow> finite s"
  "agg_inv agg \<Longrightarrow> votes agg key = Some s \<Longrightarrow> QUORUM \<le> card s \<longleftrightarrow> key \<in> quorum_published agg"
  "agg_inv agg \<Longrightarrow> votes agg key = None \<Longrightarrow> key \<notin> quorum_published agg"
  unfolding agg_inv_def by blast+

lemma agg_inv_new: "agg_inv new_aggregator"
  by (simp add: agg_inv_def new_aggregator_def)

definition voters :: "aggregator \<Rightarrow> vote_key \<Rightarrow> u16 set" where
  "voters agg key = (case votes agg key of None \<Rightarrow> {} | Some s \<Rightarrow> s)"

lemma finite_voters: "agg_inv agg \<Longrightarrow> finite (voters agg key)"
  by (auto simp: voters_def dest: agg_invD split: option.split)

lemma quorum_iff: "agg_inv agg \<Longrightarrow> key \<in> quorum_published agg \<longleftrightarrow> QUORUM \<le> card (voters agg key)"
  by (auto simp: voters_def QUORUM_value dest: agg_invD split: option.split)

lemma record_vote_alt:
  "record_vote epoch tick ci agg =
     (let key = (epoch, tick); voted = insert ci (voters agg key)
      in if QUORUM \<le> card voted \<and> key \<notin> quorum_published agg
         then (Some \<lparr>qt_epoch = epoch, qt_tick = tick, qt_vote_count = word_of_nat (card voted),
                 qt_voted_computors = sorted_list_of_set voted\<rparr>,
               \<lparr>votes = (votes agg)(key \<mapsto> voted),
                quorum_published = insert key (quorum_published agg)\<rparr>)
         else (None, \<lparr>votes = (votes agg)(key \<mapsto> voted),
                quorum_published = quorum_published agg\<rparr>))"
  by (cases agg) (simp add: record_vote_def voters_def Let_def)

lemma voters_record_vote:
  "voters (snd (record_vote epoch tick ci agg)) key =
     (if key = (epoch, tick) then insert ci (voters agg key) else voters agg key)"
  by (simp add: record_vote_alt Let_def voters_def)

lemma card_insert_voters:
  assumes "agg_inv agg"
  shows "card (insert ci (voters agg key)) =
     (if ci \<in> voters agg key then card (voters agg key) else Suc (card (voters agg key)))"
  using finite_voters [OF assms] by (simp add: card_insert_if)

lemma agg_inv_record_vote:
  assumes "agg_inv agg"
  shows "agg_inv (snd (record_vote epoch tick ci agg))"
  using assms finite_voters [OF assms] quorum_iff [OF assms] agg_invD [OF assms]
    card_insert_voters [OF assms, of ci "(epoch, tick)"]
  by (auto simp: record_vote_alt Let_def agg_inv_def split: if_splits)

lemma agg_inv_prune: "agg_inv agg \<Longrightarrow> agg_inv (prune latest keep agg)"
  by (auto simp: prune_def agg_inv_def Let_def)

lemma agg_inv_step: "agg_step agg q agg' \<Longrightarrow> agg_inv agg \<Longrightarrow> agg_inv agg'"
  by (erule agg_stepE) (metis agg_inv_record_vote snd_conv, simp add: agg_inv_prune)

lemma agg_inv_reachable: "agg_reachable agg \<Longrightarrow> agg_inv agg"
  by (induction rule: agg_reachable.induct) (auto intro: agg_inv_new agg_inv_step)

text \<open>The events returned for a sequence of votes.\<close>

fun run_votes :: "(vote_key \<times> u16) list \<Rightarrow> aggregator \<Rightarrow> quorum_tick list \<times> aggregator" where
  "run_votes [] agg = ([], agg)"
| "run_votes (((epoch, tick), ci) # vs) agg =
     (let (q, agg') = record_vote epoch tick ci agg; (qs, agg'') = run_votes vs agg'
      in (case q of None \<Rightarrow> qs | Some q \<Rightarrow> q # qs, agg''))"

definition quorum_key :: "quorum_tick \<Rightarrow> vote_key" where
  "quorum_key q = (qt_epoch q, qt_tick q)"

definition votes_for :: "vote_key \<Rightarrow> (vote_key \<times> u16) list \<Rightarrow> u16 set" where
  "votes_for key vs = {ci. (key, ci) \<in> set vs}"

lemma finite_votes_for: "finite (votes_for key vs)"
  by (rule finite_subset [of _ "snd ` set vs"]) (force simp: votes_for_def)+

lemma votes_for_Cons:
  "votes_for key ((k, ci) # vs) = (if k = key then insert ci (votes_for key vs) else votes_for key vs)"
  by (auto simp: votes_for_def)

lemma published_record_vote:
  "quorum_published (snd (record_vote epoch tick ci agg)) =
     (case fst (record_vote epoch tick ci agg) of None \<Rightarrow> quorum_published agg
      | Some q \<Rightarrow> insert (epoch, tick) (quorum_published agg))"
  by (simp add: record_vote_alt Let_def)

lemma record_vote_emits:
  "fst (record_vote epoch tick ci agg) = Some q \<Longrightarrow>
     quorum_key q = (epoch, tick) \<and> (epoch, tick) \<notin> quorum_published agg
     \<and> QUORUM \<le> card (insert ci (voters agg (epoch, tick)))"
  by (auto simp: record_vote_alt Let_def quorum_key_def split: if_splits)

lemma record_vote_silent:
  "fst (record_vote epoch tick ci agg) = None \<Longrightarrow>
     (epoch, tick) \<in> quorum_published agg
     \<or> card (insert ci (voters agg (epoch, tick))) < QUORUM"
  by (auto simp: record_vote_alt Let_def split: if_splits)

lemma run_votes_count:
  assumes "agg_inv agg"
  shows "length (filter (\<lambda>q. quorum_key q = key) (fst (run_votes vs agg))) =
     (if QUORUM \<le> card (voters agg key \<union> votes_for key vs) \<and> key \<notin> quorum_published agg
      then 1 else 0)"
  using assms
proof (induction vs agg rule: run_votes.induct)
  case (1 agg)
  then show ?case by (simp add: votes_for_def quorum_iff)
next
  case (2 epoch tick ci vs agg)
  obtain q agg' where r: "record_vote epoch tick ci agg = (q, agg')" by fastforce
  have inv': "agg_inv agg'" using agg_inv_record_vote [OF "2.prems"] r by (metis snd_conv)
  let ?k = "(epoch, tick)"
  have v': "voters agg' key = (if key = ?k then insert ci (voters agg key) else voters agg key)"
    using voters_record_vote [of epoch tick ci agg key] r by simp
  then have u: "voters agg' key \<union> votes_for key vs
      = voters agg key \<union> votes_for key ((?k, ci) # vs)"
    by (auto simp: votes_for_Cons)
  have p': "quorum_published agg' = (case q of None \<Rightarrow> quorum_published agg
      | Some q \<Rightarrow> insert ?k (quorum_published agg))"
    using published_record_vote [of epoch tick ci agg] r by simp
  have IH: "length (filter (\<lambda>q. quorum_key q = key) (fst (run_votes vs agg')))
      = (if QUORUM \<le> card (voters agg key \<union> votes_for key ((?k, ci) # vs))
          \<and> key \<notin> quorum_published agg' then 1 else 0)"
    using "2.IH" [OF r [symmetric] refl inv'] u by simp
  show ?case
  proof (cases q)
    case None
    then show ?thesis using IH p' r by (simp add: case_prod_beta)
  next
    case (Some q')
    have e: "quorum_key q' = ?k" "?k \<notin> quorum_published agg"
      "QUORUM \<le> card (insert ci (voters agg ?k))"
      using record_vote_emits [of epoch tick ci agg q'] r Some by simp_all
    have "card (insert ci (voters agg ?k)) \<le> card (voters agg ?k \<union> votes_for ?k ((?k, ci) # vs))"
      using finite_voters [OF "2.prems"] finite_votes_for
      by (intro card_mono) (auto simp: votes_for_Cons)
    then show ?thesis using IH p' r Some e by (auto simp: case_prod_beta)
  qed
qed

lemma run_votes_reachable: "agg_reachable agg \<Longrightarrow> agg_reachable (snd (run_votes vs agg))"
proof (induction vs agg rule: run_votes.induct)
  case (2 epoch tick ci vs agg)
  obtain q agg' where r: "record_vote epoch tick ci agg = (q, agg')" by fastforce
  then have "agg_reachable agg'" using "2.prems" by (blast intro: agg_reachable.step agg_step.vote)
  then show ?case using "2.IH" r by (simp add: case_prod_beta)
qed simp

lemma voters_run_votes: "voters (snd (run_votes vs agg)) key = voters agg key \<union> votes_for key vs"
proof (induction vs agg rule: run_votes.induct)
  case (1 agg)
  then show ?case by (simp add: votes_for_def)
next
  case (2 epoch tick ci vs agg)
  obtain q agg' where r: "record_vote epoch tick ci agg = (q, agg')" by fastforce
  show ?case
    using "2.IH" [OF r [symmetric] refl] voters_record_vote [of epoch tick ci agg key] r
    by (auto simp: case_prod_beta votes_for_Cons)
qed

section \<open>Properties\<close>


text \<open>
  C14: in every reachable state of the aggregator, prunings included, a vote that returns a quorum
  event is the 451st distinct vote for its tick; the event names that tick, counts 451 votes and
  lists the voters in strictly increasing order.
\<close>

theorem record_vote_quorum:
  assumes "agg_reachable agg" and "record_vote epoch tick ci agg = (Some q, agg')"
  shows "card (voters agg (epoch, tick)) = QUORUM - 1 \<and> ci \<notin> voters agg (epoch, tick)
    \<and> qt_epoch q = epoch \<and> qt_tick q = tick \<and> unat (qt_vote_count q) = QUORUM
    \<and> sorted_wrt (<) (qt_voted_computors q) \<and> length (qt_voted_computors q) = QUORUM
    \<and> set (qt_voted_computors q) = insert ci (voters agg (epoch, tick))"
proof -
  let ?k = "(epoch, tick)" and ?v = "insert ci (voters agg (epoch, tick))"
  have inv: "agg_inv agg" using assms(1) by (rule agg_inv_reachable)
  have q: "q = \<lparr>qt_epoch = epoch, qt_tick = tick, qt_vote_count = word_of_nat (card ?v),
      qt_voted_computors = sorted_list_of_set ?v\<rparr>" and ge: "QUORUM \<le> card ?v"
    and np: "?k \<notin> quorum_published agg"
    using assms(2) by (simp_all add: record_vote_alt Let_def split: if_splits)
  have lt: "card (voters agg ?k) < QUORUM" using np quorum_iff [OF inv] by simp
  with ge have new: "ci \<notin> voters agg ?k" "card (voters agg ?k) = QUORUM - 1"
    using card_insert_voters [OF inv, of ci ?k] by (auto split: if_splits)
  then have c: "card ?v = QUORUM" using card_insert_voters [OF inv, of ci ?k] lt by simp
  define V where "V = ?v"
  have fin: "finite V" using finite_voters [OF inv] by (simp add: V_def)
  show ?thesis
    using new c fin strict_sorted_list_of_set [of V] unfolding q V_def [symmetric]
    by (simp add: QUORUM_value unat_of_nat)
qed

theorem record_vote_quorum_witness:
  "\<exists>agg q agg'. agg_reachable agg \<and> record_vote 1 2 500 agg = (Some q, agg')
     \<and> unat (qt_vote_count q) = QUORUM"
proof -
  let ?vs = "map (\<lambda>i. ((1, 2), word_of_nat i)) [0..<450] :: (vote_key \<times> u16) list"
  define agg where "agg = snd (run_votes ?vs new_aggregator)"
  have reach: "agg_reachable agg"
    unfolding agg_def by (intro run_votes_reachable agg_reachable.init)
  have v: "voters agg (1, 2) = word_of_nat ` {0..<450}"
    unfolding agg_def voters_run_votes
    by (auto simp: votes_for_def voters_def new_aggregator_def)
  have inj: "inj_on (word_of_nat :: nat \<Rightarrow> u16) {0..<450}"
    by (rule inj_onI) (simp add: of_nat_inverse word_of_nat_eq_iff take_bit_nat_eq_self)
  have c: "card (voters agg (1, 2)) = 450" unfolding v using card_image [OF inj] by simp
  have n: "(500 :: u16) \<notin> voters agg (1, 2)"
  proof
    assume "(500 :: u16) \<in> voters agg (1, 2)"
    then obtain i :: nat where "i < 450" "unat (word_of_nat i :: u16) = 500"
      unfolding v by (auto dest: arg_cong [of _ _ unat])
    then show False by (simp add: unat_of_nat)
  qed
  have "card (insert 500 (voters agg (1, 2))) = 451" "(1, 2) \<notin> quorum_published agg"
    using c n finite_voters [OF agg_inv_reachable [OF reach]]
      quorum_iff [OF agg_inv_reachable [OF reach], of "(1, 2)"]
    by (simp_all add: QUORUM_value)
  then obtain q agg' where r: "record_vote 1 2 500 agg = (Some q, agg')"
    by (simp add: record_vote_alt QUORUM_value Let_def)
  from record_vote_quorum [OF reach r] r reach show ?thesis by blast
qed

text \<open>
  Pruning keeps exactly the ticks within the window below the latest one, votes and published
  marks alike, so that whether a kept tick has been published is unchanged.
\<close>

theorem prune_window:
  assumes "keep < latest"
  shows "voters (prune latest keep agg) key
      = (if latest - keep \<le> snd key then voters agg key else {})
    \<and> (key \<in> quorum_published (prune latest keep agg)
        \<longleftrightarrow> key \<in> quorum_published agg \<and> latest - keep \<le> snd key)"
  using assms by (simp add: prune_def voters_def Let_def)

theorem prune_window_witness:
  "voters (prune 1000 256 \<lparr>votes = [(1, 5) \<mapsto> {7}], quorum_published = {(1, 5)}\<rparr>) (1, 5) = {}"
  using prune_window [of 256 1000 "\<lparr>votes = [(1, 5) \<mapsto> {7}], quorum_published = {(1, 5)}\<rparr>" "(1, 5)"]
  by (simp add: voters_def)

end
