(* ===== verification/Packet_Decoder.thy ===== *)
theory Packet_Decoder
  imports Log_Decoder Votes
begin

text \<open>
  \<^verbatim>\<open>crates/ingestion/src/decoder.rs\<close>, \<^verbatim>\<open>nats_publish.rs\<close> and the stream table of \<^verbatim>\<open>nats_setup.rs\<close>:
  a packet is dispatched on its type, decoded, and published as JSON under a subject.  The
  JetStream context (\<^verbatim>\<open>async_nats\<close>) and the JSON serialiser (\<^verbatim>\<open>serde_json\<close>) are parameters; a
  publish has two steps, sending and waiting for the acknowledgement.
\<close>

record custom_message =
  cm_tick :: u32
  cm_message_type :: u32
  cm_payload_hex :: string

record tick_vote =
  tv_computor_index :: u16
  tv_epoch :: u16
  tv_tick :: u32

datatype event =
    TickEvent tick_data
  | TxEvent transaction
  | EntityEvent entity_data
  | ComputorsEvent computors
  | CustomMessageEvent custom_message
  | ContractIpoEvent contract_ipo
  | ContractFnEvent u32 string
  | TickVoteEvent tick_vote
  | LogEvents "log_event list"
  | QuorumEvent quorum_tick
  | LogDigestEvent log_state_digest
  | OracleEvent oracle_data_response
  | MiningTaskEvent custom_mining_task
  | MiningSolutionEvent custom_mining_solution

record 'n nats =
  js_publish :: "string \<Rightarrow> bytes \<Rightarrow> 'n \<Rightarrow> unit outcome \<times> 'n"
  js_ack :: "string \<Rightarrow> 'n \<Rightarrow> unit outcome \<times> 'n"
  to_vec :: "event \<Rightarrow> bytes outcome"

section \<open>The publisher\<close>

definition subject :: "u16 \<Rightarrow> string \<Rightarrow> string" where
  "subject epoch kind = ''Q.'' @ show_nat (unat epoch) @ ''.QONDUIT.'' @ kind"

definition do_publish :: "'n nats \<Rightarrow> bool \<Rightarrow> string \<Rightarrow> bytes \<Rightarrow> 'n \<Rightarrow> unit outcome \<times> 'n" where
  "do_publish N fire_and_forget subj payload n =
     bindS (js_publish N subj payload n) (\<lambda>_ n.
       if \<not> fire_and_forget then js_ack N subj n else (Ok (), n))"

definition publish_event :: "'n nats \<Rightarrow> bool \<Rightarrow> string \<Rightarrow> event \<Rightarrow> 'n \<Rightarrow> unit outcome \<times> 'n" where
  "publish_event N ff subj ev n =
     bindS (liftS (to_vec N ev) n) (\<lambda>payload. do_publish N ff subj payload)"

definition publish_tick where
  "publish_tick N ff epoch tick =
     publish_event N ff (subject epoch ''TICK'')
       (TickEvent (tick\<lparr>td_transaction_digests_hex := [], td_contract_fees_hex := [],
          td_signature_hex := []\<rparr>))"

definition publish_tx where
  "publish_tx N ff epoch tx = publish_event N ff (subject epoch ''TX'') (TxEvent tx)"

definition publish_entity where
  "publish_entity N ff epoch entity =
     publish_event N ff (subject epoch ''ENTITY'') (EntityEvent entity)"

definition publish_computors where
  "publish_computors N ff epoch c =
     publish_event N ff (subject epoch ''COMPUTORS'') (ComputorsEvent c)"

definition publish_custom_message where
  "publish_custom_message N ff epoch msg =
     publish_event N ff (subject epoch ''CUSTMSG'') (CustomMessageEvent msg)"

definition publish_contract_ipo where
  "publish_contract_ipo N ff epoch ipo =
     publish_event N ff (subject epoch ''CONTRACT'') (ContractIpoEvent ipo)"

definition publish_contract_fn where
  "publish_contract_fn X N ff epoch dejavu data =
     publish_event N ff (subject epoch ''CFNR'') (ContractFnEvent dejavu (hex_encode X data))"

definition publish_tick_vote where
  "publish_tick_vote N ff epoch v =
     publish_event N ff (subject epoch ''TICKVOTE'') (TickVoteEvent v)"

definition publish_log_events where
  "publish_log_events N ff epoch events =
     publish_event N ff (subject epoch ''LOG'') (LogEvents events)"

definition publish_quorum_tick where
  "publish_quorum_tick N ff epoch q =
     publish_event N ff (subject epoch ''QUORUM'') (QuorumEvent q)"

definition publish_log_state_digest where
  "publish_log_state_digest N ff d =
     publish_event N ff ''Q.0.QONDUIT.LOGDIGEST'' (LogDigestEvent d)"

definition publish_oracle_data where
  "publish_oracle_data N ff epoch oracle =
     publish_event N ff (subject epoch ''ORACLE'') (OracleEvent oracle)"

definition publish_custom_mining_task where
  "publish_custom_mining_task N ff epoch task =
     publish_event N ff (subject epoch ''MINING'') (MiningTaskEvent task)"

definition publish_custom_mining_solution where
  "publish_custom_mining_solution N ff epoch solution =
     publish_event N ff (subject epoch ''MINING'') (MiningSolutionEvent solution)"

text \<open>The stream table: name and subject patterns.\<close>

definition stream_definitions :: "(string \<times> string list) list" where
  "stream_definitions = [
     (''QONDUIT_TICK'', [''Q.*.QONDUIT.TICK'']),
     (''QONDUIT_TX'', [''Q.*.QONDUIT.TX'']),
     (''QONDUIT_ENTITY'', [''Q.*.QONDUIT.ENTITY'']),
     (''QONDUIT_COMPUTORS'', [''Q.*.QONDUIT.COMPUTORS'']),
     (''QONDUIT_CUSTMSG'', [''Q.*.QONDUIT.CUSTMSG'']),
     (''QONDUIT_ORACLE'', [''Q.*.QONDUIT.ORACLE'']),
     (''QONDUIT_ASSET'', [''Q.*.QONDUIT.ASSET'']),
     (''QONDUIT_CONTRACT'', [''Q.*.QONDUIT.CONTRACT'']),
     (''QONDUIT_TICKVOTE'', [''Q.*.QONDUIT.TICKVOTE'']),
     (''QONDUIT_CFNR'', [''Q.*.QONDUIT.CFNR'']),
     (''QONDUIT_QUORUM'', [''Q.*.QONDUIT.QUORUM'']),
     (''QONDUIT_LOG'', [''Q.*.QONDUIT.LOG'']),
     (''QONDUIT_LOGDIGEST'', [''Q.*.QONDUIT.LOGDIGEST'']),
     (''QONDUIT_MINING'', [''Q.*.QONDUIT.MINING'']),
     (''QONDUIT_SPECTRUM'', [''Q.*.QONDUIT.SPECTRUM''])]"

section \<open>The packet decoder\<close>

record 'n packet_decoder =
  js :: 'n
  fire_and_forget :: bool
  vote_aggregator :: aggregator
  vote_count :: u64
  packets_received :: nat
  packets_by_type :: "u8 \<Rightarrow> nat"
  packets_published :: nat

definition PRUNE_INTERVAL :: u64 where "PRUNE_INTERVAL = 10000"
definition KEEP_TICKS :: u32 where "KEEP_TICKS = 256"

text \<open>A call of the publisher from a method of the decoder.\<close>

definition with_publisher :: "(bool \<Rightarrow> 'n \<Rightarrow> unit outcome \<times> 'n) \<Rightarrow> 'n packet_decoder
    \<Rightarrow> unit outcome \<times> 'n packet_decoder" where
  "with_publisher f d = (case f (fire_and_forget d) (js d) of (r, n) \<Rightarrow> (r, d\<lparr>js := n\<rparr>))"

definition new_decoder :: "'n \<Rightarrow> bool \<Rightarrow> 'n packet_decoder" where
  "new_decoder n ff = \<lparr>js = n, fire_and_forget = ff, vote_aggregator = new_aggregator,
     vote_count = 0, packets_received = 0, packets_by_type = (\<lambda>_. 0), packets_published = 0\<rparr>"

definition aggregate_vote :: "tick_vote \<Rightarrow> 'n packet_decoder
    \<Rightarrow> quorum_tick option \<times> 'n packet_decoder" where
  "aggregate_vote v d =
     (case record_vote (tv_epoch v) (tv_tick v) (tv_computor_index v) (vote_aggregator d) of
        (result, agg) \<Rightarrow>
          let count = vote_count d + 1;
              agg = (if count mod PRUNE_INTERVAL = 0 then prune (tv_tick v) KEEP_TICKS agg else agg)
          in (result, d\<lparr>vote_aggregator := agg, vote_count := count\<rparr>))"

definition decode_tick_vote :: "'n nats \<Rightarrow> bytes \<Rightarrow> u16 \<Rightarrow> 'n packet_decoder
    \<Rightarrow> unit outcome \<times> 'n packet_decoder" where
  "decode_tick_vote N payload current_epoch d =
     (if length payload < 20 then (Ok (), d)
      else
        bindS (liftS (rd_u16 payload 0) d) (\<lambda>computor_index d.
        bindS (liftS (rd_u16 payload 2) d) (\<lambda>epoch d.
        bindS (liftS (rd_u32 payload 4) d) (\<lambda>tick d.
        let v = \<lparr>tv_computor_index = computor_index, tv_epoch = epoch, tv_tick = tick\<rparr> in
        bindS (with_publisher (\<lambda>ff. publish_tick_vote N ff current_epoch v) d) (\<lambda>_ d.
        case aggregate_vote v d of
          (None, d) \<Rightarrow> (Ok (), d)
        | (Some q, d) \<Rightarrow> with_publisher (\<lambda>ff. publish_quorum_tick N ff current_epoch q) d)))))"

definition decode_broadcast_message :: "ext \<Rightarrow> 'n nats \<Rightarrow> bytes \<Rightarrow> u16 \<Rightarrow> 'n packet_decoder
    \<Rightarrow> unit outcome \<times> 'n packet_decoder" where
  "decode_broadcast_message X N payload current_epoch d =
     bindS (liftS (decode_log_events payload) d) (\<lambda>events d.
     bindS (if events \<noteq> []
            then with_publisher (\<lambda>ff. publish_log_events N ff current_epoch events) d
            else (Ok (), d)) (\<lambda>_ d.
     forS (\<lambda>event. with_publisher (\<lambda>ff. publish_custom_message N ff current_epoch
             \<lparr>cm_tick = le_tick event, cm_message_type = ucast (le_event_type event),
              cm_payload_hex = hex_encode X (le_data event)\<rparr>)) events d))"

text \<open>Decode, then hand the record to the publisher; or decode only.\<close>

definition decode_then :: "'a outcome \<Rightarrow> ('a \<Rightarrow> bool \<Rightarrow> 'n \<Rightarrow> unit outcome \<times> 'n) \<Rightarrow> 'n packet_decoder
    \<Rightarrow> unit outcome \<times> 'n packet_decoder" where
  "decode_then decoded publish d = bindS (liftS decoded d) (\<lambda>x. with_publisher (publish x))"

definition decode_only :: "'a outcome \<Rightarrow> 'n packet_decoder \<Rightarrow> unit outcome \<times> 'n packet_decoder" where
  "decode_only decoded d = bindS (liftS decoded d) (\<lambda>_ d. (Ok (), d))"

definition handle_tick where
  "handle_tick X N payload epoch =
     decode_then (decode_tick X payload) (\<lambda>t ff. publish_tick N ff epoch t)"

definition handle_transaction where
  "handle_transaction X N payload epoch =
     decode_then (decode_transaction X payload) (\<lambda>t ff. publish_tx N ff epoch t)"

definition handle_computors where
  "handle_computors X N payload epoch =
     decode_then (decode_computors X payload) (\<lambda>c ff. publish_computors N ff epoch c)"

definition handle_entity where
  "handle_entity X N payload epoch =
     decode_then (decode_entity X payload) (\<lambda>e ff. publish_entity N ff epoch e)"

definition handle_contract_ipo where
  "handle_contract_ipo X N payload epoch =
     decode_then (decode_contract_ipo X payload) (\<lambda>i ff. publish_contract_ipo N ff epoch i)"

definition handle_system_info where
  "handle_system_info X payload =
     decode_only (decode_system_info X payload)"

definition handle_current_tick_info where
  "handle_current_tick_info payload =
     decode_only (decode_current_tick_info payload)"

definition handle_contract_function where
  "handle_contract_function X N payload dejavu epoch =
     with_publisher (\<lambda>ff. publish_contract_fn X N ff epoch dejavu payload)"

definition handle_all_log_id_ranges where
  "handle_all_log_id_ranges payload =
     decode_only (decode_all_log_id_ranges payload 0)"

definition handle_pruning_log where
  "handle_pruning_log payload =
     decode_only (decode_pruning_log_response payload)"

definition handle_log_state_digest where
  "handle_log_state_digest X N payload =
     decode_then (decode_log_state_digest X payload) (\<lambda>d ff. publish_log_state_digest N ff d)"

definition handle_oracle_data where
  "handle_oracle_data X N payload epoch =
     decode_then (decode_oracle_data X payload) (\<lambda>r ff. publish_oracle_data N ff epoch r)"

definition handle_custom_mining_task where
  "handle_custom_mining_task X N payload epoch =
     decode_then (decode_custom_mining_task X payload) (\<lambda>t ff. publish_custom_mining_task N ff epoch t)"

definition handle_custom_mining_solution where
  "handle_custom_mining_solution X N payload epoch =
     decode_then (decode_custom_mining_solution X payload) (\<lambda>s ff. publish_custom_mining_solution N ff epoch s)"

definition handle_tx_status where
  "handle_tx_status X payload =
     decode_only (decode_tx_status X payload 0)"

lemmas handler_defs = handle_tick_def handle_transaction_def handle_computors_def
  handle_entity_def handle_contract_ipo_def handle_system_info_def
  handle_current_tick_info_def handle_contract_function_def handle_all_log_id_ranges_def
  handle_pruning_log_def handle_log_state_digest_def handle_oracle_data_def
  handle_custom_mining_task_def handle_custom_mining_solution_def handle_tx_status_def

definition dispatch :: "ext \<Rightarrow> 'n nats \<Rightarrow> u8 \<Rightarrow> u32 \<Rightarrow> bytes \<Rightarrow> u16 \<Rightarrow> 'n packet_decoder
    \<Rightarrow> unit outcome \<times> 'n packet_decoder" where
  "dispatch X N msg_type dejavu payload epoch =
     (if msg_type = 3 then decode_tick_vote N payload epoch
      else if msg_type = 8 then handle_tick X N payload epoch
      else if msg_type = 24 then handle_transaction X N payload epoch
      else if msg_type = 2 then handle_computors X N payload epoch
      else if msg_type = 32 then handle_entity X N payload epoch
      else if msg_type = 34 then handle_contract_ipo X N payload epoch
      else if msg_type = 47 then handle_system_info X payload
      else if msg_type = 28 then handle_current_tick_info payload
      else if msg_type = 43 then handle_contract_function X N payload dejavu epoch
      else if msg_type = 51 then handle_all_log_id_ranges payload
      else if msg_type = 54 then (\<lambda>d. (Ok (), d))
      else if msg_type = 35 then (\<lambda>d. (Ok (), d))
      else if msg_type = 1 then decode_broadcast_message X N payload epoch
      else if msg_type = 57 then handle_pruning_log payload
      else if msg_type = 59 then handle_log_state_digest X N payload
      else if msg_type = 67 then handle_oracle_data X N payload epoch
      else if msg_type = 68 then handle_custom_mining_task X N payload epoch
      else if msg_type = 69 then handle_custom_mining_solution X N payload epoch
      else if msg_type = 202 then handle_tx_status X payload
      else (\<lambda>d. (Ok (), d)))"

definition decode_and_publish :: "ext \<Rightarrow> 'n nats \<Rightarrow> u8 \<Rightarrow> u32 \<Rightarrow> bytes \<Rightarrow> u16 \<Rightarrow> 'n packet_decoder
    \<Rightarrow> unit outcome \<times> 'n packet_decoder" where
  "decode_and_publish X N msg_type dejavu payload current_epoch d =
     (let d = d\<lparr>packets_received := packets_received d + 1,
                packets_by_type := (packets_by_type d)(msg_type := packets_by_type d msg_type + 1)\<rparr>
      in bindS (dispatch X N msg_type dejavu payload current_epoch d) (\<lambda>_ d.
           (Ok (), d\<lparr>packets_published := packets_published d + 1\<rparr>)))"

section \<open>What is published\<close>

text \<open>
  The specification of the dispatcher for every type but votes: the messages a packet gives rise
  to, with their subjects, as a pure function of the packet.
\<close>

definition one :: "'a outcome \<Rightarrow> ('a \<Rightarrow> string \<times> event) \<Rightarrow> (string \<times> event) list outcome" where
  "one r f = bindR r (\<lambda>x. Ok [f x])"

definition none :: "'a outcome \<Rightarrow> (string \<times> event) list outcome" where
  "none r = bindR r (\<lambda>_. Ok [])"

definition slim_tick :: "tick_data \<Rightarrow> tick_data" where
  "slim_tick t = t\<lparr>td_transaction_digests_hex := [], td_contract_fees_hex := [],
     td_signature_hex := []\<rparr>"

definition log_messages :: "ext \<Rightarrow> u16 \<Rightarrow> log_event list \<Rightarrow> (string \<times> event) list" where
  "log_messages X epoch evs =
     (if evs = [] then [] else [(subject epoch ''LOG'', LogEvents evs)])
     @ map (\<lambda>e. (subject epoch ''CUSTMSG'', CustomMessageEvent \<lparr>cm_tick = le_tick e,
         cm_message_type = ucast (le_event_type e), cm_payload_hex = hex_encode X (le_data e)\<rparr>)) evs"

definition route :: "ext \<Rightarrow> u8 \<Rightarrow> u32 \<Rightarrow> bytes \<Rightarrow> u16 \<Rightarrow> (string \<times> event) list outcome" where
  "route X ty dejavu p epoch =
     (if ty = 8 then one (decode_tick X p) (\<lambda>t. (subject epoch ''TICK'', TickEvent (slim_tick t)))
      else if ty = 24 then one (decode_transaction X p) (\<lambda>t. (subject epoch ''TX'', TxEvent t))
      else if ty = 2 then one (decode_computors X p) (\<lambda>c. (subject epoch ''COMPUTORS'', ComputorsEvent c))
      else if ty = 32 then one (decode_entity X p) (\<lambda>e. (subject epoch ''ENTITY'', EntityEvent e))
      else if ty = 34 then one (decode_contract_ipo X p) (\<lambda>i. (subject epoch ''CONTRACT'', ContractIpoEvent i))
      else if ty = 43 then Ok [(subject epoch ''CFNR'', ContractFnEvent dejavu (hex_encode X p))]
      else if ty = 1 then bindR (decode_log_events p) (\<lambda>evs. Ok (log_messages X epoch evs))
      else if ty = 59 then one (decode_log_state_digest X p) (\<lambda>d. (subject 0 ''LOGDIGEST'', LogDigestEvent d))
      else if ty = 67 then one (decode_oracle_data X p) (\<lambda>r. (subject epoch ''ORACLE'', OracleEvent r))
      else if ty = 68 then one (decode_custom_mining_task X p) (\<lambda>t. (subject epoch ''MINING'', MiningTaskEvent t))
      else if ty = 69 then one (decode_custom_mining_solution X p) (\<lambda>t. (subject epoch ''MINING'', MiningSolutionEvent t))
      else if ty = 47 then none (decode_system_info X p)
      else if ty = 28 then none (decode_current_tick_info p)
      else if ty = 51 then none (decode_all_log_id_ranges p 0)
      else if ty = 57 then none (decode_pruning_log_response p)
      else if ty = 202 then none (decode_tx_status X p 0)
      else Ok [])"

text \<open>
  A healthy JetStream context, over a view of the messages it has stored: every publish is
  accepted and acknowledged, and every event has a serialisation.
\<close>

definition nats_healthy :: "'n nats \<Rightarrow> ('n \<Rightarrow> (string \<times> bytes) list) \<Rightarrow> (event \<Rightarrow> bytes) \<Rightarrow> bool" where
  "nats_healthy N stored J \<longleftrightarrow>
     (\<forall>ev. to_vec N ev = Ok (J ev))
   \<and> (\<forall>s p n. \<exists>n'. js_publish N s p n = (Ok (), n') \<and> stored n' = stored n @ [(s, p)])
   \<and> (\<forall>s n. \<exists>n'. js_ack N s n = (Ok (), n') \<and> stored n' = stored n)"

definition mem_nats :: "(event \<Rightarrow> bytes) \<Rightarrow> (string \<times> bytes) list nats" where
  "mem_nats J = \<lparr>js_publish = (\<lambda>s p n. (Ok (), n @ [(s, p)])), js_ack = (\<lambda>s n. (Ok (), n)),
     to_vec = (\<lambda>ev. Ok (J ev))\<rparr>"

lemma mem_nats_healthy: "nats_healthy (mem_nats J) id J"
  by (simp add: nats_healthy_def mem_nats_def)

lemma publish_event_healthy:
  assumes "nats_healthy N stored J"
  obtains n' where "publish_event N ff s ev n = (Ok (), n')" "stored n' = stored n @ [(s, J ev)]"
proof -
  have v: "to_vec N ev = Ok (J ev)" using assms by (simp add: nats_healthy_def)
  obtain n1 where n1: "js_publish N s (J ev) n = (Ok (), n1)" "stored n1 = stored n @ [(s, J ev)]"
    using assms unfolding nats_healthy_def by blast
  obtain n2 where n2: "js_ack N s n1 = (Ok (), n2)" "stored n2 = stored n1"
    using assms unfolding nats_healthy_def by blast
  show thesis
    using that [of "if ff then n1 else n2"] v n1 n2
    by (simp add: publish_event_def do_publish_def split: if_splits)
qed

text \<open>What a handler that only publishes leaves of the decoder.\<close>

definition publishes :: "('n \<Rightarrow> (string \<times> bytes) list) \<Rightarrow> (event \<Rightarrow> bytes) \<Rightarrow>
    (string \<times> event) list outcome \<Rightarrow> 'n packet_decoder \<Rightarrow> unit outcome \<times> 'n packet_decoder \<Rightarrow> bool" where
  "publishes stored J ms d res \<longleftrightarrow>
     fst res = bindR ms (\<lambda>_. Ok ()) \<and> (\<exists>n'. snd res = d\<lparr>js := n'\<rparr>
       \<and> stored n' = stored (js d) @ (case ms of Ok ms \<Rightarrow> map (\<lambda>(s, e). (s, J e)) ms | _ \<Rightarrow> []))"

lemma publishes_with_publisher:
  assumes "nats_healthy N stored J"
  shows "publishes stored J (Ok [(s, ev)]) d (with_publisher (\<lambda>ff. publish_event N ff s ev) d)"
proof -
  obtain n' where "publish_event N (fire_and_forget d) s ev (js d) = (Ok (), n')"
    "stored n' = stored (js d) @ [(s, J ev)]" by (rule publish_event_healthy [OF assms])
  then show ?thesis by (auto simp: publishes_def with_publisher_def)
qed

lemma publishes_decode_then:
  assumes "nats_healthy N stored J"
    and "\<And>x ff. publish x ff = publish_event N ff (fst (f x)) (snd (f x))"
  shows "publishes stored J (one r f) d (decode_then r publish d)"
proof (cases r)
  case (Ok x)
  have "publish x = (\<lambda>ff. publish_event N ff (fst (f x)) (snd (f x)))" using assms(2) by blast
  with publishes_with_publisher [OF assms(1), of "fst (f x)" "snd (f x)" d] Ok show ?thesis
    by (simp add: one_def decode_then_def)
qed (auto simp: publishes_def one_def decode_then_def intro: exI [of _ "js d"])

lemma publishes_decode_only: "publishes stored J (none r) d (decode_only r d)"
  by (cases r) (auto simp: publishes_def none_def decode_only_def intro: exI [of _ "js d"])

lemma publishes_nothing: "publishes stored J (Ok []) d (Ok (), d)"
  by (auto simp: publishes_def intro: exI [of _ "js d"])

lemma publishes_append:
  assumes "publishes stored J (Ok ms) d r" and "\<And>d'. publishes stored J (Ok ms') d' (g d')"
  shows "publishes stored J (Ok (ms @ ms')) d (bindS r (\<lambda>_. g))"
proof -
  obtain n' where r: "r = (Ok (), d\<lparr>js := n'\<rparr>)" "stored n' = stored (js d) @ map (\<lambda>(s, e). (s, J e)) ms"
    using assms(1) by (cases r) (auto simp: publishes_def)
  from assms(2) [of "d\<lparr>js := n'\<rparr>"] r show ?thesis by (auto simp: publishes_def)
qed

lemma publishes_forS:
  assumes "\<And>x d. publishes stored J (Ok [m x]) d (f x d)"
  shows "publishes stored J (Ok (map m xs)) d (forS f xs d)"
proof (induction xs arbitrary: d)
  case Nil
  then show ?case by (simp add: publishes_nothing)
next
  case (Cons x xs)
  from publishes_append [OF assms Cons] show ?case by simp
qed

lemma publishes_log_events:
  assumes N: "nats_healthy N stored J"
  shows "publishes stored J (bindR (decode_log_events p) (\<lambda>evs. Ok (log_messages X epoch evs))) d
    (decode_broadcast_message X N p epoch d)"
proof (cases "decode_log_events p")
  case (Ok evs)
  let ?m = "\<lambda>e. (subject epoch ''CUSTMSG'', CustomMessageEvent \<lparr>cm_tick = le_tick e,
      cm_message_type = ucast (le_event_type e), cm_payload_hex = hex_encode X (le_data e)\<rparr>)"
  have first: "publishes stored J (Ok (if evs = [] then [] else [(subject epoch ''LOG'', LogEvents evs)]))
      d (if evs \<noteq> [] then with_publisher (\<lambda>ff. publish_log_events N ff epoch evs) d else (Ok (), d))"
    by (simp add: publish_log_events_def publishes_with_publisher [OF N] publishes_nothing)
  have rest: "publishes stored J (Ok (map ?m evs)) d' (forS (\<lambda>e. with_publisher (\<lambda>ff.
      publish_custom_message N ff epoch (case snd (?m e) of CustomMessageEvent m \<Rightarrow> m))) evs d')" for d'
    using publishes_with_publisher [OF N]
    by (intro publishes_forS) (simp add: publish_custom_message_def)
  from publishes_append [OF first rest] Ok show ?thesis
    by (simp add: decode_broadcast_message_def log_messages_def)
qed (auto simp: publishes_def decode_broadcast_message_def intro: exI [of _ "js d"])

lemma subject_0: "''Q.0.QONDUIT.LOGDIGEST'' = subject 0 ''LOGDIGEST''"
  by (simp add: subject_def show_nat.simps [of 0] char_of_def bit_Suc_0_iff)

lemma dispatch_route:
  assumes N: "nats_healthy N stored J" and "ty \<noteq> 3"
  shows "publishes stored J (route X ty dejavu p epoch) d (dispatch X N ty dejavu p epoch d)"
  using assms(2) unfolding dispatch_def route_def handler_defs
  by (simp add: publishes_decode_only publishes_nothing publishes_log_events [OF N]
      publishes_with_publisher [OF N] publishes_decode_then [OF N] publish_tick_def publish_tx_def
      publish_computors_def publish_entity_def publish_contract_ipo_def publish_contract_fn_def
      publish_log_state_digest_def publish_oracle_data_def publish_custom_mining_task_def
      publish_custom_mining_solution_def slim_tick_def subject_0)

section \<open>Properties\<close>

lemma decode_and_publish_spec:
  assumes "nats_healthy N stored J" and "ty \<noteq> 3"
    and "decode_and_publish X N ty dejavu p epoch d = (r, d')"
  shows "r = bindR (route X ty dejavu p epoch) (\<lambda>_. Ok ())
    \<and> stored (js d') = stored (js d)
        @ (case route X ty dejavu p epoch of Ok ms \<Rightarrow> map (\<lambda>(s, e). (s, J e)) ms | _ \<Rightarrow> [])
    \<and> vote_aggregator d' = vote_aggregator d
    \<and> packets_received d' = packets_received d + 1
    \<and> packets_published d' = packets_published d + (if is_ok r then 1 else 0)"
proof -
  define d1 where "d1 = d\<lparr>packets_received := packets_received d + 1,
    packets_by_type := (packets_by_type d)(ty := packets_by_type d ty + 1)\<rparr>"
  obtain r1 d2 where dp: "dispatch X N ty dejavu p epoch d1 = (r1, d2)" by fastforce
  have "publishes stored J (route X ty dejavu p epoch) d1 (r1, d2)"
    using dispatch_route [OF assms(1,2), of X dejavu p epoch d1] dp by simp
  moreover have "bindS (r1, d2) (\<lambda>_ d. (Ok (), d\<lparr>packets_published := packets_published d + 1\<rparr>)) = (r, d')"
    using assms(3) dp by (simp add: decode_and_publish_def d1_def)
  ultimately show ?thesis
    by (cases r1; cases "route X ty dejavu p epoch") (auto simp: publishes_def d1_def)
qed



text \<open>
  a vote packet of at least 20 bytes is published as a vote, and a quorum event follows it
  exactly when the aggregator returns one; the aggregator has recorded the vote and is pruned on
  every ten thousandth one.
\<close>

theorem decode_tick_vote_publishes:
  assumes "nats_healthy N stored J" and "20 \<le> length p"
    and "v = \<lparr>tv_computor_index = u16_from_le (take 2 p), tv_epoch = u16_from_le (take 2 (drop 2 p)),
      tv_tick = u32_from_le (take 4 (drop 4 p))\<rparr>"
    and "record_vote (tv_epoch v) (tv_tick v) (tv_computor_index v) (vote_aggregator d) = (q, agg)"
    and "decode_tick_vote N p epoch d = (r, d')"
  shows "r = Ok ()
    \<and> stored (js d') = stored (js d) @ [(subject epoch ''TICKVOTE'', J (TickVoteEvent v))]
        @ (case q of None \<Rightarrow> [] | Some q \<Rightarrow> [(subject epoch ''QUORUM'', J (QuorumEvent q))])
    \<and> vote_aggregator d' = (if (vote_count d + 1) mod 10000 = 0 then prune (tv_tick v) 256 agg else agg)"
proof -
  obtain n1 where n1: "publish_event N (fire_and_forget d) (subject epoch ''TICKVOTE'')
      (TickVoteEvent v) (js d) = (Ok (), n1)"
    "stored n1 = stored (js d) @ [(subject epoch ''TICKVOTE'', J (TickVoteEvent v))]"
    by (rule publish_event_healthy [OF assms(1)])
  define A where "A = (if (vote_count d + 1) mod 10000 = 0 then prune (tv_tick v) 256 agg else agg)"
  let ?d1 = "d\<lparr>js := n1, vote_aggregator := A, vote_count := vote_count d + 1\<rparr>"
  have eq: "decode_tick_vote N p epoch d = (case q of None \<Rightarrow> (Ok (), ?d1)
      | Some q \<Rightarrow> with_publisher (\<lambda>ff. publish_quorum_tick N ff epoch q) ?d1)"
    using assms(2,4) n1(1) unfolding assms(3) A_def
    by (simp add: decode_tick_vote_def read_simps Let_def with_publisher_def publish_tick_vote_def
        aggregate_vote_def PRUNE_INTERVAL_def KEEP_TICKS_def A_def split: option.split)
  show ?thesis
  proof (cases q)
    case None
    then show ?thesis
      unfolding A_def [symmetric] using assms(5) n1(2) eq by auto
  next
    case (Some q')
    obtain n2 where "publish_event N (fire_and_forget d) (subject epoch ''QUORUM'')
        (QuorumEvent q') n1 = (Ok (), n2)"
      "stored n2 = stored n1 @ [(subject epoch ''QUORUM'', J (QuorumEvent q'))]"
      by (rule publish_event_healthy [OF assms(1)])
    then show ?thesis
      unfolding A_def [symmetric] using assms(5) n1(2) Some eq
      by (auto simp: with_publisher_def publish_quorum_tick_def)
  qed
qed

theorem decode_tick_vote_publishes_witness:
  "\<exists>r d'. decode_tick_vote (mem_nats (\<lambda>_. [1])) (replicate 20 0) 218 (new_decoder [] True) = (r, d')
     \<and> r = Ok () \<and> js d' = [(''Q.218.QONDUIT.TICKVOTE'', [1])]"
proof -
  define v where "v = \<lparr>tv_computor_index = u16_from_le (take 2 (replicate 20 0)),
    tv_epoch = u16_from_le (take 2 (drop 2 (replicate 20 0))),
    tv_tick = u32_from_le (take 4 (drop 4 (replicate 20 0)))\<rparr>"
  obtain r d' where e: "decode_tick_vote (mem_nats (\<lambda>_. [1])) (replicate 20 0) 218
      (new_decoder [] True) = (r, d')" by fastforce
  obtain q agg where q: "record_vote (tv_epoch v) (tv_tick v) (tv_computor_index v)
      (vote_aggregator (new_decoder ([] :: (string \<times> bytes) list) True)) = (q, agg)" by fastforce
  then have "q = None"
    by (auto simp: record_vote_alt new_decoder_def new_aggregator_def voters_def Let_def QUORUM_value)
  with decode_tick_vote_publishes [OF mem_nats_healthy _ v_def q e] e show ?thesis
    by (simp add: new_decoder_def subject_def show_nat.simps char_of_def bit_Suc_0_iff)
qed



end
