(* ===== verification/Wire.thy ===== *)
theory Wire
  imports Qonduit_Prelude
begin

text \<open>
  \<^verbatim>\<open>crates/core/src/header.rs\<close> and \<^verbatim>\<open>message_type.rs\<close>: the 8-byte packet header and the message
  type byte.  The header is modelled on a little-endian host, where \<^verbatim>\<open>to_le\<close> and \<^verbatim>\<open>from_le\<close> on the
  \<^verbatim>\<open>_dejavu\<close> field are the identity; \<open>header_bytes\<close> and \<open>header_of_bytes\<close> are the \<^verbatim>\<open>transmute\<close> of
  \<^verbatim>\<open>send_raw\<close> and the pointer cast of \<^verbatim>\<open>read_packet\<close>.
\<close>

section \<open>Message types\<close>

datatype message_type =
    ExchangePublicPeers | BroadcastMessage | BroadcastComputors | BroadcastTick
    | BroadcastFutureTickData | RequestComputors | RequestQuorumTick | RequestTickData
    | BroadcastTransaction | RequestTransactionInfo | RequestCurrentTickInfo
    | RespondCurrentTickInfo | RequestTickTransactions | RequestEntity | RespondEntity
    | RequestContractIpo | RespondContractIpo | EndResponse | RequestIssuedAssets
    | RespondIssuedAssets | RequestOwnedAssets | RespondOwnedAssets | RequestPossessedAssets
    | RespondPossessedAssets | RequestContractFunction | RespondContractFunction | RequestLog
    | RespondLog | RequestSystemInfo | RespondSystemInfo | RequestLogIdRangeFromTx
    | RespondLogIdRangeFromTx | RequestAllLogIdRangesFromTx | RespondAllLogIdRangesFromTx
    | RequestAssets | RespondAssets | TryAgain | RequestPruningLog | RespondPruningLog
    | RequestLogStateDigest | RespondLogStateDigest | RequestActiveIpos | RespondActiveIpo
    | RequestOracleData | RespondOracleData | BroadcastCustomMiningTask
    | BroadcastCustomMiningSolution | RequestTxStatus | RespondTxStatus | SpecialCommand

fun discriminant :: "message_type \<Rightarrow> u8" where
  "discriminant ExchangePublicPeers = 0"
| "discriminant BroadcastMessage = 1"
| "discriminant BroadcastComputors = 2"
| "discriminant BroadcastTick = 3"
| "discriminant BroadcastFutureTickData = 8"
| "discriminant RequestComputors = 11"
| "discriminant RequestQuorumTick = 14"
| "discriminant RequestTickData = 16"
| "discriminant BroadcastTransaction = 24"
| "discriminant RequestTransactionInfo = 26"
| "discriminant RequestCurrentTickInfo = 27"
| "discriminant RespondCurrentTickInfo = 28"
| "discriminant RequestTickTransactions = 29"
| "discriminant RequestEntity = 31"
| "discriminant RespondEntity = 32"
| "discriminant RequestContractIpo = 33"
| "discriminant RespondContractIpo = 34"
| "discriminant EndResponse = 35"
| "discriminant RequestIssuedAssets = 36"
| "discriminant RespondIssuedAssets = 37"
| "discriminant RequestOwnedAssets = 38"
| "discriminant RespondOwnedAssets = 39"
| "discriminant RequestPossessedAssets = 40"
| "discriminant RespondPossessedAssets = 41"
| "discriminant RequestContractFunction = 42"
| "discriminant RespondContractFunction = 43"
| "discriminant RequestLog = 44"
| "discriminant RespondLog = 45"
| "discriminant RequestSystemInfo = 46"
| "discriminant RespondSystemInfo = 47"
| "discriminant RequestLogIdRangeFromTx = 48"
| "discriminant RespondLogIdRangeFromTx = 49"
| "discriminant RequestAllLogIdRangesFromTx = 50"
| "discriminant RespondAllLogIdRangesFromTx = 51"
| "discriminant RequestAssets = 52"
| "discriminant RespondAssets = 53"
| "discriminant TryAgain = 54"
| "discriminant RequestPruningLog = 56"
| "discriminant RespondPruningLog = 57"
| "discriminant RequestLogStateDigest = 58"
| "discriminant RespondLogStateDigest = 59"
| "discriminant RequestActiveIpos = 64"
| "discriminant RespondActiveIpo = 65"
| "discriminant RequestOracleData = 66"
| "discriminant RespondOracleData = 67"
| "discriminant BroadcastCustomMiningTask = 68"
| "discriminant BroadcastCustomMiningSolution = 69"
| "discriminant RequestTxStatus = 201"
| "discriminant RespondTxStatus = 202"
| "discriminant SpecialCommand = 255"

definition from_u8_table :: "(u8 \<times> message_type) list" where
  "from_u8_table = [
     (0, ExchangePublicPeers), (1, BroadcastMessage), (2, BroadcastComputors),
     (3, BroadcastTick), (8, BroadcastFutureTickData), (11, RequestComputors),
     (14, RequestQuorumTick), (16, RequestTickData), (24, BroadcastTransaction),
     (26, RequestTransactionInfo), (27, RequestCurrentTickInfo), (28, RespondCurrentTickInfo),
     (29, RequestTickTransactions), (31, RequestEntity), (32, RespondEntity),
     (33, RequestContractIpo), (34, RespondContractIpo), (35, EndResponse),
     (36, RequestIssuedAssets), (37, RespondIssuedAssets), (38, RequestOwnedAssets),
     (39, RespondOwnedAssets), (40, RequestPossessedAssets), (41, RespondPossessedAssets),
     (42, RequestContractFunction), (43, RespondContractFunction), (44, RequestLog),
     (45, RespondLog), (46, RequestSystemInfo), (47, RespondSystemInfo),
     (48, RequestLogIdRangeFromTx), (49, RespondLogIdRangeFromTx),
     (50, RequestAllLogIdRangesFromTx), (51, RespondAllLogIdRangesFromTx), (52, RequestAssets),
     (53, RespondAssets), (54, TryAgain), (56, RequestPruningLog), (57, RespondPruningLog),
     (58, RequestLogStateDigest), (59, RespondLogStateDigest), (64, RequestActiveIpos),
     (65, RespondActiveIpo), (66, RequestOracleData), (67, RespondOracleData),
     (68, BroadcastCustomMiningTask), (69, BroadcastCustomMiningSolution),
     (201, RequestTxStatus), (202, RespondTxStatus), (255, SpecialCommand)]"

definition from_u8 :: "u8 \<Rightarrow> message_type option" where
  "from_u8 v = map_of from_u8_table v"

definition is_request :: "message_type \<Rightarrow> bool" where
  "is_request t \<longleftrightarrow> t \<in> set [
     RequestComputors, RequestQuorumTick, RequestTickData, RequestTransactionInfo,
     RequestCurrentTickInfo, RequestTickTransactions, RequestEntity, RequestContractIpo,
     RequestIssuedAssets, RequestOwnedAssets, RequestPossessedAssets, RequestContractFunction,
     RequestLog, RequestSystemInfo, RequestLogIdRangeFromTx, RequestAllLogIdRangesFromTx,
     RequestAssets, RequestPruningLog, RequestLogStateDigest, RequestActiveIpos,
     RequestOracleData, RequestTxStatus]"

definition is_response :: "message_type \<Rightarrow> bool" where
  "is_response t \<longleftrightarrow> t \<in> set [
     RespondCurrentTickInfo, RespondEntity, RespondContractIpo, RespondIssuedAssets,
     RespondOwnedAssets, RespondPossessedAssets, RespondContractFunction, RespondLog,
     RespondSystemInfo, RespondLogIdRangeFromTx, RespondAllLogIdRangesFromTx, RespondAssets,
     RespondPruningLog, RespondLogStateDigest, RespondActiveIpo, RespondOracleData,
     RespondTxStatus, EndResponse, TryAgain]"

definition is_broadcast :: "message_type \<Rightarrow> bool" where
  "is_broadcast t \<longleftrightarrow> t \<in> set [
     BroadcastMessage, BroadcastComputors, BroadcastTick, BroadcastFutureTickData,
     BroadcastTransaction, BroadcastCustomMiningTask, BroadcastCustomMiningSolution]"

section \<open>Packet header\<close>

record header =
  hdr_size :: "u8 \<times> u8 \<times> u8"
  hdr_type :: u8
  hdr_dejavu :: u32

definition size_hdr :: "header \<Rightarrow> u32" where
  "size_hdr h = (case hdr_size h of (s0, s1, s2) \<Rightarrow>
     let raw = u32_from_le [s0, s1, s2, 0] in if raw = 0 then - 1 else raw)"

definition msg_type_hdr :: "header \<Rightarrow> u8" where
  "msg_type_hdr h = hdr_type h"

definition network_type :: "header \<Rightarrow> message_type option" where
  "network_type h = from_u8 (hdr_type h)"

definition dejavu_hdr :: "header \<Rightarrow> u32" where
  "dejavu_hdr h = hdr_dejavu h"

definition payload_size :: "header \<Rightarrow> u32" where
  "payload_size h = sat_sub (size_hdr h) 8"

definition is_end_response :: "header \<Rightarrow> bool" where
  "is_end_response h \<longleftrightarrow> hdr_type h = 35"

definition new_request :: "u8 \<Rightarrow> u32 \<Rightarrow> u32 \<Rightarrow> header" where
  "new_request ty n d =
     (let total = n + 8; s = u32_to_le total
      in \<lparr>hdr_size = (s ! 0, s ! 1, s ! 2), hdr_type = ty, hdr_dejavu = d\<rparr>)"

definition new_response :: "u8 \<Rightarrow> u32 \<Rightarrow> u32 \<Rightarrow> header" where
  "new_response ty n d = new_request ty n d"

definition end_response :: "u32 \<Rightarrow> header" where
  "end_response d = new_response 35 0 d"

definition header_bytes :: "header \<Rightarrow> bytes" where
  "header_bytes h = (case hdr_size h of (s0, s1, s2) \<Rightarrow>
     [s0, s1, s2, hdr_type h] @ u32_to_le (hdr_dejavu h))"

definition header_of_bytes :: "bytes \<Rightarrow> header" where
  "header_of_bytes bs = \<lparr>hdr_size = (bs ! 0, bs ! 1, bs ! 2), hdr_type = bs ! 3,
     hdr_dejavu = u32_from_le (drop 4 bs)\<rparr>"

section \<open>Lemmas\<close>

lemma length_header_bytes [simp]: "length (header_bytes h) = 8"
  by (simp add: header_bytes_def split: prod.split)

interpretation header_codec: byte_codec header_bytes header_of_bytes 8
proof unfold_locales
  fix h :: header and bs :: bytes
  show "length (header_bytes h) = 8" by simp
  show "header_of_bytes (header_bytes h) = h"
    by (cases h) (auto simp: header_bytes_def header_of_bytes_def split: prod.split)
  assume l: "length bs = 8"
  then have "bs = [bs ! 0, bs ! 1, bs ! 2, bs ! 3] @ drop 4 bs"
    by (simp add: list_eq_iff_nth_eq less_Suc_eq numeral_eq_Suc nth_append)
  with l show "header_bytes (header_of_bytes bs) = bs"
    by (simp add: header_bytes_def header_of_bytes_def u32_le.enc_dec)
qed

lemma nat_to_le_4: "nat_to_le 4 n = [word_of_nat (n mod 256), word_of_nat (n div 256 mod 256),
    word_of_nat (n div 256 div 256 mod 256), word_of_nat (n div 256 div 256 div 256 mod 256)]"
proof -
  have "nat_to_le (Suc (Suc (Suc (Suc 0)))) n = [word_of_nat (n mod 256),
    word_of_nat (n div 256 mod 256), word_of_nat (n div 256 div 256 mod 256),
    word_of_nat (n div 256 div 256 div 256 mod 256)]" by (simp only: nat_to_le.simps)
  moreover have "Suc (Suc (Suc (Suc 0))) = 4" by simp
  ultimately show ?thesis by (simp only:)
qed

lemma nat_from_le_take3:
  "nat_from_le [nat_to_le 4 n ! 0, nat_to_le 4 n ! 1, nat_to_le 4 n ! 2, 0] = n mod 2 ^ 24"
proof -
  have "n mod (256 * (256 * 256)) = n mod 256 + 256 * (n div 256 mod 256 + 256 * (n div 256 div 256 mod 256))"
    by (simp only: mod_mult2_eq [of n 256] mod_mult2_eq [of "n div 256" 256]) (simp only: add.commute)
  moreover have "(256 * (256 * 256) :: nat) = 2 ^ 24" by simp
  ultimately show ?thesis by (simp add: nat_to_le_4)
qed

lemma new_request_fields [simp]:
  "msg_type_hdr (new_request ty n d) = ty" "dejavu_hdr (new_request ty n d) = d"
  by (simp_all add: msg_type_hdr_def dejavu_hdr_def new_request_def Let_def)

lemma unat_raw_size:
  "unat (u32_from_le [nat_to_le 4 n ! 0, nat_to_le 4 n ! 1, nat_to_le 4 n ! 2, 0]) = n mod 2 ^ 24"
  unfolding u32_from_le_def nat_from_le_take3 by (simp add: unat_of_nat)

lemma size_new_request:
  "unat (size_hdr (new_request ty n d)) =
     (if unat (n + 8) mod 2 ^ 24 = 0 then 2 ^ 32 - 1 else unat (n + 8) mod 2 ^ 24)"
proof -
  let ?raw = "u32_from_le [nat_to_le 4 (unat (n + 8)) ! 0, nat_to_le 4 (unat (n + 8)) ! 1,
    nat_to_le 4 (unat (n + 8)) ! 2, 0]"
  have "size_hdr (new_request ty n d) = (if ?raw = 0 then - 1 else ?raw)"
    by (simp add: size_hdr_def new_request_def Let_def u32_to_le_def)
  moreover have "?raw = 0 \<longleftrightarrow> unat ?raw = 0" by (simp add: unat_eq_zero)
  ultimately show ?thesis by (simp only: unat_raw_size if_distrib [of unat] unat_max_word) simp
qed

lemma size_new_request_fits:
  assumes "unat n + 8 < 2 ^ 24"
  shows "unat (size_hdr (new_request ty n d)) = unat n + 8"
proof -
  have "unat (n + 8) = unat n + 8" using assms by (simp add: unat_word_ariths)
  with assms show ?thesis by (simp add: size_new_request)
qed

section \<open>Properties\<close>

text \<open>
  The message type byte and the enumeration determine each other: every variant is recovered
  from its discriminant, and a byte that parses is the discriminant of the variant it parses to.
\<close>

theorem from_u8_discriminant:
  "from_u8 (discriminant t) = Some t \<and> (from_u8 v = Some u \<longleftrightarrow> discriminant u = v)"
proof -
  have rt: "from_u8 (discriminant t) = Some t" for t
    by (cases t) (simp_all add: from_u8_def from_u8_table_def)
  moreover have "from_u8 v = Some u \<Longrightarrow> discriminant u = v"
    unfolding from_u8_def
    by (drule map_of_SomeD) (auto simp: from_u8_table_def)
  ultimately show ?thesis by blast
qed

text \<open>
  requests, responses and broadcasts are disjoint classes, and together they cover every
  message type except the peer exchange (sent by both sides) and the special command.
\<close>

theorem message_classes_partition:
  "\<not> (is_request t \<and> is_response t) \<and> \<not> (is_request t \<and> is_broadcast t)
   \<and> \<not> (is_response t \<and> is_broadcast t)
   \<and> (\<not> is_request t \<and> \<not> is_response t \<and> \<not> is_broadcast t
        \<longleftrightarrow> t = ExchangePublicPeers \<or> t = SpecialCommand)"
  by (cases t) (simp_all add: is_request_def is_response_def is_broadcast_def)

text \<open>
  a header built for a payload of \<open>n\<close> bytes survives the trip through its eight bytes with
  its type and correlation id, and its payload size is \<open>n\<close> as long as the packet fits the 24-bit
  size field.
\<close>

theorem header_roundtrip:
  assumes "unat n + 8 < 2 ^ 24"
  shows "header_of_bytes (header_bytes (new_request ty n d)) = new_request ty n d
     \<and> msg_type_hdr (new_request ty n d) = ty \<and> dejavu_hdr (new_request ty n d) = d
     \<and> payload_size (new_request ty n d) = n"
proof -
  have "unat (payload_size (new_request ty n d)) = unat n"
    using size_new_request_fits [OF assms] by (simp add: payload_size_def unat_sat_sub)
  then have "payload_size (new_request ty n d) = n" by (simp only: word_unat_eq_iff)
  then show ?thesis by (simp add: header_codec.dec_enc)
qed

theorem header_roundtrip_witness:
  "unat (1024 :: u32) + 8 < 2 ^ 24 \<and> payload_size (new_request 42 1024 0x12345678) = 1024"
  using header_roundtrip [of 1024 42 "0x12345678"] by simp

text \<open>
  The size field is taken modulo \<open>2 ^ 24\<close> without a check.  A header built for a payload
  that does not fit announces the truncated size, and one whose truncated size is 0 reads back as
  a payload of \<open>2 ^ 32 - 9\<close> bytes.
\<close>

theorem header_size_truncated:
  "unat (payload_size (new_request ty n d)) =
     (if unat (n + 8) mod 2 ^ 24 = 0 then 2 ^ 32 - 9 else unat (n + 8) mod 2 ^ 24 - 8)"
  by (simp add: payload_size_def unat_sat_sub size_new_request)

end
