(* ===== verification/Protocol.thy ===== *)
theory Protocol
  imports Wire
begin

text \<open>
  \<^verbatim>\<open>crates/ingestion/src/protocol.rs\<close>: sending and reading packets over a TCP stream and the
  request/response loops.  The stream itself (\<^verbatim>\<open>tokio::net::TcpStream\<close>) is a parameter: a record
  of its three operations over a stream state of any type.  A \<^verbatim>\<open>tokio::time::timeout\<close> race is
  decided by the environment: each iteration of a loop takes one element of a list, \<open>True\<close> when
  the deadline passes before a packet is read.  A loop still waiting when the list ends is \<open>None\<close>.
\<close>

record 's tcp =
  write_all :: "'s \<Rightarrow> bytes \<Rightarrow> 's outcome"
  flush :: "'s \<Rightarrow> 's outcome"
  read_exact :: "'s \<Rightarrow> nat \<Rightarrow> (bytes \<times> 's) outcome"

type_synonym packet = "u8 \<times> u32 \<times> bytes"

definition send_raw :: "'s tcp \<Rightarrow> 's \<Rightarrow> u8 \<Rightarrow> bytes \<Rightarrow> u32 \<Rightarrow> 's outcome" where
  "send_raw T stream ty payload d =
     (let header = new_request ty (word_of_nat (length payload)) d
      in bindR (write_all T stream (header_bytes header)) (\<lambda>stream.
         bindR (if payload \<noteq> [] then write_all T stream payload else Ok stream) (\<lambda>stream.
         flush T stream)))"

definition read_packet :: "'s tcp \<Rightarrow> 's \<Rightarrow> (packet \<times> 's) outcome" where
  "read_packet T stream =
     bindR (read_exact T stream 8) (\<lambda>(header_buf, stream).
       let header = header_of_bytes header_buf;
           n = unat (payload_size header)
       in if 0 < n
          then bindR (read_exact T stream n) (\<lambda>(buf, stream).
                 Ok ((msg_type_hdr header, dejavu_hdr header, buf), stream))
          else Ok ((msg_type_hdr header, dejavu_hdr header, []), stream))"

text \<open>
  The request loops.  Each classifies a packet by its type: the awaited response, an error reply
  of the node, or a packet to skip.
\<close>

datatype reply = Accept | Fail error | Skip

fun request_loop :: "'s tcp \<Rightarrow> (u8 \<Rightarrow> reply) \<Rightarrow> string \<Rightarrow> bool list \<Rightarrow> 's
    \<Rightarrow> (bytes \<times> 's) outcome option" where
  "request_loop T classify what [] stream = None"
| "request_loop T classify what (elapsed # clock) stream =
     (if elapsed then Some (Err (Timeout what))
      else case read_packet T stream of
        Err e \<Rightarrow> Some (Err e)
      | Panic p \<Rightarrow> Some (Panic p)
      | Ok ((ty, d, payload), stream') \<Rightarrow>
          (case classify ty of
             Accept \<Rightarrow> Some (Ok (payload, stream'))
           | Fail e \<Rightarrow> Some (Err e)
           | Skip \<Rightarrow> request_loop T classify what clock stream'))"

definition request :: "'s tcp \<Rightarrow> u8 \<Rightarrow> bytes \<Rightarrow> u32 \<Rightarrow> (u8 \<Rightarrow> reply) \<Rightarrow> string \<Rightarrow> bool list \<Rightarrow> 's
    \<Rightarrow> (bytes \<times> 's) outcome option" where
  "request T ty payload rand classify what clock stream =
     (case send_raw T stream ty payload (max rand 1) of
        Err e \<Rightarrow> Some (Err e)
      | Panic p \<Rightarrow> Some (Panic p)
      | Ok stream' \<Rightarrow> request_loop T classify what clock stream')"

definition tick_info_reply :: "u8 \<Rightarrow> reply" where
  "tick_info_reply ty =
     (if ty = 28 then Accept
      else if ty = 35 then Fail (NodeReply ''EndResponse'')
      else if ty = 54 then Fail (NodeReply ''TryAgain'')
      else Skip)"

definition request_current_tick_info where
  "request_current_tick_info T rand clock stream =
     request T 27 [] rand tick_info_reply ''CurrentTickInfo'' clock stream"

definition computors_reply :: "u8 \<Rightarrow> reply" where
  "computors_reply ty =
     (if ty = 2 then Accept
      else if ty = 35 \<or> ty = 54 then Fail (NodeReply ''Computors'') else Skip)"

definition request_computors where
  "request_computors T rand clock stream =
     request T 11 [] rand computors_reply ''Computors'' clock stream"

definition entity_reply :: "u8 \<Rightarrow> reply" where
  "entity_reply ty =
     (if ty = 32 then Accept
      else if ty = 35 \<or> ty = 54 then Fail (NodeReply ''Entity'') else Skip)"

definition request_entity where
  "request_entity T identity rand clock stream =
     request T 31 identity rand entity_reply ''Entity'' clock stream"

definition send_entity_request where
  "send_entity_request T identity rand stream = send_raw T stream 31 identity (max rand 1)"

definition send_tick_data_request where
  "send_tick_data_request T tick rand stream =
     bindR (send_raw T stream 16 (u32_to_le tick) (max rand 1)) (\<lambda>stream. Ok (max rand 1, stream))"

definition tick_data_reply :: "u8 \<Rightarrow> reply" where
  "tick_data_reply ty =
     (if ty = 8 then Accept
      else if ty = 35 then Fail (NodeReply ''EndResponse'')
      else if ty = 54 then Fail (NodeReply ''TryAgain'')
      else Skip)"

definition request_tick_data where
  "request_tick_data T tick rand clock stream =
     request T 16 (u32_to_le tick) rand tick_data_reply ''TickData'' clock stream"

definition log_reply :: "u8 \<Rightarrow> reply" where
  "log_reply ty =
     (if ty = 45 then Accept
      else if ty = 35 then Fail (NodeReply ''EndResponse'')
      else if ty = 54 then Fail (NodeReply ''TryAgain'')
      else Skip)"

definition request_log where
  "request_log T tick rand clock stream =
     request T 44 (u32_to_le tick) rand log_reply ''Log'' clock stream"

text \<open>Transactions of a tick: every type 24 payload until type 35.\<close>

fun collect_transactions :: "'s tcp \<Rightarrow> bool list \<Rightarrow> bytes list \<Rightarrow> 's
    \<Rightarrow> (bytes list \<times> 's) outcome option" where
  "collect_transactions T [] transactions stream = None"
| "collect_transactions T (elapsed # clock) transactions stream =
     (if elapsed then Some (Err (Timeout ''TickTransactions''))
      else case read_packet T stream of
        Err e \<Rightarrow> Some (Err e)
      | Panic p \<Rightarrow> Some (Panic p)
      | Ok ((ty, d, payload), stream') \<Rightarrow>
          (let transactions' = (if ty = 24 then transactions @ [payload] else transactions)
           in if ty = 35 then Some (Ok (transactions', stream'))
              else if ty = 54 then Some (Err (NodeReply ''TryAgain''))
              else collect_transactions T clock transactions' stream'))"

definition request_tick_transactions where
  "request_tick_transactions T tick rand clock stream =
     (case send_raw T stream 29 (u32_to_le tick) (max rand 1) of
        Err e \<Rightarrow> Some (Err e)
      | Panic p \<Rightarrow> Some (Panic p)
      | Ok stream' \<Rightarrow> collect_transactions T clock [] stream')"

text \<open>
  The peer exchange: type 0 with at least sixteen bytes answers it; a timeout or a read error
  after the request was sent gives four zero addresses.  A read that fails or is cancelled leaves
  the position in the byte stream unknown: the returned stream is \<open>None\<close> then.
\<close>

definition no_peers :: "bytes list" where
  "no_peers = replicate 4 [0, 0, 0, 0]"

fun exchange_loop :: "'s tcp \<Rightarrow> bool list \<Rightarrow> 's \<Rightarrow> (bytes list \<times> 's option) outcome option" where
  "exchange_loop T [] stream = None"
| "exchange_loop T (elapsed # clock) stream =
     (if elapsed then Some (Ok (no_peers, None))
      else case read_packet T stream of
        Err e \<Rightarrow> Some (Ok (no_peers, None))
      | Panic p \<Rightarrow> Some (Panic p)
      | Ok ((ty, d, resp), stream') \<Rightarrow>
          (if ty = 0 \<and> 16 \<le> length resp
           then Some (Ok (map (chunk 4 (take 16 resp)) [0..<4], Some stream'))
           else exchange_loop T clock stream'))"

definition exchange_public_peers where
  "exchange_public_peers T local_peers rand clock stream =
     (case send_raw T stream 0 (concat local_peers) rand of
        Err e \<Rightarrow> Some (Err e)
      | Panic p \<Rightarrow> Some (Panic p)
      | Ok stream' \<Rightarrow> exchange_loop T clock stream')"

section \<open>Packets on the wire\<close>

text \<open>The bytes \<open>send_raw\<close> writes for a packet.\<close>

definition wire_packet :: "packet \<Rightarrow> bytes" where
  "wire_packet = (\<lambda>(ty, d, payload).
     header_bytes (new_request ty (word_of_nat (length payload)) d) @ payload)"

definition fits :: "packet \<Rightarrow> bool" where
  "fits = (\<lambda>(ty, d, payload). length payload + 8 < 2 ^ 24)"

text \<open>
  Documented behaviour of the stream, over two views of its state: \<^verbatim>\<open>read_exact\<close> takes exactly
  that many of the bytes still to be read or fails, \<^verbatim>\<open>write_all\<close> appends to the bytes written,
  and neither touches the other direction.
\<close>

definition tcp_ok :: "'s tcp \<Rightarrow> ('s \<Rightarrow> bytes) \<Rightarrow> ('s \<Rightarrow> bytes) \<Rightarrow> bool" where
  "tcp_ok T input output \<longleftrightarrow>
     (\<forall>s n. n \<le> length (input s) \<longrightarrow>
        (\<exists>s'. read_exact T s n = Ok (take n (input s), s') \<and> input s' = drop n (input s)
            \<and> output s' = output s))
   \<and> (\<forall>s n. length (input s) < n \<longrightarrow> (\<exists>e. read_exact T s n = Err e))
   \<and> (\<forall>s bs. \<exists>s'. write_all T s bs = Ok s' \<and> output s' = output s @ bs \<and> input s' = input s)
   \<and> (\<forall>s. \<exists>s'. flush T s = Ok s' \<and> output s' = output s \<and> input s' = input s)"

text \<open>An in-memory pair of byte strings satisfies it; used to exhibit inputs.\<close>

definition mem_tcp :: "(bytes \<times> bytes) tcp" where
  "mem_tcp = \<lparr>write_all = (\<lambda>(i, w) bs. Ok (i, w @ bs)), flush = (\<lambda>s. Ok s),
     read_exact = (\<lambda>(i, w) n. if n \<le> length i then Ok (take n i, (drop n i, w))
                            else Err (Io ''early eof''))\<rparr>"

lemma mem_tcp_ok: "tcp_ok mem_tcp fst snd"
  by (auto simp: tcp_ok_def mem_tcp_def)

lemma tcp_read:
  assumes "tcp_ok T input output" "input s = xs @ ys" "length xs = n"
  obtains s' where "read_exact T s n = Ok (xs, s')" "input s' = ys" "output s' = output s"
  using assms unfolding tcp_ok_def by (metis append_eq_conv_conj le_add1 length_append)

lemma payload_size_wire:
  assumes "length payload + 8 < 2 ^ 24"
  shows "unat (payload_size (new_request ty (word_of_nat (length payload)) d)) = length payload"
proof -
  have n: "unat (word_of_nat (length payload) :: u32) = length payload"
    using assms by (simp add: unat_of_nat)
  then show ?thesis
    using size_new_request_fits [of "word_of_nat (length payload)" ty d] assms
    by (simp add: payload_size_def unat_sat_sub)
qed

lemma read_packet_wire:
  assumes ok: "tcp_ok T input output" and fits: "fits (ty, d, payload)"
    and inp: "input s = wire_packet (ty, d, payload) @ rest"
  obtains s' where "read_packet T s = Ok ((ty, d, payload), s')" "input s' = rest"
    "output s' = output s"
proof -
  let ?h = "new_request ty (word_of_nat (length payload)) d"
  from inp have "input s = header_bytes ?h @ (payload @ rest)" by (simp add: wire_packet_def)
  then obtain s1 where s1: "read_exact T s 8 = Ok (header_bytes ?h, s1)"
    "input s1 = payload @ rest" "output s1 = output s"
    by (rule tcp_read [OF ok]) simp
  from tcp_read [OF ok s1(2) refl] obtain s2 where s2:
    "read_exact T s1 (length payload) = Ok (payload, s2)" "input s2 = rest" "output s2 = output s1" .
  have n: "unat (payload_size ?h) = length payload"
    using fits by (intro payload_size_wire) (simp add: fits_def)
  show thesis
  proof (cases "payload = []")
    case True
    with that [of s1] s1 n show thesis
      by (simp add: read_packet_def header_codec.dec_enc Let_def)
  next
    case False
    with that [of s2] s1 s2 n show thesis
      by (simp add: read_packet_def header_codec.dec_enc Let_def)
  qed
qed

lemma send_raw_wire:
  assumes ok: "tcp_ok T input output"
  obtains s' where "send_raw T s ty payload d = Ok s'" "input s' = input s"
    "output s' = output s @ wire_packet (ty, d, payload)"
proof -
  let ?h = "header_bytes (new_request ty (word_of_nat (length payload)) d)"
  obtain s1 where s1: "write_all T s ?h = Ok s1" "output s1 = output s @ ?h" "input s1 = input s"
    using ok unfolding tcp_ok_def by blast
  obtain s2 where s2: "(if payload \<noteq> [] then write_all T s1 payload else Ok s1) = Ok s2"
    "output s2 = output s1 @ payload" "input s2 = input s1"
    using ok unfolding tcp_ok_def by (metis append_Nil2)
  obtain s3 where s3: "flush T s2 = Ok s3" "output s3 = output s2" "input s3 = input s2"
    using ok unfolding tcp_ok_def by blast
  show thesis
  proof (rule that [of s3])
    show "send_raw T s ty payload d = Ok s3"
      unfolding send_raw_def Let_def s1(1) bindR.simps s2(1) by (rule s3(1))
  qed (simp_all add: s1 s2 s3 wire_packet_def)
qed

section \<open>Request loops\<close>

text \<open>
  The contract of a request kind: it accepts exactly one message type, fails on \<^verbatim>\<open>EndResponse\<close>
  and \<^verbatim>\<open>TryAgain\<close>, and skips every other packet.
\<close>

locale request_kind =
  fixes classify :: "u8 \<Rightarrow> reply" and awaited :: u8
  assumes accepts: "classify ty = Accept \<longleftrightarrow> ty = awaited"
    and fails: "(\<exists>e. classify ty = Fail e) \<longleftrightarrow> ty = 35 \<or> ty = 54"
begin

lemma skips: "ty \<noteq> awaited \<Longrightarrow> ty \<noteq> 35 \<Longrightarrow> ty \<noteq> 54 \<Longrightarrow> classify ty = Skip"
  using accepts [of ty] fails [of ty] by (cases "classify ty") auto

lemma loop_skips:
  assumes ok: "tcp_ok T input output"
    and "list_all (\<lambda>p. fits p \<and> fst p \<notin> {awaited, 35, 54}) pre"
    and "input s = concat (map wire_packet pre) @ rest"
  shows "\<exists>s'. request_loop T classify what (replicate (length pre) False @ clock) s
      = request_loop T classify what clock s' \<and> input s' = rest \<and> output s' = output s"
  using assms(2,3)
proof (induction pre arbitrary: s)
  case Nil
  then show ?case by auto
next
  case (Cons p pre)
  obtain ty d payload where p: "p = (ty, d, payload)" by (cases p)
  from Cons.prems have f: "fits (ty, d, payload)" and t: "classify ty = Skip"
    and pre: "list_all (\<lambda>p. fits p \<and> fst p \<notin> {awaited, 35, 54}) pre"
    by (simp_all add: p skips)
  have "input s = wire_packet (ty, d, payload) @ (concat (map wire_packet pre) @ rest)"
    using Cons.prems by (simp add: p)
  from read_packet_wire [OF ok f this] obtain s1 where s1:
    "read_packet T s = Ok ((ty, d, payload), s1)" "input s1 = concat (map wire_packet pre) @ rest"
    "output s1 = output s" .
  from Cons.IH [OF pre s1(2)] s1 show ?case by (simp add: t)
qed

lemma loop_answered:
  assumes ok: "tcp_ok T input output"
    and pre: "list_all (\<lambda>p. fits p \<and> fst p \<notin> {awaited, 35, 54}) pre"
    and fits: "fits (awaited, d, payload)"
    and inp: "input s = concat (map wire_packet pre) @ wire_packet (awaited, d, payload) @ rest"
  shows "\<exists>s'. request_loop T classify what (replicate (Suc (length pre)) False @ clock) s
      = Some (Ok (payload, s')) \<and> input s' = rest \<and> output s' = output s"
proof -
  have c: "replicate (Suc (length pre)) False @ clock
      = replicate (length pre) False @ (False # clock)"
    by (simp add: replicate_app_Cons_same)
  from loop_skips [OF ok pre inp] obtain s1 where s1:
    "request_loop T classify what (replicate (length pre) False @ (False # clock)) s
      = request_loop T classify what (False # clock) s1"
    "input s1 = wire_packet (awaited, d, payload) @ rest" "output s1 = output s" by blast
  from read_packet_wire [OF ok fits s1(2)] obtain s2 where s2:
    "read_packet T s1 = Ok ((awaited, d, payload), s2)" "input s2 = rest" "output s2 = output s1" .
  have "classify awaited = Accept" by (simp add: accepts)
  then show ?thesis unfolding c s1(1) using s1 s2 by simp
qed

lemma request_answered:
  assumes ok: "tcp_ok T input output"
    and pre: "list_all (\<lambda>p. fits p \<and> fst p \<notin> {awaited, 35, 54}) pre"
    and fits: "fits (awaited, d, payload)"
    and inp: "input s = concat (map wire_packet pre) @ wire_packet (awaited, d, payload) @ rest"
  shows "\<exists>s'. request T ty body rand classify what (replicate (Suc (length pre)) False @ clock) s
      = Some (Ok (payload, s')) \<and> input s' = rest
        \<and> output s' = output s @ wire_packet (ty, max rand 1, body)"
proof -
  obtain s1 where s1: "send_raw T s ty body (max rand 1) = Ok s1" "input s1 = input s"
    "output s1 = output s @ wire_packet (ty, max rand 1, body)" by (rule send_raw_wire [OF ok])
  from loop_answered [OF ok pre fits, of s1 rest what clock] s1 inp show ?thesis
    by (simp add: request_def)
qed

lemma request_refused:
  assumes ok: "tcp_ok T input output"
    and pre: "list_all (\<lambda>p. fits p \<and> fst p \<notin> {awaited, 35, 54}) pre"
    and fits: "fits (code, d, payload)" and code: "code = 35 \<or> code = 54"
    and inp: "input s = concat (map wire_packet pre) @ wire_packet (code, d, payload) @ rest"
  shows "\<exists>e. request T ty body rand classify what (replicate (Suc (length pre)) False @ clock) s
      = Some (Err e)"
proof -
  have c: "replicate (Suc (length pre)) False @ clock
      = replicate (length pre) False @ (False # clock)"
    by (simp add: replicate_app_Cons_same)
  obtain s1 where s1: "send_raw T s ty body (max rand 1) = Ok s1" "input s1 = input s"
    by (rule send_raw_wire [OF ok])
  from loop_skips [OF ok pre, of s1 "wire_packet (code, d, payload) @ rest"] s1 inp obtain s2
    where s2: "request_loop T classify what (replicate (length pre) False @ (False # clock)) s1
      = request_loop T classify what (False # clock) s2"
      "input s2 = wire_packet (code, d, payload) @ rest" by fastforce
  obtain s3 where s3: "read_packet T s2 = Ok ((code, d, payload), s3)"
    by (rule read_packet_wire [OF ok fits s2(2)])
  obtain e where e: "classify code = Fail e" using fails code by blast
  have "request_loop T classify what (False # clock) s2 = Some (Err e)" by (simp add: s3 e)
  then show ?thesis
    by (simp add: request_def c s1(1) s2(1) del: request_loop.simps replicate_Suc)
qed

end

text \<open>Whatever the peer sends, a loop whose deadline passes has returned.\<close>

lemma request_loop_returns: "True \<in> set clock \<Longrightarrow> request_loop T classify what clock s \<noteq> None"
proof (induction clock arbitrary: s)
  case Nil
  then show ?case by simp
next
  case (Cons elapsed clock)
  then show ?case by (cases elapsed) (simp_all split: outcome.split prod.split reply.split)
qed

interpretation tick_info: request_kind tick_info_reply 28
  by unfold_locales (auto simp: tick_info_reply_def)
interpretation computors: request_kind computors_reply 2
  by unfold_locales (auto simp: computors_reply_def)
interpretation entity: request_kind entity_reply 32
  by unfold_locales (auto simp: entity_reply_def)
interpretation tick_data: request_kind tick_data_reply 8
  by unfold_locales (auto simp: tick_data_reply_def)
interpretation log: request_kind log_reply 45
  by unfold_locales (auto simp: log_reply_def)

lemma collect_transactions_upto:
  assumes ok: "tcp_ok T input output"
    and "list_all (\<lambda>p. fits p \<and> fst p \<notin> {35, 54}) pre" and e: "fits (35, d, body)"
    and "input s = concat (map wire_packet pre) @ wire_packet (35, d, body) @ rest"
  shows "\<exists>s'. collect_transactions T (replicate (Suc (length pre)) False @ clock) acc s
      = Some (Ok (acc @ map (snd \<circ> snd) (filter (\<lambda>p. fst p = 24) pre), s')) \<and> input s' = rest
        \<and> output s' = output s"
  using assms(2,4)
proof (induction pre arbitrary: s acc)
  case Nil
  then have "input s = wire_packet (35, d, body) @ rest" by simp
  from read_packet_wire [OF ok e this] show ?case by force
next
  case (Cons p pre)
  obtain ty d' payload where p: "p = (ty, d', payload)" by (cases p)
  from Cons.prems have f: "fits (ty, d', payload)" and t: "ty \<noteq> 35" "ty \<noteq> 54"
    and pre: "list_all (\<lambda>p. fits p \<and> fst p \<notin> {35, 54}) pre"
    by (simp_all add: p)
  have "input s = wire_packet (ty, d', payload)
      @ (concat (map wire_packet pre) @ wire_packet (35, d, body) @ rest)"
    using Cons.prems by (simp add: p)
  from read_packet_wire [OF ok f this] obtain s1 where s1:
    "read_packet T s = Ok ((ty, d', payload), s1)"
    "input s1 = concat (map wire_packet pre) @ wire_packet (35, d, body) @ rest"
    "output s1 = output s" .
  let ?acc = "if ty = 24 then acc @ [payload] else acc"
  let ?clock = "replicate (Suc (length pre)) False @ clock"
  have "collect_transactions T (False # ?clock) acc s = collect_transactions T ?clock ?acc s1"
    by (simp add: s1(1) t Let_def del: replicate_Suc)
  moreover obtain s' where "collect_transactions T ?clock ?acc s1
      = Some (Ok (?acc @ map (snd \<circ> snd) (filter (\<lambda>p. fst p = 24) pre), s'))"
    "input s' = rest" "output s' = output s1"
    using Cons.IH [OF pre s1(2), of ?acc] by blast
  ultimately show ?case
    by (simp add: p s1(3) del: collect_transactions.simps)
qed

section \<open>Properties\<close>

text \<open>
  C31: a packet written by \<open>send_raw\<close> and delivered unchanged is read back by \<open>read_packet\<close> with
  its type, correlation id and payload, and the reader is left exactly at the next packet, for
  every payload that fits the 24-bit size field.
\<close>

theorem packet_roundtrip:
  assumes "tcp_ok T input output" and "tcp_ok T' input' output'"
    and "output s = []" and "length payload + 8 < 2 ^ 24"
    and "send_raw T s ty payload d = Ok s1" and "input' r = output s1 @ rest"
  shows "\<exists>r'. read_packet T' r = Ok ((ty, d, payload), r') \<and> input' r' = rest"
proof -
  from assms(1) obtain s' where "send_raw T s ty payload d = Ok s'"
    "output s' = output s @ wire_packet (ty, d, payload)" by (rule send_raw_wire)
  with assms(3,5,6) have "input' r = wire_packet (ty, d, payload) @ rest" by simp
  moreover have "fits (ty, d, payload)" using assms(4) by (simp add: fits_def)
  ultimately show ?thesis using read_packet_wire [OF assms(2)] by metis
qed

theorem packet_roundtrip_witness:
  "\<exists>r'. read_packet mem_tcp (wire_packet (16, 7, [1, 2, 3, 4]) @ [9], [])
      = Ok ((16, 7, [1, 2, 3, 4]), r') \<and> fst r' = [9]"
  by (rule packet_roundtrip [OF mem_tcp_ok mem_tcp_ok, of "([], [])"
        "[1, 2, 3, 4]" 16 7 "([], wire_packet (16, 7, [1, 2, 3, 4]))"])
    (simp_all add: send_raw_def mem_tcp_def wire_packet_def)

text \<open>
  a tick data request sends exactly one type 16 packet carrying the tick, skips whatever the
  node broadcasts meanwhile, and returns the payload of the first type 8 packet, provided it
  arrives before an \<^verbatim>\<open>EndResponse\<close>, a \<^verbatim>\<open>TryAgain\<close> and the deadline; nothing behind that packet
  is consumed.
\<close>

theorem request_tick_data_answered:
  assumes "tcp_ok T input output"
    and "list_all (\<lambda>p. fits p \<and> fst p \<notin> {8, 35, 54}) pre" and "fits (8, d, payload)"
    and "input s = concat (map wire_packet pre) @ wire_packet (8, d, payload) @ rest"
  shows "\<exists>s'. request_tick_data T tick rand (replicate (Suc (length pre)) False @ clock) s
      = Some (Ok (payload, s')) \<and> input s' = rest
        \<and> output s' = output s @ wire_packet (16, max rand 1, u32_to_le tick)"
  unfolding request_tick_data_def using assms by (rule tick_data.request_answered)

theorem request_tick_data_answered_witness:
  "\<exists>s'. request_tick_data mem_tcp 7 5 [False, False]
      (wire_packet (3, 1, [9]) @ wire_packet (8, 2, [1, 2]), [])
      = Some (Ok ([1, 2], s')) \<and> fst s' = []
        \<and> snd s' = wire_packet (16, 5, u32_to_le 7)"
  using request_tick_data_answered [OF mem_tcp_ok, of "[(3, 1, [9])]" 2 "[1, 2]"
      "(wire_packet (3, 1, [9]) @ wire_packet (8, 2, [1, 2]), [])" "[]" 7 5 "[]"]
  by (simp add: fits_def)

text \<open>
  every transaction of a tick is collected: the request returns the type 24 payloads in the
  order of arrival, up to the first \<^verbatim>\<open>EndResponse\<close>, whatever else is interleaved.
\<close>

theorem request_tick_transactions_collects:
  assumes "tcp_ok T input output"
    and "list_all (\<lambda>p. fits p \<and> fst p \<notin> {35, 54}) pre" and "fits (35, d, body)"
    and "input s = concat (map wire_packet pre) @ wire_packet (35, d, body) @ rest"
  shows "\<exists>s'. request_tick_transactions T tick rand (replicate (Suc (length pre)) False @ clock) s
      = Some (Ok (map (snd \<circ> snd) (filter (\<lambda>p. fst p = 24) pre), s')) \<and> input s' = rest
        \<and> output s' = output s @ wire_packet (29, max rand 1, u32_to_le tick)"
proof -
  obtain s1 where s1: "send_raw T s 29 (u32_to_le tick) (max rand 1) = Ok s1" "input s1 = input s"
    "output s1 = output s @ wire_packet (29, max rand 1, u32_to_le tick)"
    by (rule send_raw_wire [OF assms(1)])
  from collect_transactions_upto [OF assms(1-3), of s1 rest clock "[]"] s1 assms(4) show ?thesis
    by (simp add: request_tick_transactions_def)
qed

theorem request_tick_transactions_collects_witness:
  "\<exists>s'. request_tick_transactions mem_tcp 7 0 [False, False, False]
      (wire_packet (24, 1, [9]) @ wire_packet (24, 1, [8]) @ wire_packet (35, 2, []), [])
      = Some (Ok ([[9], [8]], s')) \<and> fst s' = [] \<and> snd s' = wire_packet (29, 1, u32_to_le 7)"
  using request_tick_transactions_collects [OF mem_tcp_ok, of "[(24, 1, [9]), (24, 1, [8])]" 2 "[]"
      "(wire_packet (24, 1, [9]) @ wire_packet (24, 1, [8]) @ wire_packet (35, 2, []), [])" "[]"
      7 0 "[]"]
  by (simp add: fits_def max_def)

end
