(* ===== verification/Strings.thy ===== *)
theory Strings
  imports Qonduit_Prelude "HOL-Library.Char_ord"
begin

text \<open>
  The string operations of the standard library the code uses: the ASCII classes, \<^verbatim>\<open>trim\<close>,
  \<^verbatim>\<open>starts_with\<close> and the parsing of unsigned integers.  A string is the sequence of its UTF-8 bytes
  as characters, so that \<^verbatim>\<open>str::len\<close> is \<open>length\<close>.
\<close>

section \<open>Strings\<close>

definition is_ascii_digit :: "char \<Rightarrow> bool" where
  "is_ascii_digit c \<longleftrightarrow> CHR ''0'' \<le> c \<and> c \<le> CHR ''9''"

definition is_ascii_hexdigit :: "char \<Rightarrow> bool" where
  "is_ascii_hexdigit c \<longleftrightarrow> is_ascii_digit c \<or> (CHR ''A'' \<le> c \<and> c \<le> CHR ''F'') \<or> (CHR ''a'' \<le> c \<and> c \<le> CHR ''f'')"

text \<open>The UTF-8 encodings of the characters with the Unicode property \<^verbatim>\<open>White_Space\<close>.\<close>

definition whitespace :: "string list" where
  "whitespace = [[CHR 0x09], [CHR 0x0A], [CHR 0x0B], [CHR 0x0C], [CHR 0x0D], [CHR 0x20],
     [CHR 0xC2, CHR 0x85], [CHR 0xC2, CHR 0xA0], [CHR 0xE1, CHR 0x9A, CHR 0x80]]
     @ map (\<lambda>n. [CHR 0xE2, CHR 0x80, char_of n]) ([0x80..<0x8B] @ [0xA8::nat, 0xA9, 0xAF])
     @ [[CHR 0xE2, CHR 0x81, CHR 0x9F], [CHR 0xE3, CHR 0x80, CHR 0x80]]"

definition starts_with :: "string \<Rightarrow> string \<Rightarrow> bool" where
  "starts_with s p \<longleftrightarrow> take (length p) s = p"

function strip_start :: "string list \<Rightarrow> string \<Rightarrow> string" where
  "strip_start ws s =
     (case find (\<lambda>w. w \<noteq> [] \<and> starts_with s w) ws of
        None \<Rightarrow> s
      | Some w \<Rightarrow> strip_start ws (drop (length w) s))"
  by pat_completeness auto
termination
proof (relation "measure (\<lambda>(ws, s). length s)")
  fix ws w and s :: string
  assume "find (\<lambda>w. w \<noteq> [] \<and> starts_with s w) ws = Some w"
  then have "w \<noteq> []" "starts_with s w" by (auto simp: find_Some_iff)
  then have "length (drop (length w) s) < length s"
    by (cases s) (auto simp: starts_with_def)
  then show "((ws, drop (length w) s), ws, s) \<in> measure (\<lambda>(ws, s). length s)" by simp
qed simp

declare strip_start.simps [simp del]

definition trim :: "string \<Rightarrow> string" where
  "trim s = rev (strip_start (map rev whitespace) (rev (strip_start whitespace s)))"

text \<open>
  \<^verbatim>\<open>str::parse\<close> of an unsigned integer of \<open>w\<close> bits: an optional plus sign and at least one digit,
  without overflow.
\<close>

definition parse_unsigned :: "nat \<Rightarrow> string \<Rightarrow> nat option" where
  "parse_unsigned w s =
     (let digits = (case s of [] \<Rightarrow> [] | c # cs \<Rightarrow> if c = CHR ''+'' then cs else c # cs)
      in if digits \<noteq> [] \<and> list_all is_ascii_digit digits \<and> decimal_value digits < 2 ^ w
         then Some (decimal_value digits) else None)"

definition parse_u16 :: "string \<Rightarrow> u16 option" where
  "parse_u16 s = map_option word_of_nat (parse_unsigned 16 s)"

definition parse_u32 :: "string \<Rightarrow> u32 option" where
  "parse_u32 s = map_option word_of_nat (parse_unsigned 32 s)"

definition parse_u64 :: "string \<Rightarrow> u64 option" where
  "parse_u64 s = map_option word_of_nat (parse_unsigned 64 s)"

lemma starts_with_nth: "starts_with s p \<Longrightarrow> i < length p \<Longrightarrow> s ! i = p ! i"
  by (metis nth_take starts_with_def)

lemma trim_ascii:
  assumes "s \<noteq> []" "list_all (\<lambda>c. CHR ''!'' \<le> c \<and> c \<le> CHR ''~'') s"
  shows "trim s = s"
proof -
  have w: "list_all (\<lambda>w. w = [] \<or> \<not> (CHR ''!'' \<le> hd w \<and> hd w \<le> CHR ''~'')) whitespace"
    "list_all (\<lambda>w. w = [] \<or> \<not> (CHR ''!'' \<le> hd w \<and> hd w \<le> CHR ''~'')) (map rev whitespace)"
    by (simp_all add: whitespace_def upt_rec less_eq_char_def)
  have strip: "strip_start ws r = r"
    if "list_all (\<lambda>w. w = [] \<or> \<not> (CHR ''!'' \<le> hd w \<and> hd w \<le> CHR ''~'')) ws"
      "list_all (\<lambda>c. CHR ''!'' \<le> c \<and> c \<le> CHR ''~'') r" for ws and r :: string
  proof -
    have "find (\<lambda>w. w \<noteq> [] \<and> starts_with r w) ws = None"
      using that by (cases r) (auto simp: find_None_iff list_all_iff starts_with_def neq_Nil_conv)
    then show ?thesis by (subst strip_start.simps) simp
  qed
  show ?thesis using strip [OF w(1) assms(2)] strip [OF w(2), of "rev s"] assms(2)
    by (simp add: trim_def list_all_rev)
qed

lemma show_nat_digits: "list_all is_ascii_digit (show_nat n)"
proof (induction n rule: show_nat.induct)
  case (1 n)
  have "n mod 10 < 10" by simp
  then have "is_ascii_digit (char_of (48 + n mod 10))"
    by (auto simp: is_ascii_digit_def less_eq_char_def)
  then show ?case using 1 by (subst show_nat.simps) (auto simp: Let_def)
qed

lemma parse_unsigned_show: "n < 2 ^ w \<Longrightarrow> parse_unsigned w (show_nat n) = Some n"
proof -
  assume n: "n < 2 ^ w"
  have d: "list_all is_ascii_digit (show_nat n)" "show_nat n \<noteq> []"
    using show_nat_digits length_show_nat [of n] by auto
  then have "(case show_nat n of [] \<Rightarrow> [] | c # cs \<Rightarrow> if c = CHR ''+'' then cs else c # cs) = show_nat n"
    by (cases "show_nat n") (auto simp: is_ascii_digit_def less_eq_char_def)
  then show ?thesis using d n by (simp add: parse_unsigned_def)
qed

lemma parse_show:
  "parse_u16 (show_nat (unat e)) = Some e" "parse_u32 (show_nat (unat t)) = Some t"
  using unat_lt_pow [of e] unat_lt_pow [of t] by (simp_all add: parse_u16_def parse_u32_def parse_unsigned_show)

end
