(* ===== verification/Peers.thy ===== *)
theory Peers
  imports Strings "HOL-Library.Product_Lexorder"
begin

text \<open>
  \<^verbatim>\<open>crates/ingestion/src/peer_manager.rs\<close>: the list of known peers, their health counters and the
  selection of a peer.  An \<^verbatim>\<open>Instant\<close> is a number of nanoseconds and every operation that reads the
  clock takes it as an argument; scores are rationals where the source has \<^verbatim>\<open>f64\<close>; the random draw
  of \<^verbatim>\<open>best_peer\<close> and the HTTP response of the bootstrap are arguments.
\<close>

datatype ip_addr = V4 u8 u8 u8 u8 | V6 bytes

type_synonym socket_addr = "ip_addr \<times> u16"
type_synonym instant = nat

definition QUBIC_PORT :: u16 where "QUBIC_PORT = 21841"
definition BOB_PORT :: u16 where "BOB_PORT = 21842"
definition STALE_THRESHOLD :: nat where "STALE_THRESHOLD = 600 * 10 ^ 9"
definition PRUNE_FAILURE_THRESHOLD :: u32 where "PRUNE_FAILURE_THRESHOLD = 5"

record peer =
  addr :: socket_addr
  last_seen :: "instant option"
  last_failure :: "instant option"
  success_count :: u32
  failure_count :: u32
  broadcast_count :: u32

definition new_peer :: "socket_addr \<Rightarrow> peer" where
  "new_peer a = \<lparr>addr = a, last_seen = None, last_failure = None, success_count = 0,
     failure_count = 0, broadcast_count = 0\<rparr>"

definition score :: "peer \<Rightarrow> rat" where
  "score p =
     (if 0 < broadcast_count p
      then 7 / 10 + min (of_nat (unat (broadcast_count p))) 10 / 10 * (3 / 10)
      else let total = success_count p + failure_count p
           in if total = 0 then 3 / 10
              else of_nat (unat (success_count p)) / of_nat (unat total) * (1 / 2))"

definition is_stale :: "instant \<Rightarrow> peer \<Rightarrow> bool" where
  "is_stale now p \<longleftrightarrow>
     (case last_seen p of
        None \<Rightarrow> False
      | Some t \<Rightarrow> PRUNE_FAILURE_THRESHOLD \<le> failure_count p \<and> success_count p = 0
          \<and> STALE_THRESHOLD \<le> now - t)"

section \<open>Parsing addresses\<close>

fun split_dots :: "string \<Rightarrow> string \<Rightarrow> string list" where
  "split_dots [] part = [rev part]"
| "split_dots (c # cs) part =
     (if c = CHR ''.'' then rev part # split_dots cs [] else split_dots cs (c # part))"

definition is_digit :: "char \<Rightarrow> bool" where
  "is_digit c \<longleftrightarrow> 48 \<le> (of_char c :: nat) \<and> (of_char c :: nat) \<le> 57"

definition parse_octet :: "string \<Rightarrow> u8 option" where
  "parse_octet s =
     (if s \<noteq> [] \<and> length s \<le> 3 \<and> list_all is_digit s \<and> (hd s = CHR ''0'' \<longrightarrow> length s = 1)
         \<and> decimal_value s \<le> 255
      then Some (word_of_nat (decimal_value s)) else None)"

definition parse_ipv4 :: "string \<Rightarrow> ip_addr option" where
  "parse_ipv4 s =
     (case split_dots s [] of
        [a, b, c, d] \<Rightarrow>
          (case (parse_octet a, parse_octet b, parse_octet c, parse_octet d) of
             (Some a, Some b, Some c, Some d) \<Rightarrow> Some (V4 a b c d)
           | _ \<Rightarrow> None)
      | _ \<Rightarrow> None)"

definition parse_peer_addr :: "string \<Rightarrow> u16 \<Rightarrow> socket_addr option" where
  "parse_peer_addr ip_str port =
     (case parse_ipv4 (trim ip_str) of None \<Rightarrow> None | Some ip \<Rightarrow> Some (ip, port))"

section \<open>The peer manager\<close>

type_synonym peers = "peer list"

definition new_peer_manager :: "socket_addr list \<Rightarrow> peers" where
  "new_peer_manager bootstrap_addrs = map new_peer bootstrap_addrs"

definition known :: "socket_addr \<Rightarrow> peers \<Rightarrow> bool" where
  "known a ps \<longleftrightarrow> list_ex (\<lambda>p. addr p = a) ps"

definition add_peer :: "socket_addr \<Rightarrow> peers \<Rightarrow> peers" where
  "add_peer a ps = (if known a ps then ps else ps @ [new_peer a])"

fun add_parsed :: "u16 \<Rightarrow> string list \<Rightarrow> peers \<Rightarrow> peers" where
  "add_parsed port [] ps = ps"
| "add_parsed port (ip_str # rest) ps =
     add_parsed port rest
       (case parse_peer_addr ip_str port of None \<Rightarrow> ps | Some a \<Rightarrow> add_peer a ps)"

text \<open>The HTTP response: an error, or the two lists of the JSON body.\<close>

definition bootstrap_from_api :: "(string list \<times> string list) outcome \<Rightarrow> peers
    \<Rightarrow> unit outcome \<times> peers" where
  "bootstrap_from_api response ps =
     bindS (liftS response ps) (\<lambda>(lite_peers, bob_peers) ps.
       (Ok (), add_parsed BOB_PORT bob_peers (add_parsed QUBIC_PORT lite_peers ps)))"

fun add_peers_from_exchange :: "(u8 \<times> u8 \<times> u8 \<times> u8) list \<Rightarrow> peers \<Rightarrow> peers" where
  "add_peers_from_exchange [] ps = ps"
| "add_peers_from_exchange ((a, b, c, d) # raw) ps =
     add_peers_from_exchange raw
       (if (a, b, c, d) = (0, 0, 0, 0) then ps else add_peer (V4 a b c d, QUBIC_PORT) ps)"

text \<open>\<^verbatim>\<open>iter_mut().find(...)\<close>: update the first peer with the address.\<close>

fun update_peer :: "socket_addr \<Rightarrow> (peer \<Rightarrow> peer) \<Rightarrow> peers \<Rightarrow> peers" where
  "update_peer a f [] = []"
| "update_peer a f (p # ps) = (if addr p = a then f p # ps else p # update_peer a f ps)"

definition mark_broadcast :: "instant \<Rightarrow> socket_addr \<Rightarrow> peers \<Rightarrow> peers" where
  "mark_broadcast now a =
     update_peer a (\<lambda>p. p\<lparr>broadcast_count := sat_add (broadcast_count p) 1, last_seen := Some now\<rparr>)"

definition mark_success :: "instant \<Rightarrow> socket_addr \<Rightarrow> peers \<Rightarrow> peers" where
  "mark_success now a ps =
     (if known a ps
      then update_peer a (\<lambda>p. p\<lparr>success_count := sat_add (success_count p) 1,
             last_seen := Some now\<rparr>) ps
      else ps @ [(new_peer a)\<lparr>success_count := 1, last_seen := Some now\<rparr>])"

definition mark_failure :: "instant \<Rightarrow> socket_addr \<Rightarrow> peers \<Rightarrow> peers" where
  "mark_failure now a =
     update_peer a (\<lambda>p. p\<lparr>failure_count := sat_add (failure_count p) 1, last_failure := Some now\<rparr>)"

definition seen_secs :: "instant \<Rightarrow> peer \<Rightarrow> nat" where
  "seen_secs now p =
     (case last_seen p of None \<Rightarrow> 2 ^ 64 - 1 | Some t \<Rightarrow> (now - t) div 10 ^ 9)"

text \<open>Highest score first, then least recently seen first; the sort is stable.\<close>

definition rank :: "instant \<Rightarrow> peer \<Rightarrow> rat \<times> int" where
  "rank now p = (- score p, - int (seen_secs now p))"

definition pick_top :: "instant \<Rightarrow> nat \<Rightarrow> peers \<Rightarrow> socket_addr option" where
  "pick_top now rand candidates =
     (let sorted = sort_key (rank now) candidates;
          top_n = min (length sorted) 3
      in Some (addr (sorted ! (rand mod top_n))))"

definition best_peer :: "instant \<Rightarrow> nat \<Rightarrow> peers \<Rightarrow> socket_addr option" where
  "best_peer now rand ps =
     (let candidates = filter (\<lambda>p. 1 / 5 \<le> score p) ps;
          candidates = (if candidates = [] then ps else candidates)
      in if candidates = [] then None else pick_top now rand candidates)"

definition random_peer :: "nat \<Rightarrow> peers \<Rightarrow> socket_addr option" where
  "random_peer rand ps = (if ps = [] then None else Some (addr (ps ! (rand mod length ps))))"

definition best_bob_peer :: "instant \<Rightarrow> nat \<Rightarrow> peers \<Rightarrow> socket_addr option" where
  "best_bob_peer now rand ps =
     (let bob = filter (\<lambda>p. snd (addr p) = BOB_PORT \<and> 1 / 5 \<le> score p) ps
      in if bob = [] then best_peer now rand ps else pick_top now rand bob)"

definition peer_count :: "peers \<Rightarrow> nat" where
  "peer_count ps = length ps"

definition prune_stale :: "instant \<Rightarrow> peers \<Rightarrow> peers" where
  "prune_stale now ps = filter (\<lambda>p. \<not> is_stale now p) ps"

section \<open>Lemmas\<close>

lemma known_iff: "known a ps \<longleftrightarrow> a \<in> addr ` set ps"
  by (auto simp: known_def list_ex_iff)

lemma addr_new_peer [simp]: "addr (new_peer a) = a"
  by (simp add: new_peer_def)

lemma map_addr_update_peer:
  "(\<And>p. addr (f p) = addr p) \<Longrightarrow> map addr (update_peer a f ps) = map addr ps"
  by (induction ps) simp_all

lemma map_addr_marks [simp]:
  "map addr (mark_broadcast now a ps) = map addr ps"
  "map addr (mark_failure now a ps) = map addr ps"
  by (simp_all add: mark_broadcast_def mark_failure_def map_addr_update_peer)

lemma map_addr_mark_success:
  "map addr (mark_success now a ps) = (if known a ps then map addr ps else map addr ps @ [a])"
  by (simp add: mark_success_def map_addr_update_peer)

lemma set_update_peer:
  "q \<in> set (update_peer a f ps) \<Longrightarrow> q \<in> set ps \<or> (\<exists>p\<in>set ps. q = f p)"
  by (induction ps) (auto split: if_splits)

text \<open>The operations of the manager on its list, as a state machine.\<close>

inductive pm_step :: "peers \<Rightarrow> peers \<Rightarrow> bool" where
  bootstrap: "pm_step ps (snd (bootstrap_from_api response ps))"
| exchange: "pm_step ps (add_peers_from_exchange raw ps)"
| broadcast: "pm_step ps (mark_broadcast now a ps)"
| success: "pm_step ps (mark_success now a ps)"
| failure: "pm_step ps (mark_failure now a ps)"
| prune: "pm_step ps (prune_stale now ps)"

inductive pm_reachable :: "socket_addr list \<Rightarrow> peers \<Rightarrow> bool" for addrs where
  init: "pm_reachable addrs (new_peer_manager addrs)"
| step: "pm_reachable addrs ps \<Longrightarrow> pm_step ps ps' \<Longrightarrow> pm_reachable addrs ps'"

text \<open>
  The interface of the list: a predicate on peer lists that \<open>add_peer\<close>, the three marks and
  deletion keep is kept by every operation.
\<close>

locale peers_invariant =
  fixes I :: "peers \<Rightarrow> bool"
  assumes add_peer: "I ps \<Longrightarrow> I (add_peer a ps)"
    and mark_broadcast: "I ps \<Longrightarrow> I (mark_broadcast now a ps)"
    and mark_success: "I ps \<Longrightarrow> I (mark_success now a ps)"
    and mark_failure: "I ps \<Longrightarrow> I (mark_failure now a ps)"
    and filter: "I ps \<Longrightarrow> I (filter P ps)"
begin

lemma add_parsed: "I ps \<Longrightarrow> I (add_parsed port strs ps)"
  by (induction port strs ps rule: add_parsed.induct) (auto simp: add_peer split: option.split)

lemma bootstrap: "I ps \<Longrightarrow> I (snd (bootstrap_from_api response ps))"
  by (cases response) (auto simp: bootstrap_from_api_def add_parsed split: prod.split)

lemma exchange: "I ps \<Longrightarrow> I (add_peers_from_exchange raw ps)"
  by (induction raw ps rule: add_peers_from_exchange.induct) (auto simp: add_peer)

lemma step: "pm_step ps ps' \<Longrightarrow> I ps \<Longrightarrow> I ps'"
  by (erule pm_step.cases)
    (auto simp: bootstrap exchange mark_broadcast mark_success mark_failure prune_stale_def filter)

lemma reachable: "pm_reachable addrs ps \<Longrightarrow> I (new_peer_manager addrs) \<Longrightarrow> I ps"
  by (induction rule: pm_reachable.induct) (auto intro: step)

end

definition distinct_addrs :: "peers \<Rightarrow> bool" where
  "distinct_addrs ps \<longleftrightarrow> distinct (map addr ps)"

interpretation distinct_addrs: peers_invariant distinct_addrs
  by unfold_locales
    (auto simp: distinct_addrs_def add_peer_def known_iff map_addr_mark_success distinct_map_filter
      simp del: map_addr_marks(1) simp: map_addr_marks(1) map_addr_marks(2))

text \<open>A peer has been seen only if it was counted as a success or a broadcaster.\<close>

definition seen_counted :: "peers \<Rightarrow> bool" where
  "seen_counted ps \<longleftrightarrow>
     list_all (\<lambda>p. last_seen p \<noteq> None \<longrightarrow> 0 < success_count p \<or> 0 < broadcast_count p) ps"

lemma sat_add_1_pos: "0 < sat_add (w :: u32) 1"
  by (simp add: word_less_nat_alt unat_sat_add)

interpretation seen_counted: peers_invariant seen_counted
  by unfold_locales
    (auto simp: seen_counted_def list_all_iff add_peer_def new_peer_def mark_broadcast_def
      mark_success_def mark_failure_def sat_add_1_pos dest!: set_update_peer split: if_splits)

section \<open>Selection\<close>

lemma filter_less_sorted:
  assumes "sorted (map key xs)" and "i < length xs"
  shows "length (filter (\<lambda>q. key q < key (xs ! i)) xs) \<le> i"
proof -
  let ?P = "\<lambda>q. key q < key (xs ! i)"
  have "filter ?P (drop i xs) = []"
  proof (rule filter_False, intro ballI)
    fix q
    assume "q \<in> set (drop i xs)"
    then obtain j where j: "q = xs ! (i + j)" "i + j < length xs"
      by (auto simp: in_set_conv_nth)
    then have "key (xs ! i) \<le> key q"
      using sorted_nth_mono [OF assms(1), of i "i + j"] by simp
    then show "\<not> ?P q" by simp
  qed
  then have "filter ?P xs = filter ?P (take i xs)"
    by (metis append_take_drop_id filter_append self_append_conv)
  then show ?thesis by (metis length_filter_le length_take min.cobounded2 order_trans)
qed

lemma pick_top_spec:
  assumes "candidates \<noteq> []"
  shows "\<exists>p\<in>set candidates. pick_top now rand candidates = Some (addr p)
    \<and> length (filter (\<lambda>q. rank now q < rank now p) candidates) \<le> 2"
proof -
  let ?s = "sort_key (rank now) candidates"
  define i where "i = rand mod min (length ?s) 3"
  have n: "0 < min (length ?s) 3" using assms by simp
  then have i: "i < length ?s" "i \<le> 2" unfolding i_def
    using mod_less_divisor [OF n, of rand] by linarith+
  have "length (filter (\<lambda>q. rank now q < rank now (?s ! i)) ?s) \<le> i"
    by (rule filter_less_sorted) (use i in simp_all)
  moreover have "length (filter P ?s) = length (filter P candidates)" for P
    by (metis filter_sort length_sort)
  moreover have "?s ! i \<in> set candidates" using i(1) nth_mem [of i ?s] by simp
  moreover have "pick_top now rand candidates = Some (addr (?s ! i))"
    by (simp add: pick_top_def Let_def i_def)
  ultimately show ?thesis using i(2) by (intro bexI [of _ "?s ! i"]) auto
qed

text \<open>The peers selection is made from: those scoring 0.2 or more, or all if there are none.\<close>

definition eligible :: "peers \<Rightarrow> peers" where
  "eligible ps = (if list_ex (\<lambda>p. 1 / 5 \<le> score p) ps then filter (\<lambda>p. 1 / 5 \<le> score p) ps else ps)"

section \<open>Properties\<close>

text \<open>
  no peer is ever listed twice: starting from distinct bootstrap addresses, every state the
  manager can reach through bootstrapping, peer exchange, the three marks and pruning has distinct
  addresses.
\<close>

theorem peers_distinct:
  assumes "distinct addrs" and "pm_reachable addrs ps"
  shows "distinct (map addr ps)"
  using distinct_addrs.reachable [OF assms(2)] assms(1)
  by (simp add: distinct_addrs_def new_peer_manager_def comp_def)

theorem peers_distinct_witness:
  "distinct (map addr (mark_success 5 (V4 1 2 3 4, 21841)
     (add_peers_from_exchange [(1, 2, 3, 4), (0, 0, 0, 0), (1, 2, 3, 4)]
        (new_peer_manager [(V4 9 9 9 9, 21842)]))))"
  by (rule peers_distinct [of "[(V4 9 9 9 9, 21842)]"])
    (simp, rule pm_reachable.step, rule pm_reachable.step, rule pm_reachable.init,
      rule pm_step.exchange, rule pm_step.success)


text \<open>
  \<open>best_bob_peer\<close> returns a peer on the Bob port whenever one of them scores 0.2 or more, and
  otherwise what \<open>best_peer\<close> returns.
\<close>

theorem best_bob_peer_spec:
  "best_bob_peer now rand ps =
     (if \<exists>p\<in>set ps. snd (addr p) = BOB_PORT \<and> 1 / 5 \<le> score p
      then pick_top now rand (filter (\<lambda>p. snd (addr p) = BOB_PORT \<and> 1 / 5 \<le> score p) ps)
      else best_peer now rand ps)
   \<and> ((\<exists>p\<in>set ps. snd (addr p) = BOB_PORT \<and> 1 / 5 \<le> score p) \<longrightarrow>
        (\<exists>a. best_bob_peer now rand ps = Some a \<and> snd a = BOB_PORT \<and> a \<in> addr ` set ps))"
proof (cases "filter (\<lambda>p. snd (addr p) = BOB_PORT \<and> 1 / 5 \<le> score p) ps = []")
  case True
  then show ?thesis by (auto simp: best_bob_peer_def filter_empty_conv)
next
  case False
  let ?bob = "filter (\<lambda>p. snd (addr p) = BOB_PORT \<and> 1 / 5 \<le> score p) ps"
  from pick_top_spec [OF False, of now rand] obtain p where
    p: "p \<in> set ?bob" "pick_top now rand ?bob = Some (addr p)" by blast
  have e: "\<exists>p\<in>set ps. snd (addr p) = BOB_PORT \<and> 1 / 5 \<le> score p" using p(1) by auto
  have "best_bob_peer now rand ps = pick_top now rand ?bob"
    using False by (simp only: best_bob_peer_def Let_def if_False)
  with e p show ?thesis by simp
qed

text \<open>
  a score is between 0 and 1 as long as the two counters do not wrap around when added, and
  every peer that has broadcast ranks above every peer that has not.
\<close>

theorem score_bounds:
  assumes "unat (success_count p) + unat (failure_count p) < 2 ^ 32"
  shows "0 \<le> score p \<and> score p \<le> 1
    \<and> (0 < broadcast_count p \<longrightarrow> 7 / 10 < score p) \<and> (broadcast_count p = 0 \<longrightarrow> score p \<le> 1 / 2)"
proof -
  have t: "unat (success_count p + failure_count p) = unat (success_count p) + unat (failure_count p)"
    using assms by (simp add: unat_word_ariths)
  have b: "0 < broadcast_count p \<longleftrightarrow> 0 < unat (broadcast_count p)" by (simp add: word_less_nat_alt)
  have z: "success_count p + failure_count p = 0 \<longleftrightarrow> unat (success_count p) + unat (failure_count p) = 0"
    unfolding t [symmetric] by (simp add: unat_eq_zero)
  show ?thesis
  proof (cases "0 < broadcast_count p")
    case True
    define n :: rat where "n = of_nat (unat (broadcast_count p))"
    have "0 < n" using True b unfolding n_def by (simp only: of_nat_0_less_iff)
    moreover have "score p = 7 / 10 + min n 10 / 10 * (3 / 10)"
      using True by (simp only: score_def n_def if_True)
    ultimately show ?thesis using True by (cases "n \<le> 10") simp_all
  next
    case False
    then have bc: "broadcast_count p = 0" by (simp add: word_gt_0)
    define n :: rat where "n = of_nat (unat (success_count p))"
    define m :: rat where "m = of_nat (unat (success_count p + failure_count p))"
    have "0 \<le> n" "n \<le> m" unfolding n_def m_def t
      by (simp_all only: of_nat_0_le_iff of_nat_le_iff le_add1)
    then have r: "0 \<le> n / m" "n / m \<le> 1" by (simp_all add: divide_le_eq)
    have "score p = (if success_count p + failure_count p = 0 then 3 / 10 else n / m * (1 / 2))"
      using bc by (simp only: score_def n_def m_def Let_def word_neq_0_conv [symmetric] if_False
          order_less_irrefl)
    then show ?thesis using bc r by simp
  qed
qed

theorem score_bounds_witness:
  "0 \<le> score ((new_peer (V4 1 2 3 4, 21841))\<lparr>success_count := 3, failure_count := 7\<rparr>)"
  using score_bounds [of "(new_peer (V4 1 2 3 4, 21841))\<lparr>success_count := 3, failure_count := 7\<rparr>"]
  by simp

text \<open>
  Pruning never removes a peer that has only failed.  In every reachable state a stale peer
  has sent broadcasts: \<open>last_seen\<close> is set by successes and broadcasts alone, so a peer whose
  connection attempts all failed counts as never tried, however often it failed.
\<close>

theorem only_failing_peers_kept:
  assumes "pm_reachable addrs ps" and "p \<in> set ps" and "broadcast_count p = 0"
  shows "p \<in> set (prune_stale now ps)"
proof -
  have "seen_counted ps"
    using seen_counted.reachable [OF assms(1)]
    by (simp add: seen_counted_def new_peer_manager_def new_peer_def list_all_iff)
  then have "last_seen p \<noteq> None \<longrightarrow> 0 < success_count p"
    using assms(2,3) by (auto simp: seen_counted_def list_all_iff)
  then show ?thesis
    using assms(2) by (auto simp: prune_stale_def is_stale_def word_gt_0 split: option.split)
qed

theorem only_failing_peers_kept_witness:
  "mark_failure 1 (V4 1 2 3 4, 1) (new_peer_manager [(V4 1 2 3 4, 1)]) \<noteq> []
   \<and> hd (mark_failure 1 (V4 1 2 3 4, 1) (new_peer_manager [(V4 1 2 3 4, 1)]))
     \<in> set (prune_stale (10 ^ 15) (mark_failure 1 (V4 1 2 3 4, 1) (new_peer_manager [(V4 1 2 3 4, 1)])))"
proof -
  let ?ps = "mark_failure 1 (V4 1 2 3 4, 1) (new_peer_manager [(V4 1 2 3 4, 1)])"
  have "pm_reachable [(V4 1 2 3 4, 1)] ?ps"
    by (rule pm_reachable.step [OF pm_reachable.init pm_step.failure])
  then have "hd ?ps \<in> set (prune_stale (10 ^ 15) ?ps)"
    by (rule only_failing_peers_kept)
      (simp_all add: mark_failure_def new_peer_manager_def new_peer_def)
  then show ?thesis by (simp add: mark_failure_def new_peer_manager_def)
qed

end
