(* ===== verification/Connection.thy ===== *)
theory Connection
  imports Protocol Peers
begin

text \<open>
  What the live client and the backfill share when they open a connection: the TCP connect, the
  peer exchange and the request for the state of the node (\<^verbatim>\<open>client.rs\<close> and \<^verbatim>\<open>backfill.rs\<close>), and what a
  read that is dropped before it is complete does to the stream.
\<close>

text \<open>
  What the environment decides in one attempt: the clock and the random draws, the result of the
  TCP connect (a timeout is an error), the timeouts of the two requests, and where in the byte
  stream a failed or cancelled read leaves the connection.
\<close>

record 's attempt =
  at_now :: instant
  at_pick :: nat
  at_connect :: "'s outcome"
  at_exchange_rand :: u32
  at_exchange_clock :: "bool list"
  at_exchange_lost :: 's
  at_info_rand :: u32
  at_info_clock :: "bool list"
  at_info_lost :: 's

definition local_peers :: "bytes list" where
  "local_peers = replicate 4 [0, 0, 0, 0]"

definition quad :: "bytes \<Rightarrow> u8 \<times> u8 \<times> u8 \<times> u8" where
  "quad bs = (bs ! 0, bs ! 1, bs ! 2, bs ! 3)"

definition open_connection :: "'s tcp \<Rightarrow> ('s, 'z) attempt_scheme \<Rightarrow> (bytes list \<times> 's) outcome option" where
  "open_connection T A =
     (case at_connect A of
        Err e \<Rightarrow> Some (Err e)
      | Panic p \<Rightarrow> Some (Panic p)
      | Ok stream \<Rightarrow>
          map_option (\<lambda>r. bindR r (\<lambda>(remote_peers, stream').
              Ok (remote_peers, case stream' of Some s \<Rightarrow> s | None \<Rightarrow> at_exchange_lost A)))
            (exchange_public_peers T local_peers (at_exchange_rand A) (at_exchange_clock A) stream))"

text \<open>A dropped \<^verbatim>\<open>read_packet\<close> loses the bytes it had consumed.\<close>

definition drop_read :: "'s tcp \<Rightarrow> nat \<Rightarrow> 's \<Rightarrow> 's" where
  "drop_read T lost stream =
     (if lost = 0 then stream
      else case read_exact T stream lost of Ok (consumed, stream') \<Rightarrow> stream' | _ \<Rightarrow> stream)"

text \<open>The bytes of a connection on which the node has answered the exchange at once.\<close>

lemma exchange_answered:
  assumes T: "tcp_ok T input output" and "at_connect A = Ok s" "at_exchange_clock A = False # clock"
    and p: "length payload = 16" and inp: "input s = wire_packet (0, d, payload) @ rest"
  shows "\<exists>s'. open_connection T A = Some (Ok (map (chunk 4 payload) [0..<4], s')) \<and> input s' = rest
    \<and> output s' = output s @ wire_packet (0, at_exchange_rand A, concat local_peers)"
proof -
  obtain s1 where s1: "send_raw T s 0 (concat local_peers) (at_exchange_rand A) = Ok s1" "input s1 = input s"
    "output s1 = output s @ wire_packet (0, at_exchange_rand A, concat local_peers)"
    by (rule send_raw_wire [OF T])
  have f: "fits (0, d, payload)" using p by (simp add: fits_def)
  have i1: "input s1 = wire_packet (0, d, payload) @ rest" using inp s1(2) by simp
  obtain s2 where "read_packet T s1 = Ok ((0, d, payload), s2)" "input s2 = rest" "output s2 = output s1"
    by (rule read_packet_wire [OF T f i1])
  then show ?thesis
    using s1 p by (simp add: open_connection_def assms(2,3) exchange_public_peers_def)
qed

lemma tick_info_answered:
  assumes T: "tcp_ok T input output" and "clock = False # later"
    and f: "fits (28, d, payload)" and inp: "input s = wire_packet (28, d, payload) @ rest"
  shows "\<exists>s'. request_current_tick_info T rand clock s = Some (Ok (payload, s')) \<and> input s' = rest
    \<and> output s' = output s @ wire_packet (27, max rand 1, [])"
proof -
  obtain s1 where s1: "send_raw T s 27 [] (max rand 1) = Ok s1" "input s1 = input s"
    "output s1 = output s @ wire_packet (27, max rand 1, [])"
    by (rule send_raw_wire [OF T])
  have i1: "input s1 = wire_packet (28, d, payload) @ rest" using inp s1(2) by simp
  obtain s2 where "read_packet T s1 = Ok ((28, d, payload), s2)" "input s2 = rest" "output s2 = output s1"
    by (rule read_packet_wire [OF T f i1])
  then show ?thesis
    using s1 by (simp add: request_current_tick_info_def request_def tick_info_reply_def assms(2))
qed

end
