(* ===== verification/Pipeline.thy ===== *)
theory Pipeline
  imports Strings
begin

text \<open>
  \<^verbatim>\<open>crates/core/src/pipeline.rs\<close> and \<^verbatim>\<open>system.rs\<close>: the shared counters of the pipeline with the
  status snapshot taken of them, and the parameters tuned to the machine.  Atomics are the fields
  of a record; the wall clock and the detected resources are arguments; \<^verbatim>\<open>f64\<close> is a rational, and
  the cast of one to \<^verbatim>\<open>u64\<close> truncates and saturates.
\<close>

record pipeline_state =
  ingestion_connected :: bool
  ingestion_disabled :: bool
  node_tick :: u32
  node_epoch :: u16
  indexed_tick :: u32
  indexed_epoch :: u16
  ticks_indexed :: u64
  txs_indexed :: u64
  entities_indexed :: u64
  tick_lag :: u64
  tx_lag :: u64
  entity_lag :: u64
  indexing_start_time :: u64
  total_ticks_indexed :: u64
  rate_window_last_time :: u64
  rate_window_last_indexed :: u64
  current_indexing_rate :: u64
  backfill_running :: bool
  backfill_ticks_completed :: u64
  backfill_txs_discovered :: u64
  backfill_ticks_discovered :: u64
  backfill_ticks_failed :: u64
  backfill_start_tick :: u32
  backfill_end_tick :: u32

record pipeline_status_response =
  ps_pipeline_status :: string
  ps_ingestion_connected :: bool
  ps_node_tick :: u32
  ps_node_epoch :: u16
  ps_indexed_tick :: u32
  ps_indexed_epoch :: u16
  ps_ticks_behind :: i64
  ps_ticks_indexed :: u64
  ps_txs_indexed :: u64
  ps_entities_indexed :: u64
  ps_tick_lag :: u64
  ps_tx_lag :: u64
  ps_entity_lag :: u64
  ps_uptime_seconds :: u64
  ps_estimated_seconds_to_live :: u64
  ps_avg_indexing_rate :: rat
  ps_current_indexing_rate :: rat
  ps_backfill_running :: bool
  ps_backfill_ticks_completed :: u64
  ps_backfill_txs_discovered :: u64
  ps_backfill_ticks_discovered :: u64
  ps_backfill_ticks_failed :: u64
  ps_backfill_start_tick :: u32
  ps_backfill_end_tick :: u32

definition new_pipeline :: "u64 \<Rightarrow> pipeline_state" where
  "new_pipeline now = \<lparr>ingestion_connected = False, ingestion_disabled = False, node_tick = 0,
     node_epoch = 0, indexed_tick = 0, indexed_epoch = 0, ticks_indexed = 0, txs_indexed = 0,
     entities_indexed = 0, tick_lag = 0, tx_lag = 0, entity_lag = 0, indexing_start_time = now,
     total_ticks_indexed = 0, rate_window_last_time = now, rate_window_last_indexed = 0,
     current_indexing_rate = 0, backfill_running = False, backfill_ticks_completed = 0,
     backfill_txs_discovered = 0, backfill_ticks_discovered = 0, backfill_ticks_failed = 0,
     backfill_start_tick = 0, backfill_end_tick = 0\<rparr>"

definition f64_as_u64 :: "rat \<Rightarrow> u64" where
  "f64_as_u64 x = (if 2 ^ 64 \<le> x then - 1 else word_of_int \<lfloor>max x 0\<rfloor>)"

definition u64_as_f64 :: "u64 \<Rightarrow> rat" where
  "u64_as_f64 w = of_nat (unat w)"

definition behind_of :: "pipeline_state \<Rightarrow> i64" where
  "behind_of p =
     (if 0 < node_tick p \<and> 0 < indexed_tick p
      then int (unat (node_tick p)) - int (unat (indexed_tick p))
      else if 0 < node_tick p then int (unat (node_tick p)) else 0)"

definition roll_window :: "u64 \<Rightarrow> pipeline_state \<Rightarrow> pipeline_state" where
  "roll_window now p =
     (let total_indexed = total_ticks_indexed p;
          window_elapsed = sat_sub now (rate_window_last_time p)
      in if 3 \<le> window_elapsed
         then p\<lparr>current_indexing_rate :=
                  sat_mul (sat_sub total_indexed (rate_window_last_indexed p)) 1000 div window_elapsed,
                rate_window_last_time := now, rate_window_last_indexed := total_indexed\<rparr>
         else p)"

definition status :: "u64 \<Rightarrow> u64 \<Rightarrow> pipeline_state \<Rightarrow> pipeline_status_response \<times> pipeline_state" where
  "status now uptime p =
     (let behind = behind_of p;
          pipeline_status =
            (if ingestion_disabled p then ''query_only''
             else if \<not> ingestion_connected p then ''disconnected''
             else if 100 < behind then ''catching_up''
             else ''live'');
          p' = roll_window now p;
          current_rate = u64_as_f64 (current_indexing_rate p') / 1000;
          elapsed = sat_sub now (indexing_start_time p');
          avg_indexing_rate =
            (if 0 < elapsed then u64_as_f64 (total_ticks_indexed p') / u64_as_f64 elapsed else 0);
          ticks_behind = (word_of_int (max behind 0) :: u64);
          rate_for_eta = (if 0 < current_rate then current_rate else avg_indexing_rate);
          eta = (if 0 < rate_for_eta \<and> 0 < ticks_behind
                 then f64_as_u64 (u64_as_f64 ticks_behind / rate_for_eta) else 0)
      in (\<lparr>ps_pipeline_status = pipeline_status, ps_ingestion_connected = ingestion_connected p,
           ps_node_tick = node_tick p, ps_node_epoch = node_epoch p,
           ps_indexed_tick = indexed_tick p, ps_indexed_epoch = indexed_epoch p,
           ps_ticks_behind = behind, ps_ticks_indexed = ticks_indexed p,
           ps_txs_indexed = txs_indexed p, ps_entities_indexed = entities_indexed p,
           ps_tick_lag = tick_lag p, ps_tx_lag = tx_lag p, ps_entity_lag = entity_lag p,
           ps_uptime_seconds = uptime, ps_estimated_seconds_to_live = eta,
           ps_avg_indexing_rate = avg_indexing_rate, ps_current_indexing_rate = current_rate,
           ps_backfill_running = backfill_running p,
           ps_backfill_ticks_completed = backfill_ticks_completed p,
           ps_backfill_txs_discovered = backfill_txs_discovered p,
           ps_backfill_ticks_discovered = backfill_ticks_discovered p,
           ps_backfill_ticks_failed = backfill_ticks_failed p,
           ps_backfill_start_tick = backfill_start_tick p,
           ps_backfill_end_tick = backfill_end_tick p\<rparr>, p'))"

section \<open>System resources\<close>

record system_resources =
  cpu_cores :: nat
  memory_mb :: u64
  rocksdb_write_buffer_size :: nat
  rocksdb_max_write_buffers :: i32
  sr_batch_size :: nat
  concurrency :: nat

text \<open>
  \<^verbatim>\<open>available_memory_mb\<close>: the second word of the \<^verbatim>\<open>MemAvailable:\<close> line of \<^verbatim>\<open>/proc/meminfo\<close>, in
  kilobytes; the file's lines, split into words, are the argument, \<open>None\<close> when it cannot be read.
\<close>

definition available_memory_mb :: "string list list option \<Rightarrow> u64" where
  "available_memory_mb meminfo =
     (case meminfo of None \<Rightarrow> 4096
      | Some lines \<Rightarrow>
          (case find (\<lambda>ws. ws \<noteq> [] \<and> take 13 (hd ws) = ''MemAvailable:'') lines of
             None \<Rightarrow> 4096
           | Some ws \<Rightarrow>
               if 1 < length ws
               then (case parse_u64 (ws ! 1) of None \<Rightarrow> 4096 | Some kb \<Rightarrow> kb div 1024)
               else 4096))"

definition detect :: "nat option \<Rightarrow> u64 \<Rightarrow> system_resources" where
  "detect parallelism mem =
     (let cores = (case parallelism of None \<Rightarrow> 2 | Some n \<Rightarrow> n);
          total_write_budget = mem * 1024 * 1024 div 4;
          per_cf_budget = total_write_budget div 15;
          write_buffer_size = min (max (unat per_cf_budget) (64 * 1024 * 1024)) (512 * 1024 * 1024);
          max_write_buffers = (if 16384 < mem then 6 else if 8192 < mem then 4
            else if 4096 < mem then 3 else 2);
          batch = (if 8192 < mem then 500 else if 4096 < mem then 250
            else if 2048 < mem then 100 else 50);
          conc = (if 8 \<le> cores then 32 else if 4 \<le> cores then 16 else if 2 \<le> cores then 8 else 4)
      in \<lparr>cpu_cores = cores, memory_mb = mem, rocksdb_write_buffer_size = write_buffer_size,
          rocksdb_max_write_buffers = max_write_buffers, sr_batch_size = batch,
          concurrency = conc\<rparr>)"

definition detect_with_overrides :: "nat option \<Rightarrow> u64 \<Rightarrow> nat option \<Rightarrow> nat option \<Rightarrow> system_resources" where
  "detect_with_overrides parallelism mem override_batch_size override_concurrency =
     (let res = detect parallelism mem;
          res = (case override_batch_size of None \<Rightarrow> res | Some b \<Rightarrow> res\<lparr>sr_batch_size := b\<rparr>)
      in case override_concurrency of None \<Rightarrow> res | Some c \<Rightarrow> res\<lparr>concurrency := c\<rparr>)"

section \<open>Properties\<close>

text \<open>
  The status is \<^verbatim>\<open>live\<close> exactly when ingestion is enabled and connected and the node is at
  most 100 ticks ahead; an estimate of the time to catch up is given only while the node is ahead;
  and taking a snapshot changes nothing of the state but the rate window.
\<close>

theorem status_live:
  assumes "status now uptime p = (r, p')"
  shows "(ps_pipeline_status r = ''live'' \<longleftrightarrow>
      \<not> ingestion_disabled p \<and> ingestion_connected p \<and> behind_of p \<le> 100)
    \<and> (behind_of p \<le> 0 \<longrightarrow> ps_estimated_seconds_to_live r = 0)
    \<and> p' = p\<lparr>current_indexing_rate := current_indexing_rate p',
        rate_window_last_time := rate_window_last_time p',
        rate_window_last_indexed := rate_window_last_indexed p'\<rparr>"
proof -
  have r: "r = fst (status now uptime p)" using assms by simp
  have "p' = snd (status now uptime p)" using assms by simp
  then have p': "p' = roll_window now p" by (simp only: status_def Let_def snd_conv)
  have "p' = p\<lparr>current_indexing_rate := current_indexing_rate p',
      rate_window_last_time := rate_window_last_time p',
      rate_window_last_indexed := rate_window_last_indexed p'\<rparr>"
    unfolding p' roll_window_def Let_def by (cases p) simp
  moreover have "behind_of p \<le> 0 \<Longrightarrow> ps_estimated_seconds_to_live r = 0"
    unfolding r status_def Let_def by (simp add: max_def)
  moreover have "ps_pipeline_status r = ''live'' \<longleftrightarrow>
      \<not> ingestion_disabled p \<and> ingestion_connected p \<and> behind_of p \<le> 100"
    unfolding r status_def Let_def by auto
  ultimately show ?thesis by blast
qed

theorem status_live_witness:
  "\<exists>r p'. status 100 5 ((new_pipeline 0)\<lparr>ingestion_connected := True, node_tick := 500, indexed_tick := 450\<rparr>)
      = (r, p') \<and> ps_pipeline_status r = ''live''"
proof -
  let ?p = "(new_pipeline 0)\<lparr>ingestion_connected := True, node_tick := 500, indexed_tick := 450\<rparr>"
  obtain r p' where e: "status 100 5 ?p = (r, p')" by fastforce
  have "behind_of ?p \<le> 100" by (simp add: behind_of_def)
  with status_live [OF e] e show ?thesis by (simp add: new_pipeline_def)
qed

text \<open>
  the tuned parameters stay in their documented ranges on every machine: write buffers between
  64 and 512 MiB, two to six of them, batches of 50 to 500 messages and 4 to 32 handlers; and an
  override always wins.
\<close>

theorem detect_ranges:
  "64 * 1024 * 1024 \<le> rocksdb_write_buffer_size (detect c m)
   \<and> rocksdb_write_buffer_size (detect c m) \<le> 512 * 1024 * 1024
   \<and> 2 \<le> rocksdb_max_write_buffers (detect c m) \<and> rocksdb_max_write_buffers (detect c m) \<le> 6
   \<and> 50 \<le> sr_batch_size (detect c m) \<and> sr_batch_size (detect c m) \<le> 500
   \<and> 4 \<le> concurrency (detect c m) \<and> concurrency (detect c m) \<le> 32
   \<and> sr_batch_size (detect_with_overrides c m (Some b) oc) = b
   \<and> concurrency (detect_with_overrides c m ob (Some k)) = k"
  by (simp add: detect_def detect_with_overrides_def Let_def split: option.split)

end
