(* ===== verification/Client.thy ===== *)
theory Client
  imports Packet_Decoder Connection Pipeline
begin

text \<open>
  \<^verbatim>\<open>crates/ingestion/src/client.rs\<close>: the client that keeps a connection to one node and publishes
  what it reads.  The branches \<^verbatim>\<open>tokio::select!\<close> can take are the events of the read loop, and their
  order is a list chosen by the environment; a loop that still waits when the list ends is \<open>None\<close>.
  A branch that wins drops the pending \<^verbatim>\<open>read_packet\<close> with the bytes it had consumed, whose number
  is part of the event.  The \<^verbatim>\<open>HashSet\<close> of pending entities is a list in its iteration order; the
  Prometheus metrics the loop touches are fields of the client.
\<close>

definition MAX_PEERS_PER_ATTEMPT :: nat where "MAX_PEERS_PER_ATTEMPT = 8"
definition SILENT_NODE_THRESHOLD_SECS :: nat where "SILENT_NODE_THRESHOLD_SECS = 120"
definition MAX_PENDING_ENTITIES :: nat where "MAX_PENDING_ENTITIES = 500"
definition ENTITY_BATCH_SIZE :: nat where "ENTITY_BATCH_SIZE = 10"

text \<open>Durations are in seconds.\<close>

record ingestion_config =
  ic_node_addr :: "socket_addr option"
  ic_bootstrap_addrs :: "socket_addr list"
  ic_tcp_timeout :: nat
  ic_reconnect_delay :: nat

definition single :: "socket_addr \<Rightarrow> ingestion_config" where
  "single a = \<lparr>ic_node_addr = Some a, ic_bootstrap_addrs = [], ic_tcp_timeout = 30, ic_reconnect_delay = 5\<rparr>"

definition with_bootstrap :: "socket_addr list \<Rightarrow> ingestion_config" where
  "with_bootstrap addrs =
     \<lparr>ic_node_addr = None, ic_bootstrap_addrs = addrs, ic_tcp_timeout = 30, ic_reconnect_delay = 5\<rparr>"

definition default_config :: ingestion_config where
  "default_config = single (V4 127 0 0 1, 21841)"

record 'n client =
  cl_decoder :: "'n packet_decoder"
  cl_peers :: peers
  cl_pipeline :: pipeline_state
  cl_epoch :: u16
  cl_tick :: u32
  pending_entities :: "bytes list"
  peer_count_gauge :: nat
  current_epoch_gauge :: u16
  current_tick_gauge :: u32
  decode_errors :: nat

definition bootstrap_list :: "ingestion_config \<Rightarrow> socket_addr list" where
  "bootstrap_list cfg =
     (let bootstrap = ic_bootstrap_addrs cfg
      in case ic_node_addr cfg of
           None \<Rightarrow> bootstrap
         | Some a \<Rightarrow> if a \<in> set bootstrap then bootstrap else bootstrap @ [a])"

definition new_client :: "ingestion_config \<Rightarrow> 'n \<Rightarrow> pipeline_state \<Rightarrow> 'n client" where
  "new_client cfg nats p = \<lparr>cl_decoder = new_decoder nats True,
     cl_peers = new_peer_manager (bootstrap_list cfg), cl_pipeline = p, cl_epoch = 0, cl_tick = 0,
     pending_entities = [], peer_count_gauge = 0, current_epoch_gauge = 0, current_tick_gauge = 0,
     decode_errors = 0\<rparr>"

section \<open>The read loop\<close>

record loop_stats =
  packets_since :: u64
  broadcast_since :: u64
  published_since :: u64
  last_broadcast :: instant

definition tick_info_fields :: "bytes \<Rightarrow> (u16 \<times> u32) outcome" where
  "tick_info_fields payload =
     bindR (rd_u16 payload 0) (\<lambda>tick_duration.
     bindR (rd_u16 payload 2) (\<lambda>epoch.
     bindR (rd_u32 payload 4) (\<lambda>tick. Ok (epoch, tick))))"

definition update_node :: "u16 \<Rightarrow> u32 \<Rightarrow> 'n client \<Rightarrow> 'n client" where
  "update_node epoch tick c = c\<lparr>cl_epoch := epoch, cl_tick := tick,
     cl_pipeline := (cl_pipeline c)\<lparr>node_tick := max (node_tick (cl_pipeline c)) tick,
       node_epoch := max (node_epoch (cl_pipeline c)) epoch\<rparr>,
     current_epoch_gauge := epoch, current_tick_gauge := tick\<rparr>"

definition insert_entity :: "bytes \<Rightarrow> bytes list \<Rightarrow> bytes list" where
  "insert_entity ident pending = (if ident \<in> set pending then pending else pending @ [ident])"

definition extract_entities :: "u8 \<Rightarrow> bytes \<Rightarrow> 'n client \<Rightarrow> 'n client" where
  "extract_entities ty payload c =
     (if ty = 24 \<and> 64 \<le> length payload \<and> length (pending_entities c) < MAX_PENDING_ENTITIES
      then c\<lparr>pending_entities := insert_entity (take 32 (drop 32 payload))
             (insert_entity (take 32 payload) (pending_entities c))\<rparr>
      else c)"

text \<open>The branch of a packet that was read; a panic ends the task.\<close>

definition handle_packet :: "ext \<Rightarrow> 'n nats \<Rightarrow> instant \<Rightarrow> socket_addr \<Rightarrow> packet \<Rightarrow> 'n client \<times> loop_stats
    \<Rightarrow> unit outcome \<times> 'n client \<times> loop_stats" where
  "handle_packet X N now a = (\<lambda>(ty, dejavu, payload) (c, ls).
     if ty = 28 \<and> 8 \<le> length payload
     then bindS (liftS (tick_info_fields payload) (c, ls)) (\<lambda>(epoch, tick) (c, ls).
            (Ok (), (if epoch \<noteq> cl_epoch c \<or> tick \<noteq> cl_tick c then update_node epoch tick c else c),
              ls\<lparr>packets_since := packets_since ls + 1, last_broadcast := now\<rparr>))
     else if ty = 32
     then case decode_and_publish X N ty dejavu payload (cl_epoch c) (cl_decoder c) of
            (Panic p, d) \<Rightarrow> (Panic p, c\<lparr>cl_decoder := d\<rparr>, ls\<lparr>packets_since := packets_since ls + 1\<rparr>)
          | (_, d) \<Rightarrow> (Ok (), c\<lparr>cl_decoder := d\<rparr>, ls\<lparr>packets_since := packets_since ls + 1\<rparr>)
     else let c = extract_entities ty payload c;
              ls = ls\<lparr>packets_since := packets_since ls + 1, broadcast_since := broadcast_since ls + 1,
                last_broadcast := now\<rparr>;
              c = c\<lparr>cl_peers := mark_broadcast now a (cl_peers c)\<rparr>
          in case decode_and_publish X N ty dejavu payload (cl_epoch c) (cl_decoder c) of
               (Ok u, d) \<Rightarrow> (Ok (), c\<lparr>cl_decoder := d\<rparr>, ls\<lparr>published_since := published_since ls + 1\<rparr>)
             | (Err e, d) \<Rightarrow> (Ok (), c\<lparr>cl_decoder := d, decode_errors := decode_errors c + 1\<rparr>, ls)
             | (Panic p, d) \<Rightarrow> (Panic p, c\<lparr>cl_decoder := d\<rparr>, ls))"

text \<open>A batch of at most ten pending entities is removed and requested; a failed send is only logged.\<close>

fun request_entities :: "'s tcp \<Rightarrow> bytes list \<Rightarrow> (nat \<Rightarrow> u32) \<Rightarrow> 's \<Rightarrow> 's" where
  "request_entities T [] rand stream = stream"
| "request_entities T (ident # batch) rand stream =
     request_entities T batch (\<lambda>i. rand (Suc i))
       (case send_entity_request T ident (rand 0) stream of Ok stream' \<Rightarrow> stream' | _ \<Rightarrow> stream)"

definition entity_timer :: "'s tcp \<Rightarrow> (nat \<Rightarrow> u32) \<Rightarrow> 'n client \<Rightarrow> 's \<Rightarrow> 'n client \<times> 's" where
  "entity_timer T rand c stream =
     (let batch = take ENTITY_BATCH_SIZE (pending_entities c)
      in (c\<lparr>pending_entities := filter (\<lambda>ident. ident \<notin> set batch) (pending_entities c)\<rparr>,
          request_entities T batch rand stream))"

definition silent_secs :: "instant \<Rightarrow> loop_stats \<Rightarrow> nat" where
  "silent_secs now ls = (now - last_broadcast ls) div 10 ^ 9"

definition stats_timer :: "instant \<Rightarrow> socket_addr \<Rightarrow> 'n client \<times> loop_stats
    \<Rightarrow> unit outcome \<times> 'n client \<times> loop_stats" where
  "stats_timer now a = (\<lambda>(c, ls).
     if SILENT_NODE_THRESHOLD_SECS \<le> silent_secs now ls \<and> 0 < packets_since ls
     then (Err (Other ''Silent node''), c\<lparr>cl_peers := mark_failure now a (cl_peers c)\<rparr>, ls)
     else (Ok (), c, ls\<lparr>packets_since := 0, broadcast_since := 0, published_since := 0\<rparr>))"

text \<open>The branches of the loop.  \<open>lost\<close> is what the dropped read had consumed.\<close>

datatype select =
    PacketRead instant
  | TickTimer nat u32
  | EntityTimer nat "nat \<Rightarrow> u32"
  | StatsTimer nat instant
  | RotationTimer

type_synonym ('s, 'n) loop_state = "('n client \<times> loop_stats) \<times> 's"

fun select_step :: "'s tcp \<Rightarrow> ext \<Rightarrow> 'n nats \<Rightarrow> socket_addr \<Rightarrow> select \<Rightarrow> ('s, 'n) loop_state
    \<Rightarrow> unit outcome \<times> ('s, 'n) loop_state" where
  "select_step T X N a (PacketRead now) (cl, stream) =
     (case read_packet T stream of
        Ok (packet, stream') \<Rightarrow> (case handle_packet X N now a packet cl of (r, cl') \<Rightarrow> (r, cl', stream'))
      | Err e \<Rightarrow> (Err e, cl, stream)
      | Panic p \<Rightarrow> (Panic p, cl, stream))"
| "select_step T X N a (TickTimer lost rand) (cl, stream) =
     (case send_raw T (drop_read T lost stream) 27 [] (max rand 1) of
        Ok stream' \<Rightarrow> (Ok (), cl, stream')
      | Err e \<Rightarrow> (Err e, cl, drop_read T lost stream)
      | Panic p \<Rightarrow> (Panic p, cl, drop_read T lost stream))"
| "select_step T X N a (EntityTimer lost rand) ((c, ls), stream) =
     (case entity_timer T rand c (drop_read T lost stream) of (c', stream') \<Rightarrow> (Ok (), (c', ls), stream'))"
| "select_step T X N a (StatsTimer lost now) (cl, stream) =
     (case stats_timer now a cl of (r, cl') \<Rightarrow> (r, cl', drop_read T lost stream))"
| "select_step T X N a RotationTimer (cl, stream) = (Err (Other ''Peer rotation''), cl, stream)"

fun select_loop :: "'s tcp \<Rightarrow> ext \<Rightarrow> 'n nats \<Rightarrow> socket_addr \<Rightarrow> select list \<Rightarrow> ('s, 'n) loop_state
    \<Rightarrow> unit outcome option \<times> ('s, 'n) loop_state" where
  "select_loop T X N a [] st = (None, st)"
| "select_loop T X N a (ev # evs) st =
     (case select_step T X N a ev st of
        (Ok u, st') \<Rightarrow> select_loop T X N a evs st'
      | (r, st') \<Rightarrow> (Some r, st'))"

definition new_stats :: "instant \<Rightarrow> loop_stats" where
  "new_stats now = \<lparr>packets_since = 0, broadcast_since = 0, published_since = 0, last_broadcast = now\<rparr>"

definition read_loop :: "'s tcp \<Rightarrow> ext \<Rightarrow> 'n nats \<Rightarrow> instant \<Rightarrow> select list \<Rightarrow> socket_addr \<Rightarrow> 's \<Rightarrow> 'n client
    \<Rightarrow> unit outcome option \<times> 'n client" where
  "read_loop T X N now evs a stream c =
     (case select_loop T X N a evs ((c, new_stats now), stream) of (r, (c', ls), stream') \<Rightarrow> (r, c'))"

section \<open>Connecting\<close>

text \<open>An attempt of the client, with the events of its read loop.\<close>

record 's client_attempt = "'s attempt" +
  at_events :: "select list"

text \<open>After the handshake: the peers are added, the state of the node is requested, the loop runs.\<close>

definition adopt_peer :: "instant \<Rightarrow> socket_addr \<Rightarrow> bytes list \<Rightarrow> 'n client \<Rightarrow> 'n client" where
  "adopt_peer now a remote_peers c =
     (let ps = mark_success now a (add_peers_from_exchange (map quad remote_peers) (cl_peers c))
      in c\<lparr>cl_peers := ps, cl_pipeline := (cl_pipeline c)\<lparr>ingestion_connected := True\<rparr>,
           peer_count_gauge := peer_count ps\<rparr>)"

definition bootstrap_tick :: "(bytes \<times> 's) outcome \<Rightarrow> 's \<Rightarrow> 'n client \<Rightarrow> unit outcome \<times> 'n client \<times> 's" where
  "bootstrap_tick answer lost_stream c =
     (case answer of
        Ok (data, stream) \<Rightarrow>
          if 8 \<le> length data
          then bindS (liftS (tick_info_fields data) (c, stream)) (\<lambda>(epoch, tick) (c, stream).
                 (Ok (), update_node epoch tick c, stream))
          else (Ok (), c, stream)
      | Err e \<Rightarrow> (Ok (), c, lost_stream)
      | Panic p \<Rightarrow> (Panic p, c, lost_stream))"

definition serve_connection :: "'s tcp \<Rightarrow> ext \<Rightarrow> 'n nats \<Rightarrow> 's client_attempt \<Rightarrow> socket_addr \<Rightarrow> bytes list \<Rightarrow> 's \<Rightarrow> 'n client
    \<Rightarrow> unit outcome option \<times> 'n client" where
  "serve_connection T X N A a remote_peers stream c =
     (let c = adopt_peer (at_now A) a remote_peers c
      in case request_current_tick_info T (at_info_rand A) (at_info_clock A) stream of
           None \<Rightarrow> (None, c)
         | Some answer \<Rightarrow>
             (case bootstrap_tick answer (at_info_lost A) c of
                (Ok u, c, stream) \<Rightarrow> read_loop T X N (at_now A) (at_events A) a stream c
              | (r, c, stream) \<Rightarrow> (Some r, c)))"

text \<open>The loop over the attempts, with the number of attempts still allowed.\<close>

fun connect_attempts :: "'s tcp \<Rightarrow> ext \<Rightarrow> 'n nats \<Rightarrow> (nat \<Rightarrow> 's client_attempt) \<Rightarrow> nat \<Rightarrow> 'n client
    \<Rightarrow> unit outcome option \<times> 'n client" where
  "connect_attempts T X N atts 0 c = (Some (Err (Other ''Failed to connect'')), c)"
| "connect_attempts T X N atts (Suc left) c =
     (let A = atts left
      in case best_peer (at_now A) (at_pick A) (cl_peers c) of
           None \<Rightarrow> (Some (Err (Other ''No peers available'')), c)
         | Some a \<Rightarrow>
             (case open_connection T A of
                None \<Rightarrow> (None, c)
              | Some (Ok (remote_peers, stream)) \<Rightarrow> serve_connection T X N A a remote_peers stream c
              | Some (Err e) \<Rightarrow>
                  connect_attempts T X N atts left (c\<lparr>cl_peers := mark_failure (at_now A) a (cl_peers c)\<rparr>)
              | Some (Panic p) \<Rightarrow> (Some (Panic p), c)))"

definition connect_and_read :: "'s tcp \<Rightarrow> ext \<Rightarrow> 'n nats \<Rightarrow> (nat \<Rightarrow> 's client_attempt) \<Rightarrow> 'n client
    \<Rightarrow> unit outcome option \<times> 'n client" where
  "connect_and_read T X N atts = connect_attempts T X N atts MAX_PEERS_PER_ATTEMPT"

text \<open>
  \<^verbatim>\<open>run\<close>: the bootstrap, whose failure is not fatal, and one round of the reconnection loop; a panic
  ends the task, and a connection that is still open leaves the round unfinished.
\<close>

definition run_bootstrap :: "(string list \<times> string list) outcome \<Rightarrow> 'n client \<Rightarrow> 'n client" where
  "run_bootstrap response c = c\<lparr>cl_peers := snd (bootstrap_from_api response (cl_peers c))\<rparr>"

definition run_cycle :: "'s tcp \<Rightarrow> ext \<Rightarrow> 'n nats \<Rightarrow> (nat \<Rightarrow> 's client_attempt) \<Rightarrow> instant \<Rightarrow> 'n client
    \<Rightarrow> unit outcome option \<times> 'n client" where
  "run_cycle T X N atts now c =
     (case connect_and_read T X N atts c of
        (None, c) \<Rightarrow> (None, c)
      | (Some (Panic p), c) \<Rightarrow> (Some (Panic p), c)
      | (Some r, c) \<Rightarrow> (Some (Ok ()), c\<lparr>cl_pipeline := (cl_pipeline c)\<lparr>ingestion_connected := False\<rparr>,
           cl_peers := prune_stale now (cl_peers c)\<rparr>))"

section \<open>Invariants of the client\<close>

text \<open>
  The interface of the client's state: a predicate kept by the elementary updates, where the peer
  list changes by steps of the peer manager, is kept by every branch of the loop, every attempt and
  every round.
\<close>

locale client_invariant =
  fixes I :: "'n client \<Rightarrow> bool"
  assumes decoder: "I c \<Longrightarrow> I (c\<lparr>cl_decoder := d\<rparr>)"
    and errors: "I c \<Longrightarrow> I (c\<lparr>decode_errors := n\<rparr>)"
    and peers: "I c \<Longrightarrow> pm_step (cl_peers c) ps \<Longrightarrow> I (c\<lparr>cl_peers := ps\<rparr>)"
    and gauge: "I c \<Longrightarrow> I (c\<lparr>peer_count_gauge := n\<rparr>)"
    and connected: "I c \<Longrightarrow> I (c\<lparr>cl_pipeline := (cl_pipeline c)\<lparr>ingestion_connected := b\<rparr>\<rparr>)"
    and node: "I c \<Longrightarrow> I (update_node epoch tick c)"
    and extracted: "I c \<Longrightarrow> I (extract_entities ty payload c)"
    and taken: "I c \<Longrightarrow> I (c\<lparr>pending_entities := filter P (pending_entities c)\<rparr>)"
begin

lemma packet: "I (fst cl) \<Longrightarrow> I (fst (snd (handle_packet X N now a pkt cl)))"
proof -
  assume I: "I (fst cl)"
  obtain ty dejavu payload where p: "pkt = (ty, dejavu, payload)" by (cases pkt)
  obtain c ls where cl: "cl = (c, ls)" by (cases cl)
  let ?c = "(extract_entities ty payload c)\<lparr>cl_peers := mark_broadcast now a (cl_peers (extract_entities ty payload c))\<rparr>"
  have c: "I c" using I cl by simp
  then have b: "I ?c" by (intro peers extracted pm_step.broadcast)
  have "I (?c\<lparr>cl_decoder := d, decode_errors := n\<rparr>)" "I (?c\<lparr>cl_decoder := d\<rparr>)" for d n
    by (intro decoder errors b)+
  then show ?thesis
    unfolding p cl
    by (cases "tick_info_fields payload")
      (auto simp: handle_packet_def Let_def c decoder node split: prod.split outcome.split)
qed

lemma step: "I (fst (fst st)) \<Longrightarrow> I (fst (fst (snd (select_step T X N a ev st))))"
proof (induction T X N a ev st rule: select_step.induct)
  case (1 T X N a now cl stream)
  then show ?case
    using packet [of cl X N now a] by (auto split: outcome.split prod.split) (metis fst_conv snd_conv)
next
  case (4 T X N a lost now cl stream)
  then show ?case
    by (cases cl) (auto simp: stats_timer_def intro: peers pm_step.failure)
qed (auto simp: entity_timer_def Let_def taken split: outcome.split)

lemma loop: "I (fst (fst st)) \<Longrightarrow> I (fst (fst (snd (select_loop T X N a evs st))))"
proof (induction evs arbitrary: st)
  case (Cons ev evs)
  then show ?case
    using step [of st T X N a ev] by (auto split: prod.split outcome.split)
qed simp

lemma connection: "I c \<Longrightarrow> I (snd (serve_connection T X N A a remote_peers stream c))"
proof -
  assume c: "I c"
  have peers1: "I (c\<lparr>cl_peers := add_peers_from_exchange rs (cl_peers c)\<rparr>)" for rs
    using c by (intro peers pm_step.exchange)
  have "I (c\<lparr>cl_peers := mark_success now a (add_peers_from_exchange rs (cl_peers c))\<rparr>)" for now rs
    using peers [OF peers1 [of rs], of "mark_success now a (add_peers_from_exchange rs (cl_peers c))"]
    by (simp add: pm_step.success)
  from gauge [OF connected [OF this]] have adopt: "I (adopt_peer now a rs c)" for now rs
    by (simp add: adopt_peer_def Let_def)
  have tick: "I c' \<Longrightarrow> I (fst (snd (bootstrap_tick answer s c')))" for answer s c'
    by (cases answer; cases "tick_info_fields (fst (case answer of Ok x \<Rightarrow> x))")
      (auto simp: bootstrap_tick_def node split: prod.split)
  have reads: "I c' \<Longrightarrow> I (snd (read_loop T X N now evs a s c'))" for c' now evs s
    using loop [of "((c', new_stats now), s)" T X N a evs] by (auto simp: read_loop_def split: prod.split)
  show ?thesis
  proof (cases "request_current_tick_info T (at_info_rand A) (at_info_clock A) stream")
    case None
    then show ?thesis by (simp add: serve_connection_def Let_def adopt)
  next
    case (Some answer)
    obtain r c' s where t: "bootstrap_tick answer (at_info_lost A) (adopt_peer (at_now A) a remote_peers c) = (r, c', s)"
      by (rule prod_cases3)
    then have "I c'" using tick [OF adopt, of answer "at_info_lost A" "at_now A" remote_peers] by simp
    then show ?thesis using reads by (cases r) (simp_all add: serve_connection_def Let_def Some t)
  qed
qed

lemma attempts: "I c \<Longrightarrow> I (snd (connect_attempts T X N atts n c))"
proof (induction n arbitrary: c)
  case (Suc n)
  then show ?case
    by (auto simp: Let_def connection intro: peers pm_step.failure split: option.split outcome.split prod.split)
qed simp

lemma cycle: "I c \<Longrightarrow> I (snd (run_cycle T X N atts now c))"
proof -
  assume "I c"
  obtain r c' where e: "connect_and_read T X N atts c = (r, c')" by fastforce
  then have c': "I c'" using attempts [OF \<open>I c\<close>, of T X N atts MAX_PEERS_PER_ATTEMPT]
    by (simp add: connect_and_read_def)
  have "I (c'\<lparr>cl_pipeline := (cl_pipeline c')\<lparr>ingestion_connected := False\<rparr>, cl_peers := prune_stale now (cl_peers c')\<rparr>)"
    using peers [OF connected [OF c', of False], of "prune_stale now (cl_peers c')"] by (simp add: pm_step.prune)
  then show ?thesis using c'
    by (auto simp: run_cycle_def e split: option.split outcome.split)
qed

lemma bootstrap: "I c \<Longrightarrow> I (run_bootstrap response c)"
  unfolding run_bootstrap_def by (intro peers pm_step.bootstrap)

end

text \<open>The states of a running client, at the ends of the rounds.\<close>

inductive client_reachable :: "'s tcp \<Rightarrow> ext \<Rightarrow> 'n nats \<Rightarrow> 'n client \<Rightarrow> 'n client \<Rightarrow> bool" for T X N c0 where
  start: "client_reachable T X N c0 (run_bootstrap response c0)"
| cycle: "client_reachable T X N c0 c \<Longrightarrow> client_reachable T X N c0 (snd (run_cycle T X N atts now c))"

lemma reachable_invariant:
  assumes "client_invariant I" "client_reachable T X N c0 c" "I c0"
  shows "I c"
  using assms(2)
  by induction (auto intro: client_invariant.bootstrap [OF assms(1)] client_invariant.cycle [OF assms(1)] assms(3))

text \<open>The pending entities, the peer list, and what is known of the node.\<close>

definition pending_ok :: "'n client \<Rightarrow> bool" where
  "pending_ok c \<longleftrightarrow> distinct (pending_entities c) \<and> list_all (\<lambda>ident. length ident = 32) (pending_entities c)
     \<and> length (pending_entities c) \<le> MAX_PENDING_ENTITIES + 1"

interpretation pending: client_invariant pending_ok
  by unfold_locales
    (auto simp: pending_ok_def update_node_def extract_entities_def insert_entity_def list_all_iff
      MAX_PENDING_ENTITIES_def intro: order_trans [OF length_filter_le])

definition peers_ok :: "socket_addr list \<Rightarrow> 'n client \<Rightarrow> bool" where
  "peers_ok addrs c \<longleftrightarrow> pm_reachable addrs (cl_peers c)"

interpretation peers_ok: client_invariant "peers_ok addrs" for addrs
  by unfold_locales
    (auto simp: peers_ok_def update_node_def extract_entities_def intro: pm_reachable.step)

text \<open>The node's tick and epoch never fall below a value once reached, nor below the client's.\<close>

definition tip_ok :: "u32 \<Rightarrow> u16 \<Rightarrow> 'n client \<Rightarrow> bool" where
  "tip_ok tick epoch c \<longleftrightarrow> tick \<le> node_tick (cl_pipeline c) \<and> epoch \<le> node_epoch (cl_pipeline c)
     \<and> cl_tick c \<le> node_tick (cl_pipeline c) \<and> cl_epoch c \<le> node_epoch (cl_pipeline c)"

interpretation tip: client_invariant "tip_ok tick epoch" for tick epoch
  by unfold_locales
    (auto simp: tip_ok_def update_node_def extract_entities_def le_max_iff_disj)


text \<open>A node that refuses every connection.\<close>

definition demo_attempt :: "(bytes \<times> bytes) client_attempt" where
  "demo_attempt = \<lparr>at_now = 1, at_pick = 0, at_connect = Err (Io ''connection refused''), at_exchange_rand = 0,
     at_exchange_clock = [], at_exchange_lost = ([], []), at_info_rand = 0, at_info_clock = [],
     at_info_lost = ([], []), at_events = []\<rparr>"


section \<open>Attempts that fail\<close>

definition failures :: "peers \<Rightarrow> nat" where
  "failures ps = sum_list (map (\<lambda>p. unat (failure_count p)) ps)"

definition counters_below :: "nat \<Rightarrow> peers \<Rightarrow> bool" where
  "counters_below n ps \<longleftrightarrow> list_all (\<lambda>p. unat (failure_count p) < n) ps"

lemma mark_failure_counted:
  assumes "a \<in> addr ` set ps" "counters_below (2 ^ 32 - 1) ps"
  shows "failures (mark_failure now a ps) = failures ps + 1"
  using assms
  by (induction ps) (auto simp: mark_failure_def failures_def counters_below_def unat_sat_add)

lemma mark_failure_below:
  "counters_below n ps \<Longrightarrow> counters_below (Suc n) (mark_failure now a ps)"
  by (induction ps) (auto simp: mark_failure_def counters_below_def unat_sat_add list_all_iff)

lemma best_peer_member: "best_peer now pick ps = Some a \<Longrightarrow> a \<in> addr ` set ps"
  using pick_top_spec [of "filter (\<lambda>p. 1 / 5 \<le> score p) ps" now pick] pick_top_spec [of ps now pick]
  by (auto simp: best_peer_def Let_def split: if_splits)

lemma best_peer_some: "ps \<noteq> [] \<Longrightarrow> \<exists>a. best_peer now pick ps = Some a"
  by (simp add: best_peer_def Let_def pick_top_def)

lemma refused_attempts:
  assumes "\<And>i. \<exists>e. at_connect (atts i) = Err e" "cl_peers c \<noteq> []" "counters_below m (cl_peers c)" "m + n < 2 ^ 32"
  shows "\<exists>c'. connect_attempts T X N atts n c = (Some (Err (Other ''Failed to connect'')), c')
    \<and> map addr (cl_peers c') = map addr (cl_peers c) \<and> failures (cl_peers c') = failures (cl_peers c) + n
    \<and> cl_decoder c' = cl_decoder c \<and> cl_pipeline c' = cl_pipeline c"
  using assms(2-)
proof (induction n arbitrary: c m)
  case (Suc n)
  obtain e where e: "at_connect (atts n) = Err e" using assms(1) by blast
  obtain a where a: "best_peer (at_now (atts n)) (at_pick (atts n)) (cl_peers c) = Some a"
    using best_peer_some [OF Suc.prems(1)] by blast
  let ?c = "c\<lparr>cl_peers := mark_failure (at_now (atts n)) a (cl_peers c)\<rparr>"
  have "counters_below (2 ^ 32 - 1) (cl_peers c)"
    using Suc.prems(2,3) by (auto simp: counters_below_def list_all_iff)
  then have f: "failures (cl_peers ?c) = failures (cl_peers c) + 1"
    using mark_failure_counted [OF best_peer_member [OF a]] by simp
  have "cl_peers ?c \<noteq> []" using Suc.prems(1) map_addr_marks(2) [of "at_now (atts n)" a "cl_peers c"]
    by (metis map_is_Nil_conv client.select_convs(2) client.update_convs(2) client.surjective)
  moreover have "counters_below (Suc m) (cl_peers ?c)" using mark_failure_below [OF Suc.prems(2)] by simp
  ultimately show ?case
    using Suc.IH [of ?c "Suc m"] Suc.prems(3) f by (auto simp: a e open_connection_def)
qed simp



section \<open>The loop over packets instead of bytes\<close>

text \<open>
  The specification of the read loop: a machine with an inbox and an outbox of packets.  A read
  takes the next packet of the inbox; the timers put requests into the outbox.
\<close>

fun entity_requests :: "bytes list \<Rightarrow> (nat \<Rightarrow> u32) \<Rightarrow> packet list" where
  "entity_requests [] rand = []"
| "entity_requests (ident # batch) rand =
     (31, max (rand 0) 1, ident) # entity_requests batch (\<lambda>i. rand (Suc i))"

type_synonym 'n mail_state = "('n client \<times> loop_stats) \<times> packet list \<times> packet list"

fun mail_step :: "ext \<Rightarrow> 'n nats \<Rightarrow> socket_addr \<Rightarrow> select \<Rightarrow> 'n mail_state \<Rightarrow> unit outcome \<times> 'n mail_state" where
  "mail_step X N a (PacketRead now) (cl, inbox, outbox) =
     (case inbox of
        [] \<Rightarrow> (Err (Io ''early eof''), cl, inbox, outbox)
      | packet # inbox' \<Rightarrow> (case handle_packet X N now a packet cl of (r, cl') \<Rightarrow> (r, cl', inbox', outbox)))"
| "mail_step X N a (TickTimer lost rand) (cl, inbox, outbox) = (Ok (), cl, inbox, outbox @ [(27, max rand 1, [])])"
| "mail_step X N a (EntityTimer lost rand) ((c, ls), inbox, outbox) =
     (Ok (), (c\<lparr>pending_entities := drop 10 (pending_entities c)\<rparr>, ls), inbox,
       outbox @ entity_requests (take 10 (pending_entities c)) rand)"
| "mail_step X N a (StatsTimer lost now) (cl, inbox, outbox) =
     (case stats_timer now a cl of (r, cl') \<Rightarrow> (r, cl', inbox, outbox))"
| "mail_step X N a RotationTimer (cl, inbox, outbox) = (Err (Other ''Peer rotation''), cl, inbox, outbox)"

fun mail_loop :: "ext \<Rightarrow> 'n nats \<Rightarrow> socket_addr \<Rightarrow> select list \<Rightarrow> 'n mail_state
    \<Rightarrow> unit outcome option \<times> 'n mail_state" where
  "mail_loop X N a [] st = (None, st)"
| "mail_loop X N a (ev # evs) st =
     (case mail_step X N a ev st of
        (Ok u, st') \<Rightarrow> mail_loop X N a evs st'
      | (r, st') \<Rightarrow> (Some r, st'))"

fun lossless :: "select \<Rightarrow> bool" where
  "lossless (PacketRead now) = True"
| "lossless (TickTimer lost rand) = (lost = 0)"
| "lossless (EntityTimer lost rand) = (lost = 0)"
| "lossless (StatsTimer lost now) = (lost = 0)"
| "lossless RotationTimer = True"

fun is_read :: "select \<Rightarrow> bool" where
  "is_read (PacketRead now) = True"
| "is_read (TickTimer lost rand) = False"
| "is_read (EntityTimer lost rand) = False"
| "is_read (StatsTimer lost now) = False"
| "is_read RotationTimer = False"

definition wired :: "('s \<Rightarrow> bytes) \<Rightarrow> ('s \<Rightarrow> bytes) \<Rightarrow> bytes \<Rightarrow> bytes \<Rightarrow> 's \<Rightarrow> packet list \<Rightarrow> packet list \<Rightarrow> bool" where
  "wired input output rest written s inbox outbox \<longleftrightarrow>
     input s = concat (map wire_packet inbox) @ rest \<and> output s = written @ concat (map wire_packet outbox)
     \<and> list_all fits inbox"

lemma request_entities_wired:
  assumes "tcp_ok T input output" "wired input output rest written s inbox outbox"
  shows "wired input output rest written (request_entities T batch rand s) inbox (outbox @ entity_requests batch rand)"
  using assms(2)
proof (induction batch arbitrary: s rand outbox)
  case (Cons ident batch)
  obtain s' where "send_raw T s 31 ident (max (rand 0) 1) = Ok s'" "input s' = input s"
    "output s' = output s @ wire_packet (31, max (rand 0) 1, ident)"
    by (rule send_raw_wire [OF assms(1)])
  then show ?case
    using Cons.IH [of s' "outbox @ [(31, max (rand 0) 1, ident)]" "\<lambda>i. rand (Suc i)"] Cons.prems
    by (simp add: send_entity_request_def wired_def)
qed simp

lemma taken_batch: "distinct xs \<Longrightarrow> filter (\<lambda>x. x \<notin> set (take n xs)) xs = drop n xs"
proof -
  assume "distinct xs"
  then have "set (take n xs) \<inter> set (drop n xs) = {}" by (rule set_take_disj_set_drop_if_distinct) simp
  then have "filter (\<lambda>x. x \<notin> set (take n xs)) (take n xs @ drop n xs) = drop n xs"
    by (auto simp: filter_id_conv simp del: append_take_drop_id)
  then show ?thesis by simp
qed

lemma select_step_wired:
  assumes T: "tcp_ok T input output" and "lossless ev" "pending_ok (fst cl)" "is_read ev \<Longrightarrow> inbox \<noteq> []"
    and W: "wired input output rest written s inbox outbox"
    and M: "mail_step X N a ev (cl, inbox, outbox) = (r, cl', inbox', outbox')"
  shows "\<exists>s'. select_step T X N a ev (cl, s) = (r, cl', s') \<and> wired input output rest written s' inbox' outbox'"
proof (cases ev)
  case (PacketRead now)
  then obtain ty d payload tail where inbox: "inbox = (ty, d, payload) # tail"
    using assms(4) by (cases inbox) auto
  from W have "fits (ty, d, payload)" "input s = wire_packet (ty, d, payload) @ concat (map wire_packet tail) @ rest"
    by (simp_all add: inbox wired_def)
  from read_packet_wire [OF T this] obtain s' where
    "read_packet T s = Ok ((ty, d, payload), s')" "input s' = concat (map wire_packet tail) @ rest" "output s' = output s" .
  then show ?thesis using M W by (auto simp: PacketRead inbox wired_def split: prod.splits)
next
  case (TickTimer lost rand)
  obtain s' where "send_raw T s 27 [] (max rand 1) = Ok s'" "input s' = input s"
    "output s' = output s @ wire_packet (27, max rand 1, [])"
    by (rule send_raw_wire [OF T])
  then show ?thesis using M W assms(2) by (auto simp: TickTimer drop_read_def wired_def)
next
  case (EntityTimer lost rand)
  then show ?thesis
    using M W assms(2,3) request_entities_wired [OF T W, of "take 10 (pending_entities (fst cl))" rand]
    by (cases cl) (auto simp: drop_read_def entity_timer_def ENTITY_BATCH_SIZE_def Let_def taken_batch pending_ok_def)
next
  case (StatsTimer lost now)
  then show ?thesis using M W assms(2) by (auto simp: drop_read_def split: prod.splits)
qed (use M W in auto)

lemma mail_step_inbox:
  "mail_step X N a ev (cl, inbox, outbox) = (r, cl', inbox', outbox')
    \<Longrightarrow> inbox' = (if is_read ev then tl inbox else inbox)"
  by (cases "(X, N, a, ev, (cl, inbox, outbox))" rule: mail_step.cases)
    (auto split: list.splits prod.splits)

text \<open>
  C5: as long as no read is cancelled in the middle of a packet, the read loop on the byte stream is
  the mailbox machine: whatever the order of its branches, packets are handled one by one in the
  order they were sent, none is lost or handled twice, the next read starts at the next packet, and
  what was written are exactly the requests of the timers.
\<close>

theorem read_loop_frames:
  assumes T: "tcp_ok T input output" and "list_all lossless evs" "pending_ok (fst cl)"
    and "list_all fits inbox" "length (filter is_read evs) \<le> length inbox"
    and "input s = concat (map wire_packet inbox) @ rest"
    and "mail_loop X N a evs (cl, inbox, []) = (r, cl', inbox', sent)"
  shows "\<exists>s'. select_loop T X N a evs (cl, s) = (r, cl', s')
    \<and> input s' = concat (map wire_packet inbox') @ rest \<and> output s' = output s @ concat (map wire_packet sent)"
proof -
  have "\<exists>s'. select_loop T X N a evs (cl, s) = (r, cl', s') \<and> wired input output rest written s' inbox' sent"
    if "wired input output rest written s inbox outbox" "mail_loop X N a evs (cl, inbox, outbox) = (r, cl', inbox', sent)"
      "list_all lossless evs" "pending_ok (fst cl)" "length (filter is_read evs) \<le> length inbox" for outbox written
    using that
  proof (induction evs arbitrary: cl s inbox outbox)
    case (Cons ev evs)
    obtain r1 cl1 in1 out1 where m: "mail_step X N a ev (cl, inbox, outbox) = (r1, cl1, in1, out1)"
      by (cases "mail_step X N a ev (cl, inbox, outbox)") (metis prod_cases3)
    have "is_read ev \<Longrightarrow> inbox \<noteq> []" using Cons.prems(5) by auto
    with Cons.prems(3,4) obtain s1 where s1: "select_step T X N a ev (cl, s) = (r1, cl1, s1)"
      "wired input output rest written s1 in1 out1"
      using select_step_wired [OF T _ _ _ Cons.prems(1) m] by auto
    have "pending_ok (fst cl1)"
      using pending.step [of "(cl, s)" T X N a ev] Cons.prems(4) s1(1) by simp
    moreover have "length (filter is_read evs) \<le> length in1"
      using Cons.prems(5) mail_step_inbox [OF m] by (cases "is_read ev") auto
    ultimately show ?case
      using Cons.IH [OF s1(2)] Cons.prems(2,3) m s1 by (cases r1) simp_all
  qed simp
  from this [of "output s" "[]"] show ?thesis
    using assms by (auto simp: wired_def)
qed

theorem read_loop_frames_witness:
  "\<exists>s'. select_loop mem_tcp demo_ext (mem_nats (\<lambda>_. [1])) (V4 1 2 3 4, 21841)
      [PacketRead 5, TickTimer 0 7] ((new_client default_config [] (new_pipeline 0), new_stats 0),
        (wire_packet (35, 9, []) @ [], []))
    = (None, snd (handle_packet demo_ext (mem_nats (\<lambda>_. [1])) 5 (V4 1 2 3 4, 21841) (35, 9, [])
        (new_client default_config [] (new_pipeline 0), new_stats 0)), s')
    \<and> snd s' = wire_packet (27, 7, [])"
proof -
  let ?N = "mem_nats (\<lambda>_. [1])" and ?a = "(V4 1 2 3 4, 21841) :: socket_addr"
    and ?cl = "(new_client default_config [] (new_pipeline 0), new_stats 0)"
  have h: "fst (handle_packet demo_ext ?N 5 ?a (35, 9, []) ?cl) = Ok ()"
    by (simp add: handle_packet_def decode_and_publish_def dispatch_def Let_def)
  have "mail_loop demo_ext ?N ?a [PacketRead 5, TickTimer 0 7] (?cl, [(35, 9, [])], [])
      = (None, snd (handle_packet demo_ext ?N 5 ?a (35, 9, []) ?cl), [], [(27, 7, [])])"
    using h by (cases "handle_packet demo_ext ?N 5 ?a (35, 9, []) ?cl") (auto simp: max_def word_le_nat_alt)
  from read_loop_frames [OF mem_tcp_ok _ _ _ _ _ this, of "(wire_packet (35, 9, []) @ [], [])" "[]"]
  show ?thesis by (auto simp: pending_ok_def new_client_def fits_def)
qed

section \<open>Silent nodes and cancelled reads\<close>

text \<open>
  A node from which nothing arrives is never given up for its silence: the test asks for packets
  since the last report, and there are none.  Only the rotation timer or a lost connection ends
  the loop.
\<close>

theorem silent_node_kept:
  assumes T: "tcp_ok T input output" and "\<And>ev. ev \<in> set evs \<Longrightarrow> \<not> is_read ev \<and> ev \<noteq> RotationTimer"
  shows "fst (select_loop T X N a evs ((c, new_stats now), s)) = None"
proof -
  have "fst (select_loop T X N a evs ((c, ls), s)) = None"
    if "packets_since ls = 0" "\<And>ev. ev \<in> set evs \<Longrightarrow> \<not> is_read ev \<and> ev \<noteq> RotationTimer" for ls
    using that
  proof (induction evs arbitrary: c ls s)
    case (Cons ev evs)
    have IH: "fst (select_loop T X N a evs ((c', ls'), s')) = None" if "packets_since ls' = 0" for c' ls' s'
      using Cons.IH [OF that] Cons.prems(2) by auto
    have "\<not> is_read ev" "ev \<noteq> RotationTimer" using Cons.prems(2) by auto
    then show ?case
    proof (cases ev)
      case (TickTimer lost rand)
      obtain s' where "send_raw T (drop_read T lost s) 27 [] (max rand 1) = Ok s'"
        by (rule send_raw_wire [OF T])
      then show ?thesis using IH Cons.prems(1) by (simp add: TickTimer)
    next
      case (StatsTimer lost now)
      then show ?thesis using IH Cons.prems(1) by (simp add: stats_timer_def)
    qed (auto simp: IH Cons.prems(1) entity_timer_def Let_def)
  qed simp
  then show ?thesis using assms(2) by (simp add: new_stats_def)
qed

text \<open>
  A timer that fires while four bytes of a packet have been read loses them, and the next packet
  is taken from the middle of this one: its type is a byte of the correlation id.
\<close>

theorem cancelled_read_misframes:
  assumes T: "tcp_ok T input output" and inp: "input s = wire_packet (ty, d, payload) @ rest"
    and step: "select_step T X N a (TickTimer 4 rand) (cl, s) = (r, cl', s')"
    and "read_packet T s' = Ok ((ty', d', payload'), s'')"
  shows "r = Ok () \<and> ty' = u32_to_le d ! 3"
proof -
  let ?h = "header_bytes (new_request ty (word_of_nat (length payload)) d)"
  have h: "?h = take 4 ?h @ u32_to_le d" by (simp add: header_bytes_def new_request_def Let_def)
  then have "input s = take 4 ?h @ (u32_to_le d @ payload @ rest)"
    using inp unfolding wire_packet_def by (metis (no_types, lifting) append_assoc case_prod_conv)
  from tcp_read [OF T this, of 4] obtain s1 where s1: "read_exact T s 4 = Ok (take 4 ?h, s1)"
    "input s1 = u32_to_le d @ payload @ rest" by auto
  obtain s2 where s2: "send_raw T s1 27 [] (max rand 1) = Ok s2" "input s2 = input s1"
    by (rule send_raw_wire [OF T])
  with step s1 have r: "r = Ok ()" "s' = s2" by (auto simp: drop_read_def)
  have len: "8 \<le> length (input s2)"
  proof (rule ccontr)
    assume "\<not> 8 \<le> length (input s2)"
    then obtain e where "read_exact T s2 8 = Err e" using T unfolding tcp_ok_def by (meson not_le)
    then show False using assms(4) r by (simp add: read_packet_def)
  qed
  then obtain s3 where "read_exact T s2 8 = Ok (take 8 (input s2), s3)" using T unfolding tcp_ok_def by meson
  then have "ty' = take 8 (input s2) ! 3"
    using assms(4) r by (auto simp: read_packet_def Let_def msg_type_hdr_def header_of_bytes_def
        outcome_simps split: if_splits)
  then show ?thesis using r s1(2) s2(2) by (simp add: nth_append)
qed

end
