(* ===== verification/Epochs.thy ===== *)
theory Epochs
  imports Qonduit_Prelude "HOL-Library.AList"
begin

text \<open>
  \<^verbatim>\<open>crates/core/src/epoch_intervals.rs\<close>: the cached tick range of every epoch and the progress
  computed from it.  The static \<^verbatim>\<open>RwLock\<close> is the list of ranges passed along; the \<^verbatim>\<open>HashMap\<close> the
  ranges are merged in is an association list in its iteration order; percentages are rationals
  where the source has \<^verbatim>\<open>f64\<close>.
\<close>

record epoch_range =
  er_epoch :: u16
  er_first_tick :: u32
  er_last_tick :: u32
  er_tick_count :: u32

record interval_entry =
  ie_epoch :: u16
  ie_first_tick :: u32
  ie_last_tick :: u32

fun merge_entries :: "interval_entry list \<Rightarrow> (u16 \<times> u32 \<times> u32) list \<Rightarrow> (u16 \<times> u32 \<times> u32) list" where
  "merge_entries [] m = m"
| "merge_entries (entry # entries) m =
     merge_entries entries
       (case map_of m (ie_epoch entry) of
          Some (first, lst) \<Rightarrow>
            AList.update (ie_epoch entry)
              (min first (ie_first_tick entry), max lst (ie_last_tick entry)) m
        | None \<Rightarrow> AList.update (ie_epoch entry) (ie_first_tick entry, ie_last_tick entry) m)"

definition range_of :: "u16 \<times> u32 \<times> u32 \<Rightarrow> epoch_range" where
  "range_of = (\<lambda>(epoch, first, lst). \<lparr>er_epoch = epoch, er_first_tick = first, er_last_tick = lst,
     er_tick_count = sat_add (sat_sub lst first) 1\<rparr>)"

definition set_epoch_ranges :: "interval_entry list \<Rightarrow> epoch_range list" where
  "set_epoch_ranges entries = sort_key er_epoch (map range_of (merge_entries entries []))"

definition get_epoch_range :: "epoch_range list \<Rightarrow> u16 \<Rightarrow> epoch_range option" where
  "get_epoch_range ranges epoch = find (\<lambda>r. er_epoch r = epoch) ranges"

definition epoch_progress_pct :: "epoch_range list \<Rightarrow> u16 \<Rightarrow> u32 \<Rightarrow> rat option" where
  "epoch_progress_pct ranges epoch indexed_tick =
     (case get_epoch_range ranges epoch of
        None \<Rightarrow> None
      | Some r \<Rightarrow>
          if er_tick_count r = 0 then Some 100
          else let position = sat_sub indexed_tick (er_first_tick r);
                   pct = of_nat (unat position) / of_nat (unat (er_tick_count r)) * 100
               in Some (min pct 100))"

definition total_known_ticks :: "epoch_range list \<Rightarrow> u64" where
  "total_known_ticks ranges = sum_list (map (\<lambda>r. ucast (er_tick_count r)) ranges)"

definition epochs_fully_indexed :: "epoch_range list \<Rightarrow> u32 \<Rightarrow> u32" where
  "epochs_fully_indexed ranges indexed_tick =
     word_of_nat (length (filter (\<lambda>r. er_last_tick r \<le> indexed_tick) ranges))"

section \<open>Lemmas\<close>

text \<open>The reference: for each epoch, the least first tick and the greatest last tick.\<close>

definition entries_for :: "u16 \<Rightarrow> interval_entry list \<Rightarrow> interval_entry list" where
  "entries_for epoch entries = filter (\<lambda>e. ie_epoch e = epoch) entries"

definition merged :: "u16 \<Rightarrow> interval_entry list \<Rightarrow> (u32 \<times> u32) option" where
  "merged epoch entries =
     (case entries_for epoch entries of [] \<Rightarrow> None
      | es \<Rightarrow> Some (Min (ie_first_tick ` set es), Max (ie_last_tick ` set es)))"

lemma merged_alt:
  "merged epoch es = (if entries_for epoch es = [] then None
     else Some (Min (ie_first_tick ` set (entries_for epoch es)),
       Max (ie_last_tick ` set (entries_for epoch es))))"
  by (cases "entries_for epoch es") (simp_all add: merged_def)

lemma distinct_map_sort_key: "distinct (map g (sort_key f xs)) \<longleftrightarrow> distinct (map g xs)"
  by (simp add: distinct_map)

lemma distinct_merge_entries: "distinct (map fst m) \<Longrightarrow> distinct (map fst (merge_entries entries m))"
  by (induction entries m rule: merge_entries.induct)
    (simp_all add: AList.distinct_update split: option.split prod.split)

lemma merge_entries_snoc:
  "merge_entries (es @ [e]) m =
     (let m = merge_entries es m in case map_of m (ie_epoch e) of
        Some (first, lst) \<Rightarrow>
          AList.update (ie_epoch e) (min first (ie_first_tick e), max lst (ie_last_tick e)) m
      | None \<Rightarrow> AList.update (ie_epoch e) (ie_first_tick e, ie_last_tick e) m)"
  by (induction es m rule: merge_entries.induct) (simp_all add: Let_def)

lemma merged_snoc:
  "merged epoch (es @ [e]) =
     (if ie_epoch e = epoch
      then case merged epoch es of None \<Rightarrow> Some (ie_first_tick e, ie_last_tick e)
        | Some (first, lst) \<Rightarrow> Some (min first (ie_first_tick e), max lst (ie_last_tick e))
      else merged epoch es)"
proof -
  define S where "S = set (entries_for epoch es)"
  have f: "finite S" by (simp add: S_def)
  have m: "merged epoch es = (if S = {} then None
      else Some (Min (ie_first_tick ` S), Max (ie_last_tick ` S)))"
    by (simp add: merged_alt S_def)
  have "set (entries_for epoch (es @ [e])) = (if ie_epoch e = epoch then insert e S else S)"
    by (auto simp: S_def entries_for_def)
  then show ?thesis
    using f unfolding merged_alt [of epoch "es @ [e]"] m
    by (simp add: set_empty [symmetric] min.commute max.commute del: set_empty)
qed

lemma map_of_merge_entries: "map_of (merge_entries entries []) epoch = merged epoch entries"
proof (induction entries arbitrary: epoch rule: rev_induct)
  case Nil
  then show ?case by (simp add: merged_def entries_for_def)
next
  case (snoc e es)
  then show ?case
    by (auto simp: merge_entries_snoc Let_def merged_snoc AList.update_conv split: option.split)
qed

lemma find_range_of:
  "find (\<lambda>r. er_epoch r = epoch) (map range_of m) = map_option (\<lambda>p. range_of (epoch, p)) (map_of m epoch)"
proof (induction m)
  case (Cons x m)
  then show ?case by (cases x) (auto simp: range_of_def)
qed simp

lemma find_sort_key:
  assumes "distinct (map key xs)"
  shows "find (\<lambda>x. key x = k) (sort_key f xs) = find (\<lambda>x. key x = k) xs"
proof -
  have u: "find (\<lambda>x. key x = k) ys = Some x \<longleftrightarrow> x \<in> set ys \<and> key x = k"
    if "distinct (map key ys)" for ys x
    using that by (induction ys) auto
  have "distinct (map key (sort_key f xs))"
    using assms by (simp only: distinct_map_sort_key)
  from u [OF this] u [OF assms] show ?thesis
    by (metis not_None_eq set_sort option.exhaust)
qed

lemma get_set_epoch_ranges:
  "get_epoch_range (set_epoch_ranges entries) epoch
     = map_option (\<lambda>p. range_of (epoch, p)) (merged epoch entries)"
proof -
  have "distinct (map fst (merge_entries entries []))" by (rule distinct_merge_entries) simp
  moreover have "er_epoch \<circ> range_of = fst" by (auto simp: range_of_def)
  ultimately have "distinct (map er_epoch (map range_of (merge_entries entries [])))" by simp
  then show ?thesis
    by (simp only: get_epoch_range_def set_epoch_ranges_def find_sort_key find_range_of
        map_of_merge_entries)
qed

section \<open>Properties\<close>

text \<open>
  the cached ranges are the merge of the fetched intervals: an epoch is known exactly when an
  interval names it, with the least first tick and the greatest last tick of its intervals, and
  the ranges are listed in strictly increasing order of epoch.
\<close>

theorem set_epoch_ranges_merges:
  "get_epoch_range (set_epoch_ranges entries) epoch =
     (case entries_for epoch entries of
        [] \<Rightarrow> None
      | es \<Rightarrow> let first = Min (ie_first_tick ` set es); lst = Max (ie_last_tick ` set es)
             in Some \<lparr>er_epoch = epoch, er_first_tick = first, er_last_tick = lst,
                  er_tick_count = sat_add (sat_sub lst first) 1\<rparr>)
   \<and> sorted_wrt (<) (map er_epoch (set_epoch_ranges entries))"
proof
  have e: "er_epoch \<circ> range_of = fst" by (auto simp: range_of_def)
  have "distinct (map fst (merge_entries entries []))" by (rule distinct_merge_entries) simp
  then have "distinct (map er_epoch (set_epoch_ranges entries))"
    unfolding set_epoch_ranges_def by (simp only: distinct_map_sort_key map_map e)
  moreover have "sorted (map er_epoch (set_epoch_ranges entries))" by (simp add: set_epoch_ranges_def)
  ultimately show "sorted_wrt (<) (map er_epoch (set_epoch_ranges entries))"
    by (simp add: strict_sorted_iff)
qed (simp add: get_set_epoch_ranges merged_def range_of_def Let_def split: list.split)

text \<open>
  the progress of a known epoch is between 0 and 100 percent and never decreases as more ticks
  are indexed.
\<close>

theorem epoch_progress_bounds:
  assumes "epoch_progress_pct ranges epoch tick = Some pct" and "tick \<le> tick'"
  shows "0 \<le> pct \<and> pct \<le> 100
    \<and> (\<exists>pct'. epoch_progress_pct ranges epoch tick' = Some pct' \<and> pct \<le> pct')"
proof -
  obtain r where r: "get_epoch_range ranges epoch = Some r"
    using assms(1) by (auto simp: epoch_progress_pct_def split: option.splits)
  define f :: "u32 \<Rightarrow> rat" where
    "f t = of_nat (unat (sat_sub t (er_first_tick r))) / of_nat (unat (er_tick_count r)) * 100" for t
  have u: "epoch_progress_pct ranges epoch t
      = Some (if er_tick_count r = 0 then 100 else min (f t) 100)" for t
    by (simp only: epoch_progress_pct_def r option.case Let_def f_def if_distrib [of Some])
  have "unat tick \<le> unat tick'" using assms(2) by (simp add: word_le_nat_alt)
  then have "f tick \<le> f tick'"
    unfolding f_def unat_sat_sub
    by (intro mult_right_mono divide_right_mono) (simp_all only: of_nat_le_iff of_nat_0_le_iff diff_le_mono zero_le_numeral)
  moreover have "0 \<le> f tick"
    unfolding f_def by (intro mult_nonneg_nonneg divide_nonneg_nonneg) (simp_all only: of_nat_0_le_iff zero_le_numeral)
  ultimately show ?thesis using assms(1) u [of tick] u [of tick'] by (auto simp: min_def split: if_splits)
qed

theorem epoch_progress_bounds_witness:
  "\<exists>pct'. epoch_progress_pct [\<lparr>er_epoch = 5, er_first_tick = 100, er_last_tick = 199, er_tick_count = 100\<rparr>] 5 150
     = Some pct' \<and> 25 \<le> pct'"
  using epoch_progress_bounds [of "[\<lparr>er_epoch = 5, er_first_tick = 100, er_last_tick = 199, er_tick_count = 100\<rparr>]"
      5 125 25 150]
  by (simp add: epoch_progress_pct_def get_epoch_range_def sat_sub_def)

text \<open>
  An epoch indexed up to its last tick counts as fully indexed and yet shows less than 100
  percent: the position is counted from zero and the range from one.
\<close>

theorem epoch_progress_complete_below_100:
  assumes "first \<le> lst" and "lst < - 1"
  shows "epochs_fully_indexed [range_of (epoch, first, lst)] lst = 1
    \<and> epoch_progress_pct [range_of (epoch, first, lst)] epoch lst
      = Some (of_nat (unat lst - unat first) / of_nat (unat lst - unat first + 1) * 100)
    \<and> of_nat (unat lst - unat first) / of_nat (unat lst - unat first + 1) * 100 < (100 :: rat)"
proof -
  have "unat lst < unat (- 1 :: u32)" using assms(2) by (simp only: word_less_nat_alt)
  then have n: "unat (er_tick_count (range_of (epoch, first, lst))) = unat lst - unat first + 1"
    by (simp add: range_of_def unat_sat_add unat_sat_sub unat_max_word)
  then have nz: "er_tick_count (range_of (epoch, first, lst)) \<noteq> 0" by (metis add_is_0 unat_0 zero_neq_one)
  define k where "k = unat lst - unat first"
  have "of_nat k / of_nat (k + 1) < (1 :: rat)" by (simp add: divide_less_eq)
  from mult_strict_right_mono [OF this, of 100]
  have lt: "of_nat k / of_nat (k + 1) * 100 < (100 :: rat)" by (simp only: mult_1 zero_less_numeral)
  have g: "get_epoch_range [range_of (epoch, first, lst)] epoch = Some (range_of (epoch, first, lst))"
    and f: "er_first_tick (range_of (epoch, first, lst)) = first"
    by (simp_all add: get_epoch_range_def range_of_def)
  have "epoch_progress_pct [range_of (epoch, first, lst)] epoch lst
      = Some (min (of_nat k / of_nat (k + 1) * 100) 100)"
    by (simp only: epoch_progress_pct_def g option.case Let_def unat_sat_sub n f k_def nz if_False)
  then show ?thesis
    using lt unfolding k_def [symmetric] by (simp add: epochs_fully_indexed_def range_of_def min_def)
qed

theorem epoch_progress_complete_below_100_witness:
  "epochs_fully_indexed [range_of (5, 100, 199)] 199 = 1
   \<and> epoch_progress_pct [range_of (5, 100, 199)] 5 199 = Some 99"
  using epoch_progress_complete_below_100 [of 100 199 5] by simp

end
