(* ===== verification/Backfill.thy ===== *)
theory Backfill
  imports Packet_Decoder Protocol Peers Epochs Pipeline
begin

text \<open>
  \<^verbatim>\<open>crates/ingestion/src/backfill.rs\<close>: the historical backfill.  The tick range is split over the
  workers, and each worker keeps a window of tick requests in flight on its connection, matching
  responses to requests by their correlation id.  The stream and the JetStream context are the
  parameters of theories \<open>Protocol\<close> and \<open>Packet_Decoder\<close>; random correlation ids are drawn from a
  sequence, and whether the read of a round times out is decided by the environment.
\<close>

definition MAX_CONSECUTIVE_FAILURES :: u32 where "MAX_CONSECUTIVE_FAILURES = 30"
definition PIPELINE_DEPTH :: nat where "PIPELINE_DEPTH = 20"
definition FAILURE_SKIP_INITIAL :: u32 where "FAILURE_SKIP_INITIAL = 10000"
definition FAILURE_SKIP_MAX :: u32 where "FAILURE_SKIP_MAX = 1000000"

section \<open>The range and its partition\<close>

record backfill_config =
  node_addr :: "socket_addr option"
  bootstrap_addrs_cfg :: "socket_addr list"
  workers :: nat
  cfg_start_tick :: u32
  cfg_end_tick :: u32

definition bootstrap_addrs :: "backfill_config \<Rightarrow> socket_addr list" where
  "bootstrap_addrs cfg =
     (case node_addr cfg of
        None \<Rightarrow> bootstrap_addrs_cfg cfg
      | Some a \<Rightarrow> if a \<in> set (bootstrap_addrs_cfg cfg) then bootstrap_addrs_cfg cfg
                  else bootstrap_addrs_cfg cfg @ [a])"

definition resolve_start_tick :: "epoch_range list \<Rightarrow> u32 \<Rightarrow> u32 \<Rightarrow> u32" where
  "resolve_start_tick ranges start_tick end_tick =
     (if start_tick \<noteq> 0 then start_tick
      else case filter (\<lambda>r. er_first_tick r \<le> end_tick) ranges of
        [] \<Rightarrow> if 100000 < end_tick then sat_sub end_tick 2000000 else start_tick
      | r # rs \<Rightarrow> fold max (map er_first_tick rs) (er_first_tick r))"

text \<open>The range of each worker that gets one, in the 32-bit arithmetic of the source.\<close>

definition chunk_size :: "nat \<Rightarrow> u32 \<Rightarrow> u32 \<Rightarrow> nat" where
  "chunk_size n start_tick end_tick = max (unat (end_tick - start_tick) div n) 1"

definition worker_range :: "nat \<Rightarrow> u32 \<Rightarrow> u32 \<Rightarrow> nat \<Rightarrow> u32 \<times> u32" where
  "worker_range n start_tick end_tick worker_id =
     (let size = word_of_nat (chunk_size n start_tick end_tick)
      in (start_tick + word_of_nat worker_id * size,
          if worker_id = n - 1 then end_tick
          else min (start_tick + (word_of_nat worker_id + 1) * size) end_tick))"

definition partition_ticks :: "nat \<Rightarrow> u32 \<Rightarrow> u32 \<Rightarrow> (u32 \<times> u32) list" where
  "partition_ticks config_workers start_tick end_tick =
     (if end_tick \<le> start_tick then []
      else let n = max config_workers 1
           in filter (\<lambda>(a, b). \<not> b \<le> a) (map (worker_range n start_tick end_tick) [0..<n]))"

section \<open>The window of requests\<close>

datatype expected_response = TickDataReq u32 u32 | TransactionEnd u32 u32

fun dejavu_of :: "expected_response \<Rightarrow> u32" where
  "dejavu_of (TickDataReq tick d) = d"
| "dejavu_of (TransactionEnd tick d) = d"

record backfill_shared =
  ticks_completed :: u64
  txs_discovered :: u64
  ticks_discovered :: u64
  ticks_failed :: u64

text \<open>The window of one connection, local to its worker.\<close>

record 's window =
  wk_stream :: 's
  next_tick_to_request :: u32
  expected :: "expected_response list"
  consecutive_failures :: u32
  skip_size :: u32
  drawn :: nat

text \<open>A worker with what it shares with the other tasks: the counters, the pipeline state and NATS.\<close>

record ('s, 'n) worker = "'s window" +
  shared :: backfill_shared
  wk_pipeline :: pipeline_state
  wk_nats :: 'n

text \<open>
  The skip ahead after too many failures, and one request.  \<open>rand n\<close> is the n-th random number.
\<close>

definition skip_ahead :: "u32 \<Rightarrow> ('s, 'z) window_scheme \<Rightarrow> ('s, 'z) window_scheme" where
  "skip_ahead worker_end w = w\<lparr>
     next_tick_to_request := min (next_tick_to_request w + skip_size w) worker_end,
     consecutive_failures := 0,
     skip_size := min (skip_size w * 2) FAILURE_SKIP_MAX\<rparr>"

definition send_request :: "'s tcp \<Rightarrow> (nat \<Rightarrow> u32) \<Rightarrow> ('s, 'z) window_scheme \<Rightarrow> unit outcome \<times> ('s, 'z) window_scheme" where
  "send_request T rand w =
     (let d = max (rand (drawn w)) 1; w' = w\<lparr>drawn := drawn w + 1\<rparr>
      in case send_raw T (wk_stream w) 16 (u32_to_le (next_tick_to_request w)) d of
           Err e \<Rightarrow> (Err e, w')
         | Panic p \<Rightarrow> (Panic p, w')
         | Ok stream \<Rightarrow> (Ok (), w'\<lparr>wk_stream := stream,
             expected := expected w @ [TickDataReq (next_tick_to_request w) d],
             next_tick_to_request := next_tick_to_request w + 1\<rparr>))"

lemma send_request_expected:
  "send_request T rand w = (Ok (), w') \<Longrightarrow> length (expected w') = length (expected w) + 1
    \<and> consecutive_failures w' = consecutive_failures w"
  by (auto simp: send_request_def Let_def split: outcome.splits)

function fill_pipeline :: "'s tcp \<Rightarrow> (nat \<Rightarrow> u32) \<Rightarrow> u32 \<Rightarrow> ('s, 'z) window_scheme \<Rightarrow> unit outcome \<times> ('s, 'z) window_scheme" where
  "fill_pipeline T rand worker_end w =
     (if next_tick_to_request w < worker_end \<and> length (expected w) < PIPELINE_DEPTH
      then if MAX_CONSECUTIVE_FAILURES \<le> consecutive_failures w
           then fill_pipeline T rand worker_end (skip_ahead worker_end w)
           else (case send_request T rand w of
                   (Ok _, w') \<Rightarrow> fill_pipeline T rand worker_end w'
                 | (Err e, w') \<Rightarrow> (Err e, w')
                 | (Panic p, w') \<Rightarrow> (Panic p, w'))
      else (Ok (), w))"
  by pat_completeness auto
termination
proof (relation "measure (\<lambda>(T, rand, worker_end, w). 2 * (PIPELINE_DEPTH - length (expected w))
    + (if MAX_CONSECUTIVE_FAILURES \<le> consecutive_failures w then 1 else 0))", goal_cases)
  case (2 T rand worker_end w)
  then show ?case by (simp add: skip_ahead_def MAX_CONSECUTIVE_FAILURES_def)
next
  case (3 T rand worker_end w r w' u)
  then have "send_request T rand w = (Ok (), w')" by simp
  from send_request_expected [OF this] 3 show ?case by auto
qed simp

declare fill_pipeline.simps [simp del]

section \<open>Responses\<close>

text \<open>\<^verbatim>\<open>position\<close> by correlation id and \<^verbatim>\<open>remove\<close> of the entry found.\<close>

fun remove_match :: "u32 \<Rightarrow> expected_response list \<Rightarrow> (expected_response \<times> expected_response list) option" where
  "remove_match d [] = None"
| "remove_match d (e # es) =
     (if dejavu_of e = d then Some (e, es)
      else case remove_match d es of None \<Rightarrow> None | Some (x, rest) \<Rightarrow> Some (x, e # rest))"

definition count :: "(backfill_shared \<Rightarrow> backfill_shared) \<Rightarrow> ('s, 'n) worker \<Rightarrow> ('s, 'n) worker" where
  "count f w = w\<lparr>shared := f (shared w)\<rparr>"

abbreviation failed_one :: "backfill_shared \<Rightarrow> backfill_shared" where
  "failed_one sh \<equiv> sh\<lparr>ticks_failed := ticks_failed sh + 1\<rparr>"

definition backfill_publish :: "ext \<Rightarrow> 'n nats \<Rightarrow> u8 \<Rightarrow> bytes \<Rightarrow> u16 \<Rightarrow> 'n \<Rightarrow> unit outcome \<times> 'n" where
  "backfill_publish X N ty payload epoch n =
     (if ty = 8 then bindS (liftS (decode_tick X payload) n) (\<lambda>tick. publish_tick N True epoch tick)
      else if ty = 24 then bindS (liftS (decode_transaction X payload) n) (\<lambda>tx. publish_tx N True epoch tx)
      else (Ok (), n))"

text \<open>A publish whose error is only logged; the counter is raised when it succeeds.\<close>

definition publish_counted :: "ext \<Rightarrow> 'n nats \<Rightarrow> u8 \<Rightarrow> bytes \<Rightarrow> u16 \<Rightarrow> (backfill_shared \<Rightarrow> backfill_shared)
    \<Rightarrow> ('s, 'n) worker \<Rightarrow> unit outcome \<times> ('s, 'n) worker" where
  "publish_counted X N ty payload epoch f w =
     (case backfill_publish X N ty payload epoch (wk_nats w) of
        (Ok _, n) \<Rightarrow> (Ok (), count f (w\<lparr>wk_nats := n\<rparr>))
      | (Err e, n) \<Rightarrow> (Ok (), w\<lparr>wk_nats := n\<rparr>)
      | (Panic p, n) \<Rightarrow> (Panic p, w\<lparr>wk_nats := n\<rparr>))"

definition on_tick_data :: "'s tcp \<Rightarrow> ext \<Rightarrow> 'n nats \<Rightarrow> (nat \<Rightarrow> u32) \<Rightarrow> u32 \<Rightarrow> u32 \<Rightarrow> bytes \<Rightarrow> ('s, 'n) worker
    \<Rightarrow> unit outcome \<times> ('s, 'n) worker" where
  "on_tick_data T X N rand worker_end d payload w =
     (case remove_match d (expected w) of
        None \<Rightarrow> (Ok (), w)
      | Some (_, rest) \<Rightarrow>
          if length payload < 8
          then fill_pipeline T rand worker_end (count failed_one (w\<lparr>expected := rest\<rparr>))
          else let resp_tick = u32_from_le (take 4 (drop 4 payload));
                   tick_epoch = u16_from_le (take 2 (drop 2 payload));
                   w = w\<lparr>expected := rest, consecutive_failures := 0, skip_size := FAILURE_SKIP_INITIAL\<rparr>
               in bindS (publish_counted X N 8 payload tick_epoch
                           (\<lambda>sh. sh\<lparr>ticks_discovered := ticks_discovered sh + 1\<rparr>) w) (\<lambda>_ w.
                  fill_pipeline T rand worker_end
                    (count (\<lambda>sh. sh\<lparr>ticks_completed := ticks_completed sh + 1\<rparr>)
                      (w\<lparr>wk_pipeline := (wk_pipeline w)\<lparr>indexed_tick := max (indexed_tick (wk_pipeline w)) resp_tick\<rparr>\<rparr>))))"

text \<open>An end marker or a request to try again for a pending tick.\<close>

definition on_refusal :: "'s tcp \<Rightarrow> (nat \<Rightarrow> u32) \<Rightarrow> u32 \<Rightarrow> u32 \<Rightarrow> ('s, 'n) worker \<Rightarrow> unit outcome \<times> ('s, 'n) worker" where
  "on_refusal T rand worker_end d w =
     (case remove_match d (expected w) of
        None \<Rightarrow> (Ok (), w)
      | Some (TransactionEnd _ _, rest) \<Rightarrow> (Ok (), w\<lparr>expected := rest\<rparr>)
      | Some (TickDataReq _ _, rest) \<Rightarrow>
          fill_pipeline T rand worker_end (count failed_one
            (w\<lparr>expected := rest, consecutive_failures := consecutive_failures w + 1\<rparr>)))"

definition on_packet :: "'s tcp \<Rightarrow> ext \<Rightarrow> 'n nats \<Rightarrow> (nat \<Rightarrow> u32) \<Rightarrow> u32 \<Rightarrow> u16 \<Rightarrow> packet \<Rightarrow> ('s, 'n) worker
    \<Rightarrow> unit outcome \<times> ('s, 'n) worker" where
  "on_packet T X N rand worker_end epoch pkt w =
     (case pkt of (ty, d, payload) \<Rightarrow>
       if ty = 8 then on_tick_data T X N rand worker_end d payload w
       else if ty = 35 \<or> ty = 54 then on_refusal T rand worker_end d w
       else if ty = 24
       then publish_counted X N 24 payload epoch (\<lambda>sh. sh\<lparr>txs_discovered := txs_discovered sh + 1\<rparr>) w
       else (Ok (), w))"

definition is_tick_data :: "expected_response \<Rightarrow> bool" where
  "is_tick_data e = (case e of TickDataReq _ _ \<Rightarrow> True | TransactionEnd _ _ \<Rightarrow> False)"

definition fail_pending :: "('s, 'n) worker \<Rightarrow> ('s, 'n) worker" where
  "fail_pending w = count (\<lambda>sh. sh\<lparr>ticks_failed :=
     ticks_failed sh + word_of_nat (length (filter is_tick_data (expected w)))\<rparr>) w"

text \<open>The reading loop: \<open>clock\<close> says for every round whether the read times out.\<close>

fun window_loop :: "'s tcp \<Rightarrow> ext \<Rightarrow> 'n nats \<Rightarrow> (nat \<Rightarrow> u32) \<Rightarrow> u32 \<Rightarrow> u16 \<Rightarrow> bool list \<Rightarrow> ('s, 'n) worker
    \<Rightarrow> (unit outcome \<times> ('s, 'n) worker) option" where
  "window_loop T X N rand worker_end epoch clock w =
     (if expected w = [] then Some (Ok (), w)
      else case clock of
        [] \<Rightarrow> None
      | elapsed # clock \<Rightarrow>
          if elapsed then Some (Err (Timeout ''Pipeline''), fail_pending w)
          else (case read_packet T (wk_stream w) of
                  Err e \<Rightarrow> Some (Err e, w)
                | Panic p \<Rightarrow> Some (Panic p, w)
                | Ok (pkt, stream) \<Rightarrow>
                    (case on_packet T X N rand worker_end epoch pkt (w\<lparr>wk_stream := stream\<rparr>) of
                       (Ok _, w') \<Rightarrow> window_loop T X N rand worker_end epoch clock w'
                     | (r, w') \<Rightarrow> Some (r, w'))))"

declare window_loop.simps [simp del]

text \<open>
  From the first fill on: \<^verbatim>\<open>try_peer\<close> after the handshake.  The tick the worker goes on from is
  updated only when the loop ends normally.
\<close>

definition fresh_window :: "u32 \<Rightarrow> ('s, 'z) window_scheme \<Rightarrow> ('s, 'z) window_scheme" where
  "fresh_window current_tick w = w\<lparr>next_tick_to_request := current_tick, expected := [],
     consecutive_failures := 0, skip_size := FAILURE_SKIP_INITIAL, drawn := 0\<rparr>"

definition run_window :: "'s tcp \<Rightarrow> ext \<Rightarrow> 'n nats \<Rightarrow> (nat \<Rightarrow> u32) \<Rightarrow> u32 \<Rightarrow> u16 \<Rightarrow> bool list \<Rightarrow> u32 \<Rightarrow> ('s, 'n) worker
    \<Rightarrow> (u32 outcome \<times> ('s, 'n) worker) option" where
  "run_window T X N rand worker_end epoch clock current_tick w =
     (case fill_pipeline T rand worker_end (fresh_window current_tick w) of
        (Err e, w) \<Rightarrow> Some (Err e, w)
      | (Panic p, w) \<Rightarrow> Some (Panic p, w)
      | (Ok _, w) \<Rightarrow>
          map_option (\<lambda>(r, w). (bindR r (\<lambda>_. Ok (next_tick_to_request w)), w))
            (window_loop T X N rand worker_end epoch clock w))"

section \<open>The partition covers the range exactly once\<close>

lemma concat_upt_chunks:
  "S \<le> E \<Longrightarrow> concat (map (\<lambda>k. [S + k * c..<min (S + (k + 1) * c) E]) [0..<n]) = [S..<min (S + n * c) E]"
proof (induction n)
  case (Suc n)
  have "[S..<min (S + n * c) E] @ [S + n * c..<min (S + (n + 1) * c) E] = [S..<min (S + (n + 1) * c) E]"
    by (cases "S + n * c \<le> E") (auto simp: min_def upt_split)
  then show ?case using Suc by simp
qed simp

lemma concat_map_filter_empty:
  "(\<And>x. x \<in> set xs \<Longrightarrow> \<not> P x \<Longrightarrow> f x = []) \<Longrightarrow> concat (map f (filter P xs)) = concat (map f xs)"
  by (induction xs) auto

text \<open>Consecutive chunks of any size, the last one up to the end, in wrapping arithmetic.\<close>

lemma chunk_bounds:
  fixes start_tick end_tick :: u32
  assumes "\<And>j. j < n \<Longrightarrow> unat start_tick + j * c < 2 ^ 32" and "k < n"
    and "f k = (start_tick + word_of_nat k * word_of_nat c,
      if k = n - 1 then end_tick else min (start_tick + (word_of_nat k + 1) * word_of_nat c) end_tick)"
  shows "unat (fst (f k)) = unat start_tick + k * c
    \<and> unat (snd (f k)) = (if k = n - 1 then unat end_tick else min (unat start_tick + (k + 1) * c) (unat end_tick))"
proof -
  have w: "start_tick + word_of_nat j * word_of_nat c = word_of_nat (unat start_tick + j * c)" for j
    by simp
  have u: "unat (start_tick + word_of_nat j * word_of_nat c) = unat start_tick + j * c" if "j < n" for j
    unfolding w using assms(1) [OF that] by (rule unat_word_of_nat_u32)
  have "unat (start_tick + (word_of_nat k + 1) * word_of_nat c) = unat start_tick + (k + 1) * c" if "k \<noteq> n - 1"
    using u [of "k + 1"] that assms(2) by (simp add: add.commute)
  then show ?thesis using u [OF assms(2)] assms(3) by (auto simp: min_def word_le_nat_alt)
qed

lemma chunks_cover:
  fixes start_tick end_tick :: u32
  assumes "start_tick < end_tick" "0 < n" and bound: "\<And>j. j < n \<Longrightarrow> unat start_tick + j * c < 2 ^ 32"
    and f: "\<And>k. f k = (start_tick + word_of_nat k * word_of_nat c,
      if k = n - 1 then end_tick else min (start_tick + (word_of_nat k + 1) * word_of_nat c) end_tick)"
  shows "concat (map (\<lambda>(a, b). [unat a..<unat b]) (filter (\<lambda>(a, b). \<not> b \<le> a) (map f [0..<n])))
    = [unat start_tick..<unat end_tick]"
proof -
  define S where "S = unat start_tick"
  define E where "E = unat end_tick"
  let ?g = "\<lambda>(a :: u32, b :: u32). [unat a..<unat b]"
  have SE: "S < E" using assms(1) by (simp add: S_def E_def word_less_nat_alt)
  have upt: "[0..<n] = [0..<n - 1] @ [n - 1]" using assms(2) by (metis Suc_diff_1 upt_Suc_append zero_le)
  have rng: "unat (fst (f k)) = S + k * c \<and> unat (snd (f k)) = (if k = n - 1 then E else min (S + (k + 1) * c) E)"
    if "k < n" for k
    unfolding S_def E_def using bound that f [of k] by (rule chunk_bounds)
  have "concat (map ?g (filter (\<lambda>(a, b). \<not> b \<le> a) (map f [0..<n]))) = concat (map ?g (map f [0..<n]))"
    by (intro concat_map_filter_empty) (auto simp: word_le_nat_alt)
  also have "map ?g (map f [0..<n])
      = map (\<lambda>k. [S + k * c..<if k = n - 1 then E else min (S + (k + 1) * c) E]) [0..<n]"
    using rng by (auto simp: case_prod_beta)
  also have "concat (map (\<lambda>k. [S + k * c..<if k = n - 1 then E else min (S + (k + 1) * c) E]) [0..<n])
      = concat (map (\<lambda>k. [S + k * c..<min (S + (k + 1) * c) E]) [0..<n - 1]) @ [S + (n - 1) * c..<E]"
    by (subst upt) (auto intro!: arg_cong [of _ _ concat])
  also have "\<dots> = [S..<min (S + (n - 1) * c) E] @ [S + (n - 1) * c..<E]"
    using SE by (simp only: concat_upt_chunks less_imp_le)
  also have "\<dots> = [S..<E]"
    using SE by (cases "S + (n - 1) * c \<le> E") (auto simp: min_def upt_split)
  finally show ?thesis by (simp add: S_def E_def)
qed

text \<open>
  The ranges given to the workers cover the tick range exactly once and in order, for every
  number of workers that does not take a start tick past the 32-bit range.
\<close>

theorem partition_covers_once:
  assumes "start_tick < end_tick" "unat start_tick + max n 1 \<le> 2 ^ 32"
  shows "concat (map (\<lambda>(a, b). [unat a..<unat b]) (partition_ticks n start_tick end_tick))
    = [unat start_tick..<unat end_tick]"
proof -
  define m where "m = max n 1"
  define c where "c = chunk_size m start_tick end_tick"
  have m: "0 < m" by (simp add: m_def)
  have SE: "unat start_tick < unat end_tick" using assms(1) by (simp add: word_less_nat_alt)
  have c: "c = max ((unat end_tick - unat start_tick) div m) 1"
    using assms(1) by (simp add: c_def chunk_size_def unat_sub less_imp_le)
  have bound: "unat start_tick + j * c < 2 ^ 32" if "j < m" for j
  proof (cases "(unat end_tick - unat start_tick) div m = 0")
    case True
    then show ?thesis using assms(2) that c by (simp add: m_def)
  next
    case False
    then have "j * c \<le> m * ((unat end_tick - unat start_tick) div m)" using that c by simp
    then have "j * c \<le> unat end_tick - unat start_tick" by (metis le_trans times_div_less_eq_dividend)
    then show ?thesis using SE unat_lt_pow [of end_tick] by simp
  qed
  have "worker_range m start_tick end_tick k = (start_tick + word_of_nat k * word_of_nat c,
      if k = m - 1 then end_tick else min (start_tick + (word_of_nat k + 1) * word_of_nat c) end_tick)" for k
    by (simp add: worker_range_def Let_def c_def)
  from chunks_cover [OF assms(1) m bound this]
  show ?thesis using assms(1) unfolding partition_ticks_def m_def [symmetric] Let_def by (simp add: not_le)
qed

theorem partition_covers_once_witness:
  "concat (map (\<lambda>(a, b). [unat a..<unat b]) (partition_ticks 3 (100 :: u32) 110)) = [100..<110]"
  using partition_covers_once [of 100 110 3] by simp

section \<open>The window\<close>

fun req_tick :: "expected_response \<Rightarrow> u32" where
  "req_tick (TickDataReq tick d) = tick"
| "req_tick (TransactionEnd tick d) = tick"

text \<open>
  The invariant of the window: at most \<open>PIPELINE_DEPTH\<close> requests, all for tick data, for different
  ticks of the worker's range in increasing order, none beyond the next one to request.
\<close>

definition window_inv :: "u32 \<Rightarrow> u32 \<Rightarrow> ('s, 'z) window_scheme \<Rightarrow> bool" where
  "window_inv first worker_end w \<longleftrightarrow>
     length (expected w) \<le> PIPELINE_DEPTH \<and> list_all is_tick_data (expected w)
     \<and> sorted_wrt (<) (map req_tick (expected w))
     \<and> (\<forall>e\<in>set (expected w). first \<le> req_tick e \<and> req_tick e < next_tick_to_request w \<and> req_tick e < worker_end)
     \<and> first \<le> next_tick_to_request w \<and> skip_size w \<le> FAILURE_SKIP_MAX"

text \<open>Requests in flight less the requests made, and with the answered and the refused ones: constant.\<close>

definition in_flight :: "('s, 'z) window_scheme \<Rightarrow> u64" where
  "in_flight w = word_of_nat (length (expected w)) - word_of_nat (drawn w)"

definition balance :: "('s, 'n) worker \<Rightarrow> u64" where
  "balance w = ticks_completed (shared w) + ticks_failed (shared w) + in_flight w"

definition filled :: "u32 \<Rightarrow> ('s, 'z) window_scheme \<Rightarrow> bool" where
  "filled worker_end w \<longleftrightarrow> worker_end \<le> next_tick_to_request w \<or> PIPELINE_DEPTH \<le> length (expected w)"

lemma add_no_wrap: "unat (a :: u32) + unat b < 2 ^ 32 \<Longrightarrow> a \<le> a + b"
  by (simp add: word_le_nat_alt unat_word_ariths)

lemma skip_ahead_inv:
  assumes "window_inv first worker_end w" "unat worker_end + 1000000 \<le> 2 ^ 32" "next_tick_to_request w < worker_end"
  shows "window_inv first worker_end (skip_ahead worker_end w)" "in_flight (skip_ahead worker_end w) = in_flight w"
proof -
  have "unat (next_tick_to_request w) + unat (skip_size w) < 2 ^ 32"
    using assms by (simp add: window_inv_def FAILURE_SKIP_MAX_def word_le_nat_alt word_less_nat_alt)
  then have "next_tick_to_request w \<le> next_tick_to_request w + skip_size w" by (rule add_no_wrap)
  then have "next_tick_to_request w \<le> min (next_tick_to_request w + skip_size w) worker_end"
    using assms(3) by simp
  then show "window_inv first worker_end (skip_ahead worker_end w)"
    using assms(1) by (fastforce simp: window_inv_def skip_ahead_def)
qed (simp add: in_flight_def skip_ahead_def)

lemma send_request_inv:
  assumes "window_inv first worker_end w" "next_tick_to_request w < worker_end" "length (expected w) < PIPELINE_DEPTH"
    and "send_request T rand w = (Ok u, w')"
  shows "window_inv first worker_end w'" "in_flight w' = in_flight w"
proof -
  let ?t = "next_tick_to_request w"
  have "unat ?t + 1 < 2 ^ 32" using assms(2) unat_lt_pow [of worker_end] by (simp add: word_less_nat_alt)
  then have t: "?t < ?t + 1" by (simp add: word_less_nat_alt unat_word_ariths)
  obtain d stream where w': "w' = w\<lparr>drawn := drawn w + 1, wk_stream := stream,
      expected := expected w @ [TickDataReq ?t d], next_tick_to_request := ?t + 1\<rparr>"
    using assms(4) by (auto simp: send_request_def Let_def split: outcome.splits)
  show "window_inv first worker_end w'"
    using assms(1-3) t unfolding w'
    by (auto simp: window_inv_def is_tick_data_def sorted_wrt_append dest: less_trans)
  show "in_flight w' = in_flight w" by (simp add: w' in_flight_def)
qed

lemma fill_pipeline_window:
  assumes "window_inv first worker_end w" "unat worker_end + 1000000 \<le> 2 ^ 32"
    and "fill_pipeline T rand worker_end w = (Ok u, w')"
  shows "window_inv first worker_end w' \<and> filled worker_end w' \<and> in_flight w' = in_flight w"
  using assms
proof (induction T rand worker_end w rule: fill_pipeline.induct)
  case (1 T rand worker_end w)
  show ?case
  proof (cases "next_tick_to_request w < worker_end \<and> length (expected w) < PIPELINE_DEPTH")
    case False
    then have "w' = w" using 1(5) unfolding fill_pipeline.simps [of T rand worker_end w] by auto
    then show ?thesis using False 1(3) by (auto simp: filled_def)
  next
    case True
    show ?thesis
    proof (cases "MAX_CONSECUTIVE_FAILURES \<le> consecutive_failures w")
      case skip: True
      then have "fill_pipeline T rand worker_end (skip_ahead worker_end w) = (Ok u, w')"
        using 1(5) True unfolding fill_pipeline.simps [of T rand worker_end w] by auto
      then show ?thesis using 1(1) [OF True skip] skip_ahead_inv [OF 1(3,4)] True 1(4) by simp
    next
      case send: False
      obtain v w1 where w1: "send_request T rand w = (Ok v, w1)" "fill_pipeline T rand worker_end w1 = (Ok u, w')"
        using 1(5) True send unfolding fill_pipeline.simps [of T rand worker_end w]
        by (auto split: prod.splits outcome.splits)
      have inv: "window_inv first worker_end w1" "in_flight w1 = in_flight w"
        using send_request_inv [OF 1(3) _ _ w1(1)] True by blast+
      show ?thesis using 1(2) [OF True send _ refl inv(1) 1(4) w1(2), OF w1(1) [symmetric]] inv(2) by simp
    qed
  qed
qed

text \<open>What every skip and every request keep, the filling keeps, also when a request fails.\<close>

lemma fill_pipeline_keeps:
  assumes "fill_pipeline T rand worker_end w = (r, w')" "P w"
    and skip: "\<And>w. P w \<Longrightarrow> P (skip_ahead worker_end w)"
    and send: "\<And>w v w'. P w \<Longrightarrow> send_request T rand w = (v, w') \<Longrightarrow> P w'"
  shows "P w'"
  using assms
proof (induction T rand worker_end w arbitrary: r w' rule: fill_pipeline.induct)
  case (1 T rand worker_end w)
  note step = fill_pipeline.simps [of T rand worker_end w]
  show ?case
  proof (cases "next_tick_to_request w < worker_end \<and> length (expected w) < PIPELINE_DEPTH")
    case False
    then show ?thesis using 1(3,4) unfolding step by (auto split: if_splits)
  next
    case True
    show ?thesis
    proof (cases "MAX_CONSECUTIVE_FAILURES \<le> consecutive_failures w")
      case skips: True
      then have "fill_pipeline T rand worker_end (skip_ahead worker_end w) = (r, w')"
        using 1(3) True unfolding step by simp
      then show ?thesis by (rule 1(1) [OF True skips _ 1(5) [OF 1(4)]]) (fact 1(5), fact 1(6))
    next
      case sends: False
      obtain v w1 where w1: "send_request T rand w = (v, w1)" by (cases "send_request T rand w")
      with 1(4,6) have P1: "P w1" by blast
      show ?thesis
      proof (cases v)
        case (Ok u)
        then have "fill_pipeline T rand worker_end w1 = (r, w')"
          using 1(3) True sends w1 unfolding step by simp
        then show ?thesis
          by (rule 1(2) [OF True sends w1 [symmetric] Ok _ P1]) (fact 1(5), fact 1(6))
      qed (use 1(3) True sends w1 P1 step in simp_all)
    qed
  qed
qed

lemma fill_pipeline_more:
  assumes "fill_pipeline T rand worker_end w = (r, w')"
  shows "window.more w' = window.more w"
  using assms
  by (rule fill_pipeline_keeps) (auto simp: skip_ahead_def send_request_def Let_def split: outcome.splits)

lemma fill_pipeline_shared:
  assumes "fill_pipeline T rand worker_end w = (r, w')"
  shows "shared w' = shared w" "wk_pipeline w' = wk_pipeline w" "wk_nats w' = wk_nats w"
  using fill_pipeline_more [OF assms] by (cases w; cases w'; simp)+

lemma fill_pipeline_inv:
  assumes "window_inv first worker_end w" "unat worker_end + 1000000 \<le> 2 ^ 32"
    and "fill_pipeline T rand worker_end w = (Ok u, w')"
  shows "window_inv first worker_end w' \<and> filled worker_end w' \<and> balance w' = balance w"
  using fill_pipeline_window [OF assms] fill_pipeline_shared(1) [OF assms(3)] by (simp add: balance_def)

lemma remove_match_split:
  "remove_match d es = Some (e, rest) \<Longrightarrow> \<exists>xs ys. es = xs @ e # ys \<and> rest = xs @ ys \<and> dejavu_of e = d"
proof (induction es arbitrary: rest)
  case (Cons x es)
  then show ?case
    by (auto split: if_splits option.splits) (metis append_Cons append_Nil | metis append_Cons)+
qed simp

text \<open>Taking one entry out of the window and counting it.\<close>

lemma removed_inv:
  assumes "window_inv first worker_end w" "remove_match d (expected w) = Some (e, rest)"
  shows "window_inv first worker_end (w\<lparr>expected := rest\<rparr>)" "length (expected w) = length rest + 1" "is_tick_data e"
proof -
  obtain xs ys where es: "expected w = xs @ e # ys" "rest = xs @ ys"
    using remove_match_split [OF assms(2)] by blast
  show "window_inv first worker_end (w\<lparr>expected := rest\<rparr>)" "length (expected w) = length rest + 1" "is_tick_data e"
    using assms(1) by (auto simp: window_inv_def es sorted_wrt_append)
qed

lemma balance_removed:
  assumes "length (expected w) = length rest + 1"
  shows "balance (count failed_one (w\<lparr>expected := rest, consecutive_failures := c\<rparr>)) = balance w"
    "balance (count failed_one (w\<lparr>expected := rest\<rparr>)) = balance w"
  using assms by (simp_all add: balance_def in_flight_def count_def)

lemma window_inv_fields [simp]:
  "window_inv first worker_end (w\<lparr>wk_stream := st\<rparr>) = window_inv first worker_end w"
  "window_inv first worker_end (w\<lparr>expected := es, consecutive_failures := c\<rparr>) = window_inv first worker_end (w\<lparr>expected := es\<rparr>)"
  by (simp_all add: window_inv_def)

lemma window_inv_shared [simp]:
  "window_inv first worker_end (count f w) = window_inv first worker_end w"
  "window_inv first worker_end (w\<lparr>wk_nats := n\<rparr>) = window_inv first worker_end w"
  "window_inv first worker_end (w\<lparr>wk_pipeline := pl\<rparr>) = window_inv first worker_end w"
  by (simp_all add: window_inv_def count_def)

lemma window_inv_reset:
  assumes "window_inv first worker_end (w\<lparr>expected := es\<rparr>)"
  shows "window_inv first worker_end (w\<lparr>expected := es, consecutive_failures := 0, skip_size := FAILURE_SKIP_INITIAL\<rparr>)"
  using assms by (simp add: window_inv_def FAILURE_SKIP_INITIAL_def FAILURE_SKIP_MAX_def)

lemma publish_counted_frame:
  assumes "publish_counted X N ty payload epoch f w = (Ok u, w')" "\<And>sh. ticks_completed (f sh) = ticks_completed sh"
    "\<And>sh. ticks_failed (f sh) = ticks_failed sh"
  shows "window_inv first worker_end w' = window_inv first worker_end w" "balance w' = balance w"
    "expected w' = expected w" "filled worker_end w' = filled worker_end w"
  using assms by (auto simp: publish_counted_def balance_def in_flight_def count_def filled_def window_inv_def
      split: prod.splits outcome.splits)

lemma on_tick_data_inv:
  assumes "window_inv first worker_end w" "filled worker_end w" "unat worker_end + 1000000 \<le> 2 ^ 32"
    and "on_tick_data T X N rand worker_end d payload w = (Ok u, w')"
  shows "window_inv first worker_end w' \<and> filled worker_end w' \<and> balance w' = balance w"
proof (cases "remove_match d (expected w)")
  case None
  then show ?thesis using assms by (simp add: on_tick_data_def)
next
  case (Some p)
  then obtain e rest where rm: "remove_match d (expected w) = Some (e, rest)" by (cases p) auto
  note rem = removed_inv [OF assms(1) rm]
  show ?thesis
  proof (cases "length payload < 8")
    case True
    then have "fill_pipeline T rand worker_end (count failed_one (w\<lparr>expected := rest\<rparr>)) = (Ok u, w')"
      using assms(4) rm by (simp add: on_tick_data_def)
    from fill_pipeline_inv [OF _ assms(3) this, of first] show ?thesis
      using rem(1) balance_removed(2) [OF rem(2)] by simp
  next
    case False
    define w1 where "w1 = w\<lparr>expected := rest, consecutive_failures := 0, skip_size := FAILURE_SKIP_INITIAL\<rparr>"
    define t where "t = u32_from_le (take 4 (drop 4 payload))"
    obtain v w2 where w2: "publish_counted X N 8 payload (u16_from_le (take 2 (drop 2 payload)))
        (\<lambda>sh. sh\<lparr>ticks_discovered := ticks_discovered sh + 1\<rparr>) w1 = (Ok v, w2)"
      "fill_pipeline T rand worker_end (count (\<lambda>sh. sh\<lparr>ticks_completed := ticks_completed sh + 1\<rparr>)
        (w2\<lparr>wk_pipeline := (wk_pipeline w2)\<lparr>indexed_tick := max (indexed_tick (wk_pipeline w2)) t\<rparr>\<rparr>)) = (Ok u, w')"
      using assms(4) rm False unfolding on_tick_data_def w1_def t_def
      by (auto simp: Let_def elim!: bindS.elims)
    have inv1: "window_inv first worker_end w1"
      unfolding w1_def by (rule window_inv_reset [OF rem(1)])
    have frame: "window_inv first worker_end w2" "balance w2 = balance w1" "expected w2 = expected w1"
      using publish_counted_frame(1-3) [OF w2(1)] inv1 by simp_all
    have "balance (count (\<lambda>sh. sh\<lparr>ticks_completed := ticks_completed sh + 1\<rparr>) (w2\<lparr>wk_pipeline := pl\<rparr>)) = balance w" for pl
      using frame(2) rem(2) by (simp add: balance_def in_flight_def count_def w1_def algebra_simps)
    with fill_pipeline_inv [OF _ assms(3) w2(2), of first] frame(1) show ?thesis by simp
  qed
qed

lemma on_refusal_inv:
  assumes "window_inv first worker_end w" "filled worker_end w" "unat worker_end + 1000000 \<le> 2 ^ 32"
    and "on_refusal T rand worker_end d w = (Ok u, w')"
  shows "window_inv first worker_end w' \<and> filled worker_end w' \<and> balance w' = balance w"
proof (cases "remove_match d (expected w)")
  case None
  then show ?thesis using assms by (simp add: on_refusal_def)
next
  case (Some p)
  then obtain e rest where rm: "remove_match d (expected w) = Some (e, rest)" by (cases p) auto
  note rem = removed_inv [OF assms(1) rm]
  then obtain t d' where "e = TickDataReq t d'" by (cases e) (auto simp: is_tick_data_def)
  then have "fill_pipeline T rand worker_end (count failed_one
      (w\<lparr>expected := rest, consecutive_failures := consecutive_failures w + 1\<rparr>)) = (Ok u, w')"
    using assms(4) rm by (simp add: on_refusal_def)
  from fill_pipeline_inv [OF _ assms(3) this, of first] show ?thesis
    using rem(1) balance_removed(1) [OF rem(2)] by simp
qed

lemma on_packet_inv:
  assumes "window_inv first worker_end w" "filled worker_end w" "unat worker_end + 1000000 \<le> 2 ^ 32"
    and "on_packet T X N rand worker_end epoch pkt w = (Ok u, w')"
  shows "window_inv first worker_end w' \<and> filled worker_end w' \<and> balance w' = balance w"
proof -
  obtain ty d payload where pkt: "pkt = (ty, d, payload)" by (cases pkt)
  consider "ty = 8" | "ty = 35 \<or> ty = 54" | "ty = 24" | "ty \<notin> {8, 35, 54, 24}" by auto
  then show ?thesis
  proof cases
    case 1
    then show ?thesis
      using on_tick_data_inv [OF assms(1-3), of T X N rand d payload u w'] assms(4) by (simp add: on_packet_def pkt)
  next
    case 2
    then show ?thesis
      using on_refusal_inv [OF assms(1-3), of T rand d u w'] assms(4) by (auto simp: on_packet_def pkt)
  next
    case 3
    then have "publish_counted X N 24 payload epoch (\<lambda>sh. sh\<lparr>txs_discovered := txs_discovered sh + 1\<rparr>) w = (Ok u, w')"
      using assms(4) by (simp add: on_packet_def pkt)
    from publish_counted_frame [OF this] show ?thesis using assms(1,2) by simp
  qed (use assms in \<open>simp add: on_packet_def pkt\<close>)
qed

text \<open>The states a worker's window goes through on one connection, whatever packets arrive.\<close>

inductive window_reachable :: "'s tcp \<Rightarrow> ext \<Rightarrow> 'n nats \<Rightarrow> (nat \<Rightarrow> u32) \<Rightarrow> u32 \<Rightarrow> u16 \<Rightarrow> u32 \<Rightarrow> ('s, 'n) worker
    \<Rightarrow> ('s, 'n) worker \<Rightarrow> bool"
  for T X N rand worker_end epoch current_tick w0 where
  first_fill: "fill_pipeline T rand worker_end (fresh_window current_tick w0) = (Ok u, w)
    \<Longrightarrow> window_reachable T X N rand worker_end epoch current_tick w0 w"
| packet: "window_reachable T X N rand worker_end epoch current_tick w0 w
    \<Longrightarrow> on_packet T X N rand worker_end epoch pkt (w\<lparr>wk_stream := stream\<rparr>) = (Ok u, w')
    \<Longrightarrow> window_reachable T X N rand worker_end epoch current_tick w0 w'"

lemma fresh_window_inv: "window_inv t worker_end (fresh_window t w)"
  by (simp add: window_inv_def fresh_window_def FAILURE_SKIP_INITIAL_def FAILURE_SKIP_MAX_def)

lemma balance_fresh: "balance (fresh_window t w)
    = ticks_completed (shared w) + ticks_failed (shared w)"
  by (simp add: balance_def in_flight_def fresh_window_def)

lemma balance_stream [simp]: "balance (w\<lparr>wk_stream := st\<rparr>) = balance w"
  by (simp add: balance_def in_flight_def)

lemma filled_stream [simp]: "filled worker_end (w\<lparr>wk_stream := st\<rparr>) = filled worker_end w"
  by (simp add: filled_def)

lemma window_reachable_inv:
  assumes "window_reachable T X N rand worker_end epoch current_tick w0 w" "unat worker_end + 1000000 \<le> 2 ^ 32"
  shows "window_inv current_tick worker_end w \<and> filled worker_end w
    \<and> balance w = ticks_completed (shared w0) + ticks_failed (shared w0)"
  using assms
proof (induction rule: window_reachable.induct)
  case (first_fill u w)
  then show ?case using fill_pipeline_inv [OF fresh_window_inv] by (metis balance_fresh)
next
  case (packet w pkt stream u w')
  then show ?case using on_packet_inv [of current_tick worker_end "w\<lparr>wk_stream := stream\<rparr>"] by fastforce
qed

text \<open>
  Whatever packets a node sends, the requests in flight on a connection are at most twenty, for
  different ticks of the worker's remaining range, the window is full until the range is exhausted,
  and every request made is answered, refused or still in flight.
\<close>

theorem window_invariant:
  assumes "window_reachable T X N rand worker_end epoch current_tick w0 w" "unat worker_end + 1000000 \<le> 2 ^ 32"
  shows "length (expected w) \<le> 20 \<and> distinct (map req_tick (expected w))
    \<and> (\<forall>e\<in>set (expected w). current_tick \<le> req_tick e \<and> req_tick e < worker_end)
    \<and> (length (expected w) = 20 \<or> worker_end \<le> next_tick_to_request w)
    \<and> ticks_completed (shared w) + ticks_failed (shared w) + word_of_nat (length (expected w))
      = ticks_completed (shared w0) + ticks_failed (shared w0) + word_of_nat (drawn w)"
proof -
  note inv = window_reachable_inv [OF assms]
  have "ticks_completed (shared w) + ticks_failed (shared w) + word_of_nat (length (expected w))
      = balance w + word_of_nat (drawn w)" by (simp add: balance_def in_flight_def)
  also have "\<dots> = ticks_completed (shared w0) + ticks_failed (shared w0) + word_of_nat (drawn w)"
    using inv by (simp add: algebra_simps)
  finally show ?thesis
    using inv by (auto simp: window_inv_def filled_def PIPELINE_DEPTH_def strict_sorted_iff)
qed

lemma window_loop_inv:
  assumes "window_inv first worker_end w" "filled worker_end w" "unat worker_end + 1000000 \<le> 2 ^ 32"
    and "window_loop T X N rand worker_end epoch clock w = Some (Ok u, w')"
  shows "expected w' = [] \<and> filled worker_end w' \<and> balance w' = balance w"
  using assms
proof (induction clock arbitrary: w)
  case Nil
  then show ?case by (simp add: window_loop.simps [of _ _ _ _ _ _ "[]"] split: if_splits)
next
  case (Cons elapsed clock)
  show ?case
  proof (cases "expected w = []")
    case True
    then show ?thesis using Cons.prems by (simp add: window_loop.simps [of _ _ _ _ _ _ "elapsed # clock"])
  next
    case False
    then obtain pkt stream v w1 where step: "on_packet T X N rand worker_end epoch pkt (w\<lparr>wk_stream := stream\<rparr>) = (Ok v, w1)"
      "window_loop T X N rand worker_end epoch clock w1 = Some (Ok u, w')"
      using Cons.prems(4)
      by (auto simp: window_loop.simps [of _ _ _ _ _ _ "elapsed # clock"] split: if_splits outcome.splits prod.splits)
    have "window_inv first worker_end w1 \<and> filled worker_end w1 \<and> balance w1 = balance w"
      using on_packet_inv [OF _ _ Cons.prems(3) step(1), of first] Cons.prems(1,2) by simp
    then show ?thesis using Cons.IH [OF _ _ Cons.prems(3) step(2)] by simp
  qed
qed

lemma run_window_closes:
  assumes "run_window T X N rand worker_end epoch clock current_tick w = Some (Ok next_tick, w')"
    and "unat worker_end + 1000000 \<le> 2 ^ 32"
  shows "worker_end \<le> next_tick \<and> expected w' = []
    \<and> ticks_completed (shared w') + ticks_failed (shared w')
      = ticks_completed (shared w) + ticks_failed (shared w) + word_of_nat (drawn w')"
proof -
  obtain u v w1 where w1: "fill_pipeline T rand worker_end (fresh_window current_tick w) = (Ok u, w1)"
    "window_loop T X N rand worker_end epoch clock w1 = Some (Ok v, w')" "next_tick = next_tick_to_request w'"
    using assms(1) by (auto simp: run_window_def bindR_eq_Ok split: prod.splits outcome.splits)
  note inv = fill_pipeline_inv [OF fresh_window_inv assms(2) w1(1)]
  then have loop: "expected w' = [] \<and> filled worker_end w' \<and> balance w' = balance w1"
    using window_loop_inv [OF _ _ assms(2) w1(2)] by blast
  have "ticks_completed (shared w') + ticks_failed (shared w') = balance w' + word_of_nat (drawn w')"
    using loop by (simp add: balance_def in_flight_def)
  then have "ticks_completed (shared w') + ticks_failed (shared w')
      = ticks_completed (shared w) + ticks_failed (shared w) + word_of_nat (drawn w')"
    using inv loop by (simp add: balance_fresh algebra_simps)
  then show ?thesis using loop w1(3) by (auto simp: filled_def PIPELINE_DEPTH_def)
qed

text \<open>
  when the window of a worker closes normally, its whole range has been requested or skipped,
  and every request it made on the connection was counted exactly once, as completed or as failed.
\<close>

theorem run_window_complete:
  assumes "run_window T X N rand worker_end epoch clock current_tick w = Some (Ok next_tick, w')"
    and "unat worker_end + 1000000 \<le> 2 ^ 32"
  shows "worker_end \<le> next_tick \<and> expected w' = []
    \<and> ticks_completed (shared w') + ticks_failed (shared w')
      = ticks_completed (shared w) + ticks_failed (shared w) + word_of_nat (drawn w')"
  using assms by (rule run_window_closes)

text \<open>A worker with one tick to fetch, whose node refuses it.\<close>

definition demo_worker :: "bytes \<times> bytes \<Rightarrow> (bytes \<times> bytes, (string \<times> bytes) list) worker" where
  "demo_worker stream = \<lparr>wk_stream = stream, next_tick_to_request = 0, expected = [],
     consecutive_failures = 0, skip_size = 0, drawn = 0,
     shared = \<lparr>ticks_completed = 0, txs_discovered = 0, ticks_discovered = 0, ticks_failed = 0\<rparr>,
     wk_pipeline = new_pipeline 0, wk_nats = []\<rparr>"

definition demo_filled :: "bytes \<times> bytes \<Rightarrow> (bytes \<times> bytes, (string \<times> bytes) list) worker" where
  "demo_filled stream = (fresh_window 1 (demo_worker stream))\<lparr>drawn := 1, expected := [TickDataReq 0 5]\<rparr>"

lemma demo_fill:
  obtains stream' where "fill_pipeline mem_tcp (\<lambda>_. 5) 1 (fresh_window 0 (demo_worker stream)) = (Ok (), demo_filled stream')"
    and "fst stream' = fst stream"
proof -
  obtain stream' where stream: "send_raw mem_tcp stream 16 (u32_to_le 0) 5 = Ok stream'" "fst stream' = fst stream"
    by (rule send_raw_wire [OF mem_tcp_ok])
  have send: "send_request mem_tcp (\<lambda>_. 5) (fresh_window 0 (demo_worker stream)) = (Ok (), demo_filled stream')"
    by (simp add: fresh_window_def demo_worker_def demo_filled_def send_request_def stream(1))
  have stop: "fill_pipeline mem_tcp (\<lambda>_. 5) 1 (demo_filled stream') = (Ok (), demo_filled stream')"
    by (subst fill_pipeline.simps) (simp add: demo_filled_def fresh_window_def)
  have "next_tick_to_request (fresh_window 0 (demo_worker stream)) = 0" "expected (fresh_window 0 (demo_worker stream)) = []"
    "consecutive_failures (fresh_window 0 (demo_worker stream)) = 0"
    by (simp_all add: fresh_window_def)
  then have "fill_pipeline mem_tcp (\<lambda>_. 5) 1 (fresh_window 0 (demo_worker stream)) = (Ok (), demo_filled stream')"
    by (subst fill_pipeline.simps) (simp add: send stop PIPELINE_DEPTH_def MAX_CONSECUTIVE_FAILURES_def)
  then show thesis using stream(2) that by blast
qed

lemma demo_window:
  assumes "fst stream = wire_packet (35, 5, [])"
  shows "\<exists>w'. run_window mem_tcp demo_ext (mem_nats (\<lambda>_. [])) (\<lambda>_. 5) 1 epoch [False] 0 (demo_worker stream) = Some (Ok 1, w')"
proof -
  obtain stream1 where f: "fill_pipeline mem_tcp (\<lambda>_. 5) 1 (fresh_window 0 (demo_worker stream)) = (Ok (), demo_filled stream1)"
    "fst stream1 = wire_packet (35, 5, [])" by (rule demo_fill [of stream]) (simp add: assms)
  obtain stream' where rd: "read_packet mem_tcp stream1 = Ok ((35, 5, []), stream')"
    by (rule read_packet_wire [OF mem_tcp_ok, of 35 5 "[]" stream1 "[]"]) (simp_all add: fits_def f(2))
  define w1 where "w1 = count failed_one ((demo_filled stream1)\<lparr>wk_stream := stream', expected := [], consecutive_failures := 1\<rparr>)"
  have "fill_pipeline mem_tcp (\<lambda>_. 5) 1 w1 = (Ok (), w1)"
    by (simp add: fill_pipeline.simps [of _ _ _ w1]) (simp add: w1_def demo_filled_def count_def fresh_window_def)
  then have "window_loop mem_tcp demo_ext (mem_nats (\<lambda>_. [])) (\<lambda>_. 5) 1 epoch [False] (demo_filled stream1) = Some (Ok (), w1)"
    by (simp add: window_loop.simps [of _ _ _ _ _ _ "[False]"] window_loop.simps [of _ _ _ _ _ _ "[]"] demo_filled_def
        rd on_packet_def on_refusal_def w1_def count_def fresh_window_def demo_worker_def)
  then have "run_window mem_tcp demo_ext (mem_nats (\<lambda>_. [])) (\<lambda>_. 5) 1 epoch [False] 0 (demo_worker stream) = Some (Ok 1, w1)"
    using f(1) by (simp add: run_window_def w1_def count_def demo_filled_def fresh_window_def)
  then show ?thesis by blast
qed

theorem window_invariant_witness:
  "\<exists>w. window_reachable mem_tcp demo_ext (mem_nats (\<lambda>_. [])) (\<lambda>_. 5) 1 218 0 (demo_worker ([], [])) w \<and> length (expected w) \<le> 20"
proof -
  obtain stream where f: "fill_pipeline mem_tcp (\<lambda>_. 5) 1 (fresh_window 0 (demo_worker ([], []))) = (Ok (), demo_filled stream)"
    by (rule demo_fill)
  then have "window_reachable mem_tcp demo_ext (mem_nats (\<lambda>_. [])) (\<lambda>_. 5) 1 218 0 (demo_worker ([], [])) (demo_filled stream)"
    by (rule window_reachable.first_fill)
  with window_invariant [OF this] show ?thesis by auto
qed

theorem run_window_complete_witness:
  "\<exists>w'. run_window mem_tcp demo_ext (mem_nats (\<lambda>_. [])) (\<lambda>_. 5) 1 218 [False] 0 (demo_worker (wire_packet (35, 5, []), []))
      = Some (Ok 1, w')
    \<and> ticks_completed (shared w') + ticks_failed (shared w') = word_of_nat (drawn w')"
proof -
  obtain w' where run: "run_window mem_tcp demo_ext (mem_nats (\<lambda>_. [])) (\<lambda>_. 5) 1 218 [False] 0
      (demo_worker (wire_packet (35, 5, []), [])) = Some (Ok 1, w')"
    using demo_window by fastforce
  from run_window_complete [OF run] run show ?thesis by (simp add: demo_worker_def)
qed

end
