(* ===== verification/Backfill_Run.thy ===== *)
theory Backfill_Run
  imports Backfill Connection
begin

text \<open>
  \<^verbatim>\<open>crates/ingestion/src/backfill.rs\<close>, around the window of theory \<open>Backfill\<close>: how the end of the
  range is resolved, how a worker connects and reconnects, the transaction phase, and the flags and
  counters \<^verbatim>\<open>run\<close> publishes.  Here a worker is one call that runs to its end; theory \<open>Backfill_Tasks\<close>
  has the workers as concurrent tasks that share what they update.  Loops that reconnect without
  bound take one element of a list per round, and \<open>None\<close> is a loop still running when it ends.
\<close>

definition MAX_PEERS_PER_WORKER :: nat where "MAX_PEERS_PER_WORKER = 8"

definition default_backfill_config :: backfill_config where
  "default_backfill_config = \<lparr>node_addr = None, bootstrap_addrs_cfg = [], workers = 4, cfg_start_tick = 0, cfg_end_tick = 0\<rparr>"

definition new_shared :: backfill_shared where
  "new_shared = \<lparr>ticks_completed = 0, txs_discovered = 0, ticks_discovered = 0, ticks_failed = 0\<rparr>"

section \<open>The end of the range\<close>

definition try_resolve_from_peer :: "'s tcp \<Rightarrow> 's attempt \<Rightarrow> u32 outcome option" where
  "try_resolve_from_peer T A =
     (case open_connection T A of
        None \<Rightarrow> None
      | Some (Err e) \<Rightarrow> Some (Err e)
      | Some (Panic p) \<Rightarrow> Some (Panic p)
      | Some (Ok (remote_peers, stream)) \<Rightarrow>
          map_option (\<lambda>r. bindR r (\<lambda>(data, stream).
              if 8 \<le> length data then rd_u32 data 4 else Err (Other ''CurrentTickInfo response too short'')))
            (request_current_tick_info T (at_info_rand A) (at_info_clock A) stream))"

fun resolve_attempts :: "'s tcp \<Rightarrow> (nat \<Rightarrow> 's attempt) \<Rightarrow> nat \<Rightarrow> peers \<Rightarrow> (u32 outcome \<times> peers) option" where
  "resolve_attempts T atts 0 ps = Some (Err (Other ''Failed to resolve end tick''), ps)"
| "resolve_attempts T atts (Suc left) ps =
     (let A = atts left
      in case best_peer (at_now A) (at_pick A) ps of
           None \<Rightarrow> Some (Err (Other ''No peers available to resolve end tick''), ps)
         | Some a \<Rightarrow>
             (case try_resolve_from_peer T A of
                None \<Rightarrow> None
              | Some (Err e) \<Rightarrow> resolve_attempts T atts left (mark_failure (at_now A) a ps)
              | Some r \<Rightarrow> Some (r, ps)))"

definition resolve_end_tick :: "'s tcp \<Rightarrow> (nat \<Rightarrow> 's attempt) \<Rightarrow> peers \<Rightarrow> (u32 outcome \<times> peers) option" where
  "resolve_end_tick T atts = resolve_attempts T atts MAX_PEERS_PER_WORKER"

section \<open>A worker\<close>

text \<open>An attempt of a worker, with the correlation ids it draws and the timeouts of its window.\<close>

record 's worker_attempt = "'s attempt" +
  wa_rand :: "nat \<Rightarrow> u32"
  wa_clock :: "bool list"

text \<open>The epoch of the node, or the one the pipeline knows when the node does not answer.\<close>

definition connection_epoch :: "'s tcp \<Rightarrow> ('s, 'z) attempt_scheme \<Rightarrow> pipeline_state \<Rightarrow> 's \<Rightarrow> (u16 \<times> 's) outcome option" where
  "connection_epoch T A p stream =
     map_option (\<lambda>answer. case answer of
          Ok (data, stream') \<Rightarrow>
            if 4 \<le> length data then bindR (rd_u16 data 2) (\<lambda>epoch. Ok (epoch, stream'))
            else Ok (node_epoch p, stream')
        | Err e \<Rightarrow> Ok (node_epoch p, at_info_lost A)
        | Panic x \<Rightarrow> Panic x)
       (request_current_tick_info T (at_info_rand A) (at_info_clock A) stream)"

definition try_peer :: "'s tcp \<Rightarrow> ext \<Rightarrow> 'n nats \<Rightarrow> 's worker_attempt \<Rightarrow> u32 \<Rightarrow> socket_addr \<Rightarrow> u32 \<Rightarrow> peers \<times> ('s, 'n) worker
    \<Rightarrow> (u32 outcome \<times> peers \<times> ('s, 'n) worker) option" where
  "try_peer T X N A worker_end a current_tick = (\<lambda>(ps, w).
     case open_connection T A of
       None \<Rightarrow> None
     | Some (Err e) \<Rightarrow> Some (Err e, ps, w)
     | Some (Panic p) \<Rightarrow> Some (Panic p, ps, w)
     | Some (Ok (remote_peers, stream)) \<Rightarrow>
         let ps = mark_success (at_now A) a (add_peers_from_exchange (map quad remote_peers) ps)
         in case connection_epoch T A (wk_pipeline w) stream of
              None \<Rightarrow> None
            | Some (Err e) \<Rightarrow> Some (Err e, ps, w)
            | Some (Panic p) \<Rightarrow> Some (Panic p, ps, w)
            | Some (Ok (epoch, stream)) \<Rightarrow>
                map_option (\<lambda>(r, w). (r, ps, w))
                  (run_window T X N (wa_rand A) worker_end epoch (wa_clock A) current_tick (w\<lparr>wk_stream := stream\<rparr>)))"

fun process_attempts :: "'s tcp \<Rightarrow> ext \<Rightarrow> 'n nats \<Rightarrow> (nat \<Rightarrow> 's worker_attempt) \<Rightarrow> u32 \<Rightarrow> nat \<Rightarrow> u32 \<Rightarrow> peers \<times> ('s, 'n) worker
    \<Rightarrow> (u32 outcome \<times> peers \<times> ('s, 'n) worker) option" where
  "process_attempts T X N atts worker_end 0 current_tick st = Some (Err (Other ''Exhausted all peers''), st)"
| "process_attempts T X N atts worker_end (Suc left) current_tick (ps, w) =
     (let A = atts left
      in case best_peer (at_now A) (at_pick A) ps of
           None \<Rightarrow> Some (Err (Other ''No peers available''), ps, w)
         | Some a \<Rightarrow>
             (case try_peer T X N A worker_end a current_tick (ps, w) of
                None \<Rightarrow> None
              | Some (Err e, ps, w) \<Rightarrow>
                  process_attempts T X N atts worker_end left current_tick (mark_failure (at_now A) a ps, w)
              | Some r \<Rightarrow> Some r))"

definition connect_and_process :: "'s tcp \<Rightarrow> ext \<Rightarrow> 'n nats \<Rightarrow> (nat \<Rightarrow> 's worker_attempt) \<Rightarrow> u32 \<Rightarrow> u32 \<Rightarrow> peers \<times> ('s, 'n) worker
    \<Rightarrow> (u32 outcome \<times> peers \<times> ('s, 'n) worker) option" where
  "connect_and_process T X N atts worker_end = process_attempts T X N atts worker_end MAX_PEERS_PER_WORKER"

text \<open>\<^verbatim>\<open>BackfillWorker::run\<close>: reconnect until the range is done; the tick moves only with a finished window.\<close>

fun worker_run :: "'s tcp \<Rightarrow> ext \<Rightarrow> 'n nats \<Rightarrow> (nat \<Rightarrow> 's worker_attempt) list \<Rightarrow> u32 \<Rightarrow> u32 \<Rightarrow> peers \<times> ('s, 'n) worker
    \<Rightarrow> (u32 outcome \<times> peers \<times> ('s, 'n) worker) option" where
  "worker_run T X N rounds worker_end current_tick st =
     (if \<not> current_tick < worker_end then Some (Ok current_tick, st)
      else case rounds of
        [] \<Rightarrow> None
      | atts # rounds \<Rightarrow>
          (case connect_and_process T X N atts worker_end current_tick st of
             None \<Rightarrow> None
           | Some (Err e, st) \<Rightarrow> worker_run T X N rounds worker_end current_tick st
           | Some r \<Rightarrow> Some r))"

declare worker_run.simps [simp del]

section \<open>Transactions\<close>

text \<open>
  The replies to one request: \<open>None\<close> in the clock is a packet read in time, \<open>Some lost\<close> a timeout
  that drops the read.  A publish error is only logged, a payload that does not decode ends the
  connection.
\<close>

type_synonym ('s, 'n) tx_state = "('n \<times> backfill_shared) \<times> 's"

fun tx_replies :: "'s tcp \<Rightarrow> ext \<Rightarrow> 'n nats \<Rightarrow> u16 \<Rightarrow> nat option list \<Rightarrow> ('s, 'n) tx_state
    \<Rightarrow> (unit outcome \<times> ('s, 'n) tx_state) option" where
  "tx_replies T X N epoch [] st = None"
| "tx_replies T X N epoch (Some lost # clock) (p, stream) = Some (Ok (), p, drop_read T lost stream)"
| "tx_replies T X N epoch (None # clock) ((n, sh), stream) =
     (case read_packet T stream of
        Err e \<Rightarrow> Some (Err e, (n, sh), stream)
      | Panic p \<Rightarrow> Some (Panic p, (n, sh), stream)
      | Ok ((ty, d, payload), stream) \<Rightarrow>
          if ty = 24
          then (case decode_transaction X payload of
                  Err e \<Rightarrow> Some (Err e, (n, sh), stream)
                | Panic p \<Rightarrow> Some (Panic p, (n, sh), stream)
                | Ok tx \<Rightarrow>
                    (case publish_tx N True epoch tx n of
                       (Ok u, n) \<Rightarrow>
                         tx_replies T X N epoch clock ((n, sh\<lparr>txs_discovered := txs_discovered sh + 1\<rparr>), stream)
                     | (Err e, n) \<Rightarrow> tx_replies T X N epoch clock ((n, sh), stream)
                     | (Panic p, n) \<Rightarrow> Some (Panic p, (n, sh), stream)))
          else if ty = 35 \<or> ty = 54 then Some (Ok (), (n, sh), stream)
          else tx_replies T X N epoch clock ((n, sh), stream))"

fun tx_ticks :: "'s tcp \<Rightarrow> ext \<Rightarrow> 'n nats \<Rightarrow> u16 \<Rightarrow> (u32 \<Rightarrow> u32) \<Rightarrow> (u32 \<Rightarrow> nat option list) \<Rightarrow> u32 list \<Rightarrow> u32 \<Rightarrow> ('s, 'n) tx_state
    \<Rightarrow> (u32 outcome \<times> ('s, 'n) tx_state) option" where
  "tx_ticks T X N epoch rand clock [] last_tick st = Some (Ok last_tick, st)"
| "tx_ticks T X N epoch rand clock (tick # ticks) last_tick (p, stream) =
     (case send_raw T stream 29 (u32_to_le tick) (max (rand tick) 1) of
        Err e \<Rightarrow> Some (Err e, p, stream)
      | Panic x \<Rightarrow> Some (Panic x, p, stream)
      | Ok stream \<Rightarrow>
          (case tx_replies T X N epoch (clock tick) (p, stream) of
             None \<Rightarrow> None
           | Some (Ok u, st) \<Rightarrow> tx_ticks T X N epoch rand clock ticks (tick + 1) st
           | Some (Err e, st) \<Rightarrow> Some (Err e, st)
           | Some (Panic x, st) \<Rightarrow> Some (Panic x, st)))"

record 's tx_attempt = "'s attempt" +
  ta_rand :: "u32 \<Rightarrow> u32"
  ta_clock :: "u32 \<Rightarrow> nat option list"

definition tick_list :: "u32 \<Rightarrow> u32 \<Rightarrow> u32 list" where
  "tick_list a b = map word_of_nat [unat a..<unat b]"

definition fetch_txs_for_range :: "'s tcp \<Rightarrow> ext \<Rightarrow> 'n nats \<Rightarrow> 's tx_attempt \<Rightarrow> pipeline_state \<Rightarrow> u32 \<Rightarrow> u32 \<Rightarrow> 'n \<times> backfill_shared
    \<Rightarrow> (u32 outcome \<times> 'n \<times> backfill_shared) option" where
  "fetch_txs_for_range T X N A p range_start range_end st =
     (case open_connection T A of
        None \<Rightarrow> None
      | Some (Err e) \<Rightarrow> Some (Err e, st)
      | Some (Panic x) \<Rightarrow> Some (Panic x, st)
      | Some (Ok (remote_peers, stream)) \<Rightarrow>
          (case connection_epoch T A p stream of
             None \<Rightarrow> None
           | Some (Err e) \<Rightarrow> Some (Err e, st)
           | Some (Panic x) \<Rightarrow> Some (Panic x, st)
           | Some (Ok (epoch, stream)) \<Rightarrow>
               map_option (\<lambda>(r, st, stream). (r, st))
                 (tx_ticks T X N epoch (ta_rand A) (ta_clock A) (tick_list range_start range_end) range_start (st, stream))))"

text \<open>A transaction worker: a thousand ticks per connection, until the range is done or no peer is left.\<close>

fun tx_worker :: "'s tcp \<Rightarrow> ext \<Rightarrow> 'n nats \<Rightarrow> 's tx_attempt list \<Rightarrow> pipeline_state \<Rightarrow> u32 \<Rightarrow> u32 \<Rightarrow> peers \<times> 'n \<times> backfill_shared
    \<Rightarrow> (u32 outcome \<times> peers \<times> 'n \<times> backfill_shared) option" where
  "tx_worker T X N rounds p tx_end current (ps, st) =
     (if \<not> current < tx_end then Some (Ok current, ps, st)
      else case rounds of
        [] \<Rightarrow> None
      | A # rounds \<Rightarrow>
          (case best_peer (at_now A) (at_pick A) ps of
             None \<Rightarrow> Some (Ok current, ps, st)
           | Some a \<Rightarrow>
               (case fetch_txs_for_range T X N A p current (min tx_end (current + 1000)) st of
                  None \<Rightarrow> None
                | Some (Ok reached, st) \<Rightarrow> tx_worker T X N rounds p tx_end reached (ps, st)
                | Some (Err e, st) \<Rightarrow> tx_worker T X N rounds p tx_end current (mark_failure (at_now A) a ps, st)
                | Some (Panic x, st) \<Rightarrow> Some (Panic x, ps, st))))"

declare tx_worker.simps [simp del]

text \<open>The ranges of the transaction workers: the chunk comes from the number of ticks found.\<close>

definition tx_range :: "nat \<Rightarrow> u64 \<Rightarrow> u32 \<Rightarrow> u32 \<Rightarrow> nat \<Rightarrow> u32 \<times> u32" where
  "tx_range n ticks_done start_tick end_tick tx_worker_id =
     (let size = word_of_nat (max (unat ticks_done div n) 1)
      in (start_tick + word_of_nat tx_worker_id * size,
          if tx_worker_id = n - 1 then end_tick
          else min (start_tick + (word_of_nat tx_worker_id + 1) * size) end_tick))"

definition tx_ranges :: "nat \<Rightarrow> u64 \<Rightarrow> u32 \<Rightarrow> u32 \<Rightarrow> (u32 \<times> u32) list" where
  "tx_ranges config_workers ticks_done start_tick end_tick =
     (if ticks_done = 0 then []
      else let n = max config_workers 1
           in filter (\<lambda>(a, b). \<not> b \<le> a) (map (tx_range n ticks_done start_tick end_tick) [0..<n]))"

section \<open>The whole run\<close>

record backfill_client =
  bc_running :: bool
  bc_start :: u32
  bc_end :: u32
  bc_shared :: backfill_shared
  bc_pipeline :: pipeline_state

definition new_backfill :: "pipeline_state \<Rightarrow> backfill_client" where
  "new_backfill p = \<lparr>bc_running = False, bc_start = 0, bc_end = 0, bc_shared = new_shared, bc_pipeline = p\<rparr>"

definition run_begin :: "backfill_client \<Rightarrow> backfill_client" where
  "run_begin b = b\<lparr>bc_running := True, bc_pipeline := (bc_pipeline b)\<lparr>backfill_running := True\<rparr>\<rparr>"

text \<open>Up to the spawning of the workers: their ranges, or the early return.\<close>

definition run_prepare :: "backfill_config \<Rightarrow> epoch_range list \<Rightarrow> u32 outcome \<Rightarrow> backfill_client
    \<Rightarrow> (u32 \<times> u32) list outcome \<times> backfill_client" where
  "run_prepare cfg ranges resolved b =
     (let b = run_begin b
      in case (if cfg_end_tick cfg = 0 then resolved else Ok (cfg_end_tick cfg)) of
           Err e \<Rightarrow> (Err e, b)
         | Panic p \<Rightarrow> (Panic p, b)
         | Ok end_tick \<Rightarrow>
             let start_tick = resolve_start_tick ranges (cfg_start_tick cfg) end_tick
             in if end_tick \<le> start_tick then (Ok [], b\<lparr>bc_running := False\<rparr>)
                else (Ok (partition_ticks (workers cfg) start_tick end_tick),
                      b\<lparr>bc_start := start_tick, bc_end := end_tick,
                        bc_pipeline := (bc_pipeline b)\<lparr>backfill_start_tick := start_tick,
                          backfill_end_tick := end_tick\<rparr>\<rparr>))"

text \<open>The counters the progress reporter and the end of the run copy to the pipeline.\<close>

definition store_progress :: "backfill_client \<Rightarrow> backfill_client" where
  "store_progress b = b\<lparr>bc_pipeline := (bc_pipeline b)\<lparr>
     backfill_ticks_completed := ticks_completed (bc_shared b),
     backfill_txs_discovered := txs_discovered (bc_shared b),
     backfill_ticks_discovered := ticks_discovered (bc_shared b),
     backfill_ticks_failed := ticks_failed (bc_shared b)\<rparr>\<rparr>"

definition run_finish :: "backfill_client \<Rightarrow> backfill_client" where
  "run_finish b = store_progress (b\<lparr>bc_running := False,
     bc_pipeline := (bc_pipeline b)\<lparr>backfill_running := False\<rparr>\<rparr>)"

section \<open>Workers finish their range\<close>

text \<open>
  What holds of the tick a call returns, whichever attempt it came from: a predicate that every
  window establishes is established by the attempts and by the worker.
\<close>

lemma try_peer_closes:
  assumes "try_peer T X N A worker_end a current_tick st = Some (Ok t, st')" "unat worker_end + 1000000 \<le> 2 ^ 32"
  shows "worker_end \<le> t"
  using assms(1) run_window_closes [OF _ assms(2)]
  by (fastforce simp: try_peer_def Let_def split: prod.splits option.splits outcome.splits)

lemma process_attempts_closes:
  assumes "process_attempts T X N atts worker_end n current_tick st = Some (Ok t, st')" "unat worker_end + 1000000 \<le> 2 ^ 32"
  shows "worker_end \<le> t"
  using assms(1)
proof (induction n arbitrary: st)
  case (Suc n)
  then show ?case
    using try_peer_closes [OF _ assms(2)]
    by (cases st) (fastforce simp: Let_def split: prod.splits option.splits outcome.splits)
qed simp

text \<open>
  A worker that ends has worked through its whole range, however many connections failed on
  the way.
\<close>

theorem worker_run_complete:
  assumes "worker_run T X N rounds worker_end current_tick st = Some (Ok t, st')"
    and "unat worker_end + 1000000 \<le> 2 ^ 32"
  shows "worker_end \<le> t"
  using assms(1)
proof (induction rounds arbitrary: st)
  case Nil
  then show ?case by (simp add: worker_run.simps [of _ _ _ "[]"] split: if_splits)
next
  case (Cons atts rounds)
  note step = worker_run.simps [of T X N "atts # rounds" worker_end current_tick st]
  show ?case
  proof (cases "current_tick < worker_end")
    case True
    with Cons.prems obtain r st1 where r: "connect_and_process T X N atts worker_end current_tick st = Some (r, st1)"
      by (cases "connect_and_process T X N atts worker_end current_tick st") (auto simp: step)
    then have "worker_end \<le> t1" if "r = Ok t1" for t1
      using process_attempts_closes [OF _ assms(2), of T X N atts MAX_PEERS_PER_WORKER] that
      by (simp add: connect_and_process_def)
    then show ?thesis using Cons.IH Cons.prems r True by (cases r) (auto simp: step)
  qed (use Cons.prems in \<open>simp add: step\<close>)
qed

definition demo_handshake :: bytes where
  "demo_handshake = wire_packet (0, 1, replicate 16 0) @ wire_packet (28, 1, replicate 16 0)"

definition demo_worker_attempt :: "(bytes \<times> bytes) worker_attempt" where
  "demo_worker_attempt = \<lparr>at_now = 1, at_pick = 0, at_connect = Ok (demo_handshake @ wire_packet (35, 5, []), []),
     at_exchange_rand = 0, at_exchange_clock = [False], at_exchange_lost = ([], []), at_info_rand = 0,
     at_info_clock = [False], at_info_lost = ([], []), wa_rand = (\<lambda>_. 5), wa_clock = [False]\<rparr>"

lemma demo_connection:
  assumes "at_connect A = Ok (demo_handshake @ tail, [])" "at_exchange_clock A = [False]" "at_info_clock A = [False]"
  obtains s1 epoch s2 where "open_connection mem_tcp A = Some (Ok (map (chunk 4 (replicate 16 0)) [0..<4], s1))"
    "connection_epoch mem_tcp A p s1 = Some (Ok (epoch, s2))" "fst s2 = tail"
proof -
  obtain s1 where s1: "open_connection mem_tcp A = Some (Ok (map (chunk 4 (replicate 16 0)) [0..<4], s1))"
    "fst s1 = wire_packet (28, 1, replicate 16 0) @ tail"
    using exchange_answered [OF mem_tcp_ok assms(1,2), of "replicate 16 0" 1] by (auto simp: demo_handshake_def)
  obtain s2 where "request_current_tick_info mem_tcp (at_info_rand A) (at_info_clock A) s1 = Some (Ok (replicate 16 0, s2))"
    "fst s2 = tail"
    using tick_info_answered [OF mem_tcp_ok assms(3) _ s1(2)] by (fastforce simp: fits_def)
  with that [OF s1(1)] show thesis by (simp add: connection_epoch_def read_simps)
qed

lemma demo_worker_run:
  "\<exists>st. worker_run mem_tcp demo_ext (mem_nats (\<lambda>_. [])) [\<lambda>_. demo_worker_attempt] 1 0
      ([new_peer (V4 1 2 3 4, 21841)], demo_worker ([], [])) = Some (Ok 1, st)"
proof -
  let ?N = "mem_nats (\<lambda>_. [])"
  have at: "at_connect demo_worker_attempt = Ok (demo_handshake @ wire_packet (35, 5, []), [])"
    "at_exchange_clock demo_worker_attempt = [False]" "at_info_clock demo_worker_attempt = [False]"
    by (simp_all add: demo_worker_attempt_def)
  obtain s1 epoch s2 where c: "open_connection mem_tcp demo_worker_attempt = Some (Ok (map (chunk 4 (replicate 16 0)) [0..<4], s1))"
    "connection_epoch mem_tcp demo_worker_attempt (new_pipeline 0) s1 = Some (Ok (epoch, s2))" "fst s2 = wire_packet (35, 5, [])"
    by (rule demo_connection [OF at])
  obtain w' where w': "run_window mem_tcp demo_ext ?N (\<lambda>_. 5) 1 epoch [False] 0 (demo_worker s2) = Some (Ok 1, w')"
    using demo_window [OF c(3)] by blast
  have w: "wa_rand demo_worker_attempt = (\<lambda>_. 5)" "wa_clock demo_worker_attempt = [False]"
    "wk_pipeline (demo_worker s) = new_pipeline 0" "(demo_worker s)\<lparr>wk_stream := s2\<rparr> = demo_worker s2" for s
    by (simp_all add: demo_worker_attempt_def demo_worker_def)
  have peer: "best_peer now pick [new_peer a] = Some a" for now pick a
    by (simp add: best_peer_def pick_top_def Let_def)
  show ?thesis
    using c w' by (simp add: worker_run.simps connect_and_process_def MAX_PEERS_PER_WORKER_def numeral_eq_Suc
        try_peer_def Let_def w peer)
qed

theorem worker_run_complete_witness:
  "\<exists>t st. worker_run mem_tcp demo_ext (mem_nats (\<lambda>_. [])) [\<lambda>_. demo_worker_attempt] 1 0
      ([new_peer (V4 1 2 3 4, 21841)], demo_worker ([], [])) = Some (Ok t, st) \<and> 1 \<le> t"
  using demo_worker_run worker_run_complete [of mem_tcp demo_ext "mem_nats (\<lambda>_. [])"] by fastforce

section \<open>The transaction phase\<close>

text \<open>The transactions among the replies to a request.\<close>

definition transactions_of :: "ext \<Rightarrow> packet list \<Rightarrow> transaction list" where
  "transactions_of X = List.map_filter (\<lambda>(ty, d, payload).
     if ty = 24 then (case decode_transaction X payload of Ok tx \<Rightarrow> Some tx | _ \<Rightarrow> None) else None)"

definition answers :: "ext \<Rightarrow> packet list \<Rightarrow> bool" where
  "answers X = list_all (\<lambda>(ty, d, payload). fits (ty, d, payload) \<and> ty \<noteq> 35 \<and> ty \<noteq> 54
     \<and> (ty = 24 \<longrightarrow> is_ok (decode_transaction X payload)))"

definition count_txs :: "u64 \<Rightarrow> backfill_shared \<Rightarrow> backfill_shared" where
  "count_txs k sh = sh\<lparr>txs_discovered := txs_discovered sh + k\<rparr>"

lemma count_txs_simps [simp]: "count_txs 0 sh = sh" "count_txs j (count_txs k sh) = count_txs (k + j) sh"
  by (simp_all add: count_txs_def)

lemma publish_tx_healthy:
  assumes "nats_healthy N stored J"
  obtains n' where "publish_tx N True epoch tx n = (Ok (), n')"
    "stored n' = stored n @ [(subject epoch ''TX'', J (TxEvent tx))]"
  unfolding publish_tx_def by (rule publish_event_healthy [OF assms])

lemma tx_replies_complete:
  assumes T: "tcp_ok T input output" and N: "nats_healthy N stored J" and "answers X pkts"
    and "input s = concat (map wire_packet pkts) @ wire_packet (35, d, []) @ rest"
  shows "\<exists>n' s'. tx_replies T X N epoch (replicate (Suc (length pkts)) None) ((n, sh), s)
      = Some (Ok (), (n', count_txs (word_of_nat (length (transactions_of X pkts))) sh), s')
    \<and> stored n' = stored n @ map (\<lambda>tx. (subject epoch ''TX'', J (TxEvent tx))) (transactions_of X pkts)
    \<and> input s' = rest"
  using assms(3,4)
proof (induction pkts arbitrary: n sh s)
  case Nil
  from Nil have "input s = wire_packet (35, d, []) @ rest" by simp
  from read_packet_wire [OF T _ this] obtain s' where "read_packet T s = Ok ((35, d, []), s')" "input s' = rest"
    by (auto simp: fits_def)
  then show ?case by (simp add: transactions_of_def map_filter_simps)
next
  case (Cons pkt pkts)
  obtain ty dj payload where p: "pkt = (ty, dj, payload)" by (cases pkt)
  from Cons.prems have f: "fits (ty, dj, payload)" and ty: "ty \<noteq> 35" "ty \<noteq> 54"
    and dec: "ty = 24 \<longrightarrow> is_ok (decode_transaction X payload)" and rest: "answers X pkts"
    by (simp_all add: answers_def p)
  have "input s = wire_packet (ty, dj, payload) @ (concat (map wire_packet pkts) @ wire_packet (35, d, []) @ rest)"
    using Cons.prems by (simp add: p)
  from read_packet_wire [OF T f this] obtain s1 where s1: "read_packet T s = Ok ((ty, dj, payload), s1)"
    "input s1 = concat (map wire_packet pkts) @ wire_packet (35, d, []) @ rest" by metis
  show ?case
  proof (cases "ty = 24")
    case False
    then have "transactions_of X (pkt # pkts) = transactions_of X pkts"
      by (simp add: transactions_of_def map_filter_simps p)
    then show ?thesis using Cons.IH [OF rest s1(2), of n sh] s1(1) ty False by simp
  next
    case True
    then obtain tx where tx: "decode_transaction X payload = Ok tx" using dec by (auto elim: is_okE)
    obtain n1 where n1: "publish_tx N True epoch tx n = (Ok (), n1)"
      "stored n1 = stored n @ [(subject epoch ''TX'', J (TxEvent tx))]"
      by (rule publish_tx_healthy [OF N])
    have t: "transactions_of X (pkt # pkts) = tx # transactions_of X pkts"
      by (simp add: transactions_of_def map_filter_simps p True tx)
    have "sh\<lparr>txs_discovered := txs_discovered sh + 1\<rparr> = count_txs 1 sh" by (simp add: count_txs_def)
    then show ?thesis using Cons.IH [OF rest s1(2), of n1 "count_txs 1 sh"] s1(1) True tx n1 by (simp add: t)
  qed
qed

lemma tx_ticks_complete:
  assumes T: "tcp_ok T input output" and N: "nats_healthy N stored J"
    and "\<And>t. t \<in> set ticks \<Longrightarrow> answers X (replies t)" "\<And>t. clock t = replicate (Suc (length (replies t))) None"
    and "input s = concat (map (\<lambda>t. concat (map wire_packet (replies t)) @ wire_packet (35, d t, [])) ticks) @ rest"
  defines "txs \<equiv> concat (map (\<lambda>t. transactions_of X (replies t)) ticks)"
  shows "\<exists>n' s'. tx_ticks T X N epoch rand clock ticks start ((n, sh), s)
      = Some (Ok (if ticks = [] then start else List.last ticks + 1), (n', count_txs (word_of_nat (length txs)) sh), s')
    \<and> stored n' = stored n @ map (\<lambda>tx. (subject epoch ''TX'', J (TxEvent tx))) txs
    \<and> input s' = rest"
  using assms(3,5) unfolding txs_def
proof (induction ticks arbitrary: n sh s start)
  case (Cons t ticks)
  let ?rest = "concat (map (\<lambda>t. concat (map wire_packet (replies t)) @ wire_packet (35, d t, [])) ticks) @ rest"
  obtain s1 where s1: "send_raw T s 29 (u32_to_le t) (max (rand t) 1) = Ok s1" "input s1 = input s"
    by (rule send_raw_wire [OF T])
  have "answers X (replies t) \<and> input s1 = concat (map wire_packet (replies t)) @ wire_packet (35, d t, []) @ ?rest"
    using Cons.prems s1(2) by simp
  note replied = tx_replies_complete [OF T N this [THEN conjunct1] this [THEN conjunct2], of epoch n sh, folded assms(4)]
  obtain n1 s2 where n1: "tx_replies T X N epoch (clock t) ((n, sh), s1)
      = Some (Ok (), (n1, count_txs (word_of_nat (length (transactions_of X (replies t)))) sh), s2)"
    "stored n1 = stored n @ map (\<lambda>tx. (subject epoch ''TX'', J (TxEvent tx))) (transactions_of X (replies t))"
    "input s2 = ?rest"
    using replied by blast
  have "\<And>t. t \<in> set ticks \<Longrightarrow> answers X (replies t)" using Cons.prems(1) by simp
  from Cons.IH [OF this n1(3), of "t + 1" n1 "count_txs (word_of_nat (length (transactions_of X (replies t)))) sh"]
  show ?case using s1(1) n1(1,2) by auto
qed simp

text \<open>
  C23: the transactions of a range.  When the node answers the handshake and each request with any
  packets and an end marker, and the transactions among them are well-formed, the fetch reaches the
  end of the range, publishes exactly those transactions, each once and in order, and counts them.
\<close>

theorem fetch_txs_publishes:
  assumes T: "tcp_ok T input output" and N: "nats_healthy N stored J"
    and "range_start < range_end" "ticks = tick_list range_start range_end"
    and A: "at_connect A = Ok s" "at_exchange_clock A = [False]" "at_info_clock A = [False]"
    and "length peers = 16" "length info = 16"
    and "\<And>t. t \<in> set ticks \<Longrightarrow> answers X (replies t)" "\<And>t. ta_clock A t = replicate (Suc (length (replies t))) None"
    and inp: "input s = wire_packet (0, dx, peers) @ wire_packet (28, di, info)
      @ concat (map (\<lambda>t. concat (map wire_packet (replies t)) @ wire_packet (35, d t, [])) ticks) @ rest"
  defines "txs \<equiv> concat (map (\<lambda>t. transactions_of X (replies t)) ticks)"
  shows "\<exists>n'. fetch_txs_for_range T X N A p range_start range_end (n, sh)
      = Some (Ok range_end, n', sh\<lparr>txs_discovered := txs_discovered sh + word_of_nat (length txs)\<rparr>)
    \<and> stored n' = stored n
        @ map (\<lambda>tx. (subject (u16_from_le (take 2 (drop 2 info))) ''TX'', J (TxEvent tx))) txs"
proof -
  let ?replies = "concat (map (\<lambda>t. concat (map wire_packet (replies t)) @ wire_packet (35, d t, [])) ticks) @ rest"
  obtain s1 where s1: "open_connection T A = Some (Ok (map (chunk 4 peers) [0..<4], s1))"
    "input s1 = wire_packet (28, di, info) @ ?replies"
    using exchange_answered [OF T A(1,2) assms(8) inp] by auto
  have "fits (28, di, info)" using assms(9) by (simp add: fits_def)
  from tick_info_answered [OF T A(3) this s1(2), of "at_info_rand A"] obtain s2 where s2:
    "request_current_tick_info T (at_info_rand A) (at_info_clock A) s1 = Some (Ok (info, s2))" "input s2 = ?replies"
    by (auto simp: A(3))
  have ep: "connection_epoch T A p s1 = Some (Ok (u16_from_le (take 2 (drop 2 info)), s2))"
    using assms(9) by (simp add: connection_epoch_def s2(1) read_simps)
  have le: "unat range_start < unat range_end" using assms(3) by (simp add: word_less_nat_alt)
  then have ticks: "ticks \<noteq> []" "List.last ticks = word_of_nat (unat range_end - 1)"
    unfolding assms(4) tick_list_def by (simp, subst last_map) simp_all
  have "word_of_nat (unat range_end - 1) + 1 = (word_of_nat (Suc (unat range_end - 1)) :: u32)" by simp
  also have "\<dots> = range_end" using le by simp
  finally have "List.last ticks + 1 = range_end" unfolding ticks(2) .
  then show ?thesis
    using tx_ticks_complete [OF T N assms(10,11) s2(2), of "u16_from_le (take 2 (drop 2 info))" "ta_rand A" range_start n sh]
      ticks(1) by (auto simp: fetch_txs_for_range_def s1(1) ep txs_def assms(4) [symmetric] count_txs_def)
qed

definition demo_tx_attempt :: "bytes \<Rightarrow> (bytes \<times> bytes) tx_attempt" where
  "demo_tx_attempt tail = \<lparr>at_now = 1, at_pick = 0, at_connect = Ok (demo_handshake @ tail, []),
     at_exchange_rand = 0, at_exchange_clock = [False], at_exchange_lost = ([], []), at_info_rand = 0,
     at_info_clock = [False], at_info_lost = ([], []), ta_rand = (\<lambda>_. 5), ta_clock = (\<lambda>_. [None, None])\<rparr>"

theorem fetch_txs_publishes_witness:
  "\<exists>n'. fetch_txs_for_range mem_tcp demo_ext (mem_nats (\<lambda>_. [1])) (demo_tx_attempt
        (wire_packet (24, 3, replicate 144 0) @ wire_packet (35, 0, []))) (new_pipeline 0) 7 8 ([], new_shared)
      = Some (Ok 8, n', new_shared\<lparr>txs_discovered := 1\<rparr>) \<and> n' = [(subject 0 ''TX'', [1])]"
proof -
  let ?tail = "wire_packet (24, 3, replicate 144 0) @ wire_packet (35, 0, [])"
  let ?replies = "\<lambda>t. [(24, 3, replicate 144 0) :: packet]"
  have zero: "u16_from_le (replicate 2 0) = 0" by (simp add: u16_from_le_def numeral_2_eq_2)
  have tx: "is_ok (decode_transaction demo_ext (replicate 144 0))"
    by (simp add: decode_transaction_def read_simps TX_HEADER_SIZE_def SIGNATURE_SIZE_def zero)
  then have one: "length (transactions_of demo_ext (?replies t)) = 1" for t
    by (auto simp: transactions_of_def map_filter_simps elim: is_okE)
  have "\<exists>n'. fetch_txs_for_range mem_tcp demo_ext (mem_nats (\<lambda>_. [1])) (demo_tx_attempt ?tail) (new_pipeline 0) 7 8 ([], new_shared)
      = Some (Ok 8, n', new_shared\<lparr>txs_discovered := txs_discovered new_shared + word_of_nat (length (concat
          (map (\<lambda>t. transactions_of demo_ext (?replies t)) (tick_list 7 8))))\<rparr>)
    \<and> n' = [] @ map (\<lambda>tx. (subject (u16_from_le (take 2 (drop 2 (replicate 16 0)))) ''TX'', [1]))
        (concat (map (\<lambda>t. transactions_of demo_ext (?replies t)) (tick_list 7 8)))"
    by (rule fetch_txs_publishes [OF mem_tcp_ok mem_nats_healthy _ refl, unfolded id_apply, where peers = "replicate 16 0" and d = "\<lambda>_. 0"
          and replies = ?replies and rest = "[]" and dx = 1 and di = 1 and info = "replicate 16 0"
          and A = "demo_tx_attempt ?tail" and X = demo_ext and p = "new_pipeline 0" and n = "[]" and sh = new_shared
          and range_start = 7 and range_end = 8 and s = "(demo_handshake @ ?tail, [])"])
      (simp_all add: demo_tx_attempt_def demo_handshake_def answers_def fits_def tx tick_list_def)
  then show ?thesis
    using one by (auto simp: tick_list_def new_shared_def zero length_Suc_conv)
qed

text \<open>
  the transaction workers cover the tick range exactly once and in order too, whatever number
  of ticks their chunk size was computed from.
\<close>

theorem tx_ranges_cover:
  assumes "start_tick < end_tick" "ticks_done \<noteq> 0" "unat start_tick + max (unat ticks_done) (max n 1) \<le> 2 ^ 32"
  shows "concat (map (\<lambda>(a, b). [unat a..<unat b]) (tx_ranges n ticks_done start_tick end_tick))
    = [unat start_tick..<unat end_tick]"
proof -
  define m where "m = max n 1"
  define c where "c = max (unat ticks_done div m) 1"
  have m: "0 < m" by (simp add: m_def)
  have bound: "unat start_tick + j * c < 2 ^ 32" if "j < m" for j
  proof (cases "unat ticks_done div m = 0")
    case True
    then show ?thesis using assms(3) that by (simp add: c_def m_def)
  next
    case False
    then have "j * c < m * (unat ticks_done div m)" using that by (simp add: c_def)
    then have "j * c < unat ticks_done" by (metis less_le_trans times_div_less_eq_dividend)
    then show ?thesis using assms(3) by linarith
  qed
  have "tx_range m ticks_done start_tick end_tick k = (start_tick + word_of_nat k * word_of_nat c,
      if k = m - 1 then end_tick else min (start_tick + (word_of_nat k + 1) * word_of_nat c) end_tick)" for k
    by (simp add: tx_range_def Let_def c_def)
  from chunks_cover [OF assms(1) m bound this]
  show ?thesis using assms(2) unfolding tx_ranges_def m_def [symmetric] Let_def by simp
qed

theorem tx_ranges_cover_witness:
  "concat (map (\<lambda>(a, b). [unat a..<unat b]) (tx_ranges 4 10 100 150)) = [unat (100 :: u32)..<unat (150 :: u32)]"
  by (rule tx_ranges_cover) simp_all

section \<open>Flags\<close>

text \<open>
  A run that finds nothing to do, or cannot resolve its end, clears at most its own flag: the
  pipeline goes on showing a running backfill, and only a completed run clears that.
\<close>

theorem early_return_keeps_running:
  assumes "run_prepare cfg ranges resolved b = (r, b')"
  shows "backfill_running (bc_pipeline b')
    \<and> (case (if cfg_end_tick cfg = 0 then resolved else Ok (cfg_end_tick cfg)) of
         Ok end_tick \<Rightarrow> end_tick \<le> resolve_start_tick ranges (cfg_start_tick cfg) end_tick
           \<longrightarrow> r = Ok [] \<and> \<not> bc_running b'
       | Err e \<Rightarrow> r = Err e \<and> bc_running b'
       | Panic p \<Rightarrow> r = Panic p)"
proof (cases "if cfg_end_tick cfg = 0 then resolved else Ok (cfg_end_tick cfg)")
  case (Ok t)
  then show ?thesis
    using assms unfolding run_prepare_def Let_def Ok
    by (cases "t \<le> resolve_start_tick ranges (cfg_start_tick cfg) t") (auto simp: run_begin_def)
qed (use assms in \<open>auto simp: run_prepare_def run_begin_def Let_def\<close>)

end
