(* ===== verification/Streams.thy ===== *)
theory Streams
  imports Packet_Decoder
begin

text \<open>
  \<^verbatim>\<open>crates/ingestion/src/nats_setup.rs\<close>: the set-up of the JetStream streams.  The server is a
  parameter, a record of the four calls; \<open>streams_ok\<close> states its documented behaviour, with
  \<open>view n\<close> the streams it holds and \<open>overlap\<close> its relation of subjects that share a message.
\<close>

definition MAX_AGE :: nat where "MAX_AGE = 30 * 24 * 60 * 60"
definition MAX_BYTES :: i64 where "MAX_BYTES = 10 * 1024 * 1024 * 1024"

record stream_config =
  sc_name :: string
  sc_subjects :: "string list"
  sc_max_bytes :: i64
  sc_max_age :: nat
  sc_num_replicas :: nat

record 'n stream_api =
  get_stream :: "string \<Rightarrow> 'n \<Rightarrow> bool"
  stream_subjects :: "string \<Rightarrow> 'n \<Rightarrow> string list option"
  delete_stream :: "string \<Rightarrow> 'n \<Rightarrow> unit outcome \<times> 'n"
  create_stream :: "stream_config \<Rightarrow> 'n \<Rightarrow> unit outcome \<times> 'n"

definition config_of :: "string \<times> string list \<Rightarrow> stream_config" where
  "config_of d = \<lparr>sc_name = fst d, sc_subjects = snd d, sc_max_bytes = MAX_BYTES,
     sc_max_age = MAX_AGE, sc_num_replicas = 1\<rparr>"

text \<open>One round of the loop; every error is only logged.\<close>

definition ensure_stream :: "'n stream_api \<Rightarrow> string \<times> string list \<Rightarrow> 'n \<Rightarrow> 'n" where
  "ensure_stream S d n =
     (if get_stream S (fst d) n
      then (case stream_subjects S (fst d) n of
              None \<Rightarrow> n
            | Some existing \<Rightarrow>
                if existing \<noteq> snd d
                then (case delete_stream S (fst d) n of
                        (Ok u, n) \<Rightarrow> snd (create_stream S (config_of d) n)
                      | (r, n) \<Rightarrow> n)
                else n)
      else snd (create_stream S (config_of d) n))"

definition ensure_streams :: "'n stream_api \<Rightarrow> 'n \<Rightarrow> unit outcome \<times> 'n" where
  "ensure_streams S n = (Ok (), fold (ensure_stream S) stream_definitions n)"

section \<open>Documented behaviour of the server\<close>

definition clash :: "(string \<Rightarrow> string \<Rightarrow> bool) \<Rightarrow> string list \<Rightarrow> string list \<Rightarrow> bool" where
  "clash overlap ps qs \<longleftrightarrow> (\<exists>p\<in>set ps. \<exists>q\<in>set qs. overlap p q)"

definition streams_ok :: "'n stream_api \<Rightarrow> ('n \<Rightarrow> string \<Rightarrow> stream_config option) \<Rightarrow> (string \<Rightarrow> string \<Rightarrow> bool) \<Rightarrow> bool" where
  "streams_ok S view overlap \<longleftrightarrow>
     (\<forall>name n. get_stream S name n \<longleftrightarrow> view n name \<noteq> None) \<and>
     (\<forall>name n. stream_subjects S name n = map_option sc_subjects (view n name)) \<and>
     (\<forall>name n. fst (delete_stream S name n) = Ok () \<and> view (snd (delete_stream S name n)) = (view n)(name := None)) \<and>
     (\<forall>cfg n. view n (sc_name cfg) = None \<longrightarrow>
        (\<forall>name c. view n name = Some c \<longrightarrow> \<not> clash overlap (sc_subjects c) (sc_subjects cfg)) \<longrightarrow>
        fst (create_stream S cfg n) = Ok () \<and> view (snd (create_stream S cfg n)) = (view n)(sc_name cfg \<mapsto> cfg))"

text \<open>No stream the server has takes the subjects of a stream of another name.\<close>

definition room_for :: "(string \<Rightarrow> string \<Rightarrow> bool) \<Rightarrow> (string \<Rightarrow> stream_config option) \<Rightarrow> string \<times> string list \<Rightarrow> bool" where
  "room_for overlap v d \<longleftrightarrow>
     (\<forall>name c. v name = Some c \<longrightarrow> name \<noteq> fst d \<longrightarrow> \<not> clash overlap (sc_subjects c) (snd d))"

definition captured :: "(string \<Rightarrow> stream_config option) \<Rightarrow> string \<times> string list \<Rightarrow> bool" where
  "captured v d \<longleftrightarrow> (\<exists>c. v (fst d) = Some c \<and> sc_subjects c = snd d)"

lemma create_view:
  assumes "streams_ok S view overlap" "room_for overlap (view n) d" "view n (fst d) = None"
  shows "view (snd (create_stream S (config_of d) n)) = (view n)(fst d \<mapsto> config_of d)"
proof -
  have "view n (sc_name (config_of d)) = None"
    "\<forall>name c. view n name = Some c \<longrightarrow> \<not> clash overlap (sc_subjects c) (sc_subjects (config_of d))"
    using assms(2,3) unfolding room_for_def by (simp add: config_of_def, metis config_of_def option.distinct(1) stream_config.select_convs(2))
  then show ?thesis using assms(1) unfolding streams_ok_def by (simp add: config_of_def)
qed

lemma ensure_stream_view:
  assumes "streams_ok S view overlap" "room_for overlap (view n) d"
  shows "view (ensure_stream S d n) =
    (if captured (view n) d then view n else (view n)(fst d \<mapsto> config_of d))"
proof (cases "view n (fst d)")
  case None
  then show ?thesis
    using create_view [OF assms None] assms(1) by (auto simp: ensure_stream_def captured_def streams_ok_def)
next
  case (Some c)
  show ?thesis
  proof (cases "sc_subjects c = snd d")
    case True
    then show ?thesis using assms(1) Some by (auto simp: ensure_stream_def streams_ok_def captured_def)
  next
    case False
    obtain n1 where n1: "delete_stream S (fst d) n = (Ok (), n1)" "view n1 = (view n)(fst d := None)"
      using assms(1) unfolding streams_ok_def by (metis prod.collapse)
    have "view (snd (create_stream S (config_of d) n1)) = (view n1)(fst d \<mapsto> config_of d)"
      using assms(2) n1(2) by (intro create_view [OF assms(1)]) (auto simp: room_for_def split: if_splits)
    then show ?thesis
      using assms(1) Some False n1 by (auto simp: ensure_stream_def streams_ok_def captured_def)
  qed
qed

lemma ensure_fold:
  assumes "streams_ok S view overlap" "\<And>d. d \<in> set ds \<Longrightarrow> room_for overlap (view n) d"
    and "\<And>d d'. d \<in> set ds \<Longrightarrow> d' \<in> set ds \<Longrightarrow> fst d \<noteq> fst d' \<Longrightarrow> \<not> clash overlap (snd d) (snd d')"
    and "distinct (map fst ds)"
  shows "view (fold (ensure_stream S) ds n) = (\<lambda>name. case map_of ds name of
      None \<Rightarrow> view n name
    | Some subjects \<Rightarrow> if captured (view n) (name, subjects) then view n name else Some (config_of (name, subjects)))"
  using assms(2-)
proof (induction ds arbitrary: n)
  case (Cons d ds)
  let ?n = "ensure_stream S d n"
  have v: "view ?n = (if captured (view n) d then view n else (view n)(fst d \<mapsto> config_of d))"
    using ensure_stream_view [OF assms(1)] Cons.prems(1) by simp
  have "room_for overlap (view ?n) d'" if "d' \<in> set ds" for d'
    using that Cons.prems(1) [of d'] Cons.prems(2) [of d d'] by (auto simp: v room_for_def config_of_def)
  then have IH: "view (fold (ensure_stream S) ds ?n) = (\<lambda>name. case map_of ds name of
      None \<Rightarrow> view ?n name
    | Some subjects \<Rightarrow> if captured (view ?n) (name, subjects) then view ?n name else Some (config_of (name, subjects)))"
    using Cons.prems by (intro Cons.IH) auto
  have "map_of ds (fst d) = None" using Cons.prems(3) by (simp add: map_of_eq_None_iff)
  then show ?case
    unfolding fold_simps comp_def IH v
    by (cases d) (auto simp: fun_eq_iff captured_def split: option.split)
qed simp

text \<open>
  C33: after the set-up every stream of the table exists with its subjects; a stream that had them
  already is kept as it is, with its messages, an outdated one is replaced, and streams of other
  names are not touched.
\<close>

theorem ensure_streams_establishes:
  assumes "streams_ok S view overlap"
    and "\<And>d. d \<in> set stream_definitions \<Longrightarrow> room_for overlap (view n) d"
    and "\<And>d d'. d \<in> set stream_definitions \<Longrightarrow> d' \<in> set stream_definitions \<Longrightarrow> fst d \<noteq> fst d'
      \<Longrightarrow> \<not> clash overlap (snd d) (snd d')"
  shows "fst (ensure_streams S n) = Ok ()
    \<and> view (snd (ensure_streams S n)) = (\<lambda>name. case map_of stream_definitions name of
        None \<Rightarrow> view n name
      | Some subjects \<Rightarrow> if captured (view n) (name, subjects) then view n name
          else Some (config_of (name, subjects)))"
proof -
  have "distinct (map fst stream_definitions)" by (simp add: stream_definitions_def)
  then show ?thesis using ensure_fold [OF assms] by (simp add: ensure_streams_def)
qed

text \<open>A server that keeps its streams in a map.\<close>

definition demo_streams :: "(string \<Rightarrow> stream_config option) stream_api" where
  "demo_streams = \<lparr>get_stream = (\<lambda>name n. n name \<noteq> None),
     stream_subjects = (\<lambda>name n. map_option sc_subjects (n name)),
     delete_stream = (\<lambda>name n. (Ok (), n(name := None))),
     create_stream = (\<lambda>cfg n. if n (sc_name cfg) = None
       \<and> (\<forall>name c. n name = Some c \<longrightarrow> \<not> clash (=) (sc_subjects c) (sc_subjects cfg))
       then (Ok (), n(sc_name cfg \<mapsto> cfg)) else (Err (Nats ''refused''), n))\<rparr>"

lemma demo_streams_ok: "streams_ok demo_streams (\<lambda>n. n) (=)"
  by (auto simp: streams_ok_def demo_streams_def)

theorem ensure_streams_establishes_witness:
  "snd (ensure_streams demo_streams (\<lambda>_. None)) ''QONDUIT_TX'' = Some (config_of (''QONDUIT_TX'', [''Q.*.QONDUIT.TX'']))"
  by (subst conjunct2 [OF ensure_streams_establishes [OF demo_streams_ok]])
    (auto simp: room_for_def clash_def captured_def stream_definitions_def)

end
