(* ===== verification/Rocks.thy ===== *)
theory Rocks
  imports Qonduit_Prelude "HOL-Library.Product_Lexorder"
begin

text \<open>
  The ordered key-value store under \<^verbatim>\<open>crates/storage/src/warm.rs\<close>.  RocksDB is a parameter: a
  record of the four calls the code makes, over a database state of any type.  A
  \<^verbatim>\<open>for item in iter\<close> loop is \<open>scan_loop\<close>, whose step function says for each entry whether the
  loop pushes, continues or breaks.  The hypothesis \<open>rocks_ok\<close> states the documented behaviour of
  the store, and the lemmas in \<open>order_codec\<close> say what a prefix scan over big-endian keys returns.
\<close>

section \<open>The database interface\<close>

datatype iterator_mode = Start | End | From bytes | FromReverse bytes

type_synonym batch_op = "string \<times> bytes \<times> bytes"

record 'db rocks =
  put_cf :: "string \<Rightarrow> bytes \<Rightarrow> bytes \<Rightarrow> 'db \<Rightarrow> unit outcome \<times> 'db"
  get_cf :: "string \<Rightarrow> bytes \<Rightarrow> 'db \<Rightarrow> bytes option outcome"
  iterator_cf :: "string \<Rightarrow> iterator_mode \<Rightarrow> 'db \<Rightarrow> (bytes \<times> bytes) outcome list"
  write_batch :: "batch_op list \<Rightarrow> 'db \<Rightarrow> unit outcome \<times> 'db"

section \<open>Scan loops\<close>

datatype 'a scan_step = Push 'a | Continue | Break

text \<open>The step function sees how many results have been pushed so far.\<close>

fun scan_loop :: "(nat \<Rightarrow> bytes \<Rightarrow> bytes \<Rightarrow> 'a scan_step outcome) \<Rightarrow> nat
    \<Rightarrow> (bytes \<times> bytes) outcome list \<Rightarrow> 'a list outcome" where
  "scan_loop f n [] = Ok []"
| "scan_loop f n (item # iter) =
     bindR item (\<lambda>(key, value).
     bindR (f n key value) (\<lambda>s.
     case s of
       Break \<Rightarrow> Ok []
     | Continue \<Rightarrow> scan_loop f n iter
     | Push x \<Rightarrow> bindR (scan_loop f (n + 1) iter) (\<lambda>xs. Ok (x # xs))))"

definition scan :: "'db rocks \<Rightarrow> string \<Rightarrow> iterator_mode
    \<Rightarrow> (nat \<Rightarrow> bytes \<Rightarrow> bytes \<Rightarrow> 'a scan_step outcome) \<Rightarrow> 'db \<Rightarrow> 'a list outcome" where
  "scan R cf mode f db = scan_loop f 0 (iterator_cf R cf mode db)"

text \<open>\<^verbatim>\<open>hash.copy_from_slice(&value)\<close> into a 32-byte array panics on any other length.\<close>

definition copy_hash :: "bytes \<Rightarrow> bytes outcome" where
  "copy_hash v = (if length v = 32 then Ok v else Panic SliceOutOfRange)"

text \<open>\<^verbatim>\<open>return\<close> of the first entry whose key has the right length.\<close>

fun find_first :: "nat \<Rightarrow> (bytes \<Rightarrow> bytes \<Rightarrow> 'a) \<Rightarrow> (bytes \<times> bytes) outcome list \<Rightarrow> 'a option outcome" where
  "find_first w f [] = Ok None"
| "find_first w f (item # iter) =
     bindR item (\<lambda>(key, value).
       if length key = w then Ok (Some (f key value)) else find_first w f iter)"

section \<open>Documented behaviour of the store\<close>

text \<open>
  \<open>put_entry\<close> writes one entry into a column family listed in key order; \<open>entries db cf\<close> is what a
  column family holds.  A healthy store answers lookups from the entries, iterates them in
  ascending bytewise key order from the given key on (descending for the reverse modes), and
  applies a batch as a whole, in the order of its operations.
\<close>

fun put_entry :: "bytes \<Rightarrow> bytes \<Rightarrow> (bytes \<times> bytes) list \<Rightarrow> (bytes \<times> bytes) list" where
  "put_entry k v [] = [(k, v)]"
| "put_entry k v ((k', v') # es) =
     (if k < k' then (k, v) # (k', v') # es
      else if k = k' then (k, v) # es else (k', v') # put_entry k v es)"

fun iterate :: "iterator_mode \<Rightarrow> (bytes \<times> bytes) list \<Rightarrow> (bytes \<times> bytes) list" where
  "iterate Start es = es"
| "iterate End es = rev es"
| "iterate (From k) es = filter (\<lambda>e. k \<le> fst e) es"
| "iterate (FromReverse k) es = rev (filter (\<lambda>e. fst e \<le> k) es)"

fun write_op :: "batch_op \<Rightarrow> (string \<Rightarrow> (bytes \<times> bytes) list) \<Rightarrow> string \<Rightarrow> (bytes \<times> bytes) list" where
  "write_op (cf, k, v) es = es(cf := put_entry k v (es cf))"

abbreviation ascending :: "(bytes \<times> bytes) list \<Rightarrow> bool" where
  "ascending es \<equiv> sorted_wrt (<) (map fst es)"

definition rocks_ok :: "'db rocks \<Rightarrow> ('db \<Rightarrow> string \<Rightarrow> (bytes \<times> bytes) list) \<Rightarrow> bool" where
  "rocks_ok R entries \<longleftrightarrow>
     (\<forall>db cf. ascending (entries db cf)) \<and>
     (\<forall>cf k db. get_cf R cf k db = Ok (map_of (entries db cf) k)) \<and>
     (\<forall>cf mode db. iterator_cf R cf mode db = map Ok (iterate mode (entries db cf))) \<and>
     (\<forall>cf k v db. fst (put_cf R cf k v db) = Ok () \<and>
        entries (snd (put_cf R cf k v db)) = write_op (cf, k, v) (entries db)) \<and>
     (\<forall>ops db. fst (write_batch R ops db) = Ok () \<and>
        entries (snd (write_batch R ops db)) = fold write_op ops (entries db))"

lemma rocks_okD:
  assumes "rocks_ok R entries"
  shows rocks_ascending: "ascending (entries db cf)"
    and rocks_get: "get_cf R cf k db = Ok (map_of (entries db cf) k)"
    and rocks_iterator: "iterator_cf R cf mode db = map Ok (iterate mode (entries db cf))"
    and rocks_put: "fst (put_cf R cf k v db) = Ok ()"
      "entries (snd (put_cf R cf k v db)) = write_op (cf, k, v) (entries db)"
    and rocks_batch: "fst (write_batch R ops db) = Ok ()"
      "entries (snd (write_batch R ops db)) = fold write_op ops (entries db)"
  using assms by (simp_all only: rocks_ok_def)

text \<open>
  A store that keeps the list of its writes, used to exhibit databases at which the hypotheses
  hold.
\<close>

definition mem_entries :: "batch_op list \<Rightarrow> string \<Rightarrow> (bytes \<times> bytes) list" where
  "mem_entries ops = fold write_op ops (\<lambda>_. [])"

definition mem_rocks :: "batch_op list rocks" where
  "mem_rocks = \<lparr>put_cf = (\<lambda>cf k v db. (Ok (), db @ [(cf, k, v)])),
     get_cf = (\<lambda>cf k db. Ok (map_of (mem_entries db cf) k)),
     iterator_cf = (\<lambda>cf mode db. map Ok (iterate mode (mem_entries db cf))),
     write_batch = (\<lambda>ops db. (Ok (), db @ ops))\<rparr>"

section \<open>Entries in key order\<close>

lemma set_put_entry_subset: "set (put_entry k v es) \<subseteq> insert (k, v) (set es)"
  by (induction k v es rule: put_entry.induct) auto

lemma ascending_put_entry: "ascending es \<Longrightarrow> ascending (put_entry k v es)"
proof (induction k v es rule: put_entry.induct)
  case (2 k v k' v' es)
  have "fst e \<in> insert k (fst ` set es)" if "e \<in> set (put_entry k v es)" for e
    using subsetD [OF set_put_entry_subset that] by auto
  then show ?case using 2 by (fastforce simp: not_less_iff_gr_or_eq)
qed simp

lemma map_of_put_entry: "ascending es \<Longrightarrow> map_of (put_entry k v es) = (map_of es)(k \<mapsto> v)"
  by (induction k v es rule: put_entry.induct) (auto simp: fun_eq_iff map_of_eq_None_iff)

lemma ascending_write_op: "(\<And>cf. ascending (es cf)) \<Longrightarrow> ascending (write_op op es cf)"
  by (cases op) (auto intro: ascending_put_entry)

lemma ascending_fold_write_op:
  "(\<And>cf. ascending (es cf)) \<Longrightarrow> ascending (fold write_op ops es cf)"
  by (induction ops arbitrary: es cf) (simp_all add: ascending_write_op)

lemma mem_rocks_ok: "rocks_ok mem_rocks mem_entries"
  by (simp add: rocks_ok_def mem_rocks_def mem_entries_def ascending_fold_write_op)

lemma map_of_write_op:
  "(\<And>cf. ascending (es cf)) \<Longrightarrow>
   map_of (write_op (cf, k, v) es cf') = (if cf' = cf then (map_of (es cf))(k \<mapsto> v) else map_of (es cf'))"
  by (simp add: map_of_put_entry)

lemma distinct_ascending: "ascending es \<Longrightarrow> distinct (map fst es)"
  by (simp add: strict_sorted_iff)

lemma ascending_filter: "ascending es \<Longrightarrow> ascending (filter P es)"
  by (induction es) auto

section \<open>What the loops compute\<close>

lemma scan_loop_while:
  assumes "\<And>n k v. (k, v) \<in> set es \<Longrightarrow> f n k v = Ok (if P k then Push (g k v) else Break)"
  shows "scan_loop f n (map Ok es) = Ok (map (\<lambda>e. g (fst e) (snd e)) (takeWhile (\<lambda>e. P (fst e)) es))"
  using assms by (induction es arbitrary: n) auto

lemma scan_loop_filter:
  assumes "\<And>n k v. (k, v) \<in> set es \<Longrightarrow> f n k v = Ok (if P k then Push (g k v) else Continue)"
  shows "scan_loop f n (map Ok es) = Ok (map (\<lambda>e. g (fst e) (snd e)) (filter (\<lambda>e. P (fst e)) es))"
  using assms by (induction es arbitrary: n) auto

lemma scan_loop_limit:
  assumes "\<And>n k v. (k, v) \<in> set es \<Longrightarrow>
    f n k v = Ok (if P k then (if limit \<le> n then Break else Push (g k v)) else Break)"
  shows "scan_loop f n (map Ok es)
    = Ok (map (\<lambda>e. g (fst e) (snd e)) (take (limit - n) (takeWhile (\<lambda>e. P (fst e)) es)))"
  using assms
proof (induction es arbitrary: n)
  case (Cons e es)
  then show ?case
    by (cases e, cases "P (fst e)", cases "limit \<le> n")
      (auto simp: Suc_diff_le not_le take_Cons' Suc_diff_Suc)
qed simp

lemma find_first_all:
  "(\<And>k v. (k, v) \<in> set es \<Longrightarrow> length k = w) \<Longrightarrow>
   find_first w f (map Ok es) = Ok (case es of [] \<Rightarrow> None | (k, v) # _ \<Rightarrow> Some (f k v))"
  by (cases es) (auto, blast)

section \<open>Prefix scans\<close>

abbreviation has_prefix :: "bytes \<Rightarrow> bytes \<Rightarrow> bool" where
  "has_prefix p k \<equiv> take (length p) k = p"

lemma has_prefix_le: "has_prefix p k \<Longrightarrow> p \<le> k"
  by (metis append_Nil2 append_take_drop_id list_le_append_same_length Nil_le_Cons)

lemma prefix_convex:
  fixes p :: bytes
  shows "p \<le> k \<Longrightarrow> k \<le> k' \<Longrightarrow> has_prefix p k' \<Longrightarrow> has_prefix p k"
proof (induction p arbitrary: k k')
  case (Cons b p)
  then obtain c l where "k = c # l" by (cases k) auto
  moreover from Cons.prems obtain l' where "k' = b # l'" "has_prefix p l'" by (cases k') auto
  ultimately show ?case using Cons by auto
qed simp

text \<open>
  A loop that starts at the least key of an interval and breaks at the first key past it sees
  exactly the keys of the interval; the keys with a prefix are such an interval.
\<close>

lemma takeWhile_interval:
  assumes "ascending es"
    and "\<And>e. e \<in> set es \<Longrightarrow> P (fst e) \<Longrightarrow> start \<le> fst e"
    and "\<And>e e'. e \<in> set es \<Longrightarrow> e' \<in> set es \<Longrightarrow> start \<le> fst e \<Longrightarrow> fst e \<le> fst e' \<Longrightarrow> P (fst e') \<Longrightarrow> P (fst e)"
  shows "takeWhile (\<lambda>e. P (fst e)) (iterate (From start) es) = filter (\<lambda>e. P (fst e)) es"
  using assms
proof (induction es)
  case (Cons e es)
  have IH: "takeWhile (\<lambda>e. P (fst e)) (iterate (From start) es) = filter (\<lambda>e. P (fst e)) es"
    using Cons.prems by (intro Cons.IH) (simp, (meson list.set_intros(2))+)
  show ?case
  proof (cases "P (fst e) \<or> \<not> start \<le> fst e")
    case True
    then show ?thesis using IH Cons.prems(2) [of e] by auto
  next
    case False
    then have "\<not> P (fst e')" if "e' \<in> set es" for e'
      using Cons.prems(1) that Cons.prems(3) [of e e'] by (auto simp: less_imp_le)
    then show ?thesis using False by (simp add: filter_empty_conv)
  qed
qed simp

lemma takeWhile_prefix:
  "ascending es \<Longrightarrow> takeWhile (\<lambda>e. has_prefix p (fst e)) (iterate (From p) es)
     = filter (\<lambda>e. has_prefix p (fst e)) es"
  by (rule takeWhile_interval) (auto intro: has_prefix_le dest: prefix_convex)

lemma takeWhile_prefix_upto:
  assumes "ascending es" "\<And>e. e \<in> set es \<Longrightarrow> has_prefix p (fst e) \<Longrightarrow> fst e \<le> upper"
    and "has_prefix p upper"
  shows "takeWhile (\<lambda>e. has_prefix p (fst e)) (iterate (FromReverse upper) es)
     = rev (filter (\<lambda>e. has_prefix p (fst e)) es)"
  using assms(1,2)
proof (induction es rule: rev_induct)
  case (snoc e es)
  have le: "fst e' \<le> fst e" if "e' \<in> set es" for e'
    using snoc.prems(1) that by (auto simp: sorted_wrt_append less_imp_le)
  have asc: "ascending es" using snoc.prems(1) by (simp add: sorted_wrt_append)
  show ?case
  proof (cases "has_prefix p (fst e) \<or> \<not> fst e \<le> upper")
    case True
    then show ?thesis using snoc asc by auto
  next
    case False
    have "\<not> has_prefix p (fst e')" if "e' \<in> set es" for e'
    proof
      assume "has_prefix p (fst e')"
      then have "p \<le> fst e" using le [OF that] has_prefix_le order_trans by blast
      then show False using False prefix_convex [of p "fst e" upper] assms(3) by blast
    qed
    then show ?thesis using False by (simp add: filter_empty_conv)
  qed
qed simp

text \<open>
  The abstract reading of an index: its entries by increasing index.  \<open>key\<close> is the layout of the
  keys.
\<close>

definition index_block :: "(bytes \<times> bytes) list \<Rightarrow> ('i::linorder \<Rightarrow> bytes) \<Rightarrow> ('i \<times> bytes) list" where
  "index_block es key =
     map (\<lambda>i. (i, the (map_of es (key i)))) (sorted_list_of_set {i. map_of es (key i) \<noteq> None})"

lemma map_of_filter_key:
  "map_of (filter (\<lambda>e. P (fst e)) es) k = (if P k then map_of es k else None)"
  by (induction es) auto

context order_codec
begin

lemma finite_index: "finite {i. map_of es (p @ enc i) \<noteq> None}"
proof -
  have "(\<lambda>i. p @ enc i) ` {i. map_of es (p @ enc i) \<noteq> None} \<subseteq> dom (map_of es)" by auto
  then show ?thesis
    by (rule inj_on_finite [rotated]) (auto simp: inj_on_def enc_inject finite_dom_map_of)
qed

lemma index_block_filter:
  assumes "ascending es" and "\<And>k v. (k, v) \<in> set es \<Longrightarrow> length k = length p + width"
  shows "map (\<lambda>e. (dec (drop (length p) (fst e)), snd e)) (filter (\<lambda>e. has_prefix p (fst e)) es)
    = index_block es (\<lambda>i. p @ enc i)" (is "map ?f ?bl = _")
proof -
  define ix where "ix = map (fst \<circ> ?f) ?bl"
  have key: "fst e = p @ enc (fst (?f e))" if "e \<in> set ?bl" for e
    using that assms(2) [of "fst e" "snd e"] append_take_drop_id [of "length p" "fst e"]
    by (auto simp: enc_dec)
  have val: "map_of es (p @ enc (fst (?f e))) = Some (snd e)" if "e \<in> set ?bl" for e
    using that key [OF that] distinct_ascending [OF assms(1)]
    by (metis filter_is_subset map_of_is_SomeI prod.collapse subset_iff)
  have "ascending ?bl" using assms(1) by (rule ascending_filter)
  then have "sorted_wrt (\<lambda>e e'. fst (?f e) < fst (?f e')) ?bl"
    unfolding sorted_wrt_map
    by (rule sorted_wrt_mono_rel [rotated])
      (metis key list_less_append_same_length less_irrefl enc_less)
  then have "sorted_wrt (<) ix" by (simp add: ix_def sorted_wrt_map)
  moreover have "set ix = {i. map_of es (p @ enc i) \<noteq> None}"
  proof (intro set_eqI iffI)
    fix i assume "i \<in> {i. map_of es (p @ enc i) \<noteq> None}"
    then obtain v where "(p @ enc i, v) \<in> set ?bl" using map_of_SomeD by fastforce
    then show "i \<in> set ix" unfolding ix_def by (force simp: dec_enc)
  next
    fix i assume "i \<in> set ix"
    then obtain e where "e \<in> set ?bl" "i = fst (?f e)" by (auto simp: ix_def)
    then show "i \<in> {i. map_of es (p @ enc i) \<noteq> None}" using val by blast
  qed
  ultimately have "ix = sorted_list_of_set {i. map_of es (p @ enc i) \<noteq> None}"
    by (metis sorted_list_of_set_unique finite_index strict_sorted_iff distinct_card)
  moreover have "map ?f ?bl = map (\<lambda>i. (i, the (map_of es (p @ enc i)))) ix"
    using val by (auto simp: ix_def)
  ultimately show ?thesis by (simp add: index_block_def)
qed

lemma in_index_block: "(i, v) \<in> set (index_block es (\<lambda>i. p @ enc i)) \<longleftrightarrow> map_of es (p @ enc i) = Some v"
  using finite_index [of es p] by (auto simp: index_block_def)

lemma prefix_scan:
  assumes "rocks_ok R entries"
    and "\<And>k v. (k, v) \<in> set (entries db cf) \<Longrightarrow> length k = length p + width"
    and "\<And>n k v. (k, v) \<in> set (entries db cf) \<Longrightarrow>
      f n k v = Ok (if has_prefix p k then Push (g (dec (drop (length p) k)) v) else Break)"
  shows "scan R cf (From p) f db
    = Ok (map (\<lambda>(i, v). g i v) (index_block (entries db cf) (\<lambda>i. p @ enc i)))"
proof -
  have asc: "ascending (entries db cf)" using assms(1) by (rule rocks_ascending)
  have "scan R cf (From p) f db
    = Ok (map (\<lambda>e. g (dec (drop (length p) (fst e))) (snd e))
        (filter (\<lambda>e. has_prefix p (fst e)) (entries db cf)))"
    unfolding scan_def rocks_iterator [OF assms(1)] takeWhile_prefix [OF asc, symmetric]
    by (rule scan_loop_while, rule assms(3)) simp
  then show ?thesis by (simp add: index_block_filter [OF asc assms(2), symmetric] o_def)
qed

lemma prefix_scan_back:
  assumes "rocks_ok R entries"
    and "\<And>k v. (k, v) \<in> set (entries db cf) \<Longrightarrow> length k = length p + width"
    and "\<And>i. p @ enc i \<le> upper" and "has_prefix p upper"
    and "\<And>n k v. (k, v) \<in> set (entries db cf) \<Longrightarrow> f n k v =
      Ok (if has_prefix p k then (if limit \<le> n then Break else Push (g (dec (drop (length p) k)) v)) else Break)"
  shows "scan R cf (FromReverse upper) f db
    = Ok (map (\<lambda>(i, v). g i v) (take limit (rev (index_block (entries db cf) (\<lambda>i. p @ enc i)))))"
proof -
  have asc: "ascending (entries db cf)" using assms(1) by (rule rocks_ascending)
  have le: "fst e \<le> upper" if "e \<in> set (entries db cf)" "has_prefix p (fst e)" for e
    using assms(2) [of "fst e" "snd e"] assms(3) [of "dec (drop (length p) (fst e))"] that
      append_take_drop_id [of "length p" "fst e"] by (simp add: enc_dec)
  have tw: "takeWhile (\<lambda>e. has_prefix p (fst e)) (iterate (FromReverse upper) (entries db cf))
      = rev (filter (\<lambda>e. has_prefix p (fst e)) (entries db cf))"
    by (rule takeWhile_prefix_upto [OF asc le assms(4)])
  have "scan R cf (FromReverse upper) f db
    = Ok (map (\<lambda>e. g (dec (drop (length p) (fst e))) (snd e))
        (take (limit - 0) (rev (filter (\<lambda>e. has_prefix p (fst e)) (entries db cf)))))"
    unfolding scan_def rocks_iterator [OF assms(1)] tw [symmetric]
    by (rule scan_loop_limit, rule assms(5)) simp
  then show ?thesis
    by (simp add: index_block_filter [OF asc assms(2), symmetric] o_def rev_map take_map)
qed

end

end
