(* ===== verification/Warm.thy ===== *)
theory Warm
  imports Rocks Epochs
begin

text \<open>
  \<^verbatim>\<open>crates/storage/src/warm.rs\<close>: the column families of the warm tier, their keys and every
  operation on them, over the store of theory \<open>Rocks\<close>.
\<close>

section \<open>Column families\<close>

definition CF_TICK :: string where "CF_TICK = ''tick''"
definition CF_TX :: string where "CF_TX = ''tx''"
definition CF_TX_BY_TICK :: string where "CF_TX_BY_TICK = ''tx_by_tick''"
definition CF_TX_BY_ENTITY :: string where "CF_TX_BY_ENTITY = ''tx_by_entity''"
definition CF_ENTITY :: string where "CF_ENTITY = ''entity''"
definition CF_SPECTRUM :: string where "CF_SPECTRUM = ''spectrum''"
definition CF_ASSET :: string where "CF_ASSET = ''asset''"
definition CF_COMPUTORS :: string where "CF_COMPUTORS = ''computors''"
definition CF_CONTRACT_IPO :: string where "CF_CONTRACT_IPO = ''contract_ipo''"
definition CF_CUSTOM_MESSAGE :: string where "CF_CUSTOM_MESSAGE = ''custom_message''"
definition CF_ENTITY_ASSET :: string where "CF_ENTITY_ASSET = ''entity_asset''"
definition CF_LOG_EVENT :: string where "CF_LOG_EVENT = ''log_event''"
definition CF_TICK_VOTE :: string where "CF_TICK_VOTE = ''tick_vote''"
definition CF_META :: string where "CF_META = ''meta''"
definition CF_ORACLE :: string where "CF_ORACLE = ''oracle''"
definition CF_EPOCH_STATS :: string where "CF_EPOCH_STATS = ''epoch_stats''"

lemmas cf_defs = CF_TICK_def CF_TX_def CF_TX_BY_TICK_def CF_TX_BY_ENTITY_def CF_ENTITY_def
  CF_SPECTRUM_def CF_ASSET_def CF_COMPUTORS_def CF_CONTRACT_IPO_def CF_CUSTOM_MESSAGE_def
  CF_ENTITY_ASSET_def CF_LOG_EVENT_def CF_TICK_VOTE_def CF_META_def CF_ORACLE_def CF_EPOCH_STATS_def

section \<open>Ticks\<close>

definition warm_put_tick :: "'db rocks \<Rightarrow> u32 \<Rightarrow> bytes \<Rightarrow> 'db \<Rightarrow> unit outcome \<times> 'db" where
  "warm_put_tick R tick d = put_cf R CF_TICK (u32_to_be tick) d"

definition warm_get_tick :: "'db rocks \<Rightarrow> u32 \<Rightarrow> 'db \<Rightarrow> bytes option outcome" where
  "warm_get_tick R tick = get_cf R CF_TICK (u32_to_be tick)"

definition get_tick_range :: "'db rocks \<Rightarrow> u32 \<Rightarrow> u32 \<Rightarrow> 'db \<Rightarrow> (u32 \<times> bytes) list outcome" where
  "get_tick_range R from to =
     scan R CF_TICK (From (u32_to_be from)) (\<lambda>_ key value.
       if length key \<noteq> 4 then Ok Continue
       else let tick = u32_from_be key
            in if to < tick then Ok Break else Ok (Push (tick, value)))"

definition get_latest_tick :: "'db rocks \<Rightarrow> 'db \<Rightarrow> u32 option outcome" where
  "get_latest_tick R db =
     find_first 4 (\<lambda>key value. u32_from_be key) (iterator_cf R CF_TICK End db)"

section \<open>Transactions\<close>

definition put_tx :: "'db rocks \<Rightarrow> bytes \<Rightarrow> bytes \<Rightarrow> 'db \<Rightarrow> unit outcome \<times> 'db" where
  "put_tx R hash d = put_cf R CF_TX hash d"

definition get_tx :: "'db rocks \<Rightarrow> bytes \<Rightarrow> 'db \<Rightarrow> bytes option outcome" where
  "get_tx R hash = get_cf R CF_TX hash"

definition tick_key :: "u32 \<Rightarrow> u32 \<Rightarrow> bytes" where
  "tick_key tick i = u32_to_be tick @ u32_to_be i"

definition entity_key :: "bytes \<Rightarrow> u32 \<Rightarrow> u32 \<Rightarrow> bytes" where
  "entity_key entity tick i = entity @ u32_to_be tick @ u32_to_be i"

definition put_tx_for_tick :: "'db rocks \<Rightarrow> u32 \<Rightarrow> u32 \<Rightarrow> bytes \<Rightarrow> 'db \<Rightarrow> unit outcome \<times> 'db" where
  "put_tx_for_tick R tick tx_index tx_hash = put_cf R CF_TX_BY_TICK (tick_key tick tx_index) tx_hash"

definition get_tx_hashes_for_tick :: "'db rocks \<Rightarrow> u32 \<Rightarrow> 'db \<Rightarrow> bytes list outcome" where
  "get_tx_hashes_for_tick R tick =
     (let prefix = u32_to_be tick
      in scan R CF_TX_BY_TICK (From prefix) (\<lambda>_ key value.
           if length key \<noteq> 8 \<or> take 4 key \<noteq> prefix then Ok Break
           else bindR (copy_hash value) (\<lambda>hash. Ok (Push hash))))"

definition put_tx_for_entity :: "'db rocks \<Rightarrow> bytes \<Rightarrow> u32 \<Rightarrow> u32 \<Rightarrow> bytes \<Rightarrow> 'db
    \<Rightarrow> unit outcome \<times> 'db" where
  "put_tx_for_entity R entity tick tx_index tx_hash =
     put_cf R CF_TX_BY_ENTITY (entity_key entity tick tx_index) tx_hash"

definition get_tx_hashes_for_entity :: "'db rocks \<Rightarrow> bytes \<Rightarrow> nat \<Rightarrow> 'db \<Rightarrow> bytes list outcome" where
  "get_tx_hashes_for_entity R entity limit =
     (let upper = entity @ replicate 8 0xFF
      in scan R CF_TX_BY_ENTITY (FromReverse upper) (\<lambda>n key value.
           if length key \<noteq> 40 \<or> take 32 key \<noteq> entity then Ok Break
           else if limit \<le> n then Ok Break
           else bindR (copy_hash value) (\<lambda>hash. Ok (Push hash))))"

text \<open>The loop of the entity history: it counts what it skips and looks every hash up.\<close>

fun history_loop :: "'db rocks \<Rightarrow> bytes \<Rightarrow> u32 option \<Rightarrow> nat \<Rightarrow> nat \<Rightarrow> 'db \<Rightarrow> nat \<Rightarrow> nat
    \<Rightarrow> (bytes \<times> bytes) outcome list \<Rightarrow> (u32 \<times> bytes) list outcome" where
  "history_loop R entity tick_upper offset limit db skipped found [] = Ok []"
| "history_loop R entity tick_upper offset limit db skipped found (item # iter) =
     bindR item (\<lambda>(key, value).
       if length key \<noteq> 40 \<or> take 32 key \<noteq> entity then Ok []
       else let tick = u32_from_be (take 4 (drop 32 key)) in
       if (case tick_upper of Some upper \<Rightarrow> upper < tick | None \<Rightarrow> False) then Ok []
       else if length value \<noteq> 32
       then history_loop R entity tick_upper offset limit db skipped found iter
       else if skipped < offset
       then history_loop R entity tick_upper offset limit db (skipped + 1) found iter
       else if limit \<le> found then Ok []
       else bindR (get_tx R value db) (\<lambda>r.
         case r of
           None \<Rightarrow> history_loop R entity tick_upper offset limit db skipped found iter
         | Some d \<Rightarrow>
             bindR (history_loop R entity tick_upper offset limit db skipped (found + 1) iter)
               (\<lambda>rest. Ok ((tick, d) # rest))))"

definition get_entity_history :: "'db rocks \<Rightarrow> epoch_range list \<Rightarrow> bytes \<Rightarrow> u16 option \<Rightarrow> nat \<Rightarrow> nat
    \<Rightarrow> 'db \<Rightarrow> (u32 \<times> bytes) list outcome" where
  "get_entity_history R ranges entity epoch_filter offset limit db =
     (case epoch_filter of
        None \<Rightarrow> history_loop R entity None offset limit db 0 0
                  (iterator_cf R CF_TX_BY_ENTITY (From entity) db)
      | Some epoch \<Rightarrow>
          (case get_epoch_range ranges epoch of
             None \<Rightarrow> Ok []
           | Some rng \<Rightarrow>
               history_loop R entity (Some (er_last_tick rng)) offset limit db 0 0
                 (iterator_cf R CF_TX_BY_ENTITY (From (entity_key entity (er_first_tick rng) 0)) db)))"

definition count_entity_transactions :: "'db rocks \<Rightarrow> bytes \<Rightarrow> 'db \<Rightarrow> u64 outcome" where
  "count_entity_transactions R entity db =
     bindR (scan R CF_TX_BY_ENTITY (From entity) (\<lambda>_ key value.
       if length key \<noteq> 40 \<or> take 32 key \<noteq> entity then Ok Break else Ok (Push ())) db)
       (\<lambda>xs. Ok (word_of_nat (length xs)))"

section \<open>Entities, spectrum, assets, computors, contracts\<close>

definition warm_put_entity :: "'db rocks \<Rightarrow> bytes \<Rightarrow> bytes \<Rightarrow> 'db \<Rightarrow> unit outcome \<times> 'db" where
  "warm_put_entity R identity d = put_cf R CF_ENTITY identity d"

definition warm_get_entity :: "'db rocks \<Rightarrow> bytes \<Rightarrow> 'db \<Rightarrow> bytes option outcome" where
  "warm_get_entity R identity = get_cf R CF_ENTITY identity"

definition put_spectrum_entry :: "'db rocks \<Rightarrow> bytes \<Rightarrow> bytes \<Rightarrow> 'db \<Rightarrow> unit outcome \<times> 'db" where
  "put_spectrum_entry R identity d = put_cf R CF_SPECTRUM identity d"

definition get_spectrum_entry :: "'db rocks \<Rightarrow> bytes \<Rightarrow> 'db \<Rightarrow> bytes option outcome" where
  "get_spectrum_entry R identity = get_cf R CF_SPECTRUM identity"

text \<open>Up to \<open>limit\<close> entries with keys of the right length.\<close>

definition limited :: "nat \<Rightarrow> nat \<Rightarrow> (bytes \<Rightarrow> bytes \<Rightarrow> 'a) \<Rightarrow> nat \<Rightarrow> bytes \<Rightarrow> bytes \<Rightarrow> 'a scan_step outcome" where
  "limited w limit f n key value =
     Ok (if length key \<noteq> w then Continue else if limit \<le> n then Break else Push (f key value))"

definition get_spectrum_range :: "'db rocks \<Rightarrow> bytes \<Rightarrow> nat \<Rightarrow> 'db \<Rightarrow> (bytes \<times> bytes) list outcome" where
  "get_spectrum_range R start count = scan R CF_SPECTRUM (From start) (limited 32 count Pair)"

definition put_asset :: "'db rocks \<Rightarrow> u32 \<Rightarrow> bytes \<Rightarrow> 'db \<Rightarrow> unit outcome \<times> 'db" where
  "put_asset R index d = put_cf R CF_ASSET (u32_to_be index) d"

definition get_asset :: "'db rocks \<Rightarrow> u32 \<Rightarrow> 'db \<Rightarrow> bytes option outcome" where
  "get_asset R index = get_cf R CF_ASSET (u32_to_be index)"

definition get_all_assets :: "'db rocks \<Rightarrow> nat \<Rightarrow> 'db \<Rightarrow> (u32 \<times> bytes) list outcome" where
  "get_all_assets R limit =
     scan R CF_ASSET (From [0, 0, 0, 0]) (limited 4 limit (\<lambda>key value. (u32_from_be key, value)))"

definition warm_put_computors :: "'db rocks \<Rightarrow> u16 \<Rightarrow> bytes \<Rightarrow> 'db \<Rightarrow> unit outcome \<times> 'db" where
  "warm_put_computors R epoch d = put_cf R CF_COMPUTORS (u16_to_be epoch) d"

definition warm_get_computors :: "'db rocks \<Rightarrow> u16 \<Rightarrow> 'db \<Rightarrow> bytes option outcome" where
  "warm_get_computors R epoch = get_cf R CF_COMPUTORS (u16_to_be epoch)"

definition get_latest_computors :: "'db rocks \<Rightarrow> 'db \<Rightarrow> (u16 \<times> bytes) option outcome" where
  "get_latest_computors R db =
     find_first 2 (\<lambda>key value. (u16_from_be key, value)) (iterator_cf R CF_COMPUTORS End db)"

definition put_contract_ipo :: "'db rocks \<Rightarrow> u32 \<Rightarrow> bytes \<Rightarrow> 'db \<Rightarrow> unit outcome \<times> 'db" where
  "put_contract_ipo R contract_index d = put_cf R CF_CONTRACT_IPO (u32_to_be contract_index) d"

definition get_contract_ipo :: "'db rocks \<Rightarrow> u32 \<Rightarrow> 'db \<Rightarrow> bytes option outcome" where
  "get_contract_ipo R contract_index = get_cf R CF_CONTRACT_IPO (u32_to_be contract_index)"

definition get_all_contract_ipos :: "'db rocks \<Rightarrow> nat \<Rightarrow> 'db \<Rightarrow> (u32 \<times> bytes) list outcome" where
  "get_all_contract_ipos R limit =
     scan R CF_CONTRACT_IPO (From [0, 0, 0, 0]) (limited 4 limit (\<lambda>key value. (u32_from_be key, value)))"

section \<open>Custom messages, entity assets, log events, votes\<close>

definition put_custom_message :: "'db rocks \<Rightarrow> u32 \<Rightarrow> u32 \<Rightarrow> bytes \<Rightarrow> 'db \<Rightarrow> unit outcome \<times> 'db" where
  "put_custom_message R tick index d = put_cf R CF_CUSTOM_MESSAGE (tick_key tick index) d"

text \<open>The loop over one tick's entries: break at the first key of another length or prefix.\<close>

definition same_prefix :: "nat \<Rightarrow> bytes \<Rightarrow> (bytes \<Rightarrow> bytes \<Rightarrow> 'a) \<Rightarrow> nat \<Rightarrow> bytes \<Rightarrow> bytes
    \<Rightarrow> 'a scan_step outcome" where
  "same_prefix w prefix f n key value =
     Ok (if length key \<noteq> w \<or> take (length prefix) key \<noteq> prefix then Break else Push (f key value))"

definition count_custom_messages_for_tick :: "'db rocks \<Rightarrow> u32 \<Rightarrow> 'db \<Rightarrow> nat outcome" where
  "count_custom_messages_for_tick R tick db =
     bindR (scan R CF_CUSTOM_MESSAGE (From (u32_to_be tick))
              (same_prefix 8 (u32_to_be tick) (\<lambda>_ _. ())) db)
       (\<lambda>xs. Ok (length xs))"

definition get_custom_messages_for_tick :: "'db rocks \<Rightarrow> u32 \<Rightarrow> 'db \<Rightarrow> bytes list outcome" where
  "get_custom_messages_for_tick R tick =
     scan R CF_CUSTOM_MESSAGE (From (u32_to_be tick)) (same_prefix 8 (u32_to_be tick) (\<lambda>_ value. value))"

definition get_all_entity_keys :: "'db rocks \<Rightarrow> nat \<Rightarrow> 'db \<Rightarrow> bytes list outcome" where
  "get_all_entity_keys R limit = scan R CF_ENTITY Start (limited 32 limit (\<lambda>key _. key))"

definition put_entity_asset :: "'db rocks \<Rightarrow> bytes \<Rightarrow> u32 \<Rightarrow> 'db \<Rightarrow> unit outcome \<times> 'db" where
  "put_entity_asset R entity asset_index =
     put_cf R CF_ENTITY_ASSET (entity @ u32_to_be asset_index) []"

definition get_assets_for_entity :: "'db rocks \<Rightarrow> bytes \<Rightarrow> 'db \<Rightarrow> u32 list outcome" where
  "get_assets_for_entity R entity =
     scan R CF_ENTITY_ASSET (From entity) (\<lambda>_ key value.
       if length key \<noteq> 36 \<or> take 32 key \<noteq> entity then Ok Break
       else Ok (Push (u32_from_be (drop 32 key))))"

definition get_holders_for_asset :: "'db rocks \<Rightarrow> u32 \<Rightarrow> 'db \<Rightarrow> bytes list outcome" where
  "get_holders_for_asset R asset_index =
     scan R CF_ENTITY_ASSET Start (\<lambda>_ key value.
       if length key \<noteq> 36 then Ok Continue
       else if drop 32 key = u32_to_be asset_index then Ok (Push (take 32 key)) else Ok Continue)"

definition log_event_key :: "u32 \<Rightarrow> u32 \<Rightarrow> u8 \<Rightarrow> bytes" where
  "log_event_key tick tx_index event_type = u32_to_be tick @ u32_to_be tx_index @ [event_type]"

definition put_log_event :: "'db rocks \<Rightarrow> u32 \<Rightarrow> u32 \<Rightarrow> u8 \<Rightarrow> bytes \<Rightarrow> 'db \<Rightarrow> unit outcome \<times> 'db" where
  "put_log_event R tick tx_index event_type d =
     put_cf R CF_LOG_EVENT (log_event_key tick tx_index event_type) d"

definition get_log_events_for_tick :: "'db rocks \<Rightarrow> u32 \<Rightarrow> 'db \<Rightarrow> bytes list outcome" where
  "get_log_events_for_tick R tick =
     scan R CF_LOG_EVENT (From (u32_to_be tick)) (same_prefix 9 (u32_to_be tick) (\<lambda>_ value. value))"

definition put_tick_vote :: "'db rocks \<Rightarrow> u32 \<Rightarrow> u16 \<Rightarrow> bytes \<Rightarrow> 'db \<Rightarrow> unit outcome \<times> 'db" where
  "put_tick_vote R tick computor_index d =
     put_cf R CF_TICK_VOTE (u32_to_be tick @ u16_to_be computor_index) d"

definition get_votes_for_tick :: "'db rocks \<Rightarrow> u32 \<Rightarrow> 'db \<Rightarrow> (u16 \<times> bytes) list outcome" where
  "get_votes_for_tick R tick =
     scan R CF_TICK_VOTE (From (u32_to_be tick))
       (same_prefix 6 (u32_to_be tick) (\<lambda>key value. (u16_from_be (drop 4 key), value)))"

definition count_votes_for_tick :: "'db rocks \<Rightarrow> u32 \<Rightarrow> 'db \<Rightarrow> nat outcome" where
  "count_votes_for_tick R tick db =
     bindR (scan R CF_TICK_VOTE (From (u32_to_be tick)) (same_prefix 6 (u32_to_be tick) (\<lambda>_ _. ())) db)
       (\<lambda>xs. Ok (length xs))"

section \<open>Metadata, oracle, epoch statistics, batches\<close>

definition ascii :: "string \<Rightarrow> bytes" where
  "ascii s = map (\<lambda>c. word_of_nat (of_char c)) s"

definition put_meta :: "'db rocks \<Rightarrow> bytes \<Rightarrow> bytes \<Rightarrow> 'db \<Rightarrow> unit outcome \<times> 'db" where
  "put_meta R key value = put_cf R CF_META key value"

definition get_meta :: "'db rocks \<Rightarrow> bytes \<Rightarrow> 'db \<Rightarrow> bytes option outcome" where
  "get_meta R key = get_cf R CF_META key"

definition warm_get_current_tick :: "'db rocks \<Rightarrow> 'db \<Rightarrow> u32 option outcome" where
  "warm_get_current_tick R db =
     bindR (get_meta R (ascii ''current_tick'') db) (\<lambda>r.
       case r of Some d \<Rightarrow> Ok (if length d = 4 then Some (u32_from_be d) else None) | None \<Rightarrow> Ok None)"

definition warm_set_current_tick :: "'db rocks \<Rightarrow> u32 \<Rightarrow> 'db \<Rightarrow> unit outcome \<times> 'db" where
  "warm_set_current_tick R tick = put_meta R (ascii ''current_tick'') (u32_to_be tick)"

definition warm_get_current_epoch :: "'db rocks \<Rightarrow> 'db \<Rightarrow> u16 option outcome" where
  "warm_get_current_epoch R db =
     bindR (get_meta R (ascii ''current_epoch'') db) (\<lambda>r.
       case r of Some d \<Rightarrow> Ok (if length d = 2 then Some (u16_from_be d) else None) | None \<Rightarrow> Ok None)"

definition warm_set_current_epoch :: "'db rocks \<Rightarrow> u16 \<Rightarrow> 'db \<Rightarrow> unit outcome \<times> 'db" where
  "warm_set_current_epoch R epoch = put_meta R (ascii ''current_epoch'') (u16_to_be epoch)"

definition put_oracle :: "'db rocks \<Rightarrow> u32 \<Rightarrow> bytes \<Rightarrow> 'db \<Rightarrow> unit outcome \<times> 'db" where
  "put_oracle R tick d = put_cf R CF_ORACLE (u32_to_be tick) d"

definition get_oracle :: "'db rocks \<Rightarrow> u32 \<Rightarrow> 'db \<Rightarrow> bytes option outcome" where
  "get_oracle R tick = get_cf R CF_ORACLE (u32_to_be tick)"

definition get_latest_oracle :: "'db rocks \<Rightarrow> 'db \<Rightarrow> (u32 \<times> bytes) option outcome" where
  "get_latest_oracle R db =
     find_first 4 (\<lambda>key value. (u32_from_be key, value)) (iterator_cf R CF_ORACLE End db)"

definition create_batch :: "batch_op list" where
  "create_batch = []"

definition batch_put_tx :: "bytes \<Rightarrow> bytes \<Rightarrow> u32 \<Rightarrow> u32 \<Rightarrow> bytes option \<Rightarrow> bytes option
    \<Rightarrow> batch_op list \<Rightarrow> batch_op list" where
  "batch_put_tx hash d tick tx_index source destination batch =
     batch @ [(CF_TX, hash, d), (CF_TX_BY_TICK, tick_key tick tx_index, hash)]
     @ (case source of None \<Rightarrow> [] | Some src \<Rightarrow> [(CF_TX_BY_ENTITY, entity_key src tick tx_index, hash)])
     @ (case destination of None \<Rightarrow> []
        | Some dst \<Rightarrow> [(CF_TX_BY_ENTITY, entity_key dst tick tx_index, hash)])"

definition batch_put_tick :: "u32 \<Rightarrow> u16 \<Rightarrow> bytes \<Rightarrow> batch_op list \<Rightarrow> batch_op list" where
  "batch_put_tick tick epoch d batch =
     batch @ [(CF_TICK, u32_to_be tick, d), (CF_META, ascii ''current_tick'', u32_to_be tick),
       (CF_META, ascii ''current_epoch'', u16_to_be epoch)]"

definition batch_write :: "'db rocks \<Rightarrow> batch_op list \<Rightarrow> 'db \<Rightarrow> unit outcome \<times> 'db" where
  "batch_write R batch = write_batch R batch"

definition put_epoch_stats :: "'db rocks \<Rightarrow> u16 \<Rightarrow> bytes \<Rightarrow> 'db \<Rightarrow> unit outcome \<times> 'db" where
  "put_epoch_stats R epoch d = put_cf R CF_EPOCH_STATS (u16_to_be epoch) d"

definition get_epoch_stats :: "'db rocks \<Rightarrow> u16 \<Rightarrow> 'db \<Rightarrow> bytes option outcome" where
  "get_epoch_stats R epoch = get_cf R CF_EPOCH_STATS (u16_to_be epoch)"

definition list_epoch_stats :: "'db rocks \<Rightarrow> 'db \<Rightarrow> (u16 \<times> bytes) list outcome" where
  "list_epoch_stats R =
     scan R CF_EPOCH_STATS Start (\<lambda>_ key value.
       if length key = 2 then Ok (Push (u16_from_be key, value)) else Ok Continue)"

section \<open>Databases the write operations reach\<close>

text \<open>
  A batch is started by \<open>create_batch\<close> and filled by \<open>batch_put_tx\<close> and \<open>batch_put_tick\<close>.  The
  premises are the array lengths the Rust types fix; \<^verbatim>\<open>set_current_tick\<close> and
  \<^verbatim>\<open>set_current_epoch\<close> are instances of \<^verbatim>\<open>put_meta\<close>.
\<close>

inductive built :: "batch_op list \<Rightarrow> bool" where
  create: "built create_batch"
| add_tx: "built batch \<Longrightarrow> length hash = 32 \<Longrightarrow> (\<And>s. source = Some s \<Longrightarrow> length s = 32)
    \<Longrightarrow> (\<And>s. destination = Some s \<Longrightarrow> length s = 32)
    \<Longrightarrow> built (batch_put_tx hash d tick tx_index source destination batch)"
| add_tick: "built batch \<Longrightarrow> built (batch_put_tick tick epoch d batch)"

inductive warm_step :: "'db rocks \<Rightarrow> 'db \<Rightarrow> 'db \<Rightarrow> bool" for R where
  put_tick: "warm_step R db (snd (warm_put_tick R tick d db))"
| put_tx: "length hash = 32 \<Longrightarrow> warm_step R db (snd (put_tx R hash d db))"
| put_tx_for_tick: "length hash = 32 \<Longrightarrow> warm_step R db (snd (put_tx_for_tick R tick tx_index hash db))"
| put_tx_for_entity: "length entity = 32 \<Longrightarrow> length hash = 32 \<Longrightarrow> warm_step R db (snd (put_tx_for_entity R entity tick tx_index hash db))"
| put_entity: "length identity = 32 \<Longrightarrow> warm_step R db (snd (warm_put_entity R identity d db))"
| put_spectrum_entry: "length identity = 32 \<Longrightarrow> warm_step R db (snd (put_spectrum_entry R identity d db))"
| put_asset: "warm_step R db (snd (put_asset R index d db))"
| put_computors: "warm_step R db (snd (warm_put_computors R epoch d db))"
| put_contract_ipo: "warm_step R db (snd (put_contract_ipo R contract_index d db))"
| put_custom_message: "warm_step R db (snd (put_custom_message R tick index d db))"
| put_entity_asset: "length entity = 32 \<Longrightarrow> warm_step R db (snd (put_entity_asset R entity asset_index db))"
| put_log_event: "warm_step R db (snd (put_log_event R tick tx_index event_type d db))"
| put_tick_vote: "warm_step R db (snd (put_tick_vote R tick computor_index d db))"
| put_meta: "warm_step R db (snd (put_meta R key value db))"
| put_oracle: "warm_step R db (snd (put_oracle R tick d db))"
| put_epoch_stats: "warm_step R db (snd (put_epoch_stats R epoch d db))"
| batch: "built batch \<Longrightarrow> warm_step R db (snd (batch_write R batch db))"

inductive warm_reachable :: "'db rocks \<Rightarrow> ('db \<Rightarrow> string \<Rightarrow> (bytes \<times> bytes) list) \<Rightarrow> 'db \<Rightarrow> bool"
  for R entries where
  empty: "entries db = (\<lambda>_. []) \<Longrightarrow> warm_reachable R entries db"
| step: "warm_reachable R entries db \<Longrightarrow> warm_step R db db' \<Longrightarrow> warm_reachable R entries db'"

text \<open>What every write respects: the key width of its column family, and 32-byte hashes.\<close>

definition key_widths :: "(string \<times> nat) list" where
  "key_widths = [(CF_TICK, 4), (CF_TX, 32), (CF_TX_BY_TICK, 8), (CF_TX_BY_ENTITY, 40),
     (CF_ENTITY, 32), (CF_SPECTRUM, 32), (CF_ASSET, 4), (CF_COMPUTORS, 2), (CF_CONTRACT_IPO, 4),
     (CF_CUSTOM_MESSAGE, 8), (CF_ENTITY_ASSET, 36), (CF_LOG_EVENT, 9), (CF_TICK_VOTE, 6),
     (CF_ORACLE, 4), (CF_EPOCH_STATS, 2)]"

definition op_ok :: "batch_op \<Rightarrow> bool" where
  "op_ok op = (case op of (cf, k, v) \<Rightarrow>
     (case map_of key_widths cf of None \<Rightarrow> True | Some w \<Rightarrow> length k = w) \<and>
     (cf = CF_TX_BY_TICK \<or> cf = CF_TX_BY_ENTITY \<longrightarrow> length v = 32))"

definition warm_inv :: "(string \<Rightarrow> (bytes \<times> bytes) list) \<Rightarrow> bool" where
  "warm_inv es \<longleftrightarrow> (\<forall>cf k v. (k, v) \<in> set (es cf) \<longrightarrow> op_ok (cf, k, v))"

lemma warm_inv_write_op: "warm_inv es \<Longrightarrow> op_ok op \<Longrightarrow> warm_inv (write_op op es)"
  using set_put_entry_subset by (cases op) (fastforce simp: warm_inv_def)

lemma warm_inv_fold: "warm_inv es \<Longrightarrow> list_all op_ok ops \<Longrightarrow> warm_inv (fold write_op ops es)"
  by (induction ops arbitrary: es) (simp_all add: warm_inv_write_op)

lemma length_keys [simp]:
  "length (tick_key tick i) = 8" "length (log_event_key tick i ty) = 9"
  "length (entity_key entity tick i) = length entity + 8"
  by (simp_all add: tick_key_def log_event_key_def entity_key_def)

lemma op_ok_cf:
  "op_ok (CF_TICK, k, v) = (length k = 4)" "op_ok (CF_TX, k, v) = (length k = 32)"
  "op_ok (CF_TX_BY_TICK, k, v) = (length k = 8 \<and> length v = 32)"
  "op_ok (CF_TX_BY_ENTITY, k, v) = (length k = 40 \<and> length v = 32)"
  "op_ok (CF_ENTITY, k, v) = (length k = 32)" "op_ok (CF_SPECTRUM, k, v) = (length k = 32)"
  "op_ok (CF_ASSET, k, v) = (length k = 4)" "op_ok (CF_COMPUTORS, k, v) = (length k = 2)"
  "op_ok (CF_CONTRACT_IPO, k, v) = (length k = 4)" "op_ok (CF_CUSTOM_MESSAGE, k, v) = (length k = 8)"
  "op_ok (CF_ENTITY_ASSET, k, v) = (length k = 36)" "op_ok (CF_LOG_EVENT, k, v) = (length k = 9)"
  "op_ok (CF_TICK_VOTE, k, v) = (length k = 6)" "op_ok (CF_META, k, v)"
  "op_ok (CF_ORACLE, k, v) = (length k = 4)" "op_ok (CF_EPOCH_STATS, k, v) = (length k = 2)"
  by (simp_all add: op_ok_def key_widths_def cf_defs)

lemma built_ops_ok: "built batch \<Longrightarrow> list_all op_ok batch"
  by (induction rule: built.induct)
    (auto simp: create_batch_def batch_put_tx_def batch_put_tick_def op_ok_cf split: option.split)

lemmas warm_writes = warm_put_tick_def put_tx_def put_tx_for_tick_def put_tx_for_entity_def
  warm_put_entity_def put_spectrum_entry_def put_asset_def warm_put_computors_def
  put_contract_ipo_def put_custom_message_def put_entity_asset_def put_log_event_def
  put_tick_vote_def put_meta_def put_oracle_def put_epoch_stats_def batch_write_def

lemma warm_step_inv:
  assumes "warm_step R db db'" "rocks_ok R entries" "warm_inv (entries db)"
  shows "warm_inv (entries db')"
  using assms
  by (induction rule: warm_step.induct)
    (simp_all only: warm_writes rocks_put rocks_batch warm_inv_write_op warm_inv_fold op_ok_cf
      length_keys be_length length_append built_ops_ok refl simp_thms numeral_plus_numeral add_num_simps)

lemma warm_reachable_inv:
  "warm_reachable R entries db \<Longrightarrow> rocks_ok R entries \<Longrightarrow> warm_inv (entries db)"
  by (induction rule: warm_reachable.induct) (auto simp: warm_inv_def [of "\<lambda>_. []"] intro: warm_step_inv)

section \<open>What the scans return\<close>

lemma reachable_ok:
  "warm_reachable R entries db \<Longrightarrow> rocks_ok R entries \<Longrightarrow> (k, v) \<in> set (entries db cf)
    \<Longrightarrow> op_ok (cf, k, v)"
  using warm_reachable_inv [of R entries db] by (auto simp: warm_inv_def)

lemmas reachable_widths = reachable_ok [where cf = CF_TICK, unfolded op_ok_cf]
  reachable_ok [where cf = CF_TX_BY_TICK, unfolded op_ok_cf]
  reachable_ok [where cf = CF_TX_BY_ENTITY, unfolded op_ok_cf]
  reachable_ok [where cf = CF_CUSTOM_MESSAGE, unfolded op_ok_cf]
  reachable_ok [where cf = CF_LOG_EVENT, unfolded op_ok_cf]
  reachable_ok [where cf = CF_TICK_VOTE, unfolded op_ok_cf]
  reachable_ok [where cf = CF_ENTITY_ASSET, unfolded op_ok_cf]

text \<open>Two indexes are pairs: (tick, index) under an entity, (index, type) under a tick.\<close>

definition pair_to_be :: "u32 \<times> u32 \<Rightarrow> bytes" where
  "pair_to_be ti = u32_to_be (fst ti) @ u32_to_be (snd ti)"

definition pair_from_be :: "bytes \<Rightarrow> u32 \<times> u32" where
  "pair_from_be bs = (u32_from_be (take 4 bs), u32_from_be (drop 4 bs))"

definition event_to_be :: "u32 \<times> u8 \<Rightarrow> bytes" where
  "event_to_be it = u32_to_be (fst it) @ [snd it]"

definition event_from_be :: "bytes \<Rightarrow> u32 \<times> u8" where
  "event_from_be bs = (u32_from_be (take 4 bs), bs ! 4)"

interpretation pair_be: order_codec pair_to_be pair_from_be 8
  by unfold_locales
    (auto simp: pair_to_be_def pair_from_be_def u32_be.enc_dec u32_be.enc_append_less u32_be.enc_less
      less_prod_def')

interpretation event_be: order_codec event_to_be event_from_be 5
  by unfold_locales
    (auto simp: event_to_be_def event_from_be_def u32_be.enc_dec u32_be.enc_append_less nth_append
      less_prod_def' take_Suc_conv_app_nth [symmetric])

lemma key_layouts:
  "tick_key tick = (\<lambda>i. u32_to_be tick @ u32_to_be i)"
  "(\<lambda>(i, ty). log_event_key tick i ty) = (\<lambda>it. u32_to_be tick @ event_to_be it)"
  "(\<lambda>(t, i). entity_key entity t i) = (\<lambda>ti. entity @ pair_to_be ti)"
  by (auto simp: fun_eq_iff tick_key_def log_event_key_def entity_key_def event_to_be_def pair_to_be_def)

lemma tick_scan:
  assumes "rocks_ok R entries" "warm_reachable R entries db"
  shows "get_tx_hashes_for_tick R tick db
    = Ok (map snd (index_block (entries db CF_TX_BY_TICK) (tick_key tick)))"
proof -
  note w = reachable_widths(2) [OF assms(2,1)]
  have "get_tx_hashes_for_tick R tick db
    = Ok (map (\<lambda>(i, v). v) (index_block (entries db CF_TX_BY_TICK) (\<lambda>i. u32_to_be tick @ u32_to_be i)))"
    unfolding get_tx_hashes_for_tick_def Let_def
    by (rule u32_be.prefix_scan [OF assms(1)]) (auto dest: w simp: copy_hash_def)
  then show ?thesis by (simp add: key_layouts case_prod_beta')
qed

lemma tick_scans:
  assumes "rocks_ok R entries" "warm_reachable R entries db"
  shows "get_tx_hashes_for_tick R tick db
      = Ok (map snd (index_block (entries db CF_TX_BY_TICK) (tick_key tick)))
    \<and> get_votes_for_tick R tick db
      = Ok (index_block (entries db CF_TICK_VOTE) (\<lambda>i. u32_to_be tick @ u16_to_be i))
    \<and> count_votes_for_tick R tick db
      = Ok (length (index_block (entries db CF_TICK_VOTE) (\<lambda>i. u32_to_be tick @ u16_to_be i)))
    \<and> get_custom_messages_for_tick R tick db
      = Ok (map snd (index_block (entries db CF_CUSTOM_MESSAGE) (tick_key tick)))
    \<and> count_custom_messages_for_tick R tick db
      = Ok (length (index_block (entries db CF_CUSTOM_MESSAGE) (tick_key tick)))
    \<and> get_log_events_for_tick R tick db
      = Ok (map snd (index_block (entries db CF_LOG_EVENT) (\<lambda>(i, ty). log_event_key tick i ty)))"
proof -
  note w = reachable_widths [OF assms(2,1)]
  note scans = u16_be.prefix_scan [OF assms(1), where p = "u32_to_be tick", OF w(6) [THEN trans]]
    u32_be.prefix_scan [OF assms(1), where p = "u32_to_be tick", OF w(4) [THEN trans]]
    event_be.prefix_scan [OF assms(1), where p = "u32_to_be tick", OF w(5) [THEN trans]]
  have votes: "scan R CF_TICK_VOTE (From (u32_to_be tick)) (same_prefix 6 (u32_to_be tick)
      (\<lambda>k v. g (u16_from_be (drop 4 k)) v)) db
    = Ok (map (\<lambda>(i, v). g i v) (index_block (entries db CF_TICK_VOTE) (\<lambda>i. u32_to_be tick @ u16_to_be i)))"
    for g :: "u16 \<Rightarrow> bytes \<Rightarrow> 'b"
    by (rule scans(1)) (simp_all add: same_prefix_def w)
  have messages: "scan R CF_CUSTOM_MESSAGE (From (u32_to_be tick)) (same_prefix 8 (u32_to_be tick)
      (\<lambda>k v. g v)) db
    = Ok (map (\<lambda>(i, v). g v) (index_block (entries db CF_CUSTOM_MESSAGE) (tick_key tick)))"
    for g :: "bytes \<Rightarrow> 'b"
    unfolding key_layouts by (rule scans(2)) (simp_all add: same_prefix_def w)
  have events: "scan R CF_LOG_EVENT (From (u32_to_be tick)) (same_prefix 9 (u32_to_be tick) (\<lambda>_ v. v)) db
    = Ok (map (\<lambda>(i, v). v) (index_block (entries db CF_LOG_EVENT) (\<lambda>(i, ty). log_event_key tick i ty)))"
    unfolding key_layouts by (rule scans(3)) (simp_all add: same_prefix_def w)
  show ?thesis
    using tick_scan [OF assms] votes [of Pair] votes [of "\<lambda>_ _. ()"] messages [of "\<lambda>v. v"] messages [of "\<lambda>_. ()"] events
    by (simp add: get_votes_for_tick_def count_votes_for_tick_def get_custom_messages_for_tick_def
        count_custom_messages_for_tick_def get_log_events_for_tick_def case_prod_beta')
qed

text \<open>
  C16: in every database the write operations reach on a healthy store, the transactions, votes,
  custom messages and log events of a tick are read back completely, without a panic, in the order
  of their indexes, and the counts agree with what is read.
\<close>

theorem tick_indexes_complete:
  assumes "rocks_ok R entries" "warm_reachable R entries db"
  shows "get_tx_hashes_for_tick R tick db
      = Ok (map snd (index_block (entries db CF_TX_BY_TICK) (tick_key tick)))
    \<and> get_votes_for_tick R tick db
      = Ok (index_block (entries db CF_TICK_VOTE) (\<lambda>i. u32_to_be tick @ u16_to_be i))
    \<and> count_votes_for_tick R tick db
      = Ok (length (index_block (entries db CF_TICK_VOTE) (\<lambda>i. u32_to_be tick @ u16_to_be i)))
    \<and> get_custom_messages_for_tick R tick db
      = Ok (map snd (index_block (entries db CF_CUSTOM_MESSAGE) (tick_key tick)))
    \<and> count_custom_messages_for_tick R tick db
      = Ok (length (index_block (entries db CF_CUSTOM_MESSAGE) (tick_key tick)))
    \<and> get_log_events_for_tick R tick db
      = Ok (map snd (index_block (entries db CF_LOG_EVENT) (\<lambda>(i, ty). log_event_key tick i ty)))"
  using assms by (rule tick_scans)

lemma le_replicate_max: "xs \<le> replicate (length xs) (0xFF :: u8)"
proof (induction xs)
  case (Cons x xs)
  have "x \<le> 0xFF" using unat_byte_lt [of x] by (simp add: word_le_nat_alt)
  then show ?case using Cons by (auto simp: le_less)
qed simp

lemma entity_scan:
  assumes "rocks_ok R entries" "warm_reachable R entries db" "length entity = 32"
  shows "get_tx_hashes_for_entity R entity limit db = Ok (take limit (rev (map snd
      (index_block (entries db CF_TX_BY_ENTITY) (\<lambda>(t, i). entity_key entity t i)))))
    \<and> count_entity_transactions R entity db = Ok (word_of_nat (length
      (index_block (entries db CF_TX_BY_ENTITY) (\<lambda>(t, i). entity_key entity t i))))"
proof -
  note w = reachable_widths(3) [OF assms(2,1)]
  have max: "entity @ pair_to_be i \<le> entity @ replicate 8 0xFF" for i
    using le_replicate_max [of "pair_to_be i"]
    by (simp add: list_le_append_same_length pair_be.length_enc)
  have "get_tx_hashes_for_entity R entity limit db = Ok (map (\<lambda>(i, v). v) (take limit (rev
      (index_block (entries db CF_TX_BY_ENTITY) (\<lambda>ti. entity @ pair_to_be ti)))))"
    unfolding get_tx_hashes_for_entity_def Let_def
    by (rule pair_be.prefix_scan_back [OF assms(1)])
      (auto dest: w simp: copy_hash_def assms(3) max)
  moreover have "scan R CF_TX_BY_ENTITY (From entity) (\<lambda>_ key value.
       if length key \<noteq> 40 \<or> take 32 key \<noteq> entity then Ok Break else Ok (Push ())) db
     = Ok (map (\<lambda>(i, v). ()) (index_block (entries db CF_TX_BY_ENTITY) (\<lambda>ti. entity @ pair_to_be ti)))"
    by (rule pair_be.prefix_scan [OF assms(1)]) (auto dest: w simp: assms(3))
  ultimately show ?thesis
    unfolding key_layouts by (simp add: count_entity_transactions_def case_prod_beta' take_map rev_map)
qed

text \<open>
  in every database the write operations reach on a healthy store, the transactions of an
  entity are returned newest first, by tick and index, up to the limit, and counted completely.
\<close>

theorem entity_transactions_newest_first:
  assumes "rocks_ok R entries" "warm_reachable R entries db" "length entity = 32"
  shows "get_tx_hashes_for_entity R entity limit db = Ok (take limit (rev (map snd
      (index_block (entries db CF_TX_BY_ENTITY) (\<lambda>(t, i). entity_key entity t i)))))
    \<and> count_entity_transactions R entity db = Ok (word_of_nat (length
      (index_block (entries db CF_TX_BY_ENTITY) (\<lambda>(t, i). entity_key entity t i))))"
  using assms by (rule entity_scan)

text \<open>The loop of the history: skip \<open>offset\<close> entries, resolve the rest, stop at the limit.\<close>

definition resolve :: "(bytes \<Rightarrow> bytes option) \<Rightarrow> (u32 \<times> u32) \<times> bytes \<Rightarrow> (u32 \<times> bytes) option" where
  "resolve txs e = map_option (Pair (fst (fst e))) (txs (snd e))"

definition in_epoch :: "epoch_range list \<Rightarrow> u16 option \<Rightarrow> u32 \<Rightarrow> bool" where
  "in_epoch ranges epoch_filter tick = (case epoch_filter of None \<Rightarrow> True | Some epoch \<Rightarrow>
     (case get_epoch_range ranges epoch of None \<Rightarrow> False
      | Some r \<Rightarrow> er_first_tick r \<le> tick \<and> tick \<le> er_last_tick r))"

abbreviation entity_entry :: "bytes \<times> bytes \<Rightarrow> (u32 \<times> u32) \<times> bytes" where
  "entity_entry e \<equiv> (pair_from_be (drop 32 (fst e)), snd e)"

lemma map_filter_Cons:
  "List.map_filter f (x # xs) = (case f x of None \<Rightarrow> List.map_filter f xs | Some y \<Rightarrow> y # List.map_filter f xs)"
  by (simp add: List.map_filter_def split: option.split)

lemma history_loop_page:
  assumes "rocks_ok R entries" and "\<And>k v. (k, v) \<in> set es \<Longrightarrow> length k = 40 \<and> length v = 32"
    and "\<And>t. ticks_ok t = (case upper of None \<Rightarrow> True | Some u \<Rightarrow> t \<le> u)"
  shows "history_loop R entity upper offset limit db skipped found (map Ok es)
    = Ok (take (limit - found) (List.map_filter (\<lambda>e. resolve (map_of (entries db CF_TX)) (entity_entry e))
        (drop (offset - skipped) (takeWhile (\<lambda>e. take 32 (fst e) = entity \<and>
           ticks_ok (fst (pair_from_be (drop 32 (fst e))))) es))))"
  using assms(2)
proof (induction es arbitrary: skipped found)
  case (Cons e es)
  obtain k v where e: "e = (k, v)" by (cases e)
  have kv: "length k = 40" "length v = 32" using Cons.prems [of k v] e by auto
  have IH: "history_loop R entity upper offset limit db s f (map Ok es)
    = Ok (take (limit - f) (List.map_filter (\<lambda>e. resolve (map_of (entries db CF_TX)) (entity_entry e))
        (drop (offset - s) (takeWhile (\<lambda>e. take 32 (fst e) = entity \<and>
           ticks_ok (fst (pair_from_be (drop 32 (fst e))))) es))))" for s f
    by (rule Cons.IH) (use Cons.prems in auto)
  show ?case
  proof (cases "take 32 k = entity \<and> ticks_ok (fst (pair_from_be (drop 32 k)))")
    case False
    then show ?thesis
      by (cases upper) (auto simp: e kv assms(3) pair_from_be_def map_filter_simps Let_def)
  next
    case True
    then have "\<not> (case upper of Some u \<Rightarrow> u < u32_from_be (take 4 (drop 32 k)) | None \<Rightarrow> False)"
      by (auto simp: assms(3) pair_from_be_def split: option.splits)
    then show ?thesis
      using True
      by (cases "skipped < offset"; cases "limit \<le> found"; cases "map_of (entries db CF_TX) v")
        (simp_all add: e kv IH get_tx_def rocks_get [OF assms(1)] resolve_def pair_from_be_def
          map_filter_Cons Suc_diff_Suc [symmetric] not_le not_less Suc_diff_le)
  qed
qed (simp add: map_filter_simps)

lemma entity_key_parts:
  assumes "length k = 40" "take 32 k = entity"
  shows "k = entity @ u32_to_be (fst (pair_from_be (drop 32 k))) @ u32_to_be (snd (pair_from_be (drop 32 k)))"
  using assms append_take_drop_id [of 32 k] pair_be.enc_dec [of "drop 32 k"] by (simp add: pair_to_be_def)

lemma entity_start_le:
  "entity @ u32_to_be lo @ u32_to_be 0 \<le> entity @ u32_to_be t @ u32_to_be i \<longleftrightarrow> lo \<le> t"
  using list_le_append_same_length [of entity entity] u32_be.enc_append_le [of lo _ t]
  by (simp add: u32_be.enc_le le_less [of lo])

lemma entity_tick_mono:
  "entity @ u32_to_be t @ r \<le> entity @ u32_to_be t' @ r' \<Longrightarrow> t \<le> t'"
  using list_le_append_same_length [of entity entity] u32_be.enc_append_le [of t r t' r'] by auto

lemma entity_range:
  assumes "ascending es" "\<And>k v. (k, v) \<in> set es \<Longrightarrow> length k = 40" "length entity = 32"
  shows "takeWhile (\<lambda>e. take 32 (fst e) = entity \<and> fst (pair_from_be (drop 32 (fst e))) \<le> hi)
      (iterate (From (entity_key entity lo 0)) es)
    = filter (\<lambda>e. take 32 (fst e) = entity \<and> lo \<le> fst (pair_from_be (drop 32 (fst e)))
        \<and> fst (pair_from_be (drop 32 (fst e))) \<le> hi) es"
proof -
  let ?t = "\<lambda>k. fst (pair_from_be (drop 32 k))" and ?start = "entity_key entity lo 0"
  let ?P = "\<lambda>k. take 32 k = entity \<and> lo \<le> ?t k \<and> ?t k \<le> hi"
  have start: "?start \<le> k \<longleftrightarrow> lo \<le> ?t k" if "length k = 40" "take 32 k = entity" for k
    using entity_start_le entity_key_parts [OF that] unfolding entity_key_def by metis
  have "takeWhile (\<lambda>e. take 32 (fst e) = entity \<and> ?t (fst e) \<le> hi) (iterate (From ?start) es)
    = takeWhile (\<lambda>e. ?P (fst e)) (iterate (From ?start) es)"
    by (rule takeWhile_cong) (use start assms(2) in auto)
  also have "\<dots> = filter (\<lambda>e. ?P (fst e)) es"
  proof (rule takeWhile_interval [OF assms(1)])
    fix e assume "e \<in> set es" "?P (fst e)"
    then show "?start \<le> fst e" using start assms(2) by (metis prod.collapse)
  next
    fix e e' assume *: "e \<in> set es" "e' \<in> set es" "?start \<le> fst e" "fst e \<le> fst e'" "?P (fst e')"
    have "entity \<le> ?start" by (simp add: entity_key_def has_prefix_le)
    then have pre: "take 32 (fst e) = entity"
      using prefix_convex [of entity "fst e" "fst e'"] * assms(3) by (metis order_trans)
    have len: "length (fst e) = 40" "length (fst e') = 40" using assms(2) * by (metis prod.collapse)+
    have "?t (fst e) \<le> ?t (fst e')"
      using *(4) entity_tick_mono entity_key_parts [OF len(1) pre]
        entity_key_parts [OF len(2) conjunct1 [OF *(5)]] by metis
    then show "?P (fst e)" using pre start [OF len(1) pre] * by auto
  qed
  finally show ?thesis .
qed

lemma entity_history_page:
  assumes "rocks_ok R entries" "warm_reachable R entries db" "length entity = 32"
  shows "get_entity_history R ranges entity epoch_filter offset limit db
    = Ok (take limit (List.map_filter (resolve (map_of (entries db CF_TX)))
        (drop offset (filter (\<lambda>e. in_epoch ranges epoch_filter (fst (fst e)))
          (index_block (entries db CF_TX_BY_ENTITY) (\<lambda>(t, i). entity_key entity t i))))))"
proof -
  let ?es = "entries db CF_TX_BY_ENTITY"
  note w = reachable_widths(3) [OF assms(2,1)]
  note asc = rocks_ascending [OF assms(1), of db CF_TX_BY_ENTITY]
  have block: "index_block ?es (\<lambda>(t, i). entity_key entity t i)
    = map entity_entry (filter (\<lambda>e. take 32 (fst e) = entity) ?es)"
    unfolding key_layouts using pair_be.index_block_filter [OF asc, of entity] w
    by (simp add: assms(3) conj_imp_eq_imp_imp)
  have page: "history_loop R entity upper offset limit db 0 0 (iterator_cf R CF_TX_BY_ENTITY (From start) db)
    = Ok (take limit (List.map_filter (resolve (map_of (entries db CF_TX)))
        (drop offset (map entity_entry (takeWhile (\<lambda>e. take 32 (fst e) = entity \<and>
           (case upper of None \<Rightarrow> True | Some u \<Rightarrow> fst (pair_from_be (drop 32 (fst e))) \<le> u))
           (iterate (From start) ?es))))))" for upper start
    unfolding rocks_iterator [OF assms(1)]
    by (subst history_loop_page [OF assms(1)]) (auto dest: w simp: List.map_filter_def drop_map filter_map o_def)
  show ?thesis
  proof (cases epoch_filter)
    case None
    then show ?thesis
      using takeWhile_prefix [OF asc, of entity]
      by (simp add: get_entity_history_def page in_epoch_def block assms(3) del: iterate.simps)
  next
    case (Some epoch)
    show ?thesis
    proof (cases "get_epoch_range ranges epoch")
      case (Some r)
      then show ?thesis
        using \<open>epoch_filter = Some epoch\<close> entity_range [OF asc conjunct1 [OF w] assms(3)]
        by (simp add: get_entity_history_def page in_epoch_def block filter_map o_def del: iterate.simps)
    qed (simp add: get_entity_history_def in_epoch_def \<open>epoch_filter = Some epoch\<close> map_filter_simps)
  qed
qed

text \<open>
  C28: the history of an entity is one page of its transactions in ascending order of tick and
  index, restricted to the epoch if one is given: \<open>offset\<close> index entries are skipped, and of the
  rest the first \<open>limit\<close> whose transaction is stored are returned, each with its tick.  An unknown
  epoch gives an empty page.
\<close>

theorem get_entity_history_page:
  assumes "rocks_ok R entries" "warm_reachable R entries db" "length entity = 32"
  shows "get_entity_history R ranges entity epoch_filter offset limit db
    = Ok (take limit (List.map_filter (resolve (map_of (entries db CF_TX)))
        (drop offset (filter (\<lambda>e. in_epoch ranges epoch_filter (fst (fst e)))
          (index_block (entries db CF_TX_BY_ENTITY) (\<lambda>(t, i). entity_key entity t i))))))"
  using assms by (rule entity_history_page)

lemma tick_block:
  assumes "rocks_ok R entries" "warm_reachable R entries db"
  shows "map (\<lambda>e. (u32_from_be (fst e), snd e)) (entries db CF_TICK) = index_block (entries db CF_TICK) u32_to_be"
  using u32_be.index_block_filter [OF rocks_ascending [OF assms(1)], of db CF_TICK "[]"]
    reachable_widths(1) [OF assms(2,1)] by simp

lemma last_sorted_list_of_set: "finite A \<Longrightarrow> A \<noteq> {} \<Longrightarrow> last (sorted_list_of_set A) = Max A"
proof (rule Max_eqI [symmetric])
  fix y assume *: "finite A" "A \<noteq> {}" "y \<in> A"
  then obtain xs x where xs: "sorted_list_of_set A = xs @ [x]"
    by (metis rev_exhaust set_sorted_list_of_set list.set(1))
  have "y \<in> set (xs @ [x])" using * xs by (metis set_sorted_list_of_set)
  moreover have "sorted (xs @ [x])" using xs sorted_sorted_list_of_set by metis
  ultimately show "y \<le> last (sorted_list_of_set A)" by (auto simp: xs sorted_append)
qed (simp_all, metis last_in_set set_sorted_list_of_set sorted_list_of_set_eq_Nil_iff)

lemma last_of_index:
  assumes "map f xs = sorted_list_of_set A" "finite A"
  shows "(if xs = [] then None else Some (f (last xs))) = (if A = {} then None else Some (Max A))"
proof (cases "xs = []")
  case True
  then have "sorted_list_of_set A = []" using assms(1) by simp
  then show ?thesis using assms(2) True by simp
next
  case False
  then have ne: "A \<noteq> {}" using assms by auto
  have "f (last xs) = last (map f xs)" using False by (simp add: last_map)
  then show ?thesis using False ne last_sorted_list_of_set [OF assms(2) ne] assms(1) by simp
qed

lemma tick_range_latest_scans:
  assumes "rocks_ok R entries" "warm_reachable R entries db"
  shows "get_tick_range R lo hi db
      = Ok (filter (\<lambda>e. lo \<le> fst e \<and> fst e \<le> hi) (index_block (entries db CF_TICK) u32_to_be))
    \<and> get_latest_tick R db
      = Ok (if \<forall>t. warm_get_tick R t db = Ok None then None
            else Some (Max {t. warm_get_tick R t db \<noteq> Ok None}))"
proof
  let ?es = "entries db CF_TICK"
  note w = reachable_widths(1) [OF assms(2,1)]
  note asc = rocks_ascending [OF assms(1), of db CF_TICK]
  let ?P = "\<lambda>k. lo \<le> u32_from_be k \<and> u32_from_be k \<le> hi"
  have le: "k \<le> k' \<longleftrightarrow> u32_from_be k \<le> u32_from_be k'" if "length k = 4" "length k' = 4" for k k'
    using that u32_be.enc_le u32_be.enc_dec by metis
  have start: "u32_to_be lo \<le> k \<longleftrightarrow> lo \<le> u32_from_be k" if "(k, v) \<in> set ?es" for k v
    using le [of "u32_to_be lo" k] w [OF that] by simp
  have "get_tick_range R lo hi db = Ok (map (\<lambda>e. (u32_from_be (fst e), snd e))
      (takeWhile (\<lambda>e. ?P (fst e)) (iterate (From (u32_to_be lo)) ?es)))"
    unfolding get_tick_range_def scan_def rocks_iterator [OF assms(1)]
    by (rule scan_loop_while) (auto dest: w simp: start Let_def)
  also have "takeWhile (\<lambda>e. ?P (fst e)) (iterate (From (u32_to_be lo)) ?es) = filter (\<lambda>e. ?P (fst e)) ?es"
    by (rule takeWhile_interval [OF asc]) (auto simp: start le w)
  finally show "get_tick_range R lo hi db
      = Ok (filter (\<lambda>e. lo \<le> fst e \<and> fst e \<le> hi) (index_block ?es u32_to_be))"
    by (simp add: tick_block [OF assms, symmetric] filter_map o_def)
  let ?A = "{t. map_of ?es (u32_to_be t) \<noteq> None}"
  have fin: "finite ?A" using u32_be.finite_index [of ?es "[]"] by simp
  have keys: "map (\<lambda>e. u32_from_be (fst e)) ?es = sorted_list_of_set ?A"
    using arg_cong [OF tick_block [OF assms], of "map fst"] by (simp add: index_block_def o_def)
  have "get_latest_tick R db = Ok (if ?es = [] then None else Some (u32_from_be (fst (last ?es))))"
    unfolding get_latest_tick_def rocks_iterator [OF assms(1)]
    by (subst find_first_all, simp add: w)
      (cases ?es rule: rev_cases, simp_all add: case_prod_beta)
  also have "\<dots> = Ok (if ?A = {} then None else Some (Max ?A))"
    by (simp only: last_of_index [OF keys fin])
  finally show "get_latest_tick R db = Ok (if \<forall>t. warm_get_tick R t db = Ok None then None
      else Some (Max {t. warm_get_tick R t db \<noteq> Ok None}))"
    by (simp add: warm_get_tick_def rocks_get [OF assms(1)])
qed

text \<open>
  in every database the write operations reach on a healthy store, a tick range holds exactly
  the stored ticks between its bounds, both included, in ascending order with their data, and the
  latest tick is the greatest one stored.
\<close>

theorem tick_range_and_latest:
  assumes "rocks_ok R entries" "warm_reachable R entries db"
  shows "get_tick_range R lo hi db
      = Ok (filter (\<lambda>e. lo \<le> fst e \<and> fst e \<le> hi) (index_block (entries db CF_TICK) u32_to_be))
    \<and> get_latest_tick R db
      = Ok (if \<forall>t. warm_get_tick R t db = Ok None then None
            else Some (Max {t. warm_get_tick R t db \<noteq> Ok None}))"
  using assms by (rule tick_range_latest_scans)

lemmas tick_range_scan = tick_range_latest_scans [THEN conjunct1]
lemmas latest_tick_scan = tick_range_latest_scans [THEN conjunct2]

section \<open>Reading back what was written\<close>

lemma cf_neq [simp]:
  "CF_TX \<noteq> CF_TX_BY_TICK" "CF_TX_BY_TICK \<noteq> CF_TX" "CF_TX \<noteq> CF_TX_BY_ENTITY" "CF_TX_BY_ENTITY \<noteq> CF_TX"
  "CF_TX_BY_TICK \<noteq> CF_TX_BY_ENTITY" "CF_TX_BY_ENTITY \<noteq> CF_TX_BY_TICK"
  by (simp_all add: cf_defs)

lemma batch_put_tx_entries:
  assumes "\<And>cf. ascending (es cf)"
  shows "map_of (fold write_op (batch_put_tx hash d tick i source destination []) es CF_TX)
      = (map_of (es CF_TX))(hash \<mapsto> d)"
    and "map_of (fold write_op (batch_put_tx hash d tick i source destination []) es CF_TX_BY_TICK)
      = (map_of (es CF_TX_BY_TICK))(tick_key tick i \<mapsto> hash)"
    and "source = Some e \<or> destination = Some e \<Longrightarrow>
      map_of (fold write_op (batch_put_tx hash d tick i source destination []) es CF_TX_BY_ENTITY)
        (entity_key e tick i) = Some hash"
  using assms
  by (auto simp: batch_put_tx_def map_of_put_entry ascending_put_entry split: option.split)

lemma batch_put_tx_append:
  "batch_put_tx hash d tick i source destination batch
    = batch @ batch_put_tx hash d tick i source destination []"
  by (simp add: batch_put_tx_def)

text \<open>
  a transaction written in a batch is found afterwards by its hash, in the list of its tick
  and in the list of its source and of its destination, and no other transaction's data changes.
\<close>

theorem batch_put_tx_found:
  assumes ok: "rocks_ok R entries" "warm_reachable R entries db" "built batch" "length hash = 32"
    and parties: "\<forall>e. source = Some e \<or> destination = Some e \<longrightarrow> length e = 32"
    and written: "batch_write R (batch_put_tx hash d tick i source destination batch) db = (r, db')"
  shows "r = Ok () \<and> get_tx R hash db' = Ok (Some d)
    \<and> (\<forall>h. h \<noteq> hash \<longrightarrow> get_tx R h db' = get_tx R h (snd (batch_write R batch db)))
    \<and> (\<exists>hs. get_tx_hashes_for_tick R tick db' = Ok hs \<and> hash \<in> set hs)
    \<and> (\<forall>e. source = Some e \<or> destination = Some e \<longrightarrow>
        (\<exists>hs. (\<forall>limit. get_tx_hashes_for_entity R e limit db' = Ok (take limit hs)) \<and> hash \<in> set hs))"
proof -
  let ?es = "fold write_op batch (entries db)"
  let ?batch = "batch_put_tx hash d tick i source destination batch"
  have db': "db' = snd (batch_write R ?batch db)" and r: "r = Ok ()"
    using written rocks_batch(1) [OF ok(1), of ?batch db] by (simp_all add: batch_write_def)
  have asc: "ascending (?es cf)" for cf
    by (rule ascending_fold_write_op) (rule rocks_ascending [OF ok(1)])
  have ent: "entries db' = fold write_op (batch_put_tx hash d tick i source destination []) ?es"
    unfolding db' batch_put_tx_append [of _ _ _ _ _ _ batch]
    by (simp only: batch_write_def rocks_batch [OF ok(1)] fold_append o_apply)
  note lookups = batch_put_tx_entries [OF asc, where hash = hash and d = d and tick = tick and i = i
      and source = source and destination = destination]
  have "built ?batch" using ok parties by (intro built.add_tx) auto
  then have reach: "warm_reachable R entries db'"
    unfolding db' by (intro warm_reachable.step [OF ok(2)] warm_step.batch)
  have tick: "(i, hash) \<in> set (index_block (entries db' CF_TX_BY_TICK) (tick_key tick))"
    using lookups(2) unfolding key_layouts u32_be.in_index_block ent by simp
  have entity: "((tick, i), hash) \<in> set (index_block (entries db' CF_TX_BY_ENTITY) (\<lambda>(t, i). entity_key e t i))"
    if "source = Some e \<or> destination = Some e" for e
    using lookups(3) [OF that] unfolding key_layouts pair_be.in_index_block ent
    by (simp add: entity_key_def pair_to_be_def)
  have "\<exists>hs. (\<forall>limit. get_tx_hashes_for_entity R e limit db' = Ok (take limit hs)) \<and> hash \<in> set hs"
    if e: "source = Some e \<or> destination = Some e" for e
    by (intro exI [of _ "rev (map snd (index_block (entries db' CF_TX_BY_ENTITY) (\<lambda>(t, i). entity_key e t i)))"])
      (use entity_scan [OF ok(1) reach, of e] parties e imageI [OF entity [OF e], of snd] in auto)
  moreover have "\<exists>hs. get_tx_hashes_for_tick R tick db' = Ok hs \<and> hash \<in> set hs"
    using tick_scan [OF ok(1) reach] imageI [OF tick, of snd] by simp
  ultimately show ?thesis
    using lookups(1) rocks_batch(2) [OF ok(1), of batch db]
    by (simp add: get_tx_def rocks_get [OF ok(1)] batch_write_def r ent)
qed

lemma put_entry_twice: "put_entry k v' (put_entry k v es) = put_entry k v' es"
  by (induction k v es rule: put_entry.induct) auto

text \<open>
  A log event overwrites an earlier one of the same tick, transaction index and type: the
  database is the same as if the earlier event had never been stored.
\<close>

theorem put_log_event_overwrites:
  assumes "rocks_ok R entries"
  shows "entries (snd (put_log_event R tick i ty d' (snd (put_log_event R tick i ty d db))))
    = entries (snd (put_log_event R tick i ty d' db))"
  by (simp add: put_log_event_def rocks_put [OF assms] put_entry_twice)

text \<open>
  After a batch that ends with a tick, the tick is stored and is the current tick with its
  epoch, whatever was current before.
\<close>

theorem batch_put_tick_current:
  assumes "rocks_ok R entries" "batch_write R (batch_put_tick tick epoch d batch) db = (r, db')"
  shows "r = Ok () \<and> warm_get_tick R tick db' = Ok (Some d)
    \<and> warm_get_current_tick R db' = Ok (Some tick) \<and> warm_get_current_epoch R db' = Ok (Some epoch)"
proof -
  let ?es = "fold write_op batch (entries db)"
  have asc: "ascending (?es cf)" for cf
    by (rule ascending_fold_write_op) (rule rocks_ascending [OF assms(1)])
  have r: "r = Ok ()" and ent: "entries db' = fold write_op (batch_put_tick tick epoch d []) ?es"
    using assms(2) rocks_batch [OF assms(1), of "batch_put_tick tick epoch d batch" db]
    by (simp_all add: batch_write_def batch_put_tick_def)
  have cf: "CF_META \<noteq> CF_TICK" "ascii ''current_tick'' \<noteq> ascii ''current_epoch''"
    by (simp_all add: cf_defs ascii_def)
  show ?thesis
    using cf by (simp add: r ent warm_get_tick_def warm_get_current_tick_def warm_get_current_epoch_def
        get_meta_def rocks_get [OF assms(1)] batch_put_tick_def map_of_put_entry asc ascending_put_entry)
qed

section \<open>A concrete database\<close>

definition demo_batch :: "batch_op list" where
  "demo_batch = batch_put_tx (replicate 32 1) [9] 7 0 (Some (replicate 32 5)) (Some (replicate 32 6))
     (batch_put_tick 7 120 [8] create_batch)"

definition demo_db :: "batch_op list" where
  "demo_db = snd (put_log_event mem_rocks 7 0 1 [4] (snd (put_tick_vote mem_rocks 7 3 [2]
     (snd (batch_write mem_rocks demo_batch [])))))"

lemma demo_batch_built: "built demo_batch"
  unfolding demo_batch_def by (intro built.intros) auto

lemma demo_db_reachable: "warm_reachable mem_rocks mem_entries demo_db"
proof -
  have "warm_reachable mem_rocks mem_entries []"
    by (rule warm_reachable.empty) (simp add: mem_entries_def)
  then show ?thesis
    unfolding demo_db_def
    by (rule warm_reachable.step [OF warm_reachable.step [OF warm_reachable.step
      [OF _ warm_step.batch [OF demo_batch_built]] warm_step.put_tick_vote] warm_step.put_log_event])
qed

lemmas demo_db_ok = mem_rocks_ok demo_db_reachable

theorem tick_indexes_complete_witness:
  "get_tx_hashes_for_tick mem_rocks 7 demo_db
     = Ok (map snd (index_block (mem_entries demo_db CF_TX_BY_TICK) (tick_key 7)))
   \<and> count_votes_for_tick mem_rocks 7 demo_db
     = Ok (length (index_block (mem_entries demo_db CF_TICK_VOTE) (\<lambda>i. u32_to_be 7 @ u16_to_be i)))"
  using tick_indexes_complete [OF demo_db_ok, of 7] by blast

theorem get_entity_history_page_witness:
  "get_entity_history mem_rocks [] (replicate 32 5) None 0 10 demo_db
     = Ok (take 10 (List.map_filter (resolve (map_of (mem_entries demo_db CF_TX)))
         (drop 0 (filter (\<lambda>e. in_epoch [] None (fst (fst e)))
           (index_block (mem_entries demo_db CF_TX_BY_ENTITY) (\<lambda>(t, i). entity_key (replicate 32 5) t i))))))"
  by (rule get_entity_history_page [OF demo_db_ok]) simp

theorem entity_transactions_newest_first_witness:
  "get_tx_hashes_for_entity mem_rocks (replicate 32 5) 3 demo_db = Ok (take 3 (rev (map snd
      (index_block (mem_entries demo_db CF_TX_BY_ENTITY) (\<lambda>(t, i). entity_key (replicate 32 5) t i)))))"
  using entity_transactions_newest_first [OF demo_db_ok, of "replicate 32 5" 3] by simp

theorem tick_range_and_latest_witness:
  "get_tick_range mem_rocks 5 9 demo_db
     = Ok (filter (\<lambda>e. 5 \<le> fst e \<and> fst e \<le> 9) (index_block (mem_entries demo_db CF_TICK) u32_to_be))"
  using tick_range_and_latest [OF demo_db_ok, of 5 9] by blast

theorem batch_put_tx_found_witness:
  "\<exists>hs. get_tx_hashes_for_tick mem_rocks 8 (demo_db @ demo_batch @ batch_put_tx (replicate 32 2) [3] 8 1 None None [])
    = Ok hs \<and> replicate 32 2 \<in> set hs"
  using batch_put_tx_found [OF demo_db_ok demo_batch_built, of "replicate 32 2" None None "[3]" 8 1]
  by (simp add: batch_put_tx_append [of _ _ _ _ _ _ demo_batch] batch_write_def mem_rocks_def)

theorem put_log_event_overwrites_witness:
  "mem_entries (snd (put_log_event mem_rocks 7 0 1 [5] (snd (put_log_event mem_rocks 7 0 1 [4] demo_db))))
    = mem_entries (snd (put_log_event mem_rocks 7 0 1 [5] demo_db))"
  by (rule put_log_event_overwrites [OF mem_rocks_ok])

theorem batch_put_tick_current_witness:
  "warm_get_current_tick mem_rocks (demo_db @ batch_put_tick 3 119 [1] []) = Ok (Some 3)"
  using batch_put_tick_current [OF mem_rocks_ok, of 3 119 "[1]" "[]" demo_db]
  by (simp add: batch_write_def mem_rocks_def)

end
