(* ===== verification/Cold.thy ===== *)
theory Cold
  imports Warm Structs Strings
begin

text \<open>
  \<^verbatim>\<open>crates/storage/src/cold.rs\<close>: the export of an epoch to Parquet files.  The JSON reader
  (\<^verbatim>\<open>serde_json\<close>) and the file system with the Arrow and Parquet writers are parameters; what is
  modelled is which rows are written to which file, in which order, and when the export fails.  A
  text column holds the UTF-8 bytes of its strings.
\<close>

section \<open>Parameters\<close>

text \<open>
  \<open>field_u64 J v k\<close> is \<^verbatim>\<open>v[k].as_u64()\<close> on a \<^verbatim>\<open>serde_json::Value\<close>, and so on; \<open>de_\<dots>\<close> is
  \<^verbatim>\<open>serde_json::from_slice\<close> at a type, \<open>ser_\<dots>\<close> is \<^verbatim>\<open>serde_json::to_vec\<close>.
\<close>

datatype asset_type = Empty | Issuance | Ownership | Possession

record asset_record =
  as_asset_type :: asset_type
  as_managed :: bool
  as_issuing_entity :: bytes
  as_owning_entity :: bytes
  as_possessing_entity :: bytes
  as_issuance_index :: u32
  as_issuance_amount :: i64
  as_number_of_units :: i64
  as_unit_of_measurement :: u64
  as_denomination :: u32
  as_value_per_unit :: i64
  as_name :: string
  as_description :: string
  as_url :: string
  as_hash :: bytes
  as_managing_contract_index :: i32

record epoch_stats =
  es_epoch :: u16
  es_tick_count :: u32
  es_tx_count :: u64
  es_entity_count :: u64
  es_first_tick :: "u32 option"
  es_last_tick :: "u32 option"

record 'j serde =
  de_tick :: "bytes \<Rightarrow> tick_data option"
  de_tx :: "bytes \<Rightarrow> transaction option"
  de_entity :: "bytes \<Rightarrow> entity_data option"
  de_computors :: "bytes \<Rightarrow> computors option"
  de_asset :: "bytes \<Rightarrow> asset_record option"
  de_log_events :: "bytes \<Rightarrow> log_event list option"
  de_contract_ipo :: "bytes \<Rightarrow> contract_ipo option"
  de_epoch_stats :: "bytes \<Rightarrow> epoch_stats option"
  de_value :: "bytes \<Rightarrow> 'j option"
  field_u64 :: "'j \<Rightarrow> string \<Rightarrow> u64 option"
  field_i64 :: "'j \<Rightarrow> string \<Rightarrow> i64 option"
  field_str :: "'j \<Rightarrow> string \<Rightarrow> string option"
  ser_epoch_stats :: "epoch_stats \<Rightarrow> bytes outcome"
  ser_log_event :: "log_event \<Rightarrow> bytes outcome"

type_synonym tick_row = "u32 \<times> u16 \<times> u64 \<times> u16 \<times> bytes"
type_synonym tx_row = "u32 \<times> u16 \<times> string \<times> string \<times> i64 \<times> bytes"

datatype table = TickTable "tick_row list" | TxTable "tx_row list"

text \<open>
  \<open>write_parquet\<close> builds the record batch, creates the file and writes and closes it; \<open>read_dir\<close>
  lists the names in a directory, \<open>None\<close> when it does not exist.
\<close>

record 'f filesystem =
  create_dir_all :: "string \<Rightarrow> 'f \<Rightarrow> unit outcome \<times> 'f"
  write_parquet :: "string \<Rightarrow> table \<Rightarrow> 'f \<Rightarrow> unit outcome \<times> 'f"
  read_dir :: "string \<Rightarrow> 'f \<Rightarrow> string outcome list outcome option"

definition of_json :: "string \<Rightarrow> 'a option \<Rightarrow> 'a outcome" where
  "of_json what r = (case r of None \<Rightarrow> Err (Json what) | Some x \<Rightarrow> Ok x)"

definition u64_or_0 :: "'j serde \<Rightarrow> 'j \<Rightarrow> string \<Rightarrow> u64" where
  "u64_or_0 J v k = (case field_u64 J v k of None \<Rightarrow> 0 | Some n \<Rightarrow> n)"

section \<open>\<^verbatim>\<open>String::from_utf8_lossy\<close>\<close>

definition byte_at :: "bytes \<Rightarrow> nat \<Rightarrow> u8" where
  "byte_at bs i = (if i < length bs then bs ! i else 0)"

definition continuation :: "u8 \<Rightarrow> bool" where
  "continuation b \<longleftrightarrow> 0x80 \<le> b \<and> b \<le> 0xBF"

definition second_ok :: "u8 \<Rightarrow> u8 \<Rightarrow> bool" where
  "second_ok b c \<longleftrightarrow> continuation c \<and> (b = 0xE0 \<longrightarrow> 0xA0 \<le> c) \<and> (b = 0xED \<longrightarrow> c \<le> 0x9F)
     \<and> (b = 0xF0 \<longrightarrow> 0x90 \<le> c) \<and> (b = 0xF4 \<longrightarrow> c \<le> 0x8F)"

text \<open>Whether the sequence opened by \<open>b\<close> is well formed, and how many more bytes it takes up.\<close>

definition utf8_step :: "u8 \<Rightarrow> bytes \<Rightarrow> bool \<times> nat" where
  "utf8_step b bs =
     (if b < 0x80 then (True, 0)
      else if 0xC2 \<le> b \<and> b \<le> 0xDF
      then (if continuation (byte_at bs 0) then (True, 1) else (False, 0))
      else if 0xE0 \<le> b \<and> b \<le> 0xEF
      then (if \<not> second_ok b (byte_at bs 0) then (False, 0)
            else if continuation (byte_at bs 1) then (True, 2) else (False, 1))
      else if 0xF0 \<le> b \<and> b \<le> 0xF4
      then (if \<not> second_ok b (byte_at bs 0) then (False, 0)
            else if \<not> continuation (byte_at bs 1) then (False, 1)
            else if continuation (byte_at bs 2) then (True, 3) else (False, 2))
      else (False, 0))"

function utf8_lossy :: "bytes \<Rightarrow> bytes" where
  "utf8_lossy [] = []"
| "utf8_lossy (b # bs) =
     (let (ok, n) = utf8_step b bs
      in (if ok then b # take n bs else [0xEF, 0xBF, 0xBD]) @ utf8_lossy (drop n bs))"
  by pat_completeness auto
termination by (relation "measure length") auto

section \<open>The export\<close>

definition tick_row_of :: "'j serde \<Rightarrow> u32 \<times> bytes \<Rightarrow> tick_row outcome" where
  "tick_row_of J e = (case e of (tick_num, d) \<Rightarrow>
     bindR (of_json ''tick'' (de_value J d)) (\<lambda>val.
       Ok (tick_num, ucast (u64_or_0 J val ''epoch''), u64_or_0 J val ''timestamp'',
         ucast (u64_or_0 J val ''transaction_count''), utf8_lossy d)))"

definition export_ticks :: "'db rocks \<Rightarrow> 'j serde \<Rightarrow> 'f filesystem \<Rightarrow> string \<Rightarrow> u32 \<times> u32 \<Rightarrow> 'db \<Rightarrow> 'f
    \<Rightarrow> unit outcome \<times> 'f" where
  "export_ticks R J F dir rng db fs =
     bindS (liftS (get_tick_range R (fst rng) (snd rng) db) fs) (\<lambda>tick_data fs.
     bindS (liftS (mapM (tick_row_of J) tick_data) fs) (\<lambda>rows fs.
       if rows = [] then (Ok (), fs)
       else write_parquet F (dir @ ''/ticks.parquet'') (TickTable rows) fs))"

text \<open>A transaction that cannot be read is left out; one that cannot be parsed ends the export.\<close>

definition tx_rows_of :: "'db rocks \<Rightarrow> 'j serde \<Rightarrow> 'db \<Rightarrow> u32 \<Rightarrow> bytes \<Rightarrow> tx_row list outcome" where
  "tx_rows_of R J db tick_num hash =
     (case get_tx R hash db of
        Ok (Some d) \<Rightarrow>
          bindR (of_json ''transaction'' (de_value J d)) (\<lambda>val.
            Ok [(tick_num, ucast (u64_or_0 J val ''input_type''),
               (case field_str J val ''source_hex'' of None \<Rightarrow> '''' | Some s \<Rightarrow> s),
               (case field_str J val ''destination_hex'' of None \<Rightarrow> '''' | Some s \<Rightarrow> s),
               (case field_i64 J val ''amount'' of None \<Rightarrow> 0 | Some n \<Rightarrow> n), utf8_lossy d)])
      | Ok None \<Rightarrow> Ok []
      | Err e \<Rightarrow> Ok []
      | Panic p \<Rightarrow> Panic p)"

definition ticks_upto :: "u32 \<times> u32 \<Rightarrow> u32 list" where
  "ticks_upto rng = map word_of_nat [unat (fst rng)..<unat (snd rng) + 1]"

definition tx_rows :: "'db rocks \<Rightarrow> 'j serde \<Rightarrow> 'db \<Rightarrow> u32 \<times> u32 \<Rightarrow> tx_row list outcome" where
  "tx_rows R J db rng =
     bindR (mapM (\<lambda>tick_num.
       bindR (get_tx_hashes_for_tick R tick_num db) (\<lambda>hashes.
       bindR (mapM (tx_rows_of R J db tick_num) hashes) (\<lambda>rows. Ok (concat rows))))
       (ticks_upto rng)) (\<lambda>rows. Ok (concat rows))"

definition export_transactions :: "'db rocks \<Rightarrow> 'j serde \<Rightarrow> 'f filesystem \<Rightarrow> string \<Rightarrow> u32 \<times> u32 \<Rightarrow> 'db
    \<Rightarrow> 'f \<Rightarrow> unit outcome \<times> 'f" where
  "export_transactions R J F dir rng db fs =
     bindS (liftS (tx_rows R J db rng) fs) (\<lambda>rows fs.
       if rows = [] then (Ok (), fs)
       else write_parquet F (dir @ ''/transactions.parquet'') (TxTable rows) fs)"

definition epoch_dir_name :: "u16 \<Rightarrow> string" where
  "epoch_dir_name epoch = ''epoch_'' @ show_nat (unat epoch)"

definition export_epoch :: "'db rocks \<Rightarrow> 'j serde \<Rightarrow> 'f filesystem \<Rightarrow> string \<Rightarrow> u16 \<Rightarrow> u32 \<times> u32 \<Rightarrow> 'db \<Rightarrow> 'f
    \<Rightarrow> unit outcome \<times> 'f" where
  "export_epoch R J F base_path epoch rng db fs =
     (let epoch_dir = base_path @ ''/'' @ epoch_dir_name epoch
      in bindS (create_dir_all F epoch_dir fs) (\<lambda>_ fs.
         bindS (export_ticks R J F epoch_dir rng db fs) (\<lambda>_.
         export_transactions R J F epoch_dir rng db)))"

definition exported_epoch :: "string \<Rightarrow> u16 option" where
  "exported_epoch name =
     (if take 6 name = ''epoch_'' then parse_u16 (drop 6 name) else None)"

definition list_epochs :: "'f filesystem \<Rightarrow> string \<Rightarrow> 'f \<Rightarrow> u16 list outcome" where
  "list_epochs F base_path fs =
     (case read_dir F base_path fs of
        None \<Rightarrow> Ok []
      | Some r \<Rightarrow>
          bindR r (\<lambda>dir_entries. bindR (mapM (\<lambda>e. e) dir_entries) (\<lambda>names.
            Ok (sort (List.map_filter exported_epoch names)))))"

end
