(* ===== verification/Json.thy ===== *)
theory Json
  imports Cold "HOL-Library.AList"
begin

text \<open>
  The values the query crate works on: the tree of \<^verbatim>\<open>serde_json::Value\<close> with the
  accessors the handlers call on it, and the parameter extraction of \<^verbatim>\<open>crates/query/src/rpc.rs\<close>.  Parsing text into a tree is the parameter
  \<open>de_value\<close> of theory \<open>Cold\<close>.  A string is the sequence of its UTF-8 bytes as characters, so that
  \<^verbatim>\<open>str::len\<close> is \<open>length\<close>; an object is an association list.
\<close>

section \<open>JSON values\<close>

datatype json =
    JNull
  | JBool bool
  | JInt int
  | JFloat rat
  | JStr string
  | JArr "json list"
  | JObj "(string \<times> json) list"

definition as_u64 :: "json \<Rightarrow> u64 option" where
  "as_u64 v = (case v of JInt n \<Rightarrow> if 0 \<le> n \<and> n < 2 ^ 64 then Some (word_of_int n) else None | _ \<Rightarrow> None)"

definition as_str :: "json \<Rightarrow> string option" where
  "as_str v = (case v of JStr s \<Rightarrow> Some s | _ \<Rightarrow> None)"

definition as_array :: "json \<Rightarrow> json list option" where
  "as_array v = (case v of JArr vs \<Rightarrow> Some vs | _ \<Rightarrow> None)"

definition obj_get :: "json \<Rightarrow> string \<Rightarrow> json option" where
  "obj_get v k = (case v of JObj kvs \<Rightarrow> map_of kvs k | _ \<Rightarrow> None)"

definition obj_insert :: "string \<Rightarrow> json \<Rightarrow> json \<Rightarrow> json" where
  "obj_insert k x v = (case v of JObj kvs \<Rightarrow> JObj (AList.update k x kvs) | _ \<Rightarrow> v)"

definition arr_get :: "json list \<Rightarrow> nat \<Rightarrow> json option" where
  "arr_get vs i = (if i < length vs then Some (vs ! i) else None)"

text \<open>\<^verbatim>\<open>json!(n)\<close> of an unsigned word, \<^verbatim>\<open>json!(key)\<close> of a byte array and \<^verbatim>\<open>json!(option)\<close>.\<close>

definition jword :: "'a::len word \<Rightarrow> json" where
  "jword w = JInt (uint w)"

definition jbytes :: "bytes \<Rightarrow> json" where
  "jbytes bs = JArr (map jword bs)"

definition jopt :: "json option \<Rightarrow> json" where
  "jopt v = (case v of None \<Rightarrow> JNull | Some x \<Rightarrow> x)"

lemma obj_get_insert [simp]: "obj_get (obj_insert k x (JObj kvs)) k' = (if k' = k then Some x else obj_get (JObj kvs) k')"
  by (simp add: obj_get_def obj_insert_def update_conv)

lemma inj_jword: "inj (jword :: 'a::len word \<Rightarrow> json)"
  by (rule injI) (simp add: jword_def word_uint_eq_iff)

lemma jbytes_inject [simp]: "jbytes a = jbytes b \<longleftrightarrow> a = b"
  by (simp add: jbytes_def inj_map_eq_map [OF inj_jword])

section \<open>Parameters of a JSON-RPC call\<close>

text \<open>\<^verbatim>\<open>ok_or_else(|| anyhow!(msg))\<close>: an error of the code's own, with its text.\<close>

definition ok_or :: "string \<Rightarrow> 'a option \<Rightarrow> 'a outcome" where
  "ok_or msg r = (case r of None \<Rightarrow> Err (Other msg) | Some x \<Rightarrow> Ok x)"

definition params_array :: "json option \<Rightarrow> json list outcome" where
  "params_array params =
     bindR (ok_or ''Missing params'' params) (\<lambda>p. ok_or ''Params must be array'' (as_array p))"

definition missing_param :: "nat \<Rightarrow> string" where
  "missing_param i = ''Missing param at index '' @ show_nat i"

definition extract_string_param :: "json option \<Rightarrow> nat \<Rightarrow> string outcome" where
  "extract_string_param params i =
     bindR (params_array params) (\<lambda>arr. ok_or (missing_param i) (Option.bind (arr_get arr i) as_str))"

definition extract_u32_param :: "json option \<Rightarrow> nat \<Rightarrow> u32 outcome" where
  "extract_u32_param params i =
     bindR (params_array params) (\<lambda>arr.
       ok_or (missing_param i) (map_option ucast (Option.bind (arr_get arr i) as_u64)))"

definition extract_optional_u16_param :: "json option \<Rightarrow> nat \<Rightarrow> u16 option outcome" where
  "extract_optional_u16_param params i =
     bindR (params_array params) (\<lambda>arr. Ok (map_option ucast (Option.bind (arr_get arr i) as_u64)))"

definition extract_u16_param :: "json option \<Rightarrow> nat \<Rightarrow> u16 outcome" where
  "extract_u16_param params i =
     bindR (params_array params) (\<lambda>arr.
       ok_or (missing_param i) (map_option ucast (Option.bind (arr_get arr i) as_u64)))"

lemma extract_string_Ok:
  "extract_string_param (Some (JArr vs)) i = Ok s \<longleftrightarrow> i < length vs \<and> vs ! i = JStr s"
  by (cases "i < length vs"; cases "vs ! i")
    (simp_all add: extract_string_param_def params_array_def ok_or_def as_array_def arr_get_def as_str_def)

lemma extract_u32_Ok:
  "extract_u32_param (Some (JArr vs)) i = Ok n \<longleftrightarrow>
     i < length vs \<and> (\<exists>k. vs ! i = JInt k \<and> 0 \<le> k \<and> k < 2 ^ 64 \<and> n = ucast (word_of_int k :: u64))"
  by (cases "i < length vs"; cases "vs ! i")
    (auto simp: extract_u32_param_def params_array_def ok_or_def as_array_def arr_get_def as_u64_def
      simp del: of_int_add)

text \<open>
  The three messages of the extraction, as the error classification recognises them; extraction
  gives no other error and does not panic.
\<close>

definition param_message :: "string \<Rightarrow> bool" where
  "param_message msg \<longleftrightarrow> starts_with msg ''Missing params'' \<or> starts_with msg ''Params must be array''
     \<or> starts_with msg ''Missing param at index''"

definition param_failure :: "'a outcome \<Rightarrow> bool" where
  "param_failure r \<longleftrightarrow> (\<exists>msg. r = Err (Other msg) \<and> param_message msg)"

lemma param_messages [simp]:
  "param_message ''Missing params''" "param_message ''Params must be array''"
  "param_message (missing_param i)"
  by (simp_all add: param_message_def starts_with_def missing_param_def)

lemma extract_cases:
  "is_ok (extract_string_param params i) \<or> param_failure (extract_string_param params i)"
  "is_ok (extract_u32_param params i) \<or> param_failure (extract_u32_param params i)"
  "is_ok (extract_u16_param params i) \<or> param_failure (extract_u16_param params i)"
  "is_ok (extract_optional_u16_param params i) \<or> param_failure (extract_optional_u16_param params i)"
  by (auto simp: extract_string_param_def extract_u32_param_def extract_u16_param_def param_failure_def
      extract_optional_u16_param_def params_array_def ok_or_def split: option.splits)

end
