(* ===== verification/Indexer.thy ===== *)
theory Indexer
  imports Cold Identity Pipeline
begin

text \<open>
  \<^verbatim>\<open>crates/processor/src/indexer.rs\<close> and the per-message part of \<^verbatim>\<open>consumer.rs\<close>: every handler
  turns one JSON payload into writes of the warm index.  The state is what the handlers share: the
  database, the pipeline counters, the two atomics that number transactions, and the file system
  the cold export writes to.  A handler contains no suspension point, so a task runs it without
  interruption; a sequence of messages is a sequence of handler calls.
\<close>

record ('db, 'j, 'f) env =
  rocks :: "'db rocks"
  serde :: "'j serde"
  ext :: ext
  fsys :: "'f filesystem"
  data_dir :: string

record ('db, 'f) indexer =
  storage :: 'db
  pipeline :: pipeline_state
  tx_last_tick :: u32
  tx_counter :: u32
  cold_files :: 'f

definition new_indexer :: "'db \<Rightarrow> pipeline_state \<Rightarrow> 'f \<Rightarrow> ('db, 'f) indexer" where
  "new_indexer db pl fs = \<lparr>storage = db, pipeline = pl, tx_last_tick = 0, tx_counter = 0, cold_files = fs\<rparr>"

text \<open>A call on the database, and one on the file system whose error is only logged.\<close>

definition on_storage :: "('db \<Rightarrow> 'a outcome \<times> 'db) \<Rightarrow> ('db, 'f) indexer \<Rightarrow> 'a outcome \<times> ('db, 'f) indexer" where
  "on_storage f s = (let (r, db) = f (storage s) in (r, s\<lparr>storage := db\<rparr>))"

definition logged :: "('f \<Rightarrow> unit outcome \<times> 'f) \<Rightarrow> ('db, 'f) indexer \<Rightarrow> unit outcome \<times> ('db, 'f) indexer" where
  "logged f s = (let (r, fs) = f (cold_files s); s' = s\<lparr>cold_files := fs\<rparr>
     in case r of Panic p \<Rightarrow> (Panic p, s') | _ \<Rightarrow> (Ok (), s'))"

definition update_pipeline :: "(pipeline_state \<Rightarrow> pipeline_state) \<Rightarrow> ('db, 'f) indexer \<Rightarrow> ('db, 'f) indexer" where
  "update_pipeline f s = s\<lparr>pipeline := f (pipeline s)\<rparr>"

section \<open>Epoch statistics\<close>

definition default_stats :: epoch_stats where
  "default_stats = \<lparr>es_epoch = 0, es_tick_count = 0, es_tx_count = 0, es_entity_count = 0,
     es_first_tick = None, es_last_tick = None\<rparr>"

definition stats_of :: "'j serde \<Rightarrow> u16 \<Rightarrow> bytes option \<Rightarrow> epoch_stats" where
  "stats_of J epoch stored =
     (case stored of
        Some d \<Rightarrow> (case de_epoch_stats J d of Some stats \<Rightarrow> stats | None \<Rightarrow> default_stats)
      | None \<Rightarrow> default_stats\<lparr>es_epoch := epoch\<rparr>)"

definition update_epoch_stats :: "('db, 'j, 'f) env \<Rightarrow> u16 \<Rightarrow> (epoch_stats \<Rightarrow> epoch_stats) \<Rightarrow> ('db, 'f) indexer
    \<Rightarrow> unit outcome \<times> ('db, 'f) indexer" where
  "update_epoch_stats E epoch f s =
     bindS (liftS (get_epoch_stats (rocks E) epoch (storage s)) s) (\<lambda>stored s.
     bindS (liftS (ser_epoch_stats (serde E) (f (stats_of (serde E) epoch stored))) s) (\<lambda>json.
       on_storage (put_epoch_stats (rocks E) epoch json)))"

text \<open>The mutation a tick applies, and the call the transaction and entity handlers make.\<close>

definition count_tick :: "u32 \<Rightarrow> epoch_stats \<Rightarrow> epoch_stats" where
  "count_tick tick_num stats = stats\<lparr>es_tick_count := es_tick_count stats + 1,
     es_first_tick := Some (min (case es_first_tick stats of None \<Rightarrow> tick_num | Some t \<Rightarrow> t) tick_num),
     es_last_tick := Some (max (case es_last_tick stats of None \<Rightarrow> tick_num | Some t \<Rightarrow> t) tick_num)\<rparr>"

definition update_current_stats :: "('db, 'j, 'f) env \<Rightarrow> (epoch_stats \<Rightarrow> epoch_stats) \<Rightarrow> ('db, 'f) indexer
    \<Rightarrow> unit outcome \<times> ('db, 'f) indexer" where
  "update_current_stats E f s =
     (let epoch = indexed_epoch (pipeline s)
      in if 0 < epoch then update_epoch_stats E epoch f s else (Ok (), s))"

section \<open>Handlers\<close>

definition store_indexed :: "tick_data \<Rightarrow> pipeline_state \<Rightarrow> pipeline_state" where
  "store_indexed tick pl = pl\<lparr>indexed_tick := td_tick tick, indexed_epoch := td_epoch tick,
     ticks_indexed := ticks_indexed pl + 1, total_ticks_indexed := total_ticks_indexed pl + 1\<rparr>"

definition export_previous :: "('db, 'j, 'f) env \<Rightarrow> tick_data \<Rightarrow> ('db, 'f) indexer
    \<Rightarrow> unit outcome \<times> ('db, 'f) indexer" where
  "export_previous E tick s =
     (let previous_epoch = indexed_epoch (pipeline s); previous_tick = indexed_tick (pipeline s)
      in if 0 < previous_epoch \<and> td_epoch tick \<noteq> previous_epoch \<and> td_epoch tick = previous_epoch + 1
            \<and> 0 < previous_tick
         then logged (export_epoch (rocks E) (serde E) (fsys E) (data_dir E @ ''/cold'') previous_epoch
                (0, previous_tick) (storage s)) s
         else (Ok (), s))"

definition index_tick :: "('db, 'j, 'f) env \<Rightarrow> bytes \<Rightarrow> ('db, 'f) indexer \<Rightarrow> unit outcome \<times> ('db, 'f) indexer" where
  "index_tick E payload s =
     bindS (liftS (of_json ''TickData'' (de_tick (serde E) payload)) s) (\<lambda>tick s.
       if 1000 < td_epoch tick then (Ok (), s)
       else bindS (export_previous E tick s) (\<lambda>_ s.
            bindS (on_storage (batch_write (rocks E)
                     (batch_put_tick (td_tick tick) (td_epoch tick) payload create_batch)) s) (\<lambda>_ s.
            update_epoch_stats E (td_epoch tick) (count_tick (td_tick tick))
              (update_pipeline (store_indexed tick) s))))"

text \<open>Keys from identities, with the hexadecimal form as fallback.\<close>

definition hex_key :: "ext \<Rightarrow> string \<Rightarrow> bytes option" where
  "hex_key X s = (case hex_decode X s of None \<Rightarrow> None | Some b \<Rightarrow> if length b = 32 then Some b else None)"

definition key_of :: "ext \<Rightarrow> string \<Rightarrow> string \<Rightarrow> bytes option" where
  "key_of X identity hex = (case decode_base26 X identity of Some k \<Rightarrow> Some k | None \<Rightarrow> hex_key X hex)"

definition hash_key :: "ext \<Rightarrow> transaction \<Rightarrow> bytes" where
  "hash_key X tx = (case key_of X (tx_hash tx) (tx_hash tx) of Some k \<Rightarrow> k | None \<Rightarrow> replicate 32 0)"

text \<open>The index of a transaction within its tick, from the two atomics.\<close>

definition next_tx_index :: "u32 \<Rightarrow> ('db, 'f) indexer \<Rightarrow> u32 \<times> ('db, 'f) indexer" where
  "next_tx_index tick s =
     (let s = (if tick \<noteq> tx_last_tick s then s\<lparr>tx_last_tick := tick, tx_counter := 0\<rparr> else s)
      in (tx_counter s, s\<lparr>tx_counter := tx_counter s + 1\<rparr>))"

definition index_transaction :: "('db, 'j, 'f) env \<Rightarrow> bytes \<Rightarrow> ('db, 'f) indexer
    \<Rightarrow> unit outcome \<times> ('db, 'f) indexer" where
  "index_transaction E payload s =
     bindS (liftS (of_json ''Transaction'' (de_tx (serde E) payload)) s) (\<lambda>tx s.
     let source = key_of (ext E) (tx_source_identity tx) (tx_source_hex tx);
         destination = key_of (ext E) (tx_destination_identity tx) (tx_destination_hex tx);
         (tx_index, s) = next_tx_index (tx_tick tx) s
     in bindS (on_storage (batch_write (rocks E)
                 (batch_put_tx (hash_key (ext E) tx) payload (tx_tick tx) tx_index source destination
                   create_batch)) s) (\<lambda>_ s.
        update_current_stats E (\<lambda>stats. stats\<lparr>es_tx_count := es_tx_count stats + 1\<rparr>)
          (update_pipeline (\<lambda>pl. pl\<lparr>txs_indexed := txs_indexed pl + 1\<rparr>) s)))"

definition index_entity :: "('db, 'j, 'f) env \<Rightarrow> bytes \<Rightarrow> ('db, 'f) indexer \<Rightarrow> unit outcome \<times> ('db, 'f) indexer" where
  "index_entity E payload s =
     bindS (liftS (of_json ''EntityData'' (de_entity (serde E) payload)) s) (\<lambda>entity s.
       case decode_base26 (ext E) (en_identity entity) of
         None \<Rightarrow> (Ok (), s)
       | Some key \<Rightarrow>
           bindS (on_storage (warm_put_entity (rocks E) key payload) s) (\<lambda>_ s.
             update_current_stats E (\<lambda>stats. stats\<lparr>es_entity_count := es_entity_count stats + 1\<rparr>)
               (update_pipeline (\<lambda>pl. pl\<lparr>entities_indexed := entities_indexed pl + 1\<rparr>) s)))"

definition index_spectrum :: "('db, 'j, 'f) env \<Rightarrow> bytes \<Rightarrow> ('db, 'f) indexer \<Rightarrow> unit outcome \<times> ('db, 'f) indexer" where
  "index_spectrum E payload s =
     bindS (liftS (of_json ''spectrum entry'' (de_value (serde E) payload)) s) (\<lambda>entry s.
       case decode_base26 (ext E)
              (case field_str (serde E) entry ''identity'' of None \<Rightarrow> '''' | Some i \<Rightarrow> i) of
         None \<Rightarrow> (Ok (), s)
       | Some key \<Rightarrow> on_storage (put_spectrum_entry (rocks E) key payload) s)"

definition index_computors :: "('db, 'j, 'f) env \<Rightarrow> bytes \<Rightarrow> ('db, 'f) indexer \<Rightarrow> unit outcome \<times> ('db, 'f) indexer" where
  "index_computors E payload s =
     bindS (liftS (of_json ''Computors'' (de_computors (serde E) payload)) s) (\<lambda>computors.
       on_storage (warm_put_computors (rocks E) (cp_epoch computors) payload))"

text \<open>A failure to write an entry of the entity index is only logged.\<close>

fun index_holders :: "'db rocks \<Rightarrow> u32 \<Rightarrow> bytes list \<Rightarrow> ('db, 'f) indexer \<Rightarrow> unit outcome \<times> ('db, 'f) indexer" where
  "index_holders R index [] s = (Ok (), s)"
| "index_holders R index (entity # entities) s =
     (if entity \<noteq> replicate 32 0
      then (case on_storage (put_entity_asset R entity index) s of
              (Panic p, s) \<Rightarrow> (Panic p, s)
            | (_, s) \<Rightarrow> index_holders R index entities s)
      else index_holders R index entities s)"

definition index_asset :: "('db, 'j, 'f) env \<Rightarrow> bytes \<Rightarrow> ('db, 'f) indexer \<Rightarrow> unit outcome \<times> ('db, 'f) indexer" where
  "index_asset E payload s =
     bindS (liftS (of_json ''AssetRecord'' (de_asset (serde E) payload)) s) (\<lambda>asset s.
     bindS (on_storage (put_asset (rocks E) (as_issuance_index asset) payload) s) (\<lambda>_.
       index_holders (rocks E) (as_issuance_index asset)
         [as_issuing_entity asset, as_owning_entity asset, as_possessing_entity asset]))"

definition index_log_events :: "('db, 'j, 'f) env \<Rightarrow> bytes \<Rightarrow> ('db, 'f) indexer \<Rightarrow> unit outcome \<times> ('db, 'f) indexer" where
  "index_log_events E payload s =
     bindS (liftS (of_json ''log events'' (de_log_events (serde E) payload)) s) (\<lambda>events.
       forS (\<lambda>event s.
         bindS (liftS (ser_log_event (serde E) event) s) (\<lambda>event_json.
           on_storage (put_log_event (rocks E) (le_tick event) (le_tx_index event) (le_event_type event)
             event_json))) events)"

text \<open>
  The vote handler reads the number of votes back only to log it; a failing read counts as none.
\<close>

definition index_tick_vote :: "('db, 'j, 'f) env \<Rightarrow> bytes \<Rightarrow> ('db, 'f) indexer \<Rightarrow> unit outcome \<times> ('db, 'f) indexer" where
  "index_tick_vote E payload s =
     bindS (liftS (of_json ''tick vote'' (de_value (serde E) payload)) s) (\<lambda>vote s.
     let tick = ucast (u64_or_0 (serde E) vote ''tick'');
         computor_index = ucast (u64_or_0 (serde E) vote ''computor_index'')
     in bindS (on_storage (put_tick_vote (rocks E) tick computor_index payload) s) (\<lambda>_ s.
        case count_votes_for_tick (rocks E) tick (storage s) of
          Panic p \<Rightarrow> (Panic p, s)
        | _ \<Rightarrow> (Ok (), s)))"

definition index_contract_ipo :: "('db, 'j, 'f) env \<Rightarrow> bytes \<Rightarrow> ('db, 'f) indexer
    \<Rightarrow> unit outcome \<times> ('db, 'f) indexer" where
  "index_contract_ipo E payload s =
     bindS (liftS (of_json ''ContractIpo'' (de_contract_ipo (serde E) payload)) s) (\<lambda>ipo.
       on_storage (put_contract_ipo (rocks E) (ipo_contract_index ipo) payload))"

definition index_oracle :: "('db, 'j, 'f) env \<Rightarrow> bytes \<Rightarrow> ('db, 'f) indexer \<Rightarrow> unit outcome \<times> ('db, 'f) indexer" where
  "index_oracle E payload s =
     bindS (liftS (of_json ''oracle data'' (de_value (serde E) payload)) s) (\<lambda>entry s.
     let tick = ucast (u64_or_0 (serde E) entry ''tick'');
         tick = (if tick = 0 then indexed_tick (pipeline s) else tick)
     in on_storage (put_oracle (rocks E) tick payload) s)"

definition index_custom_message :: "('db, 'j, 'f) env \<Rightarrow> bytes \<Rightarrow> ('db, 'f) indexer
    \<Rightarrow> unit outcome \<times> ('db, 'f) indexer" where
  "index_custom_message E payload s =
     bindS (liftS (of_json ''custom message'' (de_value (serde E) payload)) s) (\<lambda>msg s.
     let tick = ucast (u64_or_0 (serde E) msg ''tick'')
     in case count_custom_messages_for_tick (rocks E) tick (storage s) of
          Panic p \<Rightarrow> (Panic p, s)
        | Ok n \<Rightarrow> on_storage (put_custom_message (rocks E) tick (word_of_nat n) payload) s
        | Err e \<Rightarrow> on_storage (put_custom_message (rocks E) tick 0 payload) s)"

section \<open>The consumer\<close>

text \<open>
  The handler of each stream, the lag counter it feeds, and what one round of the consuming loop
  computes: the messages of a batch, in the order their handlers complete, are handled and
  acknowledged, errors included, and the pending count gives the lag and the next batch size.  A
  panicking handler ends the task.
\<close>

datatype stream_lag = LagTick | LagTx | LagEntity | LagNone

definition handlers :: "('db, 'j, 'f) env \<Rightarrow> (string \<times> (bytes \<Rightarrow> ('db, 'f) indexer
    \<Rightarrow> unit outcome \<times> ('db, 'f) indexer) \<times> stream_lag) list" where
  "handlers E = [
     (''QONDUIT_TICK'', index_tick E, LagTick),
     (''QONDUIT_TX'', index_transaction E, LagTx),
     (''QONDUIT_ENTITY'', index_entity E, LagEntity),
     (''QONDUIT_COMPUTORS'', index_computors E, LagNone),
     (''QONDUIT_ASSET'', index_asset E, LagNone),
     (''QONDUIT_CONTRACT'', index_contract_ipo E, LagNone),
     (''QONDUIT_CUSTMSG'', index_custom_message E, LagNone),
     (''QONDUIT_SPECTRUM'', index_spectrum E, LagNone),
     (''QONDUIT_LOG'', index_log_events E, LagNone),
     (''QONDUIT_TICKVOTE'', index_tick_vote E, LagNone),
     (''QONDUIT_ORACLE'', index_oracle E, LagNone)]"

fun process_batch :: "(bytes \<Rightarrow> 's \<Rightarrow> unit outcome \<times> 's) \<Rightarrow> ('m \<times> bytes) list \<Rightarrow> 's \<Rightarrow> 'm list outcome \<times> 's" where
  "process_batch handler [] s = (Ok [], s)"
| "process_batch handler ((msg, payload) # batch) s =
     (case handler payload s of
        (Panic p, s) \<Rightarrow> (Panic p, s)
      | (_, s) \<Rightarrow> bindS (process_batch handler batch s) (\<lambda>acked s. (Ok (msg # acked), s)))"

definition scaled_batch :: "nat \<Rightarrow> u64 \<Rightarrow> nat" where
  "scaled_batch batch_size pending =
     (if 10000 < pending then batch_size * 10
      else if 1000 < pending then batch_size * 5
      else if 100 < pending then batch_size * 2
      else batch_size)"

fun store_lag :: "stream_lag \<Rightarrow> u64 \<Rightarrow> pipeline_state \<Rightarrow> pipeline_state" where
  "store_lag LagTick pending pl = pl\<lparr>tick_lag := pending\<rparr>"
| "store_lag LagTx pending pl = pl\<lparr>tx_lag := pending\<rparr>"
| "store_lag LagEntity pending pl = pl\<lparr>entity_lag := pending\<rparr>"
| "store_lag LagNone pending pl = pl"

section \<open>Handlers on a healthy environment\<close>

text \<open>
  What the handlers rely on: the store behaves as documented, serialising a value succeeds and
  deserialising gives it back, arrays have the length of their type, and file operations return an
  error rather than panic.
\<close>

definition serde_ok :: "'j serde \<Rightarrow> bool" where
  "serde_ok J \<longleftrightarrow>
     (\<forall>stats. \<exists>b. ser_epoch_stats J stats = Ok b \<and> de_epoch_stats J b = Some stats) \<and>
     (\<forall>event. \<exists>b. ser_log_event J event = Ok b) \<and>
     (\<forall>b a. de_asset J b = Some a \<longrightarrow> length (as_issuing_entity a) = 32 \<and>
        length (as_owning_entity a) = 32 \<and> length (as_possessing_entity a) = 32)"

definition fs_ok :: "'f filesystem \<Rightarrow> bool" where
  "fs_ok F \<longleftrightarrow> (\<forall>dir fs. \<not> is_panic (fst (create_dir_all F dir fs))) \<and>
     (\<forall>path t fs. \<not> is_panic (fst (write_parquet F path t fs)))"

definition healthy :: "('db, 'j, 'f) env \<Rightarrow> ('db \<Rightarrow> string \<Rightarrow> (bytes \<times> bytes) list) \<Rightarrow> ('db, 'f) indexer \<Rightarrow> bool" where
  "healthy E entries s \<longleftrightarrow> rocks_ok (rocks E) entries \<and> serde_ok (serde E) \<and> fs_ok (fsys E)
     \<and> warm_reachable (rocks E) entries (storage s)"

lemma healthyD:
  assumes "healthy E entries s"
  shows "rocks_ok (rocks E) entries" "serde_ok (serde E)" "fs_ok (fsys E)"
    "warm_reachable (rocks E) entries (storage s)"
  using assms by (simp_all add: healthy_def)

text \<open>A call is safe when it returns without a panic and keeps the invariant.\<close>

definition safe :: "('s \<Rightarrow> bool) \<Rightarrow> 'a outcome \<times> 's \<Rightarrow> bool" where
  "safe I m \<longleftrightarrow> \<not> is_panic (fst m) \<and> I (snd m)"

lemma safe_Ok [simp]: "safe I (Ok x, s) \<longleftrightarrow> I s"
  by (simp add: safe_def)

lemma safe_bindS: "safe I m \<Longrightarrow> (\<And>x s. I s \<Longrightarrow> safe I (f x s)) \<Longrightarrow> safe I (bindS m f)"
  by (cases m; cases "fst m") (auto simp: safe_def)

lemma safe_liftS: "I s \<Longrightarrow> \<not> is_panic r \<Longrightarrow> safe I (liftS r s)"
  by (simp add: safe_def liftS_def)

lemma safe_forS: "I s \<Longrightarrow> (\<And>x s. x \<in> set xs \<Longrightarrow> I s \<Longrightarrow> safe I (f x s)) \<Longrightarrow> safe I (forS f xs s)"
  by (induction xs arbitrary: s) (auto intro!: safe_bindS)

lemma not_panic_of_json [simp]: "\<not> is_panic (of_json what r)"
  by (simp add: of_json_def split: option.split)

text \<open>The contract of a message handler, and what the consumer makes of it.\<close>

locale safe_handler =
  fixes handler :: "bytes \<Rightarrow> 's \<Rightarrow> unit outcome \<times> 's" and I :: "'s \<Rightarrow> bool"
  assumes handler_safe: "I s \<Longrightarrow> safe I (handler payload s)"
begin

lemma batch_acknowledged:
  "I s \<Longrightarrow> fst (process_batch handler batch s) = Ok (map fst batch) \<and> I (snd (process_batch handler batch s))"
proof (induction batch arbitrary: s)
  case (Cons m batch)
  obtain r s' where h: "handler (snd m) s = (r, s')" by (cases "handler (snd m) s")
  then have "\<not> is_panic r" "I s'" using handler_safe [OF Cons.prems, of "snd m"] by (auto simp: safe_def)
  then show ?case
    using Cons.IH [of s'] h
    by (cases m; cases r; cases "process_batch handler batch s'") auto
qed simp

end

lemma warm_write_safe:
  assumes "healthy E entries s" "fst (f (storage s)) = Ok ()" "warm_step (rocks E) (storage s) (snd (f (storage s)))"
  shows "safe (healthy E entries) (on_storage f s)"
  using assms warm_reachable.step [of "rocks E" entries "storage s"]
  by (auto simp: on_storage_def healthy_def split: prod.split)

lemma length_decode_fragments: "decode_fragments s is = Some k \<Longrightarrow> length k = 8 * length is"
  by (induction "is" arbitrary: k) (auto split: option.splits)

lemma length_decode_base26: "decode_base26 X s = Some k \<Longrightarrow> length k = 32"
  by (auto simp: decode_base26_def Let_def dest: length_decode_fragments split: if_splits option.splits)

lemma length_key_of: "key_of X identity h = Some k \<Longrightarrow> length k = 32"
  by (auto simp: key_of_def hex_key_def length_decode_base26 split: option.splits if_splits)

lemma length_hash_key [simp]: "length (hash_key X tx) = 32"
  by (auto simp: hash_key_def length_key_of split: option.split)

lemma stats_safe:
  assumes "healthy E entries s"
  shows "safe (healthy E entries) (update_epoch_stats E epoch f s)"
proof -
  note ok = healthyD [OF assms]
  have ser: "\<not> is_panic (ser_epoch_stats (serde E) st)" for st
    using ok(2) unfolding serde_ok_def by (metis is_panic.simps(2))
  have put: "safe (healthy E entries) (on_storage (put_epoch_stats (rocks E) epoch json) s)"
    if "healthy E entries s" for json s
    using that by (rule warm_write_safe)
      (simp_all add: put_epoch_stats_def rocks_put [OF ok(1)] warm_step.put_epoch_stats [unfolded put_epoch_stats_def])
  show ?thesis
    unfolding update_epoch_stats_def get_epoch_stats_def rocks_get [OF ok(1)] bindS_liftS
    by (intro safe_bindS safe_liftS assms ser put)
qed

lemma pipeline_safe [simp]: "healthy E entries (update_pipeline f s) \<longleftrightarrow> healthy E entries s"
  by (simp add: healthy_def update_pipeline_def)

lemma current_stats_safe:
  "healthy E entries s \<Longrightarrow> safe (healthy E entries) (update_current_stats E f s)"
  by (simp add: update_current_stats_def Let_def stats_safe)

lemma store_safe:
  assumes "healthy E entries s"
    and "\<And>db. fst (f db) = Ok ()" "\<And>db. warm_step (rocks E) db (snd (f db))"
  shows "safe (healthy E entries) (on_storage f s)"
  using assms by (intro warm_write_safe)

text \<open>Every write of a healthy store succeeds.\<close>

lemma writes_Ok:
  assumes "rocks_ok R entries"
  shows "fst (put_spectrum_entry R k d db) = Ok ()" "fst (warm_put_computors R epoch d db) = Ok ()"
    "fst (put_asset R i d db) = Ok ()" "fst (put_entity_asset R k i db) = Ok ()"
    "fst (put_log_event R t i ty d db) = Ok ()" "fst (put_tick_vote R t c d db) = Ok ()"
    "fst (put_contract_ipo R i d db) = Ok ()" "fst (put_oracle R t d db) = Ok ()"
    "fst (put_custom_message R t i d db) = Ok ()" "fst (warm_put_entity R k d db) = Ok ()"
    "fst (batch_write R ops db) = Ok ()" "fst (put_epoch_stats R epoch d db) = Ok ()"
  by (simp_all add: warm_writes rocks_put [OF assms] rocks_batch [OF assms])

lemma is_panic_mapM: "is_panic (mapM f xs) \<Longrightarrow> \<exists>x\<in>set xs. is_panic (f x)"
  by (induction xs) (auto simp: is_panic_bindR)

lemma export_no_panic:
  assumes "rocks_ok R entries" "warm_reachable R entries db" "fs_ok F"
  shows "\<not> is_panic (fst (export_epoch R J F base epoch rng db fs))"
proof -
  have safe_fs: "safe (\<lambda>_. True) (create_dir_all F dir fs)" "safe (\<lambda>_. True) (write_parquet F path t fs)"
    for dir path t fs
    using assms(3) by (simp_all add: fs_ok_def safe_def)
  have "\<not> is_panic (tick_row_of J e)" for e
    by (auto simp: tick_row_of_def is_panic_bindR split: prod.split)
  then have ticks: "\<not> is_panic (mapM (tick_row_of J) xs)" for xs
    using is_panic_mapM by blast
  have "\<not> is_panic (tx_rows_of R J db t h)" for t h
    by (auto simp: tx_rows_of_def get_tx_def rocks_get [OF assms(1)] is_panic_bindR split: option.split)
  then have "\<not> is_panic (mapM (tx_rows_of R J db t) hs)" for t hs
    using is_panic_mapM by blast
  then have "\<not> is_panic (bindR (get_tx_hashes_for_tick R t db) (\<lambda>hashes.
      bindR (mapM (tx_rows_of R J db t) hashes) (\<lambda>rows. Ok (concat rows))))" for t
    by (simp add: tick_scan [OF assms(1,2)] is_panic_bindR)
  then have txs: "\<not> is_panic (tx_rows R J db rng)"
    unfolding tx_rows_def using is_panic_mapM by (fastforce simp: is_panic_bindR)
  have "safe (\<lambda>_. True) (export_epoch R J F base epoch rng db fs)"
    unfolding export_epoch_def Let_def export_ticks_def export_transactions_def tick_range_scan [OF assms(1,2)]
    by (intro safe_bindS safe_fs) (auto intro!: safe_bindS safe_liftS safe_fs simp: ticks txs)
  then show ?thesis by (simp add: safe_def)
qed

lemma export_safe:
  assumes "healthy E entries s"
  shows "safe (healthy E entries) (export_previous E tick s)"
proof -
  note ok = healthyD [OF assms]
  show ?thesis
    using export_no_panic [OF ok(1,4,3), of "serde E" "data_dir E @ ''/cold''"
        "indexed_epoch (pipeline s)" "(0, indexed_tick (pipeline s))" "cold_files s"] assms
    by (auto simp: export_previous_def logged_def Let_def safe_def healthy_def
        split: prod.split outcome.split)
qed

lemma holders_safe:
  assumes "healthy E entries s" "\<And>e. e \<in> set entities \<Longrightarrow> length e = 32"
  shows "safe (healthy E entries) (index_holders (rocks E) i entities s)"
  using assms
proof (induction "rocks E" i entities s rule: index_holders.induct)
  case (2 i entity entities s)
  have "safe (healthy E entries) (on_storage (put_entity_asset (rocks E) entity i) s)"
    using 2(4,5) by (intro store_safe) (auto simp: writes_Ok [OF healthyD(1)] intro: warm_step.put_entity_asset)
  then show ?case
    using 2 by (auto simp: safe_def split: prod.split outcome.split)
qed simp

interpretation tick: safe_handler "index_tick E" "healthy E entries" for E entries
proof
  fix s payload assume s: "healthy E entries s"
  have "safe (healthy E entries) (on_storage (batch_write (rocks E) (batch_put_tick t e d create_batch)) s)"
    if "healthy E entries s" for t e d s
    using that by (rule store_safe)
      (auto simp: writes_Ok [OF healthyD(1) [OF s]] intro!: warm_step.batch built.intros)
  then show "safe (healthy E entries) (index_tick E payload s)"
    using s unfolding index_tick_def
    by (auto intro!: safe_bindS safe_liftS export_safe stats_safe)
qed

interpretation tx: safe_handler "index_transaction E" "healthy E entries" for E entries
proof
  fix s payload assume s: "healthy E entries s"
  have put: "safe (healthy E entries) (on_storage (batch_write (rocks E)
      (batch_put_tx (hash_key X tx) d t i (key_of X a b) (key_of X a' b') create_batch)) s)"
    if "healthy E entries s" for X tx d t i a b a' b' s
    using that by (rule store_safe)
      (auto simp: writes_Ok [OF healthyD(1) [OF s]] intro!: warm_step.batch built.intros dest: length_key_of)
  have "healthy E entries (snd (next_tx_index t s))" if "healthy E entries s" for t s
    using that by (simp add: healthy_def next_tx_index_def Let_def)
  then show "safe (healthy E entries) (index_transaction E payload s)"
    using s unfolding index_transaction_def Let_def case_prod_beta
    by (auto intro!: safe_bindS safe_liftS put current_stats_safe)
qed

interpretation entity: safe_handler "index_entity E" "healthy E entries" for E entries
proof
  fix s payload assume s: "healthy E entries s"
  have put: "safe (healthy E entries) (on_storage (warm_put_entity (rocks E) k d) s)"
    if "healthy E entries s" "length k = 32" for k d s
    using that(1) by (rule store_safe)
      (auto simp: writes_Ok [OF healthyD(1) [OF s]] intro!: warm_step.put_entity that(2))
  then show "safe (healthy E entries) (index_entity E payload s)"
    using s unfolding index_entity_def
    by (auto intro!: safe_bindS safe_liftS current_stats_safe put intro: length_decode_base26 split: option.split)
qed

interpretation spectrum: safe_handler "index_spectrum E" "healthy E entries" for E entries
  unfolding index_spectrum_def
  by unfold_locales
    (auto intro!: safe_bindS safe_liftS store_safe warm_step.put_spectrum_entry length_decode_base26
      simp: writes_Ok [OF healthyD(1)] split: option.split)

interpretation computors: safe_handler "index_computors E" "healthy E entries" for E entries
  unfolding index_computors_def
  by unfold_locales
    (auto intro!: safe_bindS safe_liftS store_safe warm_step.put_computors simp: writes_Ok [OF healthyD(1)])

interpretation contract_ipo: safe_handler "index_contract_ipo E" "healthy E entries" for E entries
  unfolding index_contract_ipo_def
  by unfold_locales
    (auto intro!: safe_bindS safe_liftS store_safe warm_step.put_contract_ipo simp: writes_Ok [OF healthyD(1)])

interpretation oracle_msg: safe_handler "index_oracle E" "healthy E entries" for E entries
  unfolding index_oracle_def Let_def
  by unfold_locales
    (auto intro!: safe_bindS safe_liftS store_safe warm_step.put_oracle simp: writes_Ok [OF healthyD(1)])

interpretation asset: safe_handler "index_asset E" "healthy E entries" for E entries
proof
  fix s payload assume s: "healthy E entries s"
  have put: "safe (healthy E entries) (on_storage (put_asset (rocks E) i d) s)" if "healthy E entries s" for i d s
    using that by (rule store_safe) (auto simp: writes_Ok [OF healthyD(1) [OF s]] intro: warm_step.put_asset)
  show "safe (healthy E entries) (index_asset E payload s)"
  proof (cases "de_asset (serde E) payload")
    case (Some a)
    have "\<forall>bs a. de_asset (serde E) bs = Some a \<longrightarrow> length (as_issuing_entity a) = 32
        \<and> length (as_owning_entity a) = 32 \<and> length (as_possessing_entity a) = 32"
      using healthyD(2) [OF s] unfolding serde_ok_def by (elim conjE) assumption
    with Some have "length e = 32" if "e \<in> {as_issuing_entity a, as_owning_entity a, as_possessing_entity a}" for e
      using that by auto
    then show ?thesis
      using Some s by (auto simp: index_asset_def of_json_def intro!: safe_bindS put holders_safe)
  qed (use s in \<open>simp add: index_asset_def of_json_def safe_def\<close>)
qed

interpretation log_events: safe_handler "index_log_events E" "healthy E entries" for E entries
proof
  fix s payload assume s: "healthy E entries s"
  have "\<not> is_panic (ser_log_event (serde E) event)" for event
    using healthyD(2) [OF s] unfolding serde_ok_def by (metis is_panic.simps(2))
  then show "safe (healthy E entries) (index_log_events E payload s)"
    using s unfolding index_log_events_def
    by (auto intro!: safe_bindS safe_liftS safe_forS store_safe warm_step.put_log_event
        simp: writes_Ok [OF healthyD(1) [OF s]])
qed

interpretation tick_vote: safe_handler "index_tick_vote E" "healthy E entries" for E entries
proof
  fix s payload assume s: "healthy E entries s"
  have put: "safe (healthy E entries) (on_storage (put_tick_vote (rocks E) t c d) s)"
    if "healthy E entries s" for t c d s
    using that by (rule store_safe) (auto simp: writes_Ok [OF healthyD(1) [OF s]] intro: warm_step.put_tick_vote)
  have "safe (healthy E entries) (case count_votes_for_tick (rocks E) t (storage s) of
      Panic p \<Rightarrow> (Panic p, s) | _ \<Rightarrow> (Ok (), s))" if "healthy E entries s" for t s
    using that tick_scans [OF healthyD(1,4) [OF that], of t] by simp
  then show "safe (healthy E entries) (index_tick_vote E payload s)"
    using s unfolding index_tick_vote_def Let_def by (intro safe_bindS safe_liftS put) auto
qed

interpretation custom_message: safe_handler "index_custom_message E" "healthy E entries" for E entries
proof
  fix s payload assume s: "healthy E entries s"
  have put: "safe (healthy E entries) (on_storage (put_custom_message (rocks E) t i d) s)"
    if "healthy E entries s" for t i d s
    using that by (rule store_safe) (auto simp: writes_Ok [OF healthyD(1) [OF s]] intro: warm_step.put_custom_message)
  have "safe (healthy E entries) (case count_custom_messages_for_tick (rocks E) t (storage s) of
      Panic p \<Rightarrow> (Panic p, s)
    | Ok n \<Rightarrow> on_storage (put_custom_message (rocks E) t (word_of_nat n) payload) s
    | Err e \<Rightarrow> on_storage (put_custom_message (rocks E) t 0 payload) s)" if "healthy E entries s" for t s
    using that tick_scans [OF healthyD(1,4) [OF that], of t] put [OF that] by simp
  then show "safe (healthy E entries) (index_custom_message E payload s)"
    using s unfolding index_custom_message_def Let_def by (intro safe_bindS safe_liftS) auto
qed

text \<open>
  on a healthy environment no handler of the processor panics on any payload, each keeps the
  database in a state the typed write operations reach, and a batch is acknowledged completely,
  whether or not its messages were indexed.
\<close>

theorem consumer_acknowledges_all:
  assumes "healthy E entries s" "(stream, handler, lag) \<in> set (handlers E)"
  shows "fst (process_batch handler batch s) = Ok (map fst batch)
    \<and> healthy E entries (snd (process_batch handler batch s))"
  using assms
  by (auto simp: handlers_def tick.batch_acknowledged tx.batch_acknowledged entity.batch_acknowledged
      computors.batch_acknowledged asset.batch_acknowledged contract_ipo.batch_acknowledged
      custom_message.batch_acknowledged spectrum.batch_acknowledged log_events.batch_acknowledged
      tick_vote.batch_acknowledged oracle_msg.batch_acknowledged)

end
