(* ===== verification/Indexing.thy ===== *)
theory Indexing
  imports Indexer
begin

text \<open>
  What the warm index holds after a sequence of messages: the custom messages and the transactions
  of every tick in the order they were indexed, and the statistics of an epoch.
\<close>

section \<open>Effects of single calls\<close>

lemma forS_append: "forS f (xs @ ys) = (\<lambda>s. bindS (forS f xs s) (\<lambda>_. forS f ys))"
  by (induction xs) (rule ext, simp add: bindS_assoc)+

lemma on_storage_Ok: "fst (f (storage s)) = Ok x \<Longrightarrow> on_storage f s = (Ok x, s\<lparr>storage := snd (f (storage s))\<rparr>)"
  by (simp add: on_storage_def case_prod_beta)

lemma stats_effect:
  assumes "healthy E entries s"
  obtains db' b where "update_epoch_stats E epoch f s = (Ok (), s\<lparr>storage := db'\<rparr>)"
    and "entries db' = write_op (CF_EPOCH_STATS, u16_to_be epoch, b) (entries (storage s))"
    and "de_epoch_stats (serde E) b
      = Some (f (stats_of (serde E) epoch (map_of (entries (storage s) CF_EPOCH_STATS) (u16_to_be epoch))))"
proof -
  note ok = healthyD [OF assms]
  let ?st = "f (stats_of (serde E) epoch (map_of (entries (storage s) CF_EPOCH_STATS) (u16_to_be epoch)))"
  obtain b where b: "ser_epoch_stats (serde E) ?st = Ok b" "de_epoch_stats (serde E) b = Some ?st"
    using ok(2) unfolding serde_ok_def by blast
  let ?put = "put_cf (rocks E) CF_EPOCH_STATS (u16_to_be epoch) b (storage s)"
  have "update_epoch_stats E epoch f s = (Ok (), s\<lparr>storage := snd ?put\<rparr>)"
    using rocks_put(1) [OF ok(1), of CF_EPOCH_STATS "u16_to_be epoch" b "storage s"]
    by (simp add: update_epoch_stats_def get_epoch_stats_def rocks_get [OF ok(1)] b(1) on_storage_Ok
        put_epoch_stats_def)
  then show thesis using that rocks_put(2) [OF ok(1)] b(2) by blast
qed

lemma current_stats_effect:
  assumes "healthy E entries s"
  shows "\<exists>db'. update_current_stats E f s = (Ok (), s\<lparr>storage := db'\<rparr>)
    \<and> (\<forall>cf. cf \<noteq> CF_EPOCH_STATS \<longrightarrow> entries db' cf = entries (storage s) cf)"
proof (cases "0 < indexed_epoch (pipeline s)")
  case True
  obtain db' b where "update_epoch_stats E (indexed_epoch (pipeline s)) f s = (Ok (), s\<lparr>storage := db'\<rparr>)"
    and "entries db' = write_op (CF_EPOCH_STATS, u16_to_be (indexed_epoch (pipeline s)), b) (entries (storage s))"
    using stats_effect [OF assms] by metis
  with True show ?thesis by (auto simp: update_current_stats_def Let_def)
next
  case False
  then show ?thesis by (auto simp: update_current_stats_def Let_def intro!: exI [of _ "storage s"])
qed

lemma index_transaction_effect:
  assumes "healthy E entries s" "de_tx (serde E) payload = Some tx" "next_tx_index (tx_tick tx) s = (i, s1)"
  obtains s' where "index_transaction E payload s = (Ok (), s')" "healthy E entries s'"
    "tx_last_tick s' = tx_last_tick s1" "tx_counter s' = tx_counter s1"
    "entries (storage s') CF_TX_BY_TICK
      = put_entry (tick_key (tx_tick tx) i) (hash_key (ext E) tx) (entries (storage s) CF_TX_BY_TICK)"
    "map_of (entries (storage s') CF_TX) = (map_of (entries (storage s) CF_TX))(hash_key (ext E) tx \<mapsto> payload)"
    "\<And>e. key_of (ext E) (tx_source_identity tx) (tx_source_hex tx) = Some e
        \<or> key_of (ext E) (tx_destination_identity tx) (tx_destination_hex tx) = Some e
      \<Longrightarrow> map_of (entries (storage s') CF_TX_BY_ENTITY) (entity_key e (tx_tick tx) i) = Some (hash_key (ext E) tx)"
proof -
  note ok = healthyD [OF assms(1)]
  let ?key = "\<lambda>a b. key_of (ext E) (a tx) (b tx)"
  let ?batch = "batch_put_tx (hash_key (ext E) tx) payload (tx_tick tx) i
    (?key tx_source_identity tx_source_hex) (?key tx_destination_identity tx_destination_hex) create_batch"
  define s2 where "s2 = update_pipeline (\<lambda>pl. pl\<lparr>txs_indexed := txs_indexed pl + 1\<rparr>)
    (s1\<lparr>storage := snd (batch_write (rocks E) ?batch (storage s))\<rparr>)"
  have st: "storage s1 = storage s"
    using assms(3) by (auto simp: next_tx_index_def Let_def split: if_splits)
  have step: "index_transaction E payload s
      = update_current_stats E (\<lambda>stats. stats\<lparr>es_tx_count := es_tx_count stats + 1\<rparr>) s2"
    using writes_Ok(11) [OF ok(1), of ?batch "storage s"]
    by (simp add: index_transaction_def of_json_def assms(2,3) on_storage_Ok st s2_def)
  have s2: "storage s2 = snd (batch_write (rocks E) ?batch (storage s))" "tx_last_tick s2 = tx_last_tick s1"
    "tx_counter s2 = tx_counter s1"
    by (simp_all add: s2_def update_pipeline_def)
  have "built ?batch" by (auto intro!: built.intros dest: length_key_of)
  then have "healthy E entries s2"
    using ok warm_reachable.step [OF ok(4) warm_step.batch] by (simp add: healthy_def s2(1))
  then obtain db' where db': "update_current_stats E (\<lambda>stats. stats\<lparr>es_tx_count := es_tx_count stats + 1\<rparr>) s2
      = (Ok (), s2\<lparr>storage := db'\<rparr>)" "\<And>cf. cf \<noteq> CF_EPOCH_STATS \<Longrightarrow> entries db' cf = entries (storage s2) cf"
    using current_stats_effect [of E entries s2] by blast
  have cf: "CF_TX_BY_TICK \<noteq> CF_EPOCH_STATS" "CF_TX \<noteq> CF_EPOCH_STATS" "CF_TX_BY_ENTITY \<noteq> CF_EPOCH_STATS"
    by (simp_all add: cf_defs)
  have es2: "entries (storage s2) = fold write_op ?batch (entries (storage s))"
    by (simp add: s2(1) batch_write_def rocks_batch [OF ok(1)])
  note written = batch_put_tx_entries [OF rocks_ascending [OF ok(1), of "storage s"], where hash = "hash_key (ext E) tx"
      and d = payload and tick = "tx_tick tx" and i = i and source = "?key tx_source_identity tx_source_hex"
      and destination = "?key tx_destination_identity tx_destination_hex", folded create_batch_def]
  have "entries (storage s2) CF_TX_BY_TICK
      = put_entry (tick_key (tx_tick tx) i) (hash_key (ext E) tx) (entries (storage s) CF_TX_BY_TICK)"
    by (simp add: s2(1) batch_write_def rocks_batch [OF ok(1)] batch_put_tx_def create_batch_def split: option.split)
  moreover have "healthy E entries (s2\<lparr>storage := db'\<rparr>)"
    using tx.handler_safe [OF assms(1), of payload] step db'(1) by (simp add: safe_def)
  ultimately show thesis
    using that [of "s2\<lparr>storage := db'\<rparr>"] step db' s2 cf written es2 by simp
qed

section \<open>An index that numbers its entries\<close>

text \<open>\<open>numbered es ms\<close>: under every tick the index holds the values of \<open>ms\<close>, numbered from 0.\<close>

definition numbered :: "(bytes \<times> bytes) list \<Rightarrow> (u32 \<Rightarrow> bytes list) \<Rightarrow> bool" where
  "numbered es ms \<longleftrightarrow> (\<forall>t i. map_of es (tick_key t i)
     = (if unat i < length (ms t) then Some (ms t ! unat i) else None))"

lemma tick_key_inject: "tick_key t i = tick_key t' i' \<longleftrightarrow> t = t' \<and> i = i'"
  by (auto simp: tick_key_def u32_be.enc_append_inject u32_be.enc_inject)

lemma numbered_Nil: "numbered [] (\<lambda>_. [])"
  by (simp add: numbered_def)

lemma numbered_append:
  assumes "numbered es ms" "ascending es" "length (ms t) < 2 ^ 32"
  shows "numbered (put_entry (tick_key t (word_of_nat (length (ms t)))) v es) (ms(t := ms t @ [v]))"
  unfolding numbered_def
proof (intro allI)
  fix t' i :: u32
  have "i = word_of_nat (length (ms t)) \<longleftrightarrow> unat i = unat (word_of_nat (length (ms t)) :: u32)"
    by (rule word_eq_iff_unsigned)
  also have "\<dots> \<longleftrightarrow> unat i = length (ms t)" by (simp only: unat_word_of_nat_u32 [OF assms(3)])
  finally have "i = word_of_nat (length (ms t)) \<longleftrightarrow> unat i = length (ms t)" .
  then show "map_of (put_entry (tick_key t (word_of_nat (length (ms t)))) v es) (tick_key t' i)
    = (if unat i < length ((ms(t := ms t @ [v])) t') then Some ((ms(t := ms t @ [v])) t' ! unat i) else None)"
    using assms(1) by (auto simp: map_of_put_entry [OF assms(2)] tick_key_inject numbered_def nth_append)
qed

lemma sorted_list_of_words:
  assumes "n \<le> 2 ^ 32"
  shows "sorted_list_of_set {i :: u32. unat i < n} = map word_of_nat [0..<n]"
proof (rule sorted_list_of_set_unique [THEN iffD1], simp)
  have unat: "unat (word_of_nat k :: u32) = k" if "k < n" for k
    using that assms by (simp add: unat_word_of_nat_u32)
  have "sorted_wrt (<) (map (word_of_nat :: nat \<Rightarrow> u32) [0..<n])"
    unfolding sorted_wrt_map
    by (rule sorted_wrt_mono_rel [OF _ sorted_wrt_upt]) (simp add: word_less_nat_alt unat)
  moreover have "set (map (word_of_nat :: nat \<Rightarrow> u32) [0..<n]) = {i. unat i < n}"
  proof (intro set_eqI iffI)
    fix i :: u32 assume "i \<in> {i. unat i < n}"
    then show "i \<in> set (map word_of_nat [0..<n])" by (auto intro!: image_eqI [of _ _ "unat i"])
  qed (auto simp: unat)
  ultimately show "sorted_wrt (<) (map (word_of_nat :: nat \<Rightarrow> u32) [0..<n])
    \<and> set (map (word_of_nat :: nat \<Rightarrow> u32) [0..<n]) = {i. unat i < n}
    \<and> length (map (word_of_nat :: nat \<Rightarrow> u32) [0..<n]) = card {i :: u32. unat i < n}"
    by (metis distinct_card strict_sorted_iff)
qed

lemma numbered_block:
  assumes "numbered es ms" "length (ms t) \<le> 2 ^ 32"
  shows "map snd (index_block es (tick_key t)) = ms t"
proof -
  have "{i. map_of es (tick_key t i) \<noteq> None} = {i. unat i < length (ms t)}"
    using assms(1) by (auto simp: numbered_def)
  then have "map snd (index_block es (tick_key t))
      = map (\<lambda>i. the (map_of es (tick_key t i))) (map word_of_nat [0..<length (ms t)])"
    by (simp add: index_block_def sorted_list_of_words [OF assms(2)] o_def)
  also have "\<dots> = map (\<lambda>n. ms t ! n) [0..<length (ms t)]"
    using assms by (auto simp: numbered_def unat_word_of_nat_u32)
  finally show ?thesis by (simp add: map_nth)
qed

section \<open>Custom messages\<close>

definition message_tick :: "'j serde \<Rightarrow> bytes \<Rightarrow> u32" where
  "message_tick J payload = ucast (u64_or_0 J (the (de_value J payload)) ''tick'')"

text \<open>Group a list by a key, keeping the order within each group.\<close>

definition grouped :: "('a \<Rightarrow> 'k) \<Rightarrow> 'a list \<Rightarrow> 'k \<Rightarrow> 'a list" where
  "grouped key xs k = filter (\<lambda>x. key x = k) xs"

lemma grouped_simps:
  "grouped key [] k = []"
  "grouped key (x # xs) k = (if key x = k then x # grouped key xs k else grouped key xs k)"
  by (simp_all add: grouped_def)

lemma index_custom_message_effect:
  assumes "healthy E entries s" "de_value (serde E) payload \<noteq> None"
    and "numbered (entries (storage s) CF_CUSTOM_MESSAGE) ms" "length (ms (message_tick (serde E) payload)) < 2 ^ 32"
  shows "\<exists>s'. index_custom_message E payload s = (Ok (), s') \<and> healthy E entries s'
    \<and> numbered (entries (storage s') CF_CUSTOM_MESSAGE)
        (ms(message_tick (serde E) payload := ms (message_tick (serde E) payload) @ [payload]))"
proof -
  note ok = healthyD [OF assms(1)]
  let ?t = "message_tick (serde E) payload"
  let ?put = "put_custom_message (rocks E) ?t (word_of_nat (length (ms ?t))) payload"
  have "length (index_block (entries (storage s) CF_CUSTOM_MESSAGE) (tick_key ?t)) = length (ms ?t)"
    using arg_cong [OF numbered_block [OF assms(3), of ?t], of length] assms(4) by simp
  then have "index_custom_message E payload s = on_storage ?put s"
    using tick_scans [OF ok(1,4), of ?t] assms(2)
    by (auto simp: index_custom_message_def of_json_def message_tick_def Let_def)
  then have run: "index_custom_message E payload s = (Ok (), s\<lparr>storage := snd (?put (storage s))\<rparr>)"
    by (simp add: on_storage_Ok writes_Ok [OF ok(1)])
  have "numbered (entries (snd (?put (storage s))) CF_CUSTOM_MESSAGE) (ms(?t := ms ?t @ [payload]))"
    using numbered_append [OF assms(3) rocks_ascending [OF ok(1)] assms(4)]
    by (simp add: put_custom_message_def rocks_put [OF ok(1)])
  then show ?thesis
    using run custom_message.handler_safe [OF assms(1), of payload] by (auto simp: safe_def)
qed

lemma custom_messages_numbered:
  assumes "healthy E entries s" "\<forall>p\<in>set ps. de_value (serde E) p \<noteq> None"
    and "numbered (entries (storage s) CF_CUSTOM_MESSAGE) ms" "\<And>t. length (ms t) + length ps \<le> 2 ^ 32"
  shows "\<exists>s'. forS (index_custom_message E) ps s = (Ok (), s') \<and> healthy E entries s'
    \<and> numbered (entries (storage s') CF_CUSTOM_MESSAGE) (\<lambda>t. ms t @ grouped (message_tick (serde E)) ps t)"
  using assms
proof (induction ps arbitrary: s ms)
  case Nil
  then show ?case by (simp add: grouped_simps)
next
  case (Cons p ps)
  let ?t = "message_tick (serde E) p"
  have "length (ms ?t) < 2 ^ 32" using Cons.prems(4) [of ?t] by simp
  with Cons.prems obtain s' where s': "index_custom_message E p s = (Ok (), s')" "healthy E entries s'"
    "numbered (entries (storage s') CF_CUSTOM_MESSAGE) (ms(?t := ms ?t @ [p]))"
    using index_custom_message_effect [of E entries s p ms] by auto
  have "length ((ms(?t := ms ?t @ [p])) t) + length ps \<le> 2 ^ 32" for t
    using Cons.prems(4) [of t] by auto
  from Cons.IH [OF s'(2) _ s'(3) this] Cons.prems(2)
  obtain s'' where s'': "forS (index_custom_message E) ps s' = (Ok (), s'')" "healthy E entries s''"
    "numbered (entries (storage s'') CF_CUSTOM_MESSAGE)
      (\<lambda>t. (ms(?t := ms ?t @ [p])) t @ grouped (message_tick (serde E)) ps t)" by auto
  moreover have "(\<lambda>t. (ms(?t := ms ?t @ [p])) t @ grouped (message_tick (serde E)) ps t)
      = (\<lambda>t. ms t @ grouped (message_tick (serde E)) (p # ps) t)"
    by (auto simp: fun_eq_iff grouped_simps)
  ultimately show ?case using s'(1) by simp
qed

text \<open>
  after any sequence of custom messages indexed into an empty column family, the messages of
  every tick are read back completely and in the order of their arrival: the index taken from the
  number of stored entries never overwrites one.
\<close>

theorem custom_messages_kept:
  assumes "healthy E entries s" "entries (storage s) CF_CUSTOM_MESSAGE = []"
    and "\<forall>p\<in>set ps. de_value (serde E) p \<noteq> None" "length ps \<le> 2 ^ 32"
  shows "\<exists>s'. forS (index_custom_message E) ps s = (Ok (), s')
    \<and> (\<forall>tick. get_custom_messages_for_tick (rocks E) tick (storage s')
          = Ok (filter (\<lambda>p. message_tick (serde E) p = tick) ps))"
proof -
  have "numbered (entries (storage s) CF_CUSTOM_MESSAGE) (\<lambda>_. [])"
    using assms(2) numbered_Nil by simp
  from custom_messages_numbered [OF assms(1,3) this] assms(4)
  obtain s' where s': "forS (index_custom_message E) ps s = (Ok (), s')" "healthy E entries s'"
    "numbered (entries (storage s') CF_CUSTOM_MESSAGE) (grouped (message_tick (serde E)) ps)" by auto
  have "length (grouped (message_tick (serde E)) ps t) \<le> 2 ^ 32" for t
    using le_trans [OF length_filter_le assms(4)] by (simp add: grouped_def)
  then have "get_custom_messages_for_tick (rocks E) t (storage s') = Ok (grouped (message_tick (serde E)) ps t)" for t
    using tick_scans [OF healthyD(1,4) [OF s'(2)], of t] numbered_block [OF s'(3), of t] by simp
  then show ?thesis using s'(1) by (auto simp: grouped_def)
qed

section \<open>Transactions\<close>

definition payload_tick :: "'j serde \<Rightarrow> bytes \<Rightarrow> u32" where
  "payload_tick J payload = tx_tick (the (de_tx J payload))"

definition payload_hash :: "ext \<Rightarrow> 'j serde \<Rightarrow> bytes \<Rightarrow> bytes" where
  "payload_hash X J payload = hash_key X (the (de_tx J payload))"

text \<open>
  The counter follows the index: it is the number of transactions stored under the last tick, and
  nothing is stored under later ticks.
\<close>

definition in_step :: "('db \<Rightarrow> string \<Rightarrow> (bytes \<times> bytes) list) \<Rightarrow> (u32 \<Rightarrow> bytes list) \<Rightarrow> ('db, 'f) indexer \<Rightarrow> bool" where
  "in_step entries hs s \<longleftrightarrow> numbered (entries (storage s) CF_TX_BY_TICK) hs
     \<and> tx_counter s = word_of_nat (length (hs (tx_last_tick s))) \<and> (\<forall>t > tx_last_tick s. hs t = [])"

lemma index_transaction_in_step:
  assumes "healthy E entries s" "de_tx (serde E) p \<noteq> None" "in_step entries hs s"
    and "tx_last_tick s \<le> payload_tick (serde E) p" "length (hs (payload_tick (serde E) p)) < 2 ^ 32"
  shows "\<exists>s'. index_transaction E p s = (Ok (), s') \<and> healthy E entries s'
    \<and> tx_last_tick s' = payload_tick (serde E) p
    \<and> in_step entries (hs(payload_tick (serde E) p := hs (payload_tick (serde E) p) @ [payload_hash (ext E) (serde E) p])) s'"
proof -
  obtain tx where tx: "de_tx (serde E) p = Some tx" using assms(2) by blast
  then have t: "payload_tick (serde E) p = tx_tick tx" "payload_hash (ext E) (serde E) p = hash_key (ext E) tx"
    by (simp_all add: payload_tick_def payload_hash_def)
  obtain i s1 where next_i: "next_tx_index (tx_tick tx) s = (i, s1)" by fastforce
  have i: "i = word_of_nat (length (hs (tx_tick tx)))" and s1: "tx_last_tick s1 = tx_tick tx" "tx_counter s1 = i + 1"
    using next_i assms(3,4) by (auto simp: next_tx_index_def Let_def in_step_def t split: if_splits)
  obtain s' where s': "index_transaction E p s = (Ok (), s')" "healthy E entries s'"
    "tx_last_tick s' = tx_last_tick s1" "tx_counter s' = tx_counter s1"
    "entries (storage s') CF_TX_BY_TICK
      = put_entry (tick_key (tx_tick tx) i) (hash_key (ext E) tx) (entries (storage s) CF_TX_BY_TICK)"
    using index_transaction_effect [OF assms(1) tx next_i] by metis
  have "numbered (entries (storage s') CF_TX_BY_TICK)
      (hs(tx_tick tx := hs (tx_tick tx) @ [hash_key (ext E) tx]))"
    unfolding s'(5) i using assms(3,5)
    by (intro numbered_append rocks_ascending [OF healthyD(1) [OF assms(1)]]) (simp_all add: in_step_def t)
  moreover have "\<forall>u > tx_tick tx. hs u = []"
    using assms(3,4) by (simp add: in_step_def t)
  ultimately show ?thesis
    using s' s1 i by (auto simp: in_step_def t)
qed

lemma transactions_in_step:
  assumes "healthy E entries s" "\<forall>p\<in>set ps. de_tx (serde E) p \<noteq> None" "in_step entries hs s"
    and "sorted (tx_last_tick s # map (payload_tick (serde E)) ps)" "\<And>t. length (hs t) + length ps < 2 ^ 32"
  shows "\<exists>s'. forS (index_transaction E) ps s = (Ok (), s') \<and> healthy E entries s'
    \<and> numbered (entries (storage s') CF_TX_BY_TICK)
        (\<lambda>t. hs t @ map (payload_hash (ext E) (serde E)) (grouped (payload_tick (serde E)) ps t))"
  using assms
proof (induction ps arbitrary: s hs)
  case Nil
  then show ?case by (simp add: grouped_simps in_step_def)
next
  case (Cons p ps)
  let ?t = "payload_tick (serde E) p" and ?h = "payload_hash (ext E) (serde E)"
  have "length (hs ?t) < 2 ^ 32" using Cons.prems(5) [of ?t] by simp
  with Cons.prems obtain s' where s': "index_transaction E p s = (Ok (), s')" "healthy E entries s'"
    "tx_last_tick s' = ?t" "in_step entries (hs(?t := hs ?t @ [?h p])) s'"
    using index_transaction_in_step [of E entries s p hs] by auto
  have len: "length ((hs(?t := hs ?t @ [?h p])) t) + length ps < 2 ^ 32" for t
    using Cons.prems(5) [of t] by auto
  have "sorted (tx_last_tick s' # map (payload_tick (serde E)) ps)" using Cons.prems(4) s'(3) by simp
  from Cons.IH [OF s'(2) _ s'(4) this len] Cons.prems(2)
  obtain s'' where s'': "forS (index_transaction E) ps s' = (Ok (), s'')" "healthy E entries s''"
    "numbered (entries (storage s'') CF_TX_BY_TICK)
      (\<lambda>t. (hs(?t := hs ?t @ [?h p])) t @ map ?h (grouped (payload_tick (serde E)) ps t))" by auto
  moreover have "(\<lambda>t. (hs(?t := hs ?t @ [?h p])) t @ map ?h (grouped (payload_tick (serde E)) ps t))
      = (\<lambda>t. hs t @ map ?h (grouped (payload_tick (serde E)) (p # ps) t))"
    by (auto simp: fun_eq_iff grouped_simps)
  ultimately show ?case using s'(1) by simp
qed

text \<open>
  C20: after transactions arriving in the order of their ticks are indexed into an empty tick index
  by a fresh indexer, the hashes of every tick are read back completely and in order of arrival.
\<close>

theorem transactions_in_tick_order:
  assumes "healthy E entries (new_indexer db pl fs)" "entries db CF_TX_BY_TICK = []"
    and "\<forall>p\<in>set ps. de_tx (serde E) p \<noteq> None" "sorted (map (payload_tick (serde E)) ps)" "length ps < 2 ^ 32"
  shows "\<exists>s'. forS (index_transaction E) ps (new_indexer db pl fs) = (Ok (), s')
    \<and> (\<forall>tick. get_tx_hashes_for_tick (rocks E) tick (storage s')
          = Ok (map (payload_hash (ext E) (serde E)) (filter (\<lambda>p. payload_tick (serde E) p = tick) ps)))"
proof -
  let ?h = "payload_hash (ext E) (serde E)" and ?g = "grouped (payload_tick (serde E)) ps"
  have "in_step entries (\<lambda>_. []) (new_indexer db pl fs)"
    using assms(2) numbered_Nil by (simp add: in_step_def new_indexer_def)
  moreover have "sorted (tx_last_tick (new_indexer db pl fs) # map (payload_tick (serde E)) ps)"
    using assms(4) by (simp add: new_indexer_def)
  ultimately obtain s' where s': "forS (index_transaction E) ps (new_indexer db pl fs) = (Ok (), s')"
    "healthy E entries s'" "numbered (entries (storage s') CF_TX_BY_TICK) (\<lambda>t. map ?h (?g t))"
    using transactions_in_step [OF assms(1,3), of "\<lambda>_. []"] assms(5) by auto
  have "length (map ?h (?g t)) \<le> 2 ^ 32" for t
    using le_trans [OF length_filter_le less_imp_le [OF assms(5)]] by (simp add: grouped_def)
  then have "get_tx_hashes_for_tick (rocks E) t (storage s') = Ok (map ?h (?g t))" for t
    using tick_scan [OF healthyD(1,4) [OF s'(2)], of t] numbered_block [OF s'(3), of t] by simp
  then show ?thesis using s'(1) by (auto simp: grouped_def)
qed

lemma first_of_tick:
  assumes "healthy E entries s" "de_tx (serde E) p = Some tx" "tx_tick tx \<noteq> tx_last_tick s \<or> tx_counter s = 0"
  shows "\<exists>s'. index_transaction E p s = (Ok (), s') \<and> healthy E entries s' \<and> tx_last_tick s' = tx_tick tx
    \<and> entries (storage s') CF_TX_BY_TICK
      = put_entry (tick_key (tx_tick tx) 0) (hash_key (ext E) tx) (entries (storage s) CF_TX_BY_TICK)"
proof -
  obtain i s1 where next_i: "next_tx_index (tx_tick tx) s = (i, s1)" by fastforce
  then have "i = 0" "tx_last_tick s1 = tx_tick tx"
    using assms(3) by (auto simp: next_tx_index_def Let_def split: if_splits)
  then show ?thesis using index_transaction_effect [OF assms(1,2) next_i] by metis
qed

text \<open>
  when transactions of two ticks interleave, the numbering of the first tick starts again and
  an entry is overwritten: of the first and the third transaction only the third remains in the
  tick index, although both were indexed without an error.
\<close>

theorem interleaved_transactions_lost:
  assumes "healthy E entries (new_indexer db pl fs)" "entries db CF_TX_BY_TICK = []"
    and "de_tx (serde E) a = Some ta" "de_tx (serde E) b = Some tb" "de_tx (serde E) c = Some tc"
    and "tx_tick ta = tx_tick tc" "tx_tick ta \<noteq> tx_tick tb"
  shows "\<exists>s'. forS (index_transaction E) [a, b, c] (new_indexer db pl fs) = (Ok (), s')
    \<and> get_tx_hashes_for_tick (rocks E) (tx_tick ta) (storage s') = Ok [hash_key (ext E) tc]"
proof -
  let ?s = "new_indexer db pl fs" and ?h = "hash_key (ext E)"
  obtain s1 where s1: "index_transaction E a ?s = (Ok (), s1)" "healthy E entries s1" "tx_last_tick s1 = tx_tick ta"
    "entries (storage s1) CF_TX_BY_TICK = put_entry (tick_key (tx_tick ta) 0) (?h ta) []"
    using first_of_tick [OF assms(1,3)] assms(2) by (auto simp: new_indexer_def)
  obtain s2 where s2: "index_transaction E b s1 = (Ok (), s2)" "healthy E entries s2" "tx_last_tick s2 = tx_tick tb"
    "entries (storage s2) CF_TX_BY_TICK = put_entry (tick_key (tx_tick tb) 0) (?h tb) (entries (storage s1) CF_TX_BY_TICK)"
    using first_of_tick [OF s1(2) assms(4)] s1(3) assms(7) by auto
  obtain s3 where s3: "index_transaction E c s2 = (Ok (), s3)" "healthy E entries s3"
    "entries (storage s3) CF_TX_BY_TICK = put_entry (tick_key (tx_tick ta) 0) (?h tc) (entries (storage s2) CF_TX_BY_TICK)"
    using first_of_tick [OF s2(2) assms(5)] s2(3) assms(6,7) by auto
  let ?ms = "(\<lambda>_. [])(tx_tick tb := [?h tb], tx_tick ta := [?h tc])"
  have "numbered (entries (storage s3) CF_TX_BY_TICK) ?ms"
    unfolding s3(3) s2(4) s1(4) numbered_def
    using assms(7) by (auto simp: map_of_put_entry tick_key_inject ascending_put_entry unat_eq_zero)
  then have "get_tx_hashes_for_tick (rocks E) (tx_tick ta) (storage s3) = Ok [?h tc]"
    using tick_scan [OF healthyD(1,4) [OF s3(2)], of "tx_tick ta"] numbered_block [of _ ?ms "tx_tick ta"] by simp
  then show ?thesis using s1(1) s2(1) s3(1) by simp
qed

section \<open>Ticks and epoch statistics\<close>

lemma export_effect:
  assumes "healthy E entries s"
  shows "\<exists>fs. export_previous E tick s = (Ok (), s\<lparr>cold_files := fs\<rparr>)"
proof -
  note ok = healthyD [OF assms]
  let ?x = "export_epoch (rocks E) (serde E) (fsys E) (data_dir E @ ''/cold'') (indexed_epoch (pipeline s))
      (0, indexed_tick (pipeline s)) (storage s) (cold_files s)"
  have "\<not> is_panic (fst ?x)" by (rule export_no_panic [OF ok(1,4,3)])
  then have "logged (export_epoch (rocks E) (serde E) (fsys E) (data_dir E @ ''/cold'')
      (indexed_epoch (pipeline s)) (0, indexed_tick (pipeline s)) (storage s)) s = (Ok (), s\<lparr>cold_files := snd ?x\<rparr>)"
    by (cases "fst ?x") (auto simp: logged_def Let_def case_prod_beta)
  then show ?thesis
    by (auto simp: export_previous_def Let_def intro: exI [of _ "cold_files s"])
qed

definition stored_stats :: "('db, 'j, 'f) env \<Rightarrow> ('db \<Rightarrow> string \<Rightarrow> (bytes \<times> bytes) list) \<Rightarrow> u16 \<Rightarrow> 'db \<Rightarrow> epoch_stats" where
  "stored_stats E entries epoch db = stats_of (serde E) epoch (map_of (entries db CF_EPOCH_STATS) (u16_to_be epoch))"

lemma index_tick_effect:
  assumes "healthy E entries s" "de_tick (serde E) p = Some tick" "td_epoch tick \<le> 1000"
  shows "\<exists>s' b. index_tick E p s = (Ok (), s') \<and> healthy E entries s'
    \<and> pipeline s' = store_indexed tick (pipeline s)
    \<and> map_of (entries (storage s') CF_TICK) (u32_to_be (td_tick tick)) = Some p
    \<and> map_of (entries (storage s') CF_META) (ascii ''current_tick'') = Some (u32_to_be (td_tick tick))
    \<and> map_of (entries (storage s') CF_META) (ascii ''current_epoch'') = Some (u16_to_be (td_epoch tick))
    \<and> map_of (entries (storage s') CF_EPOCH_STATS) (u16_to_be (td_epoch tick)) = Some b
    \<and> de_epoch_stats (serde E) b = Some (count_tick (td_tick tick) (stored_stats E entries (td_epoch tick) (storage s)))"
proof -
  note ok = healthyD [OF assms(1)]
  obtain fs where fs: "export_previous E tick s = (Ok (), s\<lparr>cold_files := fs\<rparr>)"
    using export_effect [OF assms(1)] by blast
  let ?batch = "batch_put_tick (td_tick tick) (td_epoch tick) p create_batch"
  define s2 where "s2 = update_pipeline (store_indexed tick)
    (s\<lparr>cold_files := fs, storage := snd (batch_write (rocks E) ?batch (storage s))\<rparr>)"
  have st2: "storage s2 = snd (batch_write (rocks E) ?batch (storage s))"
    "pipeline s2 = store_indexed tick (pipeline s)"
    by (simp_all add: s2_def update_pipeline_def)
  have run: "index_tick E p s = update_epoch_stats E (td_epoch tick) (count_tick (td_tick tick)) s2"
    using assms(2,3) writes_Ok(11) [OF ok(1), of ?batch "storage s"]
    by (simp add: index_tick_def of_json_def fs on_storage_Ok s2_def leD [OF assms(3)])
  have ent2: "entries (storage s2) = fold write_op (batch_put_tick (td_tick tick) (td_epoch tick) p []) (entries (storage s))"
    unfolding st2 by (simp add: batch_write_def rocks_batch [OF ok(1)] create_batch_def)
  have "healthy E entries s2"
    using ok warm_reachable.step [OF ok(4) warm_step.batch] by (auto simp: healthy_def st2 intro!: built.intros)
  then obtain db' b where s': "update_epoch_stats E (td_epoch tick) (count_tick (td_tick tick)) s2 = (Ok (), s2\<lparr>storage := db'\<rparr>)"
    "entries db' = write_op (CF_EPOCH_STATS, u16_to_be (td_epoch tick), b) (entries (storage s2))"
    "de_epoch_stats (serde E) b = Some (count_tick (td_tick tick) (stored_stats E entries (td_epoch tick) (storage s2)))"
    unfolding stored_stats_def using stats_effect [of E entries s2] by metis
  have cf: "CF_EPOCH_STATS \<noteq> CF_TICK" "CF_EPOCH_STATS \<noteq> CF_META" "CF_META \<noteq> CF_TICK"
    "ascii ''current_tick'' \<noteq> ascii ''current_epoch''"
    by (simp_all add: cf_defs ascii_def)
  have asc: "ascending (entries db cf)" for db cf by (rule rocks_ascending [OF ok(1)])
  have same: "entries (storage s2) CF_EPOCH_STATS = entries (storage s) CF_EPOCH_STATS"
    using cf by (simp add: ent2 batch_put_tick_def)
  have "healthy E entries (s2\<lparr>storage := db'\<rparr>)"
    using tick.handler_safe [OF assms(1), of p] run s'(1) by (simp add: safe_def)
  then show ?thesis
    using run s' cf st2(2)
    by (intro exI [of _ "s2\<lparr>storage := db'\<rparr>"] exI [of _ b])
      (simp add: stored_stats_def same map_of_put_entry asc ascending_put_entry ent2 batch_put_tick_def)
qed

definition payload_tick_no :: "'j serde \<Rightarrow> bytes \<Rightarrow> u32" where
  "payload_tick_no J p = td_tick (the (de_tick J p))"

lemma ticks_counted:
  assumes "healthy E entries s" "\<forall>p\<in>set ps. \<exists>tick. de_tick (serde E) p = Some tick \<and> td_epoch tick = epoch" "epoch \<le> 1000"
  shows "\<exists>s'. forS (index_tick E) ps s = (Ok (), s') \<and> healthy E entries s'
    \<and> stored_stats E entries epoch (storage s')
      = fold count_tick (map (payload_tick_no (serde E)) ps) (stored_stats E entries epoch (storage s))"
  using assms(1,2)
proof (induction ps arbitrary: s)
  case (Cons p ps)
  then obtain tick where tick: "de_tick (serde E) p = Some tick" "td_epoch tick = epoch" by auto
  then obtain s' where s': "index_tick E p s = (Ok (), s')" "healthy E entries s'"
    "stored_stats E entries epoch (storage s') = count_tick (td_tick tick) (stored_stats E entries epoch (storage s))"
    using index_tick_effect [OF Cons.prems(1) tick(1)] assms(3)
    by (auto simp: stored_stats_def stats_of_def)
  then show ?case using Cons.IH [OF s'(2)] Cons.prems(2) tick by (auto simp: payload_tick_no_def)
qed simp

lemma fold_count_tick:
  assumes "st = default_stats\<lparr>es_epoch := epoch\<rparr>"
  shows "fold count_tick ticks st = st\<lparr>es_tick_count := word_of_nat (length ticks),
    es_first_tick := (if ticks = [] then None else Some (Min (set ticks))),
    es_last_tick := (if ticks = [] then None else Some (Max (set ticks)))\<rparr>"
proof (induction ticks rule: rev_induct)
  case Nil
  then show ?case by (simp add: assms default_stats_def)
next
  case (snoc t ticks)
  then show ?case by (simp add: count_tick_def min.commute max.commute)
qed

text \<open>
  C29: after a non-empty sequence of ticks of one epoch (at most 1000) is indexed on a healthy
  environment that has no statistics for it, the statistics count the ticks and give the smallest
  and the greatest, and the last tick of the sequence is stored and is the current one, in the
  database and in the pipeline state.
\<close>

theorem ticks_indexed:
  assumes "healthy E entries s" "get_epoch_stats (rocks E) epoch (storage s) = Ok None" "epoch \<le> 1000"
    and "\<forall>p\<in>set (ps @ [q]). \<exists>tick. de_tick (serde E) p = Some tick \<and> td_epoch tick = epoch"
  shows "\<exists>s' b. forS (index_tick E) (ps @ [q]) s = (Ok (), s')
    \<and> get_epoch_stats (rocks E) epoch (storage s') = Ok (Some b)
    \<and> de_epoch_stats (serde E) b = Some \<lparr>es_epoch = epoch, es_tick_count = word_of_nat (length (ps @ [q])),
        es_tx_count = 0, es_entity_count = 0,
        es_first_tick = Some (Min (payload_tick_no (serde E) ` set (ps @ [q]))),
        es_last_tick = Some (Max (payload_tick_no (serde E) ` set (ps @ [q])))\<rparr>
    \<and> warm_get_tick (rocks E) (payload_tick_no (serde E) q) (storage s') = Ok (Some q)
    \<and> warm_get_current_tick (rocks E) (storage s') = Ok (Some (payload_tick_no (serde E) q))
    \<and> warm_get_current_epoch (rocks E) (storage s') = Ok (Some epoch)
    \<and> indexed_tick (pipeline s') = payload_tick_no (serde E) q \<and> indexed_epoch (pipeline s') = epoch"
proof -
  note ok = healthyD [OF assms(1)]
  obtain s1 where s1: "forS (index_tick E) ps s = (Ok (), s1)" "healthy E entries s1"
    "stored_stats E entries epoch (storage s1)
      = fold count_tick (map (payload_tick_no (serde E)) ps) (stored_stats E entries epoch (storage s))"
    using ticks_counted [OF assms(1) _ assms(3), of ps] assms(4) by auto
  obtain tick where tick: "de_tick (serde E) q = Some tick" "td_epoch tick = epoch" using assms(4) by auto
  obtain s' b where s': "index_tick E q s1 = (Ok (), s')" "healthy E entries s'" "pipeline s' = store_indexed tick (pipeline s1)"
    "map_of (entries (storage s') CF_TICK) (u32_to_be (td_tick tick)) = Some q"
    "map_of (entries (storage s') CF_META) (ascii ''current_tick'') = Some (u32_to_be (td_tick tick))"
    "map_of (entries (storage s') CF_META) (ascii ''current_epoch'') = Some (u16_to_be epoch)"
    "map_of (entries (storage s') CF_EPOCH_STATS) (u16_to_be epoch) = Some b"
    "de_epoch_stats (serde E) b = Some (count_tick (td_tick tick) (stored_stats E entries epoch (storage s1)))"
    using index_tick_effect [OF s1(2) tick(1)] assms(3) tick(2) by auto
  have q: "payload_tick_no (serde E) q = td_tick tick" by (simp add: payload_tick_no_def tick)
  have "stored_stats E entries epoch (storage s) = default_stats\<lparr>es_epoch := epoch\<rparr>"
    using assms(2) by (simp add: stored_stats_def stats_of_def get_epoch_stats_def rocks_get [OF ok(1)])
  then have stats: "count_tick (td_tick tick) (stored_stats E entries epoch (storage s1))
      = fold count_tick (map (payload_tick_no (serde E)) (ps @ [q])) (default_stats\<lparr>es_epoch := epoch\<rparr>)"
    by (simp add: s1(3) q)
  have forS_snoc: "forS (index_tick E) (ps @ [q]) s = (Ok (), s')"
    using s1(1) s'(1) by (simp add: forS_append)
  then show ?thesis
    using s' fold_count_tick [OF refl, where epoch = epoch and ticks = "map (payload_tick_no (serde E)) (ps @ [q])"]
    by (intro exI [of _ s'] exI [of _ b])
      (simp add: stats q tick(2) warm_get_tick_def warm_get_current_tick_def warm_get_current_epoch_def
        get_meta_def get_epoch_stats_def rocks_get [OF ok(1)] store_indexed_def default_stats_def)
qed

section \<open>A concrete environment\<close>

text \<open>
  A store of bytes in place of JSON, used only to exhibit an environment at which the hypotheses
  hold: a payload is a list of small numbers, a statistics record its fixed-width encoding.
\<close>

definition opt_bytes :: "u32 option \<Rightarrow> bytes" where
  "opt_bytes x = (case x of None \<Rightarrow> 0 # u32_to_le 0 | Some t \<Rightarrow> 1 # u32_to_le t)"

definition bytes_opt :: "bytes \<Rightarrow> u32 option" where
  "bytes_opt b = (if hd b = 0 then None else Some (u32_from_le (tl b)))"

definition stats_bytes :: "epoch_stats \<Rightarrow> bytes" where
  "stats_bytes st = u16_to_le (es_epoch st) @ u32_to_le (es_tick_count st) @ u64_to_le (es_tx_count st)
     @ u64_to_le (es_entity_count st) @ opt_bytes (es_first_tick st) @ opt_bytes (es_last_tick st)"

definition bytes_stats :: "bytes \<Rightarrow> epoch_stats" where
  "bytes_stats b = \<lparr>es_epoch = u16_from_le (take 2 b), es_tick_count = u32_from_le (take 4 (drop 2 b)),
     es_tx_count = u64_from_le (take 8 (drop 6 b)), es_entity_count = u64_from_le (take 8 (drop 14 b)),
     es_first_tick = bytes_opt (take 5 (drop 22 b)), es_last_tick = bytes_opt (take 5 (drop 27 b))\<rparr>"

definition demo_tick :: "u16 \<Rightarrow> u32 \<Rightarrow> tick_data" where
  "demo_tick epoch tick = \<lparr>td_computor_index = 0, td_epoch = epoch, td_tick = tick, td_timestamp = 0,
     td_time_lock = [], td_transaction_digests_hex = [], td_contract_fees_hex = [], td_signature_hex = []\<rparr>"

definition demo_tx :: "u32 \<Rightarrow> transaction" where
  "demo_tx tick = \<lparr>tx_hash = [], tx_source_hex = [], tx_source_identity = [], tx_destination_hex = [],
     tx_destination_identity = [], tx_amount = 0, tx_tick = tick, tx_input_type = 0, tx_input_size = 0,
     tx_input_hex = [], tx_input_type_name = [], tx_signature_hex = []\<rparr>"

definition demo_serde :: "bytes serde" where
  "demo_serde = \<lparr>
     de_tick = (\<lambda>b. case b of [e, t] \<Rightarrow> Some (demo_tick (ucast e) (ucast t)) | _ \<Rightarrow> None),
     de_tx = (\<lambda>b. case b of [t] \<Rightarrow> Some (demo_tx (ucast t)) | _ \<Rightarrow> None),
     de_entity = (\<lambda>_. None), de_computors = (\<lambda>_. None), de_asset = (\<lambda>_. None),
     de_log_events = (\<lambda>_. None), de_contract_ipo = (\<lambda>_. None),
     de_epoch_stats = (\<lambda>b. Some (bytes_stats b)),
     de_value = (\<lambda>b. if b = [] then None else Some b),
     field_u64 = (\<lambda>b k. Some (ucast (hd b))), field_i64 = (\<lambda>_ _. None), field_str = (\<lambda>_ _. None),
     ser_epoch_stats = (\<lambda>st. Ok (stats_bytes st)), ser_log_event = (\<lambda>_. Ok [])\<rparr>"

definition demo_fs :: "unit filesystem" where
  "demo_fs = \<lparr>create_dir_all = (\<lambda>_ fs. (Ok (), fs)), write_parquet = (\<lambda>_ _ fs. (Ok (), fs)),
     read_dir = (\<lambda>_ _. None)\<rparr>"

definition demo_env :: "(batch_op list, bytes, unit) env" where
  "demo_env = \<lparr>rocks = mem_rocks, serde = demo_serde, ext = demo_ext, fsys = demo_fs, data_dir = ''data''\<rparr>"

abbreviation demo_state :: "(batch_op list, unit) indexer" where
  "demo_state \<equiv> new_indexer [] (new_pipeline 0) ()"

lemma opt_bytes [simp]: "length (opt_bytes x) = 5" "bytes_opt (opt_bytes x) = x"
  by (auto simp: opt_bytes_def bytes_opt_def split: option.split)

lemma bytes_stats_bytes: "bytes_stats (stats_bytes st) = st"
  by (simp add: bytes_stats_def stats_bytes_def)

lemma demo_healthy: "healthy demo_env mem_entries demo_state"
proof -
  have "serde_ok demo_serde"
    by (simp add: serde_ok_def demo_serde_def bytes_stats_bytes)
  moreover have "fs_ok demo_fs" by (simp add: fs_ok_def demo_fs_def)
  moreover have "warm_reachable mem_rocks mem_entries []"
    by (rule warm_reachable.empty) (simp add: mem_entries_def)
  ultimately show ?thesis
    by (simp add: healthy_def demo_env_def mem_rocks_ok new_indexer_def)
qed

lemma demo_serde_simps [simp]: "serde demo_env = demo_serde" "rocks demo_env = mem_rocks" "ext demo_env = demo_ext"
  "mem_entries [] cf = []" "storage demo_state = []"
  by (simp_all add: demo_env_def mem_entries_def new_indexer_def)

theorem consumer_acknowledges_all_witness:
  "fst (process_batch (index_transaction demo_env) [(1 :: nat, [7]), (2, []), (3, [8])] demo_state) = Ok [1, 2, 3]"
  using consumer_acknowledges_all [OF demo_healthy, of "''QONDUIT_TX''" "index_transaction demo_env" LagTx
      "[(1 :: nat, [7]), (2, []), (3, [8])]"]
  by (simp add: handlers_def)

theorem custom_messages_kept_witness:
  "\<exists>s'. forS (index_custom_message demo_env) [[7, 1], [8], [7, 2]] demo_state = (Ok (), s')
    \<and> get_custom_messages_for_tick mem_rocks 7 (storage s') = Ok [[7, 1], [7, 2]]"
  using custom_messages_kept [OF demo_healthy, of "[[7, 1], [8], [7, 2]]"]
  by (auto simp: demo_serde_def message_tick_def u64_or_0_def)

theorem transactions_in_tick_order_witness:
  "\<exists>s'. forS (index_transaction demo_env) [[7], [7], [8]] demo_state = (Ok (), s')
    \<and> get_tx_hashes_for_tick mem_rocks 7 (storage s') = Ok [payload_hash demo_ext demo_serde [7], payload_hash demo_ext demo_serde [7]]"
  using transactions_in_tick_order [OF demo_healthy, of "[[7], [7], [8]]"]
  by (auto simp: demo_serde_def payload_tick_def demo_tx_def)

theorem interleaved_transactions_lost_witness:
  "\<exists>s'. forS (index_transaction demo_env) [[7], [8], [7]] demo_state = (Ok (), s')
    \<and> get_tx_hashes_for_tick mem_rocks 7 (storage s') = Ok [hash_key demo_ext (demo_tx 7)]"
  using interleaved_transactions_lost [OF demo_healthy, of "[7]" "demo_tx 7" "[8]" "demo_tx 8" "[7]" "demo_tx 7"]
  by (simp add: demo_serde_def demo_tx_def)

theorem ticks_indexed_witness:
  "\<exists>s'. forS (index_tick demo_env) ([[120, 9]] @ [[120, 5]]) demo_state = (Ok (), s')
    \<and> warm_get_current_tick mem_rocks (storage s') = Ok (Some 5)"
  using ticks_indexed [OF demo_healthy, of 120 "[[120, 9]]" "[120, 5]"]
  by (auto simp: demo_serde_def demo_tick_def payload_tick_no_def get_epoch_stats_def mem_rocks_def)

end
