(* ===== verification/Consumer.thy ===== *)
theory Consumer
  imports Indexing "HOL-Library.Sublist"
begin

text \<open>
  The tasks of \<^verbatim>\<open>crates/processor/src/consumer.rs\<close> and \<^verbatim>\<open>lib.rs\<close>: one task per stream sets up a durable
  pull consumer and then fetches, handles and acknowledges messages for ever.  A task is a state
  machine whose steps are the code between two suspension points, so that the eleven tasks
  interleave at the granularity of one message: a handler never suspends, hence the futures of a
  batch complete in the order they were pushed.  JetStream is a parameter, a record of the calls the
  source makes; \<open>jetstream_ok\<close> states its documented behaviour over three views: the messages a
  stream stores, how many of them a consumer has been sent, and the acknowledgements it received.
\<close>

section \<open>JetStream consumers\<close>

datatype deliver_policy = DeliverAll | DeliverNew

datatype ack_policy = AckNone | AckAll | AckExplicit

record pull_config =
  durable_name :: string
  policy :: deliver_policy
  acks_by :: ack_policy
  max_deliver :: i64

text \<open>
  \<open>js_store\<close> is what a publication by the ingestion side does to the server; the processor does
  not call it.  A fetch fails as a whole (\<open>None\<close>) or returns a stream of messages and errors.
\<close>

record ('n, 'm) jetstream =
  js_get_stream :: "string \<Rightarrow> 'n \<Rightarrow> bool"
  js_delete_consumer :: "string \<times> string \<Rightarrow> 'n \<Rightarrow> bool \<times> 'n"
  js_create_consumer :: "string \<Rightarrow> pull_config \<Rightarrow> 'n \<Rightarrow> bool \<times> 'n"
  js_get_consumer :: "string \<times> string \<Rightarrow> 'n \<Rightarrow> bool"
  js_fetch :: "string \<times> string \<Rightarrow> nat \<Rightarrow> 'n \<Rightarrow> ('m \<times> bytes) option list option \<times> 'n"
  js_ack :: "string \<times> string \<Rightarrow> 'm \<Rightarrow> 'n \<Rightarrow> bool \<times> 'n"
  js_num_pending :: "string \<times> string \<Rightarrow> 'n \<Rightarrow> u64 option"
  js_store :: "string \<Rightarrow> bytes \<Rightarrow> 'n \<Rightarrow> 'n"

section \<open>One task\<close>

record processor_config =
  consumer_group :: string
  catch_up :: bool
  pc_batch_size :: nat
  pc_concurrency :: nat

definition default_processor_config :: processor_config where
  "default_processor_config = \<lparr>consumer_group = ''qonduit-processors'', catch_up = True,
     pc_batch_size = 100, pc_concurrency = 16\<rparr>"

definition consumer_config :: "bool \<Rightarrow> string \<Rightarrow> pull_config" where
  "consumer_config catching durable = \<lparr>durable_name = durable,
     policy = (if catching then DeliverAll else DeliverNew), acks_by = AckExplicit, max_deliver = 5\<rparr>"

text \<open>
  The set-up: a missing stream ends the task; in catch-up mode the durable consumer is deleted
  first, a failure being only logged; when it cannot be created an existing one is taken.
\<close>

definition open_consumer :: "('n, 'm) jetstream \<Rightarrow> bool \<Rightarrow> string \<times> string \<Rightarrow> 'n \<Rightarrow> bool \<times> 'n" where
  "open_consumer J catching c n =
     (if \<not> js_get_stream J (fst c) n then (False, n)
      else
        let n = (if catching then snd (js_delete_consumer J c n) else n) in
        case js_create_consumer J (fst c) (consumer_config catching (snd c)) n of
          (True, n) \<Rightarrow> (True, n)
        | (False, n) \<Rightarrow> (js_get_consumer J c n, n))"

datatype 'm task =
    Starting
  | Skipped
  | Fetching nat
  | Handling nat "('m \<times> bytes) list"
  | Panicked panic

definition collect_batch :: "('m \<times> bytes) option list \<Rightarrow> ('m \<times> bytes) list" where
  "collect_batch messages = List.map_filter (\<lambda>m. m) messages"

definition report_lag :: "nat \<Rightarrow> nat \<Rightarrow> stream_lag \<Rightarrow> u64 option \<Rightarrow> ('db, 'f) indexer \<Rightarrow> nat \<times> ('db, 'f) indexer" where
  "report_lag batch current lag info s =
     (case info of
        Some pending \<Rightarrow> (scaled_batch batch pending, update_pipeline (store_lag lag pending) s)
      | None \<Rightarrow> (current, s))"

type_synonym ('db, 'f) stream_task =
  "(string \<times> string) \<times> (bytes \<Rightarrow> ('db, 'f) indexer \<Rightarrow> unit outcome \<times> ('db, 'f) indexer) \<times> stream_lag"

fun task_step :: "('n, 'm) jetstream \<Rightarrow> processor_config \<Rightarrow> ('db, 'f) stream_task \<Rightarrow> 'm task \<Rightarrow> 'n
    \<Rightarrow> ('db, 'f) indexer \<Rightarrow> 'm task \<times> 'n \<times> ('db, 'f) indexer" where
  "task_step J cfg (c, handler, lag) Starting n s =
     (let (opened, n) = open_consumer J (catch_up cfg) c n
      in (if opened then Fetching (pc_batch_size cfg) else Skipped, n, s))"
| "task_step J cfg (c, handler, lag) (Fetching current) n s =
     (case js_fetch J c current n of
        (Some messages, n) \<Rightarrow> (Handling current (collect_batch messages), n, s)
      | (None, n) \<Rightarrow> (Fetching current, n, s))"
| "task_step J cfg (c, handler, lag) (Handling current ((msg, payload) # batch)) n s =
     (case handler payload s of
        (Panic p, s) \<Rightarrow> (Panicked p, n, s)
      | (_, s) \<Rightarrow> (Handling current batch, snd (js_ack J c msg n), s))"
| "task_step J cfg (c, handler, lag) (Handling current []) n s =
     (let (current, s) = report_lag (pc_batch_size cfg) current lag (js_num_pending J c n) s
      in (Fetching current, n, s))"
| "task_step J cfg t Skipped n s = (Skipped, n, s)"
| "task_step J cfg t (Panicked p) n s = (Panicked p, n, s)"

text \<open>Left alone, a task works through its batch as \<open>process_batch\<close> does and acknowledges it in order.\<close>

fun task_steps :: "nat \<Rightarrow> ('n, 'm) jetstream \<Rightarrow> processor_config \<Rightarrow> ('db, 'f) stream_task \<Rightarrow> 'm task \<times> 'n \<times> ('db, 'f) indexer
    \<Rightarrow> 'm task \<times> 'n \<times> ('db, 'f) indexer" where
  "task_steps 0 J cfg d x = x"
| "task_steps (Suc k) J cfg d (t, n, s) = task_steps k J cfg d (task_step J cfg d t n s)"

lemma task_steps_batch:
  "process_batch h batch s = (Ok acks, s') \<Longrightarrow>
     task_steps (length batch) J cfg (c, h, lag) (Handling k batch, n, s)
       = (Handling k [], fold (\<lambda>m. snd \<circ> js_ack J c m) acks n, s')"
proof (induction batch arbitrary: n s acks)
  case (Cons m batch)
  obtain msg payload where m: "m = (msg, payload)" by fastforce
  obtain r s1 where h: "h payload s = (r, s1)" by fastforce
  from Cons.prems obtain rest where "process_batch h batch s1 = (Ok rest, s')" "acks = msg # rest" "\<not> is_panic r"
    by (cases r; cases "process_batch h batch s1"; cases "fst (process_batch h batch s1)") (auto simp: m h)
  with Cons.IH [of s1 rest "snd (js_ack J c msg n)"] show ?case by (cases r) (simp_all add: m h)
qed simp

section \<open>All tasks\<close>

definition durable_names :: "string list" where
  "durable_names = [''qonduit-processor-ticks'', ''qonduit-processor-tx'', ''qonduit-processor-entities'',
     ''qonduit-processor-computors'', ''qonduit-processor-assets'', ''qonduit-processor-contracts'',
     ''qonduit-processor-custmsg'', ''qonduit-processor-spectrum'', ''qonduit-processor-log'',
     ''qonduit-processor-tickvote'', ''qonduit-processor-oracle'']"

definition stream_tasks :: "('db, 'j, 'f) env \<Rightarrow> ('db, 'f) stream_task list" where
  "stream_tasks E = map2 (\<lambda>durable (stream, h). ((stream, durable), h)) durable_names (handlers E)"

record ('n, 'm, 'db, 'f) processor =
  broker :: 'n
  tasks :: "'m task list"
  index :: "('db, 'f) indexer"

definition start_processor :: "('db, 'j, 'f) env \<Rightarrow> 'n \<Rightarrow> ('db, 'f) indexer \<Rightarrow> ('n, 'm, 'db, 'f) processor" where
  "start_processor E n s = \<lparr>broker = n, tasks = map (\<lambda>t. Starting) (stream_tasks E), index = s\<rparr>"

text \<open>What the runtime schedules: a step of a task, or a message that arrives at the server.\<close>

datatype event = Schedule nat | Arrive string bytes

fun processor_step :: "('db, 'j, 'f) env \<Rightarrow> ('n, 'm) jetstream \<Rightarrow> processor_config \<Rightarrow> event
    \<Rightarrow> ('n, 'm, 'db, 'f) processor \<Rightarrow> ('n, 'm, 'db, 'f) processor" where
  "processor_step E J cfg (Arrive stream payload) p = p\<lparr>broker := js_store J stream payload (broker p)\<rparr>"
| "processor_step E J cfg (Schedule i) p =
     (if i < length (tasks p)
      then let (t, n, s) = task_step J cfg (stream_tasks E ! i) (tasks p ! i) (broker p) (index p)
           in p\<lparr>broker := n, tasks := (tasks p)[i := t], index := s\<rparr>
      else p)"

definition processor_run :: "('db, 'j, 'f) env \<Rightarrow> ('n, 'm) jetstream \<Rightarrow> processor_config \<Rightarrow> 'n \<Rightarrow> 'db
    \<Rightarrow> pipeline_state \<Rightarrow> 'f \<Rightarrow> event list \<Rightarrow> ('n, 'm, 'db, 'f) processor" where
  "processor_run E J cfg n db pl fs events =
     fold (processor_step E J cfg) events (start_processor E n (new_indexer db pl fs))"

section \<open>What JetStream promises\<close>

text \<open>
  \<open>stored n st\<close> are the messages of a stream in order, \<open>cursor n c\<close> how many of them consumer \<open>c\<close> was
  sent (\<open>None\<close> when there is no such consumer), \<open>acked n c\<close> its acknowledgements.  A new consumer
  starts at the first message or at the end, a fetch delivers the next messages, at most as many
  as asked for, an arriving message goes to the end of its stream.  Acknowledgements arrive within
  the acknowledgement wait and no message expires, so nothing is delivered twice or dropped.
\<close>

definition delivered :: "('m \<times> bytes) option list option \<Rightarrow> ('m \<times> bytes) list" where
  "delivered r = (case r of None \<Rightarrow> [] | Some messages \<Rightarrow> collect_batch messages)"

definition consumers_ok :: "('n, 'm) jetstream \<Rightarrow> ('n \<Rightarrow> string \<Rightarrow> ('m \<times> bytes) list)
    \<Rightarrow> ('n \<Rightarrow> string \<times> string \<Rightarrow> nat option) \<Rightarrow> ('n \<Rightarrow> string \<times> string \<Rightarrow> 'm list) \<Rightarrow> bool" where
  "consumers_ok J stored cursor acked \<longleftrightarrow>
     (\<forall>c n. \<exists>a. stored (snd (js_delete_consumer J c n)) = stored n
        \<and> cursor (snd (js_delete_consumer J c n)) = (cursor n)(c := None)
        \<and> acked (snd (js_delete_consumer J c n)) = (acked n)(c := a)) \<and>
     (\<forall>st cf n r n'. js_create_consumer J st cf n = (r, n') \<longrightarrow> cursor n (st, durable_name cf) = None \<longrightarrow>
        stored n' = stored n \<and>
        (if r then cursor n' = (cursor n)((st, durable_name cf) \<mapsto>
               (case policy cf of DeliverAll \<Rightarrow> 0 | DeliverNew \<Rightarrow> length (stored n st)))
             \<and> acked n' = (acked n)((st, durable_name cf) := [])
         else cursor n' = cursor n \<and> acked n' = acked n)) \<and>
     (\<forall>c n. js_get_consumer J c n \<longleftrightarrow> cursor n c \<noteq> None)"

definition fetches_ok :: "('n, 'm) jetstream \<Rightarrow> ('n \<Rightarrow> string \<Rightarrow> ('m \<times> bytes) list)
    \<Rightarrow> ('n \<Rightarrow> string \<times> string \<Rightarrow> nat option) \<Rightarrow> ('n \<Rightarrow> string \<times> string \<Rightarrow> 'm list) \<Rightarrow> bool" where
  "fetches_ok J stored cursor acked \<longleftrightarrow>
     (\<forall>c k n r n' i. js_fetch J c k n = (r, n') \<longrightarrow> cursor n c = Some i \<longrightarrow>
        stored n' = stored n \<and> acked n' = acked n \<and> cursor n' = (cursor n)(c \<mapsto> i + length (delivered r))
        \<and> length (delivered r) \<le> k \<and> prefix (delivered r) (drop i (stored n (fst c))))"

definition acks_ok :: "('n, 'm) jetstream \<Rightarrow> ('n \<Rightarrow> string \<Rightarrow> ('m \<times> bytes) list)
    \<Rightarrow> ('n \<Rightarrow> string \<times> string \<Rightarrow> nat option) \<Rightarrow> ('n \<Rightarrow> string \<times> string \<Rightarrow> 'm list) \<Rightarrow> bool" where
  "acks_ok J stored cursor acked \<longleftrightarrow>
     (\<forall>c m n. stored (snd (js_ack J c m n)) = stored n \<and> cursor (snd (js_ack J c m n)) = cursor n
        \<and> acked (snd (js_ack J c m n)) = (acked n)(c := acked n c @ [m]))"

definition arrivals_ok :: "('n, 'm) jetstream \<Rightarrow> ('n \<Rightarrow> string \<Rightarrow> ('m \<times> bytes) list)
    \<Rightarrow> ('n \<Rightarrow> string \<times> string \<Rightarrow> nat option) \<Rightarrow> ('n \<Rightarrow> string \<times> string \<Rightarrow> 'm list) \<Rightarrow> bool" where
  "arrivals_ok J stored cursor acked \<longleftrightarrow>
     (\<forall>st b n. (\<exists>ms. stored (js_store J st b n) = (stored n)(st := stored n st @ ms))
        \<and> cursor (js_store J st b n) = cursor n \<and> acked (js_store J st b n) = acked n)"

definition jetstream_ok :: "('n, 'm) jetstream \<Rightarrow> ('n \<Rightarrow> string \<Rightarrow> ('m \<times> bytes) list)
    \<Rightarrow> ('n \<Rightarrow> string \<times> string \<Rightarrow> nat option) \<Rightarrow> ('n \<Rightarrow> string \<times> string \<Rightarrow> 'm list) \<Rightarrow> bool" where
  "jetstream_ok J stored cursor acked \<longleftrightarrow> consumers_ok J stored cursor acked \<and> fetches_ok J stored cursor acked
     \<and> acks_ok J stored cursor acked \<and> arrivals_ok J stored cursor acked"

lemmas jetstream_okD = jetstream_ok_def [THEN iffD1, THEN conjunct1]
  jetstream_ok_def [THEN iffD1, THEN conjunct2, THEN conjunct1]
  jetstream_ok_def [THEN iffD1, THEN conjunct2, THEN conjunct2, THEN conjunct1]
  jetstream_ok_def [THEN iffD1, THEN conjunct2, THEN conjunct2, THEN conjunct2]

lemmas delete_consumer_ok = jetstream_okD(1) [unfolded consumers_ok_def, THEN conjunct1, rule_format]
lemmas create_consumer_ok = jetstream_okD(1) [unfolded consumers_ok_def, THEN conjunct2, THEN conjunct1, rule_format]
lemmas get_consumer_ok = jetstream_okD(1) [unfolded consumers_ok_def, THEN conjunct2, THEN conjunct2, rule_format]
lemmas fetch_ok = jetstream_okD(2) [unfolded fetches_ok_def, rule_format]
lemmas ack_ok = jetstream_okD(3) [unfolded acks_ok_def, rule_format]
lemmas arrival_ok = jetstream_okD(4) [unfolded arrivals_ok_def, rule_format]

section \<open>The log of the work done\<close>

datatype 'm work = Handled "'m \<times> bytes" | Lagged u64

fun do_work :: "('db, 'f) stream_task \<Rightarrow> 'm work \<Rightarrow> ('db, 'f) indexer \<Rightarrow> ('db, 'f) indexer" where
  "do_work (c, handler, lag) (Handled m) s = snd (handler (snd m) s)"
| "do_work (c, handler, lag) (Lagged pending) s = update_pipeline (store_lag lag pending) s"

definition replay :: "('db, 'j, 'f) env \<Rightarrow> (nat \<times> 'm work) list \<Rightarrow> ('db, 'f) indexer \<Rightarrow> ('db, 'f) indexer" where
  "replay E trace s = fold (\<lambda>(i, w). do_work (stream_tasks E ! i) w) trace s"

definition works :: "'m work list \<Rightarrow> ('m \<times> bytes) list" where
  "works ws = List.map_filter (\<lambda>w. case w of Handled m \<Rightarrow> Some m | Lagged x \<Rightarrow> None) ws"

definition handled_by :: "nat \<Rightarrow> (nat \<times> 'm work) list \<Rightarrow> ('m \<times> bytes) list" where
  "handled_by i trace = works (map snd (filter (\<lambda>e. fst e = i) trace))"

lemma works_simps [simp]: "works [] = []" "works [Handled m] = [m]" "works [Lagged x] = []"
  "works (ws @ ws') = works ws @ works ws'"
  by (simp_all add: works_def List.map_filter_def)

lemma handled_by_append [simp]:
  "handled_by i (tr @ map (Pair j) ws) = handled_by i tr @ (if i = j then works ws else [])"
proof -
  have "map snd (filter (\<lambda>e. fst e = i) (map (Pair j) ws)) = (if i = j then ws else [])"
    by (induction ws) auto
  then show ?thesis by (simp add: handled_by_def)
qed

lemma replay_map_Pair: "replay E (map (Pair i) ws) s = fold (do_work (stream_tasks E ! i)) ws s"
  by (induction ws arbitrary: s) (simp_all add: replay_def)

lemma replay_simps [simp]: "replay E [] s = s" "replay E (tr @ tr') s = replay E tr' (replay E tr s)"
  by (simp_all add: replay_def)

text \<open>Where a task stands when it has handled \<open>hs\<close>.\<close>

fun task_at :: "('n \<Rightarrow> string \<Rightarrow> ('m \<times> bytes) list) \<Rightarrow> ('n \<Rightarrow> string \<times> string \<Rightarrow> nat option)
    \<Rightarrow> ('n \<Rightarrow> string \<times> string \<Rightarrow> 'm list) \<Rightarrow> 'n \<Rightarrow> string \<times> string \<Rightarrow> ('m \<times> bytes) list \<Rightarrow> 'm task \<Rightarrow> bool" where
  "task_at stored cursor acked n c hs Starting \<longleftrightarrow> hs = []"
| "task_at stored cursor acked n c hs Skipped \<longleftrightarrow> hs = []"
| "task_at stored cursor acked n c hs (Fetching k) \<longleftrightarrow> cursor n c = Some (length hs)
     \<and> prefix hs (stored n (fst c)) \<and> acked n c = map fst hs"
| "task_at stored cursor acked n c hs (Handling k ms) \<longleftrightarrow> cursor n c = Some (length hs + length ms)
     \<and> prefix (hs @ ms) (stored n (fst c)) \<and> acked n c = map fst hs"
| "task_at stored cursor acked n c hs (Panicked p) \<longleftrightarrow> False"

lemma task_at_frame:
  assumes "task_at stored cursor acked n c hs t" "prefix (stored n (fst c)) (stored n' (fst c))"
    "cursor n' c = cursor n c" "acked n' c = acked n c"
  shows "task_at stored cursor acked n' c hs t"
  using assms by (cases t) (auto intro: prefix_order.trans)

text \<open>The set-up in catch-up mode: the consumer starts at the first message, or there is none.\<close>

lemma open_consumer_at:
  assumes ok: "jetstream_ok J stored cursor acked" and op: "open_consumer J True c n = (b, n')"
  shows "stored n' = stored n \<and> (\<forall>d. d \<noteq> c \<longrightarrow> cursor n' d = cursor n d \<and> acked n' d = acked n d)
    \<and> (b \<longrightarrow> cursor n' c = Some 0 \<and> acked n' c = [])"
proof -
  let ?cf = "consumer_config True (snd c)"
  obtain n1 where n1: "n1 = snd (js_delete_consumer J c n)" by simp
  obtain a where del: "stored n1 = stored n" "cursor n1 = (cursor n)(c := None)" "acked n1 = (acked n)(c := a)"
    using delete_consumer_ok [OF ok, of c n] n1 by blast
  obtain r n2 where cr: "js_create_consumer J (fst c) ?cf n1 = (r, n2)" by fastforce
  have c: "(fst c, durable_name ?cf) = c" "policy ?cf = DeliverAll"
    by (simp_all add: consumer_config_def)
  have created: "stored n2 = stored n1 \<and> (if r then cursor n2 = (cursor n1)(c \<mapsto> 0) \<and> acked n2 = (acked n1)(c := [])
      else cursor n2 = cursor n1 \<and> acked n2 = acked n1)"
    using create_consumer_ok [OF ok cr] c del(2) by (metis deliver_policy.simps(3) fun_upd_same)
  show ?thesis
  proof (cases "js_get_stream J (fst c) n")
    case True
    then have "n' = n2" "b = r"
      using op cr created del(2) get_consumer_ok [OF ok, of c n2]
      by (cases r; auto simp: open_consumer_def Let_def n1)+
    with created del show ?thesis by (auto split: if_splits)
  next
    case False
    with op show ?thesis by (auto simp: open_consumer_def)
  qed
qed

text \<open>One step of a task on a healthy environment: the work it does, and where it stands after it.\<close>

lemma task_step_at:
  assumes ok: "jetstream_ok J stored cursor acked" and "catch_up cfg"
    and st: "task_step J cfg (c, h, lag) t n s = (t', n', s')" and t: "task_at stored cursor acked n c hs t"
    and safe: "\<And>b s. healthy E entries s \<Longrightarrow> safe (healthy E entries) (h b s)" and s: "healthy E entries s"
  shows "stored n' = stored n \<and> (\<forall>d. d \<noteq> c \<longrightarrow> cursor n' d = cursor n d \<and> acked n' d = acked n d)
    \<and> (\<exists>ws. s' = fold (do_work (c, h, lag)) ws s \<and> healthy E entries s'
        \<and> task_at stored cursor acked n' c (hs @ works ws) t')"
proof (cases t)
  case Starting
  obtain b n1 where op: "open_consumer J True c n = (b, n1)" by fastforce
  have "n' = n1" "s' = s" "t' = (if b then Fetching (pc_batch_size cfg) else Skipped)" "hs = []"
    using st t op \<open>catch_up cfg\<close> by (simp_all add: Starting)
  with open_consumer_at [OF ok op] s show ?thesis by (auto intro!: exI [of _ "[]"])
next
  case (Fetching k)
  obtain r n1 where f: "js_fetch J c k n = (r, n1)" by fastforce
  have now: "n' = n1" "s' = s"
    "t' = (case r of None \<Rightarrow> Fetching k | Some messages \<Rightarrow> Handling k (collect_batch messages))"
    using st f by (auto simp: Fetching split: option.splits)
  have at: "cursor n c = Some (length hs)" "prefix hs (stored n (fst c))" "acked n c = map fst hs"
    using t by (simp_all add: Fetching)
  note fo = fetch_ok [OF ok f at(1)]
  have "prefix (hs @ delivered r) (stored n (fst c))"
    using at(2) fo by (auto simp: prefix_def)
  with now fo at s show ?thesis
    by (cases r) (auto simp: delivered_def intro!: exI [of _ "[]"])
next
  case (Handling k ms)
  show ?thesis
  proof (cases ms)
    case Nil
    obtain k' where now: "n' = n" "t' = Fetching k'"
      and s': "s' = s \<or> (\<exists>x. s' = update_pipeline (store_lag lag x) s)"
      using st by (auto simp: Handling Nil report_lag_def split: option.splits)
    from s' have "\<exists>ws. s' = fold (do_work (c, h, lag)) ws s \<and> hs @ works ws = hs \<and> healthy E entries s'"
    proof
      assume "s' = s" then show ?thesis using s by (intro exI [of _ "[]"]) simp
    next
      assume "\<exists>x. s' = update_pipeline (store_lag lag x) s"
      then obtain x where "s' = update_pipeline (store_lag lag x) s" ..
      then show ?thesis using s by (intro exI [of _ "[Lagged x]"]) simp
    qed
    moreover have "task_at stored cursor acked n' c hs t'" using t now by (simp add: Handling Nil)
    ultimately show ?thesis using now(1) by metis
  next
    case (Cons m batch)
    obtain r s1 where h: "h (snd m) s = (r, s1)" by fastforce
    have s1: "\<not> is_panic r" "healthy E entries s1" using safe [OF s, of "snd m"] h by (simp_all add: safe_def)
    have now: "t' = Handling k batch" "n' = snd (js_ack J c (fst m) n)" "s' = s1"
      using st h s1(1) by (cases m; cases r; simp add: Handling Cons)+
    then show ?thesis
      using t s1(2) h ack_ok [OF ok, of c "fst m" n]
      by (auto simp: Handling Cons intro!: exI [of _ "[Handled m]"])
  qed
qed (use st t s in \<open>auto intro!: exI [of _ "[]"]\<close>)

section \<open>All interleavings\<close>

lemma stream_tasks_distinct: "distinct (map fst (stream_tasks E))"
  by (simp add: stream_tasks_def durable_names_def handlers_def)

lemma handlers_safe:
  assumes "(c, h, lag) \<in> set (stream_tasks E)" "healthy E entries s"
  shows "safe (healthy E entries) (h b s)"
  using assms
  by (auto simp: stream_tasks_def durable_names_def handlers_def tick.handler_safe tx.handler_safe
      entity.handler_safe computors.handler_safe asset.handler_safe contract_ipo.handler_safe
      custom_message.handler_safe spectrum.handler_safe log_events.handler_safe tick_vote.handler_safe
      oracle_msg.handler_safe)

definition serialised :: "('db, 'j, 'f) env \<Rightarrow> ('db \<Rightarrow> string \<Rightarrow> (bytes \<times> bytes) list)
    \<Rightarrow> ('n \<Rightarrow> string \<Rightarrow> ('m \<times> bytes) list) \<Rightarrow> ('n \<Rightarrow> string \<times> string \<Rightarrow> nat option)
    \<Rightarrow> ('n \<Rightarrow> string \<times> string \<Rightarrow> 'm list) \<Rightarrow> ('db, 'f) indexer \<Rightarrow> (nat \<times> 'm work) list
    \<Rightarrow> ('n, 'm, 'db, 'f) processor \<Rightarrow> bool" where
  "serialised E entries stored cursor acked s trace p \<longleftrightarrow>
     index p = replay E trace s \<and> healthy E entries (index p) \<and> length (tasks p) = length (stream_tasks E)
     \<and> (\<forall>e\<in>set trace. fst e < length (stream_tasks E))
     \<and> (\<forall>i<length (tasks p). task_at stored cursor acked (broker p) (fst (stream_tasks E ! i))
          (handled_by i trace) (tasks p ! i))"

lemma schedule_effect:
  assumes ok: "jetstream_ok J stored cursor acked" and cu: "catch_up cfg"
    and inv: "serialised E entries stored cursor acked s trace p"
    and i: "i < length (tasks p)" and task: "stream_tasks E ! i = (c, h, lag)"
  shows "\<exists>t' n' s' ws. task_step J cfg (c, h, lag) (tasks p ! i) (broker p) (index p) = (t', n', s')
    \<and> processor_step E J cfg (Schedule i) p = p\<lparr>broker := n', tasks := (tasks p)[i := t'], index := s'\<rparr>
    \<and> stored n' = stored (broker p)
    \<and> (\<forall>j<length (tasks p). j \<noteq> i \<longrightarrow> cursor n' (fst (stream_tasks E ! j)) = cursor (broker p) (fst (stream_tasks E ! j))
        \<and> acked n' (fst (stream_tasks E ! j)) = acked (broker p) (fst (stream_tasks E ! j)))
    \<and> s' = fold (do_work (c, h, lag)) ws (index p) \<and> healthy E entries s'
    \<and> task_at stored cursor acked n' c (handled_by i trace @ works ws) t'"
proof -
  obtain t' n' s' where st: "task_step J cfg (c, h, lag) (tasks p ! i) (broker p) (index p) = (t', n', s')"
    by (cases "task_step J cfg (c, h, lag) (tasks p ! i) (broker p) (index p)")
  have len: "length (tasks p) = length (stream_tasks E)" and ix: "healthy E entries (index p)"
    using inv unfolding serialised_def by blast+
  have at: "task_at stored cursor acked (broker p) c (handled_by i trace) (tasks p ! i)"
    using inv i task unfolding serialised_def by fastforce
  have "(c, h, lag) \<in> set (stream_tasks E)" using i len task nth_mem by metis
  from task_step_at [OF ok cu st at handlers_safe [OF this] ix] obtain ws where now:
      "stored n' = stored (broker p)" "s' = fold (do_work (c, h, lag)) ws (index p)" "healthy E entries s'"
      "task_at stored cursor acked n' c (handled_by i trace @ works ws) t'"
    and others: "\<And>d. d \<noteq> c \<Longrightarrow> cursor n' d = cursor (broker p) d \<and> acked n' d = acked (broker p) d"
    by blast
  have "fst (stream_tasks E ! j) \<noteq> c" if "j < length (tasks p)" "j \<noteq> i" for j
    using stream_tasks_distinct [of E] that i len task by (force simp: distinct_conv_nth)
  moreover have "processor_step E J cfg (Schedule i) p = p\<lparr>broker := n', tasks := (tasks p)[i := t'], index := s'\<rparr>"
    using i st task by simp
  ultimately show ?thesis using st now others by blast
qed

lemma serialised_step:
  assumes ok: "jetstream_ok J stored cursor acked" and cu: "catch_up cfg"
    and inv: "serialised E entries stored cursor acked s trace p"
  shows "\<exists>more. serialised E entries stored cursor acked s (trace @ more) (processor_step E J cfg e p)"
proof (cases e)
  case (Arrive st b)
  have "task_at stored cursor acked (js_store J st b (broker p)) c hs t"
    if "task_at stored cursor acked (broker p) c hs t" for c hs t
    using that arrival_ok [OF ok, of st b "broker p"] by (auto elim!: task_at_frame)
  with inv have "serialised E entries stored cursor acked s trace (processor_step E J cfg e p)"
    by (simp add: serialised_def Arrive) metis
  then show ?thesis by (intro exI [of _ "[]"]) simp
next
  case (Schedule i)
  show ?thesis
  proof (cases "i < length (tasks p)")
    case True
    obtain c h lag where task: "stream_tasks E ! i = (c, h, lag)" by (cases "stream_tasks E ! i")
    obtain t' n' s' ws where
      "task_step J cfg (c, h, lag) (tasks p ! i) (broker p) (index p) = (t', n', s')"
      and step: "processor_step E J cfg (Schedule i) p = p\<lparr>broker := n', tasks := (tasks p)[i := t'], index := s'\<rparr>"
      and now: "stored n' = stored (broker p)"
        "\<forall>j<length (tasks p). j \<noteq> i \<longrightarrow> cursor n' (fst (stream_tasks E ! j)) = cursor (broker p) (fst (stream_tasks E ! j))
          \<and> acked n' (fst (stream_tasks E ! j)) = acked (broker p) (fst (stream_tasks E ! j))"
        "s' = fold (do_work (c, h, lag)) ws (index p)" "healthy E entries s'"
        "task_at stored cursor acked n' c (handled_by i trace @ works ws) t'"
      using schedule_effect [OF ok cu inv True task] by blast
    have "task_at stored cursor acked n' (fst (stream_tasks E ! j)) (handled_by j (trace @ map (Pair i) ws))
        ((tasks p)[i := t'] ! j)" if j: "j < length (tasks p)" for j
    proof (cases "j = i")
      case False
      have "task_at stored cursor acked (broker p) (fst (stream_tasks E ! j)) (handled_by j trace) (tasks p ! j)"
        using inv j unfolding serialised_def by blast
      then have "task_at stored cursor acked n' (fst (stream_tasks E ! j)) (handled_by j trace) (tasks p ! j)"
        by (rule task_at_frame) (use now(1,2) j False in auto)
      with False show ?thesis by simp
    qed (use now(5) True task in simp)
    moreover have "s' = replay E (trace @ map (Pair i) ws) s"
      using now(3) inv task by (simp add: replay_map_Pair serialised_def)
    ultimately have "serialised E entries stored cursor acked s (trace @ map (Pair i) ws) (processor_step E J cfg e p)"
      using now(4) inv step True unfolding serialised_def Schedule by (auto simp del: replay_simps)
    then show ?thesis ..
  qed (use inv in \<open>auto simp: Schedule intro!: exI [of _ "[]"]\<close>)
qed

lemma serialised_run:
  assumes "jetstream_ok J stored cursor acked" "catch_up cfg" "healthy E entries s"
  shows "\<exists>trace. serialised E entries stored cursor acked s trace
    (fold (processor_step E J cfg) events (start_processor E n s))"
proof (induction events rule: rev_induct)
  case Nil
  have "serialised E entries stored cursor acked s [] (start_processor E n s)"
    using assms(3) by (simp add: serialised_def start_processor_def handled_by_def)
  then show ?case by auto
next
  case (snoc e events)
  then show ?case using serialised_step [OF assms(1,2)] by fastforce
qed

section \<open>Every message is reached\<close>

text \<open>
  A server that serves: it creates a consumer on an existing stream and a fetch returns something
  while messages are left.
\<close>

definition serving_ok :: "('n, 'm) jetstream \<Rightarrow> ('n \<Rightarrow> string \<Rightarrow> ('m \<times> bytes) list)
    \<Rightarrow> ('n \<Rightarrow> string \<times> string \<Rightarrow> nat option) \<Rightarrow> bool" where
  "serving_ok J stored cursor \<longleftrightarrow>
     (\<forall>st c n. js_get_stream J st (snd (js_delete_consumer J c n)) = js_get_stream J st n) \<and>
     (\<forall>st cf n. js_get_stream J st n \<and> cursor n (st, durable_name cf) = None \<longrightarrow> fst (js_create_consumer J st cf n)) \<and>
     (\<forall>c k n i. cursor n c = Some i \<and> i < length (stored n (fst c)) \<and> 0 < k \<longrightarrow> delivered (fst (js_fetch J c k n)) \<noteq> [])"

lemmas serving_okD = serving_ok_def [THEN iffD1, THEN conjunct1, rule_format]
  serving_ok_def [THEN iffD1, THEN conjunct2, THEN conjunct1, rule_format]
  serving_ok_def [THEN iffD1, THEN conjunct2, THEN conjunct2, rule_format]

text \<open>How many steps a task needs at most until it has handled what its stream holds.\<close>

fun steps_left :: "nat \<Rightarrow> 'm task \<Rightarrow> nat" where
  "steps_left todo (Fetching k) = 3 * todo"
| "steps_left todo (Handling k ms) = length ms + (if todo = length ms then 0 else 3 * (todo - length ms) + 1)"
| "steps_left todo _ = 3 * todo + 1"

fun ready :: "'m task \<Rightarrow> bool" where
  "ready (Fetching k) \<longleftrightarrow> 0 < k"
| "ready (Handling k ms) \<longleftrightarrow> 0 < k"
| "ready _ \<longleftrightarrow> False"

lemma report_lag_pos: "0 < b \<Longrightarrow> 0 < k \<Longrightarrow> 0 < fst (report_lag b k lag info s)"
  by (simp add: report_lag_def scaled_batch_def split: option.split)

lemma start_ready:
  assumes ok: "jetstream_ok J stored cursor acked" and sv: "serving_ok J stored cursor"
    and st: "js_get_stream J (fst c) n"
  shows "fst (open_consumer J True c n)"
proof -
  let ?n = "snd (js_delete_consumer J c n)" and ?cf = "consumer_config True (snd c)"
  have "cursor ?n (fst c, durable_name ?cf) = None"
    using delete_consumer_ok [OF ok, of c n] by (auto simp: consumer_config_def)
  then have "fst (js_create_consumer J (fst c) ?cf ?n)"
    using serving_okD(1,2) [OF sv] st by blast
  then show ?thesis
    using st by (cases "js_create_consumer J (fst c) ?cf ?n") (auto simp: open_consumer_def)
qed

lemma task_step_progress:
  assumes ok: "jetstream_ok J stored cursor acked" and sv: "serving_ok J stored cursor"
    and b: "0 < pc_batch_size cfg" and st: "task_step J cfg (c, h, lag) t n s = (t', n', s')"
    and at: "task_at stored cursor acked n c hs t" and r: "ready t" and h: "\<And>b. \<not> is_panic (fst (h b s))"
  shows "ready t' \<and> steps_left (length (stored n' (fst c)) - length (acked n' c)) t'
      \<le> steps_left (length (stored n (fst c)) - length (acked n c)) t - 1"
proof (cases t)
  case (Fetching k)
  obtain m n1 where f: "js_fetch J c k n = (m, n1)" by fastforce
  have now: "n' = n1" "t' = (case m of None \<Rightarrow> Fetching k | Some messages \<Rightarrow> Handling k (collect_batch messages))"
    using st f by (auto simp: Fetching split: option.splits)
  have hs: "cursor n c = Some (length hs)" "acked n c = map fst hs" "0 < k" "prefix hs (stored n (fst c))"
    using at r by (simp_all add: Fetching)
  note fo = fetch_ok [OF ok f hs(1)]
  have len: "length (delivered m) \<le> length (stored n (fst c)) - length hs"
    using fo prefix_length_le by fastforce
  moreover have "length (stored n (fst c)) - length hs = 0 \<or> 0 < length (delivered m)"
    using serving_okD(3) [OF sv, where c = c and n = n and k = k] hs(1,3) f by force
  ultimately have "delivered m = [] \<and> length (stored n (fst c)) \<le> length hs
      \<or> delivered m \<noteq> [] \<and> length (delivered m) + length hs \<le> length (stored n (fst c))"
    by (cases "delivered m") auto
  then show ?thesis
  proof (elim disjE conjE)
    assume "delivered m \<noteq> []" "length (delivered m) + length hs \<le> length (stored n (fst c))"
    moreover from this obtain a where "m = Some a" by (cases m) (auto simp: delivered_def)
    ultimately show ?thesis
      using now fo hs by (cases "collect_batch a") (auto simp: Fetching delivered_def)
  qed (use now fo hs in \<open>cases m; simp add: Fetching delivered_def\<close>)
next
  case (Handling k ms)
  show ?thesis
  proof (cases ms)
    case Nil
    then show ?thesis
      using st r report_lag_pos [OF b, of k lag "js_num_pending J c n" s]
      by (auto simp: Handling case_prod_beta Let_def)
  next
    case (Cons m batch)
    have "t' = Handling k batch" "n' = snd (js_ack J c (fst m) n)"
      using st h [of "snd m"] by (cases m; cases "h (snd m) s"; cases "fst (h (snd m) s)"; simp add: Handling Cons)+
    moreover have "length hs + length ms \<le> length (stored n (fst c))"
      using at prefix_length_le by (fastforce simp: Handling)
    ultimately show ?thesis
      using at r ack_ok [OF ok, of c "fst m" n] by (auto simp: Handling Cons)
  qed
qed (use r in auto)

text \<open>The steps of the other tasks and the arrivals on other streams do not concern a task.\<close>

definition left_for :: "('n \<Rightarrow> string \<Rightarrow> ('m \<times> bytes) list) \<Rightarrow> ('n \<Rightarrow> string \<times> string \<Rightarrow> 'm list)
    \<Rightarrow> nat \<Rightarrow> string \<times> string \<Rightarrow> ('n, 'm, 'db, 'f) processor \<Rightarrow> nat" where
  "left_for stored acked i c p =
     steps_left (length (stored (broker p) (fst c)) - length (acked (broker p) c)) (tasks p ! i)"

lemma left_step:
  assumes ok: "jetstream_ok J stored cursor acked" and sv: "serving_ok J stored cursor" and cu: "catch_up cfg"
    and b: "0 < pc_batch_size cfg" and inv: "serialised E entries stored cursor acked s trace p"
    and i: "i < length (stream_tasks E)" and task: "stream_tasks E ! i = (c, h, lag)" and r: "ready (tasks p ! i)"
    and e: "\<And>payload. e \<noteq> Arrive (fst c) payload"
  shows "ready (tasks (processor_step E J cfg e p) ! i)
    \<and> stored (broker (processor_step E J cfg e p)) (fst c) = stored (broker p) (fst c)
    \<and> left_for stored acked i c (processor_step E J cfg e p)
        \<le> left_for stored acked i c p - (if e = Schedule i then 1 else 0)"
proof (cases e)
  case (Arrive st payload)
  then have "st \<noteq> fst c" using e by blast
  then show ?thesis
    using arrival_ok [OF ok, of st payload "broker p"] r by (auto simp: Arrive left_for_def)
next
  case (Schedule j)
  have len: "length (tasks p) = length (stream_tasks E)" and ix: "healthy E entries (index p)"
    using inv unfolding serialised_def by blast+
  show ?thesis
  proof (cases "j < length (tasks p)")
    case True
    obtain cj hj lagj where tj: "stream_tasks E ! j = (cj, hj, lagj)" by (cases "stream_tasks E ! j")
    obtain t' n' s' where st: "task_step J cfg (cj, hj, lagj) (tasks p ! j) (broker p) (index p) = (t', n', s')"
      and step: "processor_step E J cfg (Schedule j) p = p\<lparr>broker := n', tasks := (tasks p)[j := t'], index := s'\<rparr>"
      and now: "stored n' = stored (broker p)"
        "\<forall>k<length (tasks p). k \<noteq> j \<longrightarrow> cursor n' (fst (stream_tasks E ! k)) = cursor (broker p) (fst (stream_tasks E ! k))
          \<and> acked n' (fst (stream_tasks E ! k)) = acked (broker p) (fst (stream_tasks E ! k))"
      using schedule_effect [OF ok cu inv True tj] by blast
    show ?thesis
    proof (cases "j = i")
      case True
      have "(c, h, lag) \<in> set (stream_tasks E)" using i task nth_mem by metis
      then have "\<not> is_panic (fst (h bs (index p)))" for bs
        using handlers_safe [OF _ ix] by (simp add: safe_def)
      moreover have "task_at stored cursor acked (broker p) c (handled_by i trace) (tasks p ! i)"
        using inv i len task unfolding serialised_def by fastforce
      moreover have "task_step J cfg (c, h, lag) (tasks p ! i) (broker p) (index p) = (t', n', s')"
        using st tj task True by simp
      ultimately have "ready t' \<and> steps_left (length (stored n' (fst c)) - length (acked n' c)) t'
          \<le> steps_left (length (stored (broker p) (fst c)) - length (acked (broker p) c)) (tasks p ! i) - 1"
        using task_step_progress [OF ok sv b _ _ r] by blast
      then show ?thesis using i len True step now(1) by (simp add: Schedule left_for_def)
    next
      case False
      moreover have "acked n' c = acked (broker p) c" using now(2) False i len task by (metis fst_conv)
      ultimately show ?thesis using now(1) i len r step by (simp add: Schedule left_for_def)
    qed
  qed (use r i len in \<open>auto simp: Schedule left_for_def\<close>)
qed

lemma left_run:
  assumes ok: "jetstream_ok J stored cursor acked" and sv: "serving_ok J stored cursor" and cu: "catch_up cfg"
    and b: "0 < pc_batch_size cfg" and i: "i < length (stream_tasks E)" and task: "stream_tasks E ! i = (c, h, lag)"
  shows "serialised E entries stored cursor acked s trace p \<Longrightarrow> ready (tasks p ! i)
    \<Longrightarrow> (\<And>payload. Arrive (fst c) payload \<notin> set events)
    \<Longrightarrow> ready (tasks (fold (processor_step E J cfg) events p) ! i)
      \<and> stored (broker (fold (processor_step E J cfg) events p)) (fst c) = stored (broker p) (fst c)
      \<and> left_for stored acked i c (fold (processor_step E J cfg) events p)
          \<le> left_for stored acked i c p - count_list events (Schedule i)"
proof (induction events arbitrary: p trace)
  case (Cons e events)
  let ?p = "processor_step E J cfg e p"
  obtain more where inv: "serialised E entries stored cursor acked s (trace @ more) ?p"
    using serialised_step [OF ok cu Cons.prems(1)] by blast
  have now: "ready (tasks ?p ! i)" "stored (broker ?p) (fst c) = stored (broker p) (fst c)"
    "left_for stored acked i c ?p \<le> left_for stored acked i c p - (if e = Schedule i then 1 else 0)"
    using left_step [OF ok sv cu b Cons.prems(1) i task Cons.prems(2), of e] Cons.prems(3) by (metis list.set_intros(1))+
  have "\<And>payload. Arrive (fst c) payload \<notin> set events" using Cons.prems(3) by simp
  from Cons.IH [OF inv now(1) this] now(2,3) show ?case by (auto split: if_splits)
qed simp

lemma nothing_left:
  assumes "task_at stored cursor acked n c hs t" "ready t"
    "steps_left (length (stored n (fst c)) - length (acked n c)) t = 0"
  shows "hs = stored n (fst c) \<and> acked n c = map fst (stored n (fst c))"
proof -
  have "prefix hs (stored n (fst c))" "acked n c = map fst hs" "length (stored n (fst c)) \<le> length hs"
    using assms by (cases t; auto split: if_splits dest: append_prefixD)+
  then have "hs = stored n (fst c)" by (metis prefix_length_prefix prefix_order.antisym prefix_order.refl)
  with \<open>acked n c = map fst hs\<close> show ?thesis by simp
qed

lemma processor_drains:
  assumes ok: "jetstream_ok J stored cursor acked" and sv: "serving_ok J stored cursor" and cu: "catch_up cfg"
    and b: "0 < pc_batch_size cfg" and i: "i < length (stream_tasks E)" and task: "stream_tasks E ! i = (c, h, lag)"
    and s: "healthy E entries s" and st: "js_get_stream J (fst c) n"
    and quiet: "\<And>payload. Arrive (fst c) payload \<notin> set events"
    and enough: "3 * length (stored n (fst c)) \<le> count_list events (Schedule i)"
  shows "\<exists>trace. index (fold (processor_step E J cfg) (Schedule i # events) (start_processor E n s)) = replay E trace s
    \<and> (\<forall>e\<in>set trace. fst e < length (stream_tasks E))
    \<and> handled_by i trace = stored n (fst c)
    \<and> acked (broker (fold (processor_step E J cfg) (Schedule i # events) (start_processor E n s))) c
        = map fst (stored n (fst c))"
proof -
  let ?p = "processor_step E J cfg (Schedule i) (start_processor E n s)"
  let ?q = "fold (processor_step E J cfg) events ?p"
  have run1: "fold (processor_step E J cfg) [Schedule i] (start_processor E n s) = ?p" by simp
  obtain tr1 where inv: "serialised E entries stored cursor acked s tr1 ?p"
    using serialised_run [OF ok cu s, where n = n and events = "[Schedule i]"] unfolding run1 by blast
  obtain n1 where op: "open_consumer J True c n = (True, n1)"
    using start_ready [OF ok sv st] by (cases "open_consumer J True c n") auto
  have p: "?p = (start_processor E n s)\<lparr>broker := n1,
      tasks := (tasks (start_processor E n s))[i := Fetching (pc_batch_size cfg)]\<rparr>"
    using i op cu by (simp add: start_processor_def task)
  then have r: "ready (tasks ?p ! i)" and "left_for stored acked i c ?p = 3 * length (stored n (fst c))"
    and same: "stored (broker ?p) = stored n"
    using i b open_consumer_at [OF ok op] by (simp_all add: start_processor_def left_for_def)
  with left_run [OF ok sv cu b i task inv r, of events] quiet enough
  have q: "ready (tasks ?q ! i)" "stored (broker ?q) (fst c) = stored n (fst c)" "left_for stored acked i c ?q = 0"
    by auto
  have run: "fold (processor_step E J cfg) (Schedule i # events) (start_processor E n s) = ?q" by simp
  then obtain trace where tr: "serialised E entries stored cursor acked s trace ?q"
    using serialised_run [OF ok cu s, where n = n and events = "Schedule i # events"] by auto
  then have "task_at stored cursor acked (broker ?q) c (handled_by i trace) (tasks ?q ! i)"
    using i task unfolding serialised_def by fastforce
  then have "handled_by i trace = stored n (fst c)" "acked (broker ?q) c = map fst (stored n (fst c))"
    using nothing_left [OF _ q(1)] q(2,3) unfolding left_for_def by metis+
  with tr show ?thesis unfolding run serialised_def by blast
qed

section \<open>A server in memory\<close>

record mem_broker =
  mb_stored :: "string \<Rightarrow> (nat \<times> bytes) list"
  mb_cursor :: "string \<times> string \<Rightarrow> nat option"
  mb_acked :: "string \<times> string \<Rightarrow> nat list"

definition mem_js :: "(mem_broker, nat) jetstream" where
  "mem_js = \<lparr>
     js_get_stream = \<lambda>st n. True,
     js_delete_consumer = \<lambda>c n. (mb_cursor n c \<noteq> None, n\<lparr>mb_cursor := (mb_cursor n)(c := None)\<rparr>),
     js_create_consumer = \<lambda>st cf n.
       if mb_cursor n (st, durable_name cf) = None
       then (True, n\<lparr>mb_cursor := (mb_cursor n)((st, durable_name cf) \<mapsto>
                  (case policy cf of DeliverAll \<Rightarrow> 0 | DeliverNew \<Rightarrow> length (mb_stored n st))),
                mb_acked := (mb_acked n)((st, durable_name cf) := [])\<rparr>)
       else (False, n),
     js_get_consumer = \<lambda>c n. mb_cursor n c \<noteq> None,
     js_fetch = \<lambda>c k n. case mb_cursor n c of
         None \<Rightarrow> (None, n)
       | Some i \<Rightarrow> let ms = take k (drop i (mb_stored n (fst c)))
           in (Some (map Some ms), n\<lparr>mb_cursor := (mb_cursor n)(c \<mapsto> i + length ms)\<rparr>),
     js_ack = \<lambda>c m n. (True, n\<lparr>mb_acked := (mb_acked n)(c := mb_acked n c @ [m])\<rparr>),
     js_num_pending = \<lambda>c n. map_option (\<lambda>i. word_of_nat (length (mb_stored n (fst c)) - i)) (mb_cursor n c),
     js_store = \<lambda>st b n. n\<lparr>mb_stored := (mb_stored n)(st := mb_stored n st @ [(length (mb_stored n st), b)])\<rparr>\<rparr>"

lemma collect_batch_Some [simp]: "collect_batch (map Some ms) = ms"
  by (simp add: collect_batch_def List.map_filter_def comp_def)

lemma mem_js_ok: "jetstream_ok mem_js mb_stored mb_cursor mb_acked"
  unfolding jetstream_ok_def
proof (intro conjI)
  show "consumers_ok mem_js mb_stored mb_cursor mb_acked"
    unfolding consumers_ok_def
  proof (intro conjI allI impI)
    fix c :: "string \<times> string" and n
    show "\<exists>a. mb_stored (snd (js_delete_consumer mem_js c n)) = mb_stored n
        \<and> mb_cursor (snd (js_delete_consumer mem_js c n)) = (mb_cursor n)(c := None)
        \<and> mb_acked (snd (js_delete_consumer mem_js c n)) = (mb_acked n)(c := a)"
      by (intro exI [of _ "mb_acked n c"]) (simp add: mem_js_def)
  qed (auto simp: mem_js_def)
  show "fetches_ok mem_js mb_stored mb_cursor mb_acked"
    unfolding fetches_ok_def
    by (auto simp: mem_js_def delivered_def Let_def take_is_prefix)
qed (auto simp: acks_ok_def arrivals_ok_def mem_js_def)

lemma mem_js_serving: "serving_ok mem_js mb_stored mb_cursor"
  by (auto simp: serving_ok_def mem_js_def delivered_def Let_def)

definition demo_broker :: mem_broker where
  "demo_broker = \<lparr>mb_stored = (\<lambda>_. [])(''QONDUIT_TX'' := [(0, [7]), (1, [8])]),
     mb_cursor = (\<lambda>_. None)((''QONDUIT_TX'', ''qonduit-processor-tx'') \<mapsto> 2), mb_acked = \<lambda>_. []\<rparr>"

section \<open>Properties\<close>

lemma task_at_facts:
  assumes "task_at stored cursor acked n c hs t"
  shows "prefix hs (stored n (fst c)) \<and> (ready t \<longrightarrow> acked n c = map fst hs) \<and> (\<forall>q. t \<noteq> Panicked q)"
  using assms by (cases t) (auto dest: append_prefixD)


definition demo_run :: "(mem_broker, nat, batch_op list, unit) processor" where
  "demo_run = processor_run demo_env mem_js default_processor_config demo_broker [] (new_pipeline 0) ()
     [Schedule 1, Schedule 0, Schedule 1, Arrive ''QONDUIT_TICK'' [120, 9], Schedule 0, Schedule 1, Schedule 0]"



lemma demo_stored: "mb_stored demo_broker ''QONDUIT_TX'' = [(0, [7]), (1, [8])]"
  by (simp add: demo_broker_def)


end
