(* ===== verification/Opening.thy ===== *)
theory Opening
  imports Warm Pipeline
begin

text \<open>
  How \<^verbatim>\<open>crates/storage/src/warm.rs\<close> opens its database: the column families and the options it asks
  RocksDB for.  Every operation fetches its column family with \<^verbatim>\<open>cf_handle(..).unwrap()\<close>, which
  panics when the family was not opened; \<open>opened\<close> is a store that does so, and the theorem says that
  on the families opened here no operation meets that panic.
\<close>

definition ALL_CFS :: "string list" where
  "ALL_CFS = [CF_TICK, CF_TX, CF_TX_BY_TICK, CF_TX_BY_ENTITY, CF_ENTITY, CF_SPECTRUM, CF_ASSET, CF_COMPUTORS,
     CF_CONTRACT_IPO, CF_CUSTOM_MESSAGE, CF_ENTITY_ASSET, CF_LOG_EVENT, CF_TICK_VOTE, CF_META, CF_ORACLE,
     CF_EPOCH_STATS]"

record db_options =
  create_if_missing :: bool
  create_missing_column_families :: bool
  zstd_compression :: bool
  write_buffer_size :: nat
  max_write_buffer_number :: i32
  target_file_size_base :: u64
  max_open_files :: i32
  dynamic_level_bytes :: bool
  bytes_per_sync :: u64
  compaction_readahead_size :: nat

text \<open>\<open>open_cf\<close> is \<^verbatim>\<open>DB::open_cf_descriptors\<close>; each family is compressed as the database is.\<close>

definition open_with_resources :: "(db_options \<Rightarrow> string \<Rightarrow> string list \<Rightarrow> 'db outcome) \<Rightarrow> string
    \<Rightarrow> system_resources option \<Rightarrow> 'db outcome" where
  "open_with_resources open_cf path resources =
     (let buffer = (case resources of Some r \<Rightarrow> rocksdb_write_buffer_size r | None \<Rightarrow> 64 * 1024 * 1024);
          buffers = (case resources of Some r \<Rightarrow> rocksdb_max_write_buffers r | None \<Rightarrow> 4)
      in open_cf \<lparr>create_if_missing = True, create_missing_column_families = True, zstd_compression = True,
           write_buffer_size = buffer, max_write_buffer_number = buffers,
           target_file_size_base = word_of_nat buffer, max_open_files = 2048, dynamic_level_bytes = True,
           bytes_per_sync = 16 * 1024 * 1024, compaction_readahead_size = 2 * 1024 * 1024\<rparr> path ALL_CFS)"

definition open_warm :: "(db_options \<Rightarrow> string \<Rightarrow> string list \<Rightarrow> 'db outcome) \<Rightarrow> string \<Rightarrow> 'db outcome" where
  "open_warm open_cf path = open_with_resources open_cf path None"

section \<open>Missing column families\<close>

text \<open>A call on a family that was not opened panics before it reaches the store.\<close>

definition opened :: "string list \<Rightarrow> 'db rocks \<Rightarrow> 'db rocks" where
  "opened cfs R = \<lparr>
     put_cf = (\<lambda>cf k v db. if cf \<in> set cfs then put_cf R cf k v db else (Panic UnwrapFailed, db)),
     get_cf = (\<lambda>cf k db. if cf \<in> set cfs then get_cf R cf k db else Panic UnwrapFailed),
     iterator_cf = (\<lambda>cf mode db. if cf \<in> set cfs then iterator_cf R cf mode db else [Panic UnwrapFailed]),
     write_batch = (\<lambda>ops db. if list_all (\<lambda>op. fst op \<in> set cfs) ops then write_batch R ops db
                             else (Panic UnwrapFailed, db))\<rparr>"

lemma opened_cf:
  assumes "cf \<in> set ALL_CFS"
  shows "put_cf (opened ALL_CFS R) cf = put_cf R cf" "get_cf (opened ALL_CFS R) cf = get_cf R cf"
    "iterator_cf (opened ALL_CFS R) cf = iterator_cf R cf"
  using assms by (simp_all add: opened_def fun_eq_iff)

lemma families: "CF_TICK \<in> set ALL_CFS" "CF_TX \<in> set ALL_CFS" "CF_TX_BY_TICK \<in> set ALL_CFS"
  "CF_TX_BY_ENTITY \<in> set ALL_CFS" "CF_ENTITY \<in> set ALL_CFS" "CF_SPECTRUM \<in> set ALL_CFS" "CF_ASSET \<in> set ALL_CFS"
  "CF_COMPUTORS \<in> set ALL_CFS" "CF_CONTRACT_IPO \<in> set ALL_CFS" "CF_CUSTOM_MESSAGE \<in> set ALL_CFS"
  "CF_ENTITY_ASSET \<in> set ALL_CFS" "CF_LOG_EVENT \<in> set ALL_CFS" "CF_TICK_VOTE \<in> set ALL_CFS" "CF_META \<in> set ALL_CFS"
  "CF_ORACLE \<in> set ALL_CFS" "CF_EPOCH_STATS \<in> set ALL_CFS"
  by (simp_all add: ALL_CFS_def)

lemmas opened_calls = families [THEN opened_cf(1)] families [THEN opened_cf(2)] families [THEN opened_cf(3)]

lemma built_families: "built batch \<Longrightarrow> list_all (\<lambda>op. fst op \<in> set ALL_CFS) batch"
  by (induction rule: built.induct)
    (auto simp: create_batch_def batch_put_tx_def batch_put_tick_def families split: option.split)

lemma opened_batch: "built batch \<Longrightarrow> write_batch (opened ALL_CFS R) batch = write_batch R batch"
  using built_families [of batch] by (simp add: opened_def fun_eq_iff)

lemma history_loop_opened: "history_loop (opened ALL_CFS R) entity upper offset limit db m n iter
    = history_loop R entity upper offset limit db m n iter"
  by (induction iter arbitrary: m n) (simp_all add: opened_calls get_tx_def Let_def cong: if_cong option.case_cong)


theorem batch_families_opened:
  assumes "built batch"
  shows "batch_write (opened ALL_CFS R) batch = batch_write R batch"
  using opened_batch [OF assms] by (simp add: batch_write_def)

theorem batch_families_opened_witness:
  "batch_write (opened ALL_CFS mem_rocks) (batch_put_tick 7 120 [1] create_batch)
    = batch_write mem_rocks (batch_put_tick 7 120 [1] create_batch)"
  by (rule batch_families_opened [OF built.add_tick [OF built.create]])

end
