(* ===== verification/Startup.thy ===== *)
theory Startup
  imports Client Backfill_Run Streams Json Consumer Opening
begin

text \<open>
  \<^verbatim>\<open>crates/qonduit/src/main.rs\<close> and \<^verbatim>\<open>crates/ingestion/src/epoch_fetch.rs\<close>: the configuration with its
  defaults and environment overrides, the order of the start-up steps and which of them are fatal,
  what is handed to the services, and the ordered shutdown.  The TOML reader, the parser of socket
  addresses, the opening of the database, the connection to NATS and the HTTP response are
  arguments; durations are in seconds.
\<close>

section \<open>Epoch intervals\<close>

definition fetch_epoch_intervals :: "interval_entry list outcome \<Rightarrow> epoch_range list \<Rightarrow> nat outcome \<times> epoch_range list" where
  "fetch_epoch_intervals response ranges =
     bindS (liftS response ranges) (\<lambda>raw _. (Ok (length (set_epoch_ranges raw)), set_epoch_ranges raw))"

definition fetch_epoch_intervals_safe :: "interval_entry list outcome \<Rightarrow> epoch_range list \<Rightarrow> epoch_range list" where
  "fetch_epoch_intervals_safe response ranges = snd (fetch_epoch_intervals response ranges)"

section \<open>Configuration\<close>

record config =
  nats_url :: string
  storage_data_dir :: string
  listen_addr :: string
  ingestion_node_addr :: "string option"
  ingestion_bootstrap_addrs :: "string list"
  backfill_enabled :: bool
  backfill_workers :: nat
  backfill_start :: u32
  backfill_end :: u32
  backfill_tick_delay_ms :: u64
  processor_catch_up :: bool
  processor_batch_size :: "nat option"
  processor_concurrency :: "nat option"

definition config_default :: config where
  "config_default = \<lparr>nats_url = ''nats://localhost:4222'', storage_data_dir = ''./data'', listen_addr = ''0.0.0.0:8080'',
     ingestion_node_addr = None, ingestion_bootstrap_addrs = [], backfill_enabled = False, backfill_workers = 0,
     backfill_start = 0, backfill_end = 0, backfill_tick_delay_ms = 0, processor_catch_up = True,
     processor_batch_size = None, processor_concurrency = None\<rparr>"

text \<open>The file, if there is one; an unreadable or malformed file is an error.\<close>

definition load_config :: "(string \<Rightarrow> config option) \<Rightarrow> string outcome option \<Rightarrow> config outcome" where
  "load_config toml file =
     (case file of
        None \<Rightarrow> Ok config_default
      | Some r \<Rightarrow> bindR r (\<lambda>contents. ok_or ''Failed to parse config'' (toml contents)))"

text \<open>An environment variable replaces a setting when it is set and its value parses.\<close>

definition override :: "(string \<Rightarrow> string option) \<Rightarrow> string \<Rightarrow> (string \<Rightarrow> 'a option) \<Rightarrow> ('a \<Rightarrow> config \<Rightarrow> config) \<Rightarrow> config \<Rightarrow> config" where
  "override env name parse store cfg =
     (case Option.bind (env name) parse of None \<Rightarrow> cfg | Some v \<Rightarrow> store v cfg)"

definition is_true :: "string \<Rightarrow> bool" where
  "is_true v \<longleftrightarrow> v = ''true'' \<or> v = ''1''"

fun split_commas :: "string \<Rightarrow> string \<Rightarrow> string list" where
  "split_commas [] part = [rev part]"
| "split_commas (c # cs) part =
     (if c = CHR '','' then rev part # split_commas cs [] else split_commas cs (c # part))"

definition addr_list :: "string \<Rightarrow> string list" where
  "addr_list v = filter (\<lambda>s. s \<noteq> []) (map trim (split_commas v []))"

definition apply_env :: "(string \<Rightarrow> string option) \<Rightarrow> config \<Rightarrow> config" where
  "apply_env env cfg = fold (\<lambda>f. f)
     [override env ''QONDUIT_NATS_URL'' Some (\<lambda>v c. c\<lparr>nats_url := v\<rparr>),
      override env ''QONDUIT_LISTEN_ADDR'' Some (\<lambda>v c. c\<lparr>listen_addr := v\<rparr>),
      override env ''QONDUIT_NODE_ADDR'' Some (\<lambda>v c. c\<lparr>ingestion_node_addr := Some v\<rparr>),
      override env ''QONDUIT_BOOTSTRAP_ADDRS'' Some (\<lambda>v c. c\<lparr>ingestion_bootstrap_addrs := addr_list v\<rparr>),
      override env ''QONDUIT_BACKFILL_ENABLED'' Some (\<lambda>v c. c\<lparr>backfill_enabled := is_true v\<rparr>),
      override env ''QONDUIT_BACKFILL_WORKERS'' (parse_unsigned 64) (\<lambda>n c. c\<lparr>backfill_workers := n\<rparr>),
      override env ''QONDUIT_BACKFILL_START_TICK'' parse_u32 (\<lambda>n c. c\<lparr>backfill_start := n\<rparr>),
      override env ''QONDUIT_BACKFILL_END_TICK'' parse_u32 (\<lambda>n c. c\<lparr>backfill_end := n\<rparr>),
      override env ''QONDUIT_BACKFILL_TICK_DELAY_MS'' parse_u64 (\<lambda>n c. c\<lparr>backfill_tick_delay_ms := n\<rparr>),
      override env ''QONDUIT_DATA_DIR'' Some (\<lambda>v c. c\<lparr>storage_data_dir := v\<rparr>),
      override env ''QONDUIT_CATCH_UP'' Some (\<lambda>v c. c\<lparr>processor_catch_up := is_true v\<rparr>),
      override env ''QONDUIT_BATCH_SIZE'' (parse_unsigned 64) (\<lambda>n c. c\<lparr>processor_batch_size := Some n\<rparr>),
      override env ''QONDUIT_CONCURRENCY'' (parse_unsigned 64) (\<lambda>n c. c\<lparr>processor_concurrency := Some n\<rparr>)] cfg"

section \<open>Services\<close>

definition ingestion_disabled_by :: "config \<Rightarrow> bool" where
  "ingestion_disabled_by cfg \<longleftrightarrow> ingestion_node_addr cfg = Some ''disabled''"

text \<open>Addresses that do not parse are ignored.\<close>

definition ingestion_setup :: "(string \<Rightarrow> socket_addr option) \<Rightarrow> config \<Rightarrow> ingestion_config option" where
  "ingestion_setup parse_addr cfg =
     (if ingestion_disabled_by cfg then None
      else Some \<lparr>ic_node_addr = Option.bind (ingestion_node_addr cfg) parse_addr,
             ic_bootstrap_addrs = List.map_filter parse_addr (ingestion_bootstrap_addrs cfg),
             ic_tcp_timeout = 30, ic_reconnect_delay = 5\<rparr>)"

definition worker_count :: "nat \<Rightarrow> nat \<Rightarrow> nat" where
  "worker_count configured cores = (if 0 < configured then configured else min (max (cores * 2) 4) 32)"

definition backfill_setup :: "(string \<Rightarrow> socket_addr option) \<Rightarrow> nat \<Rightarrow> config \<Rightarrow> backfill_config option" where
  "backfill_setup parse_addr cores cfg =
     (if backfill_enabled cfg
      then Some \<lparr>node_addr = Option.bind (ingestion_node_addr cfg) parse_addr,
             bootstrap_addrs_cfg = List.map_filter parse_addr (ingestion_bootstrap_addrs cfg),
             workers = worker_count (backfill_workers cfg) cores, cfg_start_tick = backfill_start cfg,
             cfg_end_tick = backfill_end cfg\<rparr>
      else None)"

definition processor_setup :: "system_resources \<Rightarrow> config \<Rightarrow> processor_config" where
  "processor_setup res cfg = \<lparr>consumer_group = ''qonduit-processors'', catch_up = processor_catch_up cfg,
     pc_batch_size = sr_batch_size res, pc_concurrency = concurrency res\<rparr>"

text \<open>What runs after the start: the database, the NATS context, the shared state and the tasks.\<close>

record ('db, 'n) services =
  s_storage :: 'db
  s_nats :: 'n
  s_ranges :: "epoch_range list"
  s_pipeline :: pipeline_state
  s_listen :: socket_addr
  s_processor :: processor_config
  s_ingestion :: "ingestion_config option"
  s_backfill :: "backfill_config option"

text \<open>
  The fatal steps are the configuration, the database, the connection to NATS and the listen
  address; a failing stream set-up or interval download is only logged.
\<close>

definition start_up :: "(string \<Rightarrow> config option) \<Rightarrow> string outcome option \<Rightarrow> (string \<Rightarrow> string option)
    \<Rightarrow> (string \<Rightarrow> socket_addr option) \<Rightarrow> nat option \<Rightarrow> u64 \<Rightarrow> (db_options \<Rightarrow> string \<Rightarrow> string list \<Rightarrow> 'db outcome)
    \<Rightarrow> (string \<Rightarrow> 'n outcome) \<Rightarrow> 'n stream_api \<Rightarrow> interval_entry list outcome \<Rightarrow> u64 \<Rightarrow> ('db, 'n) services outcome" where
  "start_up toml file env parse_addr cores mem open_cf connect S intervals now =
     bindR (load_config toml file) (\<lambda>cfg.
     let cfg = apply_env env cfg;
         res = detect_with_overrides cores mem (processor_batch_size cfg) (processor_concurrency cfg) in
     bindR (open_with_resources open_cf (storage_data_dir cfg) (Some res)) (\<lambda>db.
     bindR (connect (nats_url cfg)) (\<lambda>n.
     case ensure_streams S n of
       (Panic p, n) \<Rightarrow> Panic p
     | (_, n) \<Rightarrow>
         bindR (ok_or ''Invalid listen address'' (parse_addr (listen_addr cfg))) (\<lambda>a.
         Ok \<lparr>s_storage = db, s_nats = n, s_ranges = fetch_epoch_intervals_safe intervals [],
             s_pipeline = (new_pipeline now)\<lparr>ingestion_disabled := ingestion_disabled_by cfg\<rparr>, s_listen = a,
             s_processor = processor_setup res cfg, s_ingestion = ingestion_setup parse_addr cfg,
             s_backfill = backfill_setup parse_addr (cpu_cores res) cfg\<rparr>))))"

section \<open>Shutdown\<close>

datatype service = Ingestion | Historical | Processing | Serving

text \<open>
  The services are stopped one after the other: a stop signal, then a wait with a timeout.
  \<open>needs\<close> says how long a task runs on after its signal, \<open>None\<close> when it does not stop.  The result
  lists the times of the signals and the time the program ends.
\<close>

definition shutdown_plan :: "('db, 'n) services \<Rightarrow> (service \<times> nat) list" where
  "shutdown_plan s =
     (if s_ingestion s = None then [] else [(Ingestion, 10)])
     @ (if s_backfill s = None then [] else [(Historical, 10)])
     @ [(Processing, 30), (Serving, 5)]"

fun shutdown :: "(service \<Rightarrow> nat option) \<Rightarrow> nat \<Rightarrow> (service \<times> nat) list \<Rightarrow> (service \<times> nat) list \<times> nat" where
  "shutdown needs now [] = ([], now)"
| "shutdown needs now ((svc, timeout) # plan) =
     (let waited = (case needs svc of None \<Rightarrow> timeout | Some n \<Rightarrow> min n timeout);
          (signals, finished) = shutdown needs (now + waited) plan
      in ((svc, now) # signals, finished))"

lemma shutdown_props:
  "map fst (fst (shutdown needs now plan)) = map fst plan
    \<and> sorted (map snd (fst (shutdown needs now plan)))
    \<and> (\<forall>t\<in>set (map snd (fst (shutdown needs now plan))). now \<le> t \<and> t \<le> snd (shutdown needs now plan))
    \<and> now \<le> snd (shutdown needs now plan) \<and> snd (shutdown needs now plan) \<le> now + sum_list (map snd plan)"
proof (induction needs now plan rule: shutdown.induct)
  case (2 needs now svc timeout plan)
  define w where "w = (case needs svc of None \<Rightarrow> timeout | Some n \<Rightarrow> min n timeout)"
  have "w \<le> timeout" by (simp add: w_def split: option.split)
  moreover have "shutdown needs now ((svc, timeout) # plan)
      = ((svc, now) # fst (shutdown needs (now + w) plan), snd (shutdown needs (now + w) plan))"
    by (simp add: w_def Let_def case_prod_beta)
  ultimately show ?case using 2 [OF w_def] by fastforce
qed simp

definition runs :: "('db, 'n) services \<Rightarrow> service \<Rightarrow> bool" where
  "runs s svc = (case svc of Ingestion \<Rightarrow> s_ingestion s \<noteq> None | Historical \<Rightarrow> s_backfill s \<noteq> None | _ \<Rightarrow> True)"


end
