(* ===== verification/Reads.thy ===== *)
theory Reads
  imports Warm
begin

text \<open>
  The interface between the warm tier and the query server: in a database the write operations
  reach on a healthy store every read of \<^verbatim>\<open>warm.rs\<close> returns, with the value given here in terms of
  the stored entries.  The locale \<open>total_read\<close> is what the handlers rely on.
\<close>

definition serving :: "'db rocks \<Rightarrow> ('db \<Rightarrow> string \<Rightarrow> (bytes \<times> bytes) list) \<Rightarrow> 'db \<Rightarrow> bool" where
  "serving R entries db \<longleftrightarrow> rocks_ok R entries \<and> warm_reachable R entries db"

abbreviation stored :: "('db \<Rightarrow> string \<Rightarrow> (bytes \<times> bytes) list) \<Rightarrow> string \<Rightarrow> bytes \<Rightarrow> 'db \<Rightarrow> bytes option" where
  "stored entries cf k db \<equiv> map_of (entries db cf) k"

text \<open>
  A read whose result is \<open>val\<close> whenever \<open>I\<close> holds.  \<open>respond\<close> and \<open>attempt\<close> are the two ways the
  handlers use a read: pass an error on, or go on without the value (\<^verbatim>\<open>if let Ok(x) = ...\<close>).
\<close>

definition attempt :: "'a outcome \<Rightarrow> 'b outcome \<Rightarrow> ('a \<Rightarrow> 'b outcome) \<Rightarrow> 'b outcome" where
  "attempt r otherwise f = (case r of Ok x \<Rightarrow> f x | Err e \<Rightarrow> otherwise | Panic p \<Rightarrow> Panic p)"

lemma attempt_Ok [simp]: "attempt (Ok x) otherwise f = f x"
  by (simp add: attempt_def)

locale total_read =
  fixes I :: "'db \<Rightarrow> bool" and read :: "'db \<Rightarrow> 'a outcome" and val :: "'db \<Rightarrow> 'a"
  assumes read_val: "I db \<Longrightarrow> read db = Ok (val db)"
begin

lemma bind_val: "I db \<Longrightarrow> bindR (read db) f = f (val db)"
  by (simp add: read_val)

lemma attempt_val: "I db \<Longrightarrow> attempt (read db) otherwise f = f (val db)"
  by (simp add: read_val)

lemma total: "I db \<Longrightarrow> is_ok (read db)"
  by (simp add: read_val)

end

section \<open>Lookups\<close>

lemma servingD:
  assumes "serving R entries db"
  shows "rocks_ok R entries" "warm_reachable R entries db"
  using assms by (simp_all add: serving_def)

lemma serving_ok: "serving R entries db \<Longrightarrow> (k, v) \<in> set (entries db cf) \<Longrightarrow> op_ok (cf, k, v)"
  using reachable_ok servingD by metis

lemma serving_ascending: "serving R entries db \<Longrightarrow> ascending (entries db cf)"
  using rocks_ascending servingD(1) by metis

lemmas lookup_defs = warm_get_tick_def get_tx_def warm_get_entity_def get_spectrum_entry_def
  get_asset_def warm_get_computors_def get_contract_ipo_def get_epoch_stats_def get_meta_def

interpretation read_tick: total_read "serving R entries" "warm_get_tick R tick" "stored entries CF_TICK (u32_to_be tick)"
  for R entries tick
  by unfold_locales (simp add: lookup_defs serving_def rocks_get)

interpretation read_tx: total_read "serving R entries" "get_tx R hash" "stored entries CF_TX hash"
  for R entries hash
  by unfold_locales (simp add: lookup_defs serving_def rocks_get)

interpretation read_entity: total_read "serving R entries" "warm_get_entity R key" "stored entries CF_ENTITY key"
  for R entries key
  by unfold_locales (simp add: lookup_defs serving_def rocks_get)

interpretation read_spectrum: total_read "serving R entries" "get_spectrum_entry R key" "stored entries CF_SPECTRUM key"
  for R entries key
  by unfold_locales (simp add: lookup_defs serving_def rocks_get)

interpretation read_asset: total_read "serving R entries" "get_asset R i" "stored entries CF_ASSET (u32_to_be i)"
  for R entries i
  by unfold_locales (simp add: lookup_defs serving_def rocks_get)

interpretation read_computors: total_read "serving R entries" "warm_get_computors R epoch"
  "stored entries CF_COMPUTORS (u16_to_be epoch)" for R entries epoch
  by unfold_locales (simp add: lookup_defs serving_def rocks_get)

interpretation read_ipo: total_read "serving R entries" "get_contract_ipo R i"
  "stored entries CF_CONTRACT_IPO (u32_to_be i)" for R entries i
  by unfold_locales (simp add: lookup_defs serving_def rocks_get)

interpretation read_stats: total_read "serving R entries" "get_epoch_stats R epoch"
  "stored entries CF_EPOCH_STATS (u16_to_be epoch)" for R entries epoch
  by unfold_locales (simp add: lookup_defs serving_def rocks_get)

definition meta_tick :: "('db \<Rightarrow> string \<Rightarrow> (bytes \<times> bytes) list) \<Rightarrow> 'db \<Rightarrow> u32 option" where
  "meta_tick entries db = Option.bind (stored entries CF_META (ascii ''current_tick'') db)
     (\<lambda>d. if length d = 4 then Some (u32_from_be d) else None)"

definition meta_epoch :: "('db \<Rightarrow> string \<Rightarrow> (bytes \<times> bytes) list) \<Rightarrow> 'db \<Rightarrow> u16 option" where
  "meta_epoch entries db = Option.bind (stored entries CF_META (ascii ''current_epoch'') db)
     (\<lambda>d. if length d = 2 then Some (u16_from_be d) else None)"

interpretation read_current_tick: total_read "serving R entries" "warm_get_current_tick R" "meta_tick entries"
  for R entries
  by unfold_locales (auto simp: warm_get_current_tick_def lookup_defs serving_def rocks_get meta_tick_def
      split: option.split)

interpretation read_current_epoch: total_read "serving R entries" "warm_get_current_epoch R" "meta_epoch entries"
  for R entries
  by unfold_locales (auto simp: warm_get_current_epoch_def lookup_defs serving_def rocks_get meta_epoch_def
      split: option.split)

section \<open>Scans\<close>

text \<open>The whole of a column family, by increasing key, and its last entry.\<close>

lemma whole_block:
  assumes "serving R entries db"
  shows "map (\<lambda>e. (u32_from_be (fst e), snd e)) (entries db CF_ASSET) = index_block (entries db CF_ASSET) u32_to_be"
    "map (\<lambda>e. (u32_from_be (fst e), snd e)) (entries db CF_CONTRACT_IPO) = index_block (entries db CF_CONTRACT_IPO) u32_to_be"
    "map (\<lambda>e. (u32_from_be (fst e), snd e)) (entries db CF_ORACLE) = index_block (entries db CF_ORACLE) u32_to_be"
    "map (\<lambda>e. (u16_from_be (fst e), snd e)) (entries db CF_COMPUTORS) = index_block (entries db CF_COMPUTORS) u16_to_be"
    "map (\<lambda>e. (u16_from_be (fst e), snd e)) (entries db CF_EPOCH_STATS) = index_block (entries db CF_EPOCH_STATS) u16_to_be"
  using u32_be.index_block_filter [OF serving_ascending [OF assms], where p = "[]"]
    u16_be.index_block_filter [OF serving_ascending [OF assms], where p = "[]"]
    serving_ok [OF assms, where cf = CF_ASSET] serving_ok [OF assms, where cf = CF_CONTRACT_IPO]
    serving_ok [OF assms, where cf = CF_ORACLE] serving_ok [OF assms, where cf = CF_COMPUTORS]
    serving_ok [OF assms, where cf = CF_EPOCH_STATS]
  by (simp_all add: op_ok_cf)

definition newest :: "('k \<times> bytes) list \<Rightarrow> ('k \<times> bytes) option" where
  "newest es = (if es = [] then None else Some (last es))"

lemma zeros_le: "length k = n \<Longrightarrow> replicate n (0 :: u8) \<le> k"
proof (induction k arbitrary: n)
  case (Cons b k)
  then obtain m where "n = Suc m" by (cases n) auto
  have "b = 0 \<or> 0 < b" using word_neq_0_conv by blast
  then show ?case using Cons \<open>n = Suc m\<close> by auto
qed simp

lemma iterate_all:
  assumes "\<And>k v. (k, v) \<in> set es \<Longrightarrow> length k = n"
  shows "iterate (From (replicate n 0)) es = es"
proof -
  have "filter (\<lambda>e. replicate n 0 \<le> fst e) es = es"
  proof (rule filter_True, rule ballI)
    fix e assume "e \<in> set es"
    then show "replicate n 0 \<le> fst e" using assms by (metis prod.collapse zeros_le)
  qed
  then show ?thesis by simp
qed

lemma limited_scan:
  assumes "rocks_ok R entries" "\<And>k v. (k, v) \<in> set (entries db cf) \<Longrightarrow> length k = w"
    and "iterate mode (entries db cf) = entries db cf"
  shows "scan R cf mode (limited w limit f) db = Ok (take limit (map (\<lambda>e. f (fst e) (snd e)) (entries db cf)))"
proof -
  have "scan_loop (limited w limit f) 0 (map Ok (entries db cf))
    = Ok (map (\<lambda>e. f (fst e) (snd e)) (take (limit - 0) (takeWhile (\<lambda>e. True) (entries db cf))))"
    by (rule scan_loop_limit) (auto dest: assms(2) simp: limited_def)
  then show ?thesis by (simp add: scan_def rocks_iterator [OF assms(1)] assms(3) take_map takeWhile_eq_all_conv [THEN iffD2])
qed

lemma limited_block:
  assumes "serving R entries db" "\<And>k v. op_ok (cf, k, v) \<Longrightarrow> length k = 4"
  shows "scan R cf (From [0, 0, 0, 0]) (limited 4 limit f) db
    = Ok (take limit (map (\<lambda>e. f (fst e) (snd e)) (entries db cf)))"
  using limited_scan [OF servingD(1) [OF assms(1)] _ iterate_all, of db cf 4 4 limit f]
    serving_ok [OF assms(1)] assms(2) by (force simp: numeral_eq_Suc)

lemma find_last:
  assumes "serving R entries db" "\<And>k v. op_ok (cf, k, v) \<Longrightarrow> length k = w"
  shows "find_first w f (iterator_cf R cf End db)
    = Ok (if entries db cf = [] then None
          else Some (last (map (\<lambda>e. f (fst e) (snd e)) (entries db cf))))"
proof -
  have "find_first w f (map Ok (rev (entries db cf)))
    = Ok (case rev (entries db cf) of [] \<Rightarrow> None | (k, v) # _ \<Rightarrow> Some (f k v))"
    by (rule find_first_all) (auto dest: serving_ok [OF assms(1)] assms(2))
  then show ?thesis
    by (cases "entries db cf" rule: rev_cases) (auto simp: rocks_iterator [OF servingD(1) [OF assms(1)]])
qed

interpretation read_assets: total_read "serving R entries" "get_all_assets R limit"
  "\<lambda>db. take limit (index_block (entries db CF_ASSET) u32_to_be)" for R entries limit
proof
  fix db assume *: "serving R entries db"
  show "get_all_assets R limit db = Ok ((\<lambda>db. take limit (index_block (entries db CF_ASSET) u32_to_be)) db)"
    unfolding get_all_assets_def
    by (subst limited_block [OF *]) (auto simp: op_ok_cf whole_block [OF *, symmetric] newest_def)
qed

interpretation read_ipos: total_read "serving R entries" "get_all_contract_ipos R limit"
  "\<lambda>db. take limit (index_block (entries db CF_CONTRACT_IPO) u32_to_be)" for R entries limit
proof
  fix db assume *: "serving R entries db"
  show "get_all_contract_ipos R limit db = Ok ((\<lambda>db. take limit (index_block (entries db CF_CONTRACT_IPO) u32_to_be)) db)"
    unfolding get_all_contract_ipos_def
    by (subst limited_block [OF *]) (auto simp: op_ok_cf whole_block [OF *, symmetric] newest_def)
qed

interpretation read_latest_computors: total_read "serving R entries" "get_latest_computors R"
  "\<lambda>db. newest (index_block (entries db CF_COMPUTORS) u16_to_be)" for R entries
proof
  fix db assume *: "serving R entries db"
  show "get_latest_computors R db = Ok ((\<lambda>db. newest (index_block (entries db CF_COMPUTORS) u16_to_be)) db)"
    unfolding get_latest_computors_def
    by (subst find_last [OF *]) (auto simp: op_ok_cf whole_block [OF *, symmetric] newest_def)
qed

interpretation read_latest_oracle: total_read "serving R entries" "get_latest_oracle R"
  "\<lambda>db. newest (index_block (entries db CF_ORACLE) u32_to_be)" for R entries
proof
  fix db assume *: "serving R entries db"
  show "get_latest_oracle R db = Ok ((\<lambda>db. newest (index_block (entries db CF_ORACLE) u32_to_be)) db)"
    unfolding get_latest_oracle_def
    by (subst find_last [OF *]) (auto simp: op_ok_cf whole_block [OF *, symmetric] newest_def)
qed

interpretation read_entity_keys: total_read "serving R entries" "get_all_entity_keys R limit"
  "\<lambda>db. take limit (map fst (entries db CF_ENTITY))" for R entries limit
proof
  fix db assume *: "serving R entries db"
  have "scan R CF_ENTITY Start (limited 32 limit (\<lambda>key _. key)) db = Ok (take limit (map (\<lambda>e. fst e) (entries db CF_ENTITY)))"
    by (rule limited_scan [OF servingD(1) [OF *]]) (auto dest: serving_ok [OF *] simp: op_ok_cf)
  then show "get_all_entity_keys R limit db = Ok (take limit (map fst (entries db CF_ENTITY)))"
    by (simp add: get_all_entity_keys_def)
qed

interpretation read_all_stats: total_read "serving R entries" "list_epoch_stats R"
  "\<lambda>db. index_block (entries db CF_EPOCH_STATS) u16_to_be" for R entries
proof
  fix db assume *: "serving R entries db"
  have "scan_loop (\<lambda>_ key value. if length key = 2 then Ok (Push (u16_from_be key, value)) else Ok Continue) 0
      (map Ok (entries db CF_EPOCH_STATS))
    = Ok (map (\<lambda>e. (u16_from_be (fst e), snd e)) (filter (\<lambda>e. True) (entries db CF_EPOCH_STATS)))"
    by (rule scan_loop_filter) (auto dest: serving_ok [OF *] simp: op_ok_cf)
  then show "list_epoch_stats R db = Ok (index_block (entries db CF_EPOCH_STATS) u16_to_be)"
    by (simp add: list_epoch_stats_def scan_def rocks_iterator [OF servingD(1) [OF *]] whole_block [OF *])
qed

interpretation read_entity_assets: total_read "\<lambda>db. serving R entries db \<and> length entity = 32"
  "get_assets_for_entity R entity"
  "\<lambda>db. map fst (index_block (entries db CF_ENTITY_ASSET) (\<lambda>i. entity @ u32_to_be i))" for R entries entity
proof
  fix db assume *: "serving R entries db \<and> length entity = 32"
  have "get_assets_for_entity R entity db
    = Ok (map (\<lambda>(i, v). i) (index_block (entries db CF_ENTITY_ASSET) (\<lambda>i. entity @ u32_to_be i)))"
    unfolding get_assets_for_entity_def
    by (rule u32_be.prefix_scan [OF servingD(1)])
      (use * serving_ok [OF conjunct1 [OF *], where cf = CF_ENTITY_ASSET] in \<open>auto simp: op_ok_cf\<close>)
  then show "get_assets_for_entity R entity db
    = Ok (map fst (index_block (entries db CF_ENTITY_ASSET) (\<lambda>i. entity @ u32_to_be i)))"
    by (simp add: case_prod_beta')
qed

interpretation read_holders: total_read "serving R entries" "get_holders_for_asset R i"
  "\<lambda>db. map (\<lambda>e. take 32 (fst e)) (filter (\<lambda>e. drop 32 (fst e) = u32_to_be i) (entries db CF_ENTITY_ASSET))"
  for R entries i
proof
  fix db assume *: "serving R entries db"
  show "get_holders_for_asset R i db
    = Ok (map (\<lambda>e. take 32 (fst e)) (filter (\<lambda>e. drop 32 (fst e) = u32_to_be i) (entries db CF_ENTITY_ASSET)))"
    unfolding get_holders_for_asset_def scan_def rocks_iterator [OF servingD(1) [OF *]] iterate.simps
    by (rule scan_loop_filter) (use serving_ok [OF *, where cf = CF_ENTITY_ASSET] in \<open>auto simp: op_ok_cf\<close>)
qed

abbreviation tick_hashes :: "('db \<Rightarrow> string \<Rightarrow> (bytes \<times> bytes) list) \<Rightarrow> u32 \<Rightarrow> 'db \<Rightarrow> bytes list" where
  "tick_hashes entries tick db \<equiv> map snd (index_block (entries db CF_TX_BY_TICK) (tick_key tick))"

abbreviation entity_index :: "('db \<Rightarrow> string \<Rightarrow> (bytes \<times> bytes) list) \<Rightarrow> bytes \<Rightarrow> 'db \<Rightarrow> ((u32 \<times> u32) \<times> bytes) list" where
  "entity_index entries entity db \<equiv>
     index_block (entries db CF_TX_BY_ENTITY) (\<lambda>(t, i). entity_key entity t i)"

interpretation read_tick_hashes: total_read "serving R entries" "get_tx_hashes_for_tick R tick"
  "tick_hashes entries tick" for R entries tick
  by unfold_locales (rule tick_scan; simp add: serving_def)

interpretation read_messages: total_read "serving R entries" "get_custom_messages_for_tick R tick"
  "\<lambda>db. map snd (index_block (entries db CF_CUSTOM_MESSAGE) (tick_key tick))" for R entries tick
  by unfold_locales (use tick_scans servingD in metis)

interpretation read_entity_hashes: total_read "\<lambda>db. serving R entries db \<and> length entity = 32"
  "get_tx_hashes_for_entity R entity limit" "\<lambda>db. take limit (rev (map snd (entity_index entries entity db)))"
  for R entries entity limit
  by unfold_locales (use entity_scan servingD in metis)

interpretation read_entity_count: total_read "\<lambda>db. serving R entries db \<and> length entity = 32"
  "count_entity_transactions R entity" "\<lambda>db. word_of_nat (length (entity_index entries entity db))"
  for R entries entity
  by unfold_locales (use entity_scan servingD in metis)

interpretation read_history: total_read "\<lambda>db. serving R entries db \<and> length entity = 32"
  "get_entity_history R ranges entity epoch_filter offset limit"
  "\<lambda>db. take limit (List.map_filter (resolve (map_of (entries db CF_TX)))
     (drop offset (filter (\<lambda>e. in_epoch ranges epoch_filter (fst (fst e))) (entity_index entries entity db))))"
  for R entries ranges entity epoch_filter offset limit
  by unfold_locales (rule entity_history_page; simp add: serving_def)

lemmas read_vals = read_tick.read_val read_tx.read_val read_entity.read_val read_spectrum.read_val
  read_asset.read_val read_computors.read_val read_ipo.read_val read_stats.read_val
  read_current_tick.read_val read_current_epoch.read_val read_assets.read_val read_ipos.read_val
  read_latest_computors.read_val read_latest_oracle.read_val read_entity_keys.read_val
  read_all_stats.read_val read_holders.read_val read_tick_hashes.read_val read_messages.read_val

lemmas entity_vals = read_entity_assets.read_val [OF conjI] read_entity_hashes.read_val [OF conjI]
  read_entity_count.read_val [OF conjI] read_history.read_val [OF conjI]

end
