(* ===== verification/Rest.thy ===== *)
theory Rest
  imports Json Reads Identity Pipeline
begin

text \<open>
  \<^verbatim>\<open>crates/query/src/rest.rs\<close>: the REST handlers over the warm tier, with the request counters of
  \<^verbatim>\<open>metrics.rs\<close> they increment, and the path tables of the four routers merged in \<^verbatim>\<open>lib.rs\<close>.
  Parameters: the store, the JSON parser, \<^verbatim>\<open>hex\<close> and K12, the text of an error of another crate and
  the crate version.  The epoch ranges are those cached by \<^verbatim>\<open>epoch_intervals\<close>.
\<close>

section \<open>State, responses, counters\<close>

record 'db query_env =
  q_rocks :: "'db rocks"
  q_parse :: "bytes \<Rightarrow> json option"
  q_ext :: ext
  q_display :: "error \<Rightarrow> string"
  q_version :: string

record 'db app_state =
  app_storage :: 'db
  app_pipeline :: pipeline_state
  app_ranges :: "epoch_range list"

datatype body = NoBody | JsonBody json | RawJson bytes | MetricsText "string list"

record response =
  status_code :: nat
  resp_body :: body

record counters =
  rpc_requests :: nat
  rest_requests :: nat
  rest_requests_by_route :: "string \<Rightarrow> nat"
  entity_history_requests :: nat

definition inc_rest :: "counters \<Rightarrow> counters" where
  "inc_rest c = c\<lparr>rest_requests := rest_requests c + 1\<rparr>"

definition inc_route :: "string \<Rightarrow> counters \<Rightarrow> counters" where
  "inc_route r c = c\<lparr>rest_requests_by_route :=
     (rest_requests_by_route c)(r := rest_requests_by_route c r + 1)\<rparr>"

definition inc_history :: "counters \<Rightarrow> counters" where
  "inc_history c = c\<lparr>entity_history_requests := entity_history_requests c + 1\<rparr>"

text \<open>\<^verbatim>\<open>e.to_string()\<close>: the code's own message, or the text of the error of another crate.\<close>

definition error_text :: "'db query_env \<Rightarrow> error \<Rightarrow> string" where
  "error_text Q e = (case e of Other msg \<Rightarrow> msg | _ \<Rightarrow> q_display Q e)"

definition json_ok :: "json \<Rightarrow> response" where
  "json_ok v = \<lparr>status_code = 200, resp_body = JsonBody v\<rparr>"

definition not_found :: response where
  "not_found = \<lparr>status_code = 404, resp_body = NoBody\<rparr>"

definition storage_err :: "'db query_env \<Rightarrow> error \<Rightarrow> response" where
  "storage_err Q e = \<lparr>status_code = 500, resp_body = JsonBody (JObj
     [(''error'', JStr ''Storage error''), (''message'', JStr (error_text Q e))])\<rparr>"

definition bad_request :: "string \<Rightarrow> response" where
  "bad_request msg = \<lparr>status_code = 400, resp_body = JsonBody (JObj [(''error'', JStr msg)])\<rparr>"

definition json_or_404 :: "bytes option \<Rightarrow> response" where
  "json_or_404 d = (case d of Some bs \<Rightarrow> \<lparr>status_code = 200, resp_body = RawJson bs\<rparr> | None \<Rightarrow> not_found)"

text \<open>\<^verbatim>\<open>match read { Ok(x) => ..., Err(e) => storage_err(e) }\<close>.\<close>

definition respond :: "'db query_env \<Rightarrow> 'a outcome \<Rightarrow> ('a \<Rightarrow> response) \<Rightarrow> response outcome" where
  "respond Q r f = (case r of Ok x \<Rightarrow> Ok (f x) | Err e \<Rightarrow> Ok (storage_err Q e) | Panic p \<Rightarrow> Panic p)"

text \<open>The stored values of a list of keys that can be read and parsed; a read error is skipped.\<close>

fun collect_stored :: "('k \<Rightarrow> bytes option outcome) \<Rightarrow> (bytes \<Rightarrow> json option) \<Rightarrow> 'k list \<Rightarrow> json list outcome" where
  "collect_stored get parse [] = Ok []"
| "collect_stored get parse (k # ks) =
     attempt (get k) (collect_stored get parse ks) (\<lambda>d.
       case Option.bind d parse of
         None \<Rightarrow> collect_stored get parse ks
       | Some v \<Rightarrow> bindR (collect_stored get parse ks) (\<lambda>vs. Ok (v # vs)))"

text \<open>\<^verbatim>\<open>filter_map(|(_, data)| from_slice(&data).ok())\<close>\<close>

definition parse_values :: "(bytes \<Rightarrow> json option) \<Rightarrow> ('k \<times> bytes) list \<Rightarrow> json list" where
  "parse_values parse es = List.map_filter (\<lambda>e. parse (snd e)) es"

section \<open>Handlers\<close>

type_synonym 'db handler = "'db query_env \<Rightarrow> 'db app_state \<Rightarrow> counters \<Rightarrow> response outcome \<times> counters"

definition health :: "u64 \<Rightarrow> 'db handler" where
  "health uptime Q app c = (Ok (json_ok (JObj [(''status'', JStr ''ok''),
     (''version'', JStr (q_version Q)), (''uptime_seconds'', jword uptime)])), c)"

definition status_json :: "pipeline_status_response \<Rightarrow> json" where
  "status_json s = JObj [
     (''pipeline_status'', JStr (ps_pipeline_status s)),
     (''ingestion_connected'', JBool (ps_ingestion_connected s)),
     (''node_tick'', jword (ps_node_tick s)),
     (''node_epoch'', jword (ps_node_epoch s)),
     (''indexed_tick'', jword (ps_indexed_tick s)),
     (''indexed_epoch'', jword (ps_indexed_epoch s)),
     (''ticks_behind'', JInt (ps_ticks_behind s)),
     (''ticks_indexed'', jword (ps_ticks_indexed s)),
     (''txs_indexed'', jword (ps_txs_indexed s)),
     (''entities_indexed'', jword (ps_entities_indexed s)),
     (''tick_lag'', jword (ps_tick_lag s)),
     (''tx_lag'', jword (ps_tx_lag s)),
     (''entity_lag'', jword (ps_entity_lag s)),
     (''uptime_seconds'', jword (ps_uptime_seconds s)),
     (''estimated_seconds_to_live'', jword (ps_estimated_seconds_to_live s)),
     (''avg_indexing_rate'', JFloat (ps_avg_indexing_rate s)),
     (''current_indexing_rate'', JFloat (ps_current_indexing_rate s)),
     (''backfill_running'', JBool (ps_backfill_running s)),
     (''backfill_ticks_completed'', jword (ps_backfill_ticks_completed s)),
     (''backfill_txs_discovered'', jword (ps_backfill_txs_discovered s)),
     (''backfill_ticks_discovered'', jword (ps_backfill_ticks_discovered s)),
     (''backfill_ticks_failed'', jword (ps_backfill_ticks_failed s)),
     (''backfill_start_tick'', jword (ps_backfill_start_tick s)),
     (''backfill_end_tick'', jword (ps_backfill_end_tick s))]"

text \<open>
  \<^verbatim>\<open>/system-info\<close> rolls the rate window of the pipeline, so it also returns the application state.
\<close>

definition system_info :: "u64 \<Rightarrow> u64 \<Rightarrow> 'db query_env \<Rightarrow> 'db app_state \<Rightarrow> counters
    \<Rightarrow> response outcome \<times> 'db app_state \<times> counters" where
  "system_info now uptime Q app c =
     (let c = inc_route ''system-info'' (inc_rest c);
          (st, pl) = status now uptime (app_pipeline app);
          info = obj_insert ''version'' (JStr (q_version Q)) (status_json st)
      in (attempt (list_epoch_stats (q_rocks Q) (app_storage app))
            (Ok (json_ok (obj_insert ''totalIndexedEpochs'' (JInt 0) info)))
            (\<lambda>es. Ok (json_ok (obj_insert ''totalIndexedEpochs'' (JInt (int (length es))) info))),
          app\<lparr>app_pipeline := pl\<rparr>, c))"

definition current_tick :: "'db handler" where
  "current_tick Q app c =
     (let db = app_storage app
      in (case warm_get_current_tick (q_rocks Q) db of
            Ok (Some tick) \<Rightarrow> respond Q (warm_get_tick (q_rocks Q) tick db) json_or_404
          | Ok None \<Rightarrow> Ok not_found
          | Err e \<Rightarrow> Ok (storage_err Q e)
          | Panic p \<Rightarrow> Panic p, inc_route ''tick'' (inc_rest c)))"

definition rest_get_tick :: "string \<Rightarrow> 'db handler" where
  "rest_get_tick tick_str Q app c =
     (case parse_u32 tick_str of
        None \<Rightarrow> (Ok (bad_request ''Invalid tick: must be a valid u32''), inc_rest c)
      | Some tick \<Rightarrow>
          (respond Q (warm_get_tick (q_rocks Q) tick (app_storage app)) json_or_404,
           inc_route ''tick/:tick'' (inc_rest c)))"

definition get_tick_transactions :: "string \<Rightarrow> 'db handler" where
  "get_tick_transactions tick_str Q app c =
     (let db = app_storage app
      in (case parse_u32 tick_str of
            None \<Rightarrow> Ok (bad_request ''Invalid tick: must be a valid u32'')
          | Some tick \<Rightarrow>
              (case get_tx_hashes_for_tick (q_rocks Q) tick db of
                 Ok hashes \<Rightarrow>
                   bindR (collect_stored (\<lambda>hash. get_tx (q_rocks Q) hash db) (q_parse Q) hashes)
                     (\<lambda>txs. Ok (json_ok (JArr txs)))
               | Err e \<Rightarrow> Ok (storage_err Q e)
               | Panic p \<Rightarrow> Panic p),
          inc_route ''tick/:tick/tx'' (inc_rest c)))"

definition hash_param :: "ext \<Rightarrow> string \<Rightarrow> bytes option" where
  "hash_param X s = (case hex_decode X s of Some bs \<Rightarrow> if length bs = 32 then Some bs else None | None \<Rightarrow> None)"

definition get_transaction :: "string \<Rightarrow> 'db handler" where
  "get_transaction hash_str Q app c =
     (case hash_param (q_ext Q) hash_str of
        None \<Rightarrow> Ok (bad_request ''Invalid transaction hash: must be 64 hex characters'')
      | Some hash \<Rightarrow> respond Q (get_tx (q_rocks Q) hash (app_storage app)) json_or_404,
      inc_route ''tx/:hash'' (inc_rest c))"

definition with_identity :: "'db query_env \<Rightarrow> string \<Rightarrow> (bytes \<Rightarrow> response outcome) \<Rightarrow> response outcome" where
  "with_identity Q ident f =
     (case decode_base26 (q_ext Q) ident of
        None \<Rightarrow> Ok (bad_request ''Invalid identity: must be a valid base26-encoded string'')
      | Some key \<Rightarrow> f key)"

definition rest_get_entity :: "string \<Rightarrow> 'db handler" where
  "rest_get_entity ident Q app c =
     (with_identity Q ident (\<lambda>key.
        respond Q (warm_get_entity (q_rocks Q) key (app_storage app)) json_or_404), inc_rest c)"

definition rest_get_spectrum_entry :: "string \<Rightarrow> 'db handler" where
  "rest_get_spectrum_entry ident Q app c =
     (with_identity Q ident (\<lambda>key.
        respond Q (get_spectrum_entry (q_rocks Q) key (app_storage app)) json_or_404), inc_rest c)"

definition rest_get_computors :: "'db handler" where
  "rest_get_computors Q app c =
     (respond Q (get_latest_computors (q_rocks Q) (app_storage app))
        (\<lambda>r. case r of Some (epoch, d) \<Rightarrow> json_or_404 (Some d) | None \<Rightarrow> not_found), inc_rest c)"

definition get_computors_epoch :: "string \<Rightarrow> 'db handler" where
  "get_computors_epoch epoch_str Q app c =
     (case parse_u16 epoch_str of
        None \<Rightarrow> Ok (bad_request ''Invalid epoch: must be a valid u16'')
      | Some epoch \<Rightarrow> respond Q (warm_get_computors (q_rocks Q) epoch (app_storage app)) json_or_404,
      inc_rest c)"

definition get_issued_assets :: "'db handler" where
  "get_issued_assets Q app c =
     (respond Q (get_all_assets (q_rocks Q) 1000 (app_storage app))
        (\<lambda>es. json_ok (JArr (parse_values (q_parse Q) es))), inc_rest c)"

text \<open>
  The index of an entity's assets first; when it is empty or cannot be read, a scan of the assets
  for those whose field names the entity.
\<close>

definition assets_of :: "'db query_env \<Rightarrow> string \<Rightarrow> bytes \<Rightarrow> 'db \<Rightarrow> json list outcome" where
  "assets_of Q field key db =
     (let fallback = bindR (get_all_assets (q_rocks Q) 10000 db) (\<lambda>es.
            Ok (filter (\<lambda>v. obj_get v field = Some (jbytes key)) (parse_values (q_parse Q) es)))
      in attempt (get_assets_for_entity (q_rocks Q) key db) fallback (\<lambda>indices.
           if indices \<noteq> []
           then collect_stored (\<lambda>i. get_asset (q_rocks Q) i db) (q_parse Q) indices
           else fallback))"

definition get_owned_assets :: "string \<Rightarrow> 'db handler" where
  "get_owned_assets ident Q app c =
     (with_identity Q ident (\<lambda>key.
        respond Q (assets_of Q ''owning_entity'' key (app_storage app)) (\<lambda>vs. json_ok (JArr vs))), inc_rest c)"

definition get_possessed_assets :: "string \<Rightarrow> 'db handler" where
  "get_possessed_assets ident Q app c =
     (with_identity Q ident (\<lambda>key.
        respond Q (assets_of Q ''possessing_entity'' key (app_storage app)) (\<lambda>vs. json_ok (JArr vs))), inc_rest c)"

definition rest_get_asset :: "string \<Rightarrow> 'db handler" where
  "rest_get_asset index_str Q app c =
     (case parse_u32 index_str of
        None \<Rightarrow> Ok (bad_request ''Invalid asset index: must be a valid u32'')
      | Some i \<Rightarrow> respond Q (get_asset (q_rocks Q) i (app_storage app)) json_or_404, inc_rest c)"

definition rest_get_contract_ipo :: "string \<Rightarrow> 'db handler" where
  "rest_get_contract_ipo index_str Q app c =
     (case parse_u32 index_str of
        None \<Rightarrow> Ok (bad_request ''Invalid contract IPO index: must be a valid u32'')
      | Some i \<Rightarrow> respond Q (get_contract_ipo (q_rocks Q) i (app_storage app)) json_or_404, inc_rest c)"

definition get_active_ipos :: "'db handler" where
  "get_active_ipos Q app c =
     (respond Q (get_all_contract_ipos (q_rocks Q) 1000 (app_storage app))
        (\<lambda>es. json_ok (JArr (parse_values (q_parse Q) es))), inc_rest c)"

definition rest_list_epochs :: "'db handler" where
  "rest_list_epochs Q app c =
     (respond Q (list_epoch_stats (q_rocks Q) (app_storage app))
        (\<lambda>es. json_ok (JArr (parse_values (q_parse Q) es))), inc_route ''v1/epochs'' (inc_rest c))"

definition get_epoch :: "string \<Rightarrow> 'db handler" where
  "get_epoch epoch_str Q app c =
     (case parse_u16 epoch_str of
        None \<Rightarrow> (Ok (bad_request ''Invalid epoch: must be a valid u16''), inc_rest c)
      | Some epoch \<Rightarrow>
          (respond Q (get_epoch_stats (q_rocks Q) epoch (app_storage app)) json_or_404,
           inc_route ''v1/epochs/:epoch'' (inc_rest c)))"

definition get_entity_transactions :: "string \<Rightarrow> 'db handler" where
  "get_entity_transactions ident Q app c =
     (let db = app_storage app
      in (with_identity Q ident (\<lambda>key.
            case get_tx_hashes_for_entity (q_rocks Q) key 100 db of
              Ok hashes \<Rightarrow>
                bindR (collect_stored (\<lambda>hash. get_tx (q_rocks Q) hash db) (q_parse Q) hashes)
                  (\<lambda>txs. Ok (json_ok (JArr txs)))
            | Err e \<Rightarrow> Ok (storage_err Q e)
            | Panic p \<Rightarrow> Panic p), inc_rest c))"

record entity_history_params =
  hp_offset :: nat
  hp_limit :: nat
  hp_epoch :: "u16 option"

definition default_limit :: nat where "default_limit = 50"

definition default_params :: entity_history_params where
  "default_params = \<lparr>hp_offset = 0, hp_limit = default_limit, hp_epoch = None\<rparr>"

definition history_json :: "json list \<Rightarrow> u64 \<Rightarrow> nat \<Rightarrow> nat \<Rightarrow> json" where
  "history_json txs n offset limit = JObj [(''transactions'', JArr txs), (''total'', jword n),
     (''offset'', JInt (int offset)), (''limit'', JInt (int limit))]"

definition rest_get_entity_history :: "string \<Rightarrow> entity_history_params \<Rightarrow> 'db handler" where
  "rest_get_entity_history ident params Q app c =
     (with_identity Q ident (\<lambda>key.
        let limit = min (hp_limit params) 500
        in respond Q (bindR (count_entity_transactions (q_rocks Q) key (app_storage app)) (\<lambda>total.
             bindR (get_entity_history (q_rocks Q) (app_ranges app) key (hp_epoch params) (hp_offset params)
                      limit (app_storage app)) (\<lambda>history.
             Ok (history_json (parse_values (q_parse Q) history) total (hp_offset params) limit))))
             json_ok),
      inc_history (inc_route ''entity/:id/history'' (inc_rest c)))"

section \<open>Search\<close>

text \<open>Entities whose identity starts with the prefix; a read error gives no results.\<close>

fun prefix_results :: "'db query_env \<Rightarrow> 'db \<Rightarrow> string \<Rightarrow> bytes list \<Rightarrow> json list outcome" where
  "prefix_results Q db prefix [] = Ok []"
| "prefix_results Q db prefix (key # keys) =
     (let ident = encode_base26 (q_ext Q) key; bare = JObj [(''identity'', JStr ident)]
      in if starts_with ident prefix
         then attempt (warm_get_entity (q_rocks Q) key db)
                (bindR (prefix_results Q db prefix keys) (\<lambda>vs. Ok (bare # vs))) (\<lambda>d.
                bindR (prefix_results Q db prefix keys) (\<lambda>vs.
                  Ok ((case Option.bind d (q_parse Q) of Some v \<Rightarrow> v | None \<Rightarrow> bare) # vs)))
         else prefix_results Q db prefix keys)"

definition search_entities_by_prefix :: "'db query_env \<Rightarrow> 'db \<Rightarrow> string \<Rightarrow> json list outcome" where
  "search_entities_by_prefix Q db prefix =
     attempt (get_all_entity_keys (q_rocks Q) 10000 db) (Ok []) (prefix_results Q db prefix)"

definition entity_results :: "json list \<Rightarrow> response" where
  "entity_results vs = json_ok (JObj [(''type'', JStr ''entity''), (''results'', JArr vs)])"

definition no_results :: response where
  "no_results = json_ok (JObj [(''results'', JArr [])])"

definition search_identity :: "'db query_env \<Rightarrow> 'db \<Rightarrow> string \<Rightarrow> response outcome" where
  "search_identity Q db q =
     (if length q = 60 \<and> list_all is_ascii_uppercase q
      then (case decode_base26 (q_ext Q) q of
              None \<Rightarrow> Ok no_results
            | Some key \<Rightarrow>
                attempt (warm_get_entity (q_rocks Q) key db) (Ok no_results) (\<lambda>d.
                  case Option.bind d (q_parse Q) of
                    Some v \<Rightarrow> Ok (entity_results [v]) | None \<Rightarrow> Ok no_results))
      else Ok no_results)"

definition search_names :: "'db query_env \<Rightarrow> 'db \<Rightarrow> string \<Rightarrow> response outcome" where
  "search_names Q db q =
     (if 4 \<le> length q \<and> length q < 60 \<and> list_all is_ascii_uppercase q
      then bindR (search_entities_by_prefix Q db q) (\<lambda>results.
             if results \<noteq> [] then Ok (entity_results results) else search_identity Q db q)
      else search_identity Q db q)"

definition search_hash :: "'db query_env \<Rightarrow> 'db \<Rightarrow> string \<Rightarrow> response outcome" where
  "search_hash Q db q =
     (if length q = 64 \<and> list_all is_ascii_hexdigit q
      then (case hash_param (q_ext Q) q of
              Some hash \<Rightarrow> respond Q (get_tx (q_rocks Q) hash db) json_or_404
            | None \<Rightarrow> search_names Q db q)
      else search_names Q db q)"

definition search :: "string \<Rightarrow> 'db handler" where
  "search query Q app c =
     (let q = trim query; db = app_storage app
      in (if q = [] then Ok (bad_request ''Empty search query'')
          else if list_all is_ascii_digit q
          then (case parse_u32 q of
                  Some tick \<Rightarrow> respond Q (warm_get_tick (q_rocks Q) tick db) json_or_404
                | None \<Rightarrow> search_hash Q db q)
          else search_hash Q db q, inc_rest c))"

end
