(* ===== verification/Rpc.thy ===== *)
theory Rpc
  imports Rest
begin

text \<open>
  \<^verbatim>\<open>crates/query/src/rpc.rs\<close>: the JSON-RPC methods, one definition per arm of
  \<^verbatim>\<open>dispatch_method\<close>, the dispatcher and the response with its error codes.  A method is a function
  of the application state and the parameters; \<open>Err (Other msg)\<close> is an \<^verbatim>\<open>anyhow!\<close> error.
\<close>

type_synonym 'db rpc_method = "'db query_env \<Rightarrow> 'db app_state \<Rightarrow> json option \<Rightarrow> json outcome"

section \<open>Shared steps of the arms\<close>

definition from_slice :: "'db query_env \<Rightarrow> bytes \<Rightarrow> json outcome" where
  "from_slice Q d = of_json ''value'' (q_parse Q d)"

text \<open>\<^verbatim>\<open>match read? { Some(data) => Ok(from_slice(&data)?), None => Ok(json!(null)) }\<close>\<close>

definition value_or_null :: "'db query_env \<Rightarrow> bytes option outcome \<Rightarrow> json outcome" where
  "value_or_null Q r = bindR r (\<lambda>d. case d of Some d \<Rightarrow> from_slice Q d | None \<Rightarrow> Ok JNull)"

definition decode_identity :: "'db query_env \<Rightarrow> string \<Rightarrow> bytes outcome" where
  "decode_identity Q ident = ok_or ''Invalid identity'' (decode_base26 (q_ext Q) ident)"

definition unwrap_or :: "'a \<Rightarrow> 'a outcome \<Rightarrow> 'a" where
  "unwrap_or x r = (case r of Ok y \<Rightarrow> y | _ \<Rightarrow> x)"

definition opt_or :: "'a \<Rightarrow> 'a option \<Rightarrow> 'a" where
  "opt_or x r = (case r of Some y \<Rightarrow> y | None \<Rightarrow> x)"

definition with_tip :: "'db query_env \<Rightarrow> 'db app_state \<Rightarrow> (u32 \<Rightarrow> u16 \<Rightarrow> json) \<Rightarrow> json outcome" where
  "with_tip Q app f =
     bindR (warm_get_current_tick (q_rocks Q) (app_storage app)) (\<lambda>tick.
     bindR (warm_get_current_epoch (q_rocks Q) (app_storage app)) (\<lambda>epoch.
       Ok (f (opt_or 0 tick) (opt_or 0 epoch))))"

text \<open>The loop over transaction hashes; a read error ends the call.\<close>

fun collect_txs :: "'db query_env \<Rightarrow> 'db \<Rightarrow> bytes list \<Rightarrow> json list outcome" where
  "collect_txs Q db [] = Ok []"
| "collect_txs Q db (hash # hashes) =
     bindR (get_tx (q_rocks Q) hash db) (\<lambda>d.
       case Option.bind d (q_parse Q) of
         None \<Rightarrow> collect_txs Q db hashes
       | Some v \<Rightarrow> bindR (collect_txs Q db hashes) (\<lambda>vs. Ok (v # vs)))"

section \<open>Methods\<close>

definition getTickInfo :: "'db rpc_method" where
  "getTickInfo Q app params = with_tip Q app (\<lambda>tick epoch. JObj [(''tick'', jword tick), (''epoch'', jword epoch)])"

definition getCurrentTickInfo :: "'db rpc_method" where
  "getCurrentTickInfo Q app params =
     with_tip Q app (\<lambda>tick epoch. JObj [(''epoch'', jword epoch), (''tick'', jword tick)])"

definition getEntity :: "'db rpc_method" where
  "getEntity Q app params =
     bindR (extract_string_param params 0) (\<lambda>ident.
     bindR (decode_identity Q ident) (\<lambda>key.
       value_or_null Q (warm_get_entity (q_rocks Q) key (app_storage app))))"

definition getBalance :: "'db rpc_method" where
  "getBalance Q app params =
     bindR (extract_string_param params 0) (\<lambda>ident.
     bindR (decode_identity Q ident) (\<lambda>key.
     bindR (get_spectrum_entry (q_rocks Q) key (app_storage app)) (\<lambda>d.
       case d of
         Some d \<Rightarrow> bindR (from_slice Q d) (\<lambda>entry. Ok (JObj [(''balance'', jopt (obj_get entry ''balance''))]))
       | None \<Rightarrow> Ok (JObj [(''balance'', JInt 0)]))))"

definition getTickTransactions :: "'db rpc_method" where
  "getTickTransactions Q app params =
     bindR (extract_u32_param params 0) (\<lambda>tick.
     bindR (get_tx_hashes_for_tick (q_rocks Q) tick (app_storage app)) (\<lambda>hashes.
     bindR (collect_txs Q (app_storage app) hashes) (\<lambda>txs. Ok (JArr txs))))"

definition getTransaction :: "'db rpc_method" where
  "getTransaction Q app params =
     bindR (extract_string_param params 0) (\<lambda>hash_str.
     bindR (case hex_decode (q_ext Q) hash_str of None \<Rightarrow> Err (Hex hash_str) | Some bs \<Rightarrow> Ok bs) (\<lambda>hash.
       if length hash \<noteq> 32 then Err (Other ''Invalid hash length'')
       else value_or_null Q (get_tx (q_rocks Q) hash (app_storage app))))"

definition getBlock :: "'db rpc_method" where
  "getBlock Q app params =
     bindR (extract_u32_param params 0) (\<lambda>tick.
       value_or_null Q (warm_get_tick (q_rocks Q) tick (app_storage app)))"

definition getQubicInfo :: "'db rpc_method" where
  "getQubicInfo Q app params =
     with_tip Q app (\<lambda>tick epoch. JObj [(''epoch'', jword epoch), (''tick'', jword tick),
       (''version'', JStr (q_version Q))])"

definition getSystemInfo :: "'db rpc_method" where
  "getSystemInfo Q app params =
     with_tip Q app (\<lambda>tick epoch. JObj [(''currentTick'', jword tick), (''currentEpoch'', jword epoch)])"

definition getComputors :: "'db rpc_method" where
  "getComputors Q app params =
     bindR (get_latest_computors (q_rocks Q) (app_storage app)) (\<lambda>r.
       case r of Some (epoch, d) \<Rightarrow> from_slice Q d | None \<Rightarrow> Ok JNull)"

definition getContractIPO :: "'db rpc_method" where
  "getContractIPO Q app params =
     bindR (extract_u32_param params 0) (\<lambda>i.
       value_or_null Q (get_contract_ipo (q_rocks Q) i (app_storage app)))"

definition getIssuedAssets :: "'db rpc_method" where
  "getIssuedAssets Q app params =
     bindR (get_all_assets (q_rocks Q) 1000 (app_storage app)) (\<lambda>es. Ok (JArr (parse_values (q_parse Q) es)))"

definition rpc_assets :: "string \<Rightarrow> 'db rpc_method" where
  "rpc_assets field Q app params =
     bindR (extract_string_param params 0) (\<lambda>ident.
     bindR (decode_identity Q ident) (\<lambda>key.
     bindR (assets_of Q field key (app_storage app)) (\<lambda>vs. Ok (JArr vs))))"

definition getOwnedAssets :: "'db rpc_method" where
  "getOwnedAssets = rpc_assets ''owning_entity''"

definition getPossessedAssets :: "'db rpc_method" where
  "getPossessedAssets = rpc_assets ''possessing_entity''"

definition getAssetsByOwner :: "'db rpc_method" where
  "getAssetsByOwner = rpc_assets ''owning_entity''"

definition getSpectrumStats :: "'db rpc_method" where
  "getSpectrumStats Q app params =
     with_tip Q app (\<lambda>tick epoch. JObj [(''tick'', jword tick), (''epoch'', jword epoch),
       (''numberOfEntities'', JInt 0)])"

definition getSpectrum :: "'db rpc_method" where
  "getSpectrum Q app params =
     bindR (extract_string_param params 0) (\<lambda>ident.
     bindR (decode_identity Q ident) (\<lambda>key.
       value_or_null Q (get_spectrum_entry (q_rocks Q) key (app_storage app))))"

definition fixed_reply :: "json \<Rightarrow> 'db rpc_method" where
  "fixed_reply v Q app params = Ok v"

definition getActiveIPOs :: "'db rpc_method" where
  "getActiveIPOs Q app params =
     bindR (get_all_contract_ipos (q_rocks Q) 1000 (app_storage app)) (\<lambda>es. Ok (JArr (parse_values (q_parse Q) es)))"

definition unsupported :: "string \<Rightarrow> 'db rpc_method" where
  "unsupported msg Q app params = Err (Other msg)"

definition getSyncState :: "'db rpc_method" where
  "getSyncState Q app params =
     bindR (warm_get_current_tick (q_rocks Q) (app_storage app)) (\<lambda>tick.
       Ok (JObj [(''syncing'', JBool False), (''currentTick'', jword (opt_or 0 tick))]))"

definition getEntityActivity :: "'db rpc_method" where
  "getEntityActivity Q app params =
     bindR (extract_string_param params 0) (\<lambda>ident.
     let limit = unwrap_or 100 (extract_u32_param params 1) in
     bindR (decode_identity Q ident) (\<lambda>key.
     bindR (get_tx_hashes_for_entity (q_rocks Q) key (unat limit) (app_storage app)) (\<lambda>hashes.
     bindR (collect_txs Q (app_storage app) hashes) (\<lambda>txs. Ok (JArr txs)))))"

definition getEntityHistory :: "'db rpc_method" where
  "getEntityHistory Q app params =
     bindR (extract_string_param params 0) (\<lambda>ident.
     let limit = unat (unwrap_or 50 (extract_u32_param params 1));
         offset = unat (unwrap_or 0 (extract_u32_param params 2)) in
     bindR (extract_optional_u16_param params 3) (\<lambda>epoch.
     bindR (decode_identity Q ident) (\<lambda>key.
     let limit = min limit 500 in
     bindR (count_entity_transactions (q_rocks Q) key (app_storage app)) (\<lambda>total.
     bindR (get_entity_history (q_rocks Q) (app_ranges app) key epoch offset limit (app_storage app)) (\<lambda>history.
       Ok (history_json (parse_values (q_parse Q) history) total offset limit))))))"

text \<open>The branches of the search each add their results.\<close>

definition typed_result :: "string \<Rightarrow> json \<Rightarrow> json" where
  "typed_result t v = JObj [(''type'', JStr t), (''data'', v)]"

definition found :: "'db query_env \<Rightarrow> string \<Rightarrow> bytes option \<Rightarrow> json list" where
  "found Q t d = (case Option.bind d (q_parse Q) of Some v \<Rightarrow> [typed_result t v] | None \<Rightarrow> [])"

definition search_tick_rpc :: "'db query_env \<Rightarrow> 'db \<Rightarrow> string \<Rightarrow> json list outcome" where
  "search_tick_rpc Q db q =
     (case (if list_all is_ascii_digit q then parse_u32 q else None) of
        None \<Rightarrow> Ok []
      | Some tick \<Rightarrow> bindR (warm_get_tick (q_rocks Q) tick db) (\<lambda>d. Ok (found Q ''tick'' d)))"

definition search_tx_rpc :: "'db query_env \<Rightarrow> 'db \<Rightarrow> string \<Rightarrow> json list outcome" where
  "search_tx_rpc Q db q =
     (case (if length q = 64 \<and> list_all is_ascii_hexdigit q then hash_param (q_ext Q) q else None) of
        None \<Rightarrow> Ok []
      | Some hash \<Rightarrow> bindR (get_tx (q_rocks Q) hash db) (\<lambda>d. Ok (found Q ''transaction'' d)))"

definition search_entity_rpc :: "'db query_env \<Rightarrow> 'db \<Rightarrow> string \<Rightarrow> json list outcome" where
  "search_entity_rpc Q db q =
     (case (if list_all is_ascii_uppercase q \<and> length q = 60 then decode_base26 (q_ext Q) q else None) of
        None \<Rightarrow> Ok []
      | Some key \<Rightarrow> bindR (warm_get_entity (q_rocks Q) key db) (\<lambda>d. Ok (found Q ''entity'' d)))"

definition search_prefix_rpc :: "'db query_env \<Rightarrow> 'db \<Rightarrow> string \<Rightarrow> json list outcome" where
  "search_prefix_rpc Q db q =
     (if list_all is_ascii_uppercase q \<and> 4 \<le> length q \<and> length q < 60
      then attempt (get_all_entity_keys (q_rocks Q) 10000 db) (Ok []) (\<lambda>keys.
             bindR (collect_stored (\<lambda>key. warm_get_entity (q_rocks Q) key db) (q_parse Q)
                      (filter (\<lambda>key. starts_with (encode_base26 (q_ext Q) key) q) keys)) (\<lambda>vs.
               Ok (map (typed_result ''entity'') vs)))
      else Ok [])"

definition qonduit_search :: "'db rpc_method" where
  "qonduit_search Q app params =
     bindR (extract_string_param params 0) (\<lambda>query.
     let q = trim query; db = app_storage app in
     if q = [] then Ok (JObj [(''results'', JArr [])])
     else bindR (search_tick_rpc Q db q) (\<lambda>ticks.
          bindR (search_tx_rpc Q db q) (\<lambda>txs.
          bindR (search_entity_rpc Q db q) (\<lambda>entities.
          bindR (search_prefix_rpc Q db q) (\<lambda>prefixed.
            Ok (JObj [(''results'', JArr (ticks @ txs @ entities @ prefixed))]))))))"

definition getAssetHolders :: "'db rpc_method" where
  "getAssetHolders Q app params =
     bindR (extract_u32_param params 0) (\<lambda>i.
     bindR (get_holders_for_asset (q_rocks Q) i (app_storage app)) (\<lambda>holders.
       Ok (JObj [(''asset_index'', jword i), (''holders'', JArr (map (\<lambda>key.
         JObj [(''identity'', JStr (encode_base26 (q_ext Q) key))]) holders))])))"

definition getCustomMessages :: "'db rpc_method" where
  "getCustomMessages Q app params =
     bindR (extract_u32_param params 0) (\<lambda>tick.
     bindR (get_custom_messages_for_tick (q_rocks Q) tick (app_storage app)) (\<lambda>msgs.
       Ok (JArr (List.map_filter (q_parse Q) msgs))))"

definition getOracleData :: "'db rpc_method" where
  "getOracleData Q app params =
     bindR (get_latest_oracle (q_rocks Q) (app_storage app)) (\<lambda>r.
       case r of
         Some (tick, d) \<Rightarrow> bindR (from_slice Q d) (\<lambda>v. Ok (obj_insert ''indexed_tick'' (jword tick) v))
       | None \<Rightarrow> Ok (JObj [(''data'', JNull), (''note'', JStr
           ''Oracle data has not been indexed yet. The QONDUIT_ORACLE stream exists but no data has been received.'')]))"

text \<open>The three methods that report the balance of a spectrum entry.\<close>

definition spectrum_report :: "(string \<Rightarrow> json \<Rightarrow> bool \<Rightarrow> json) \<Rightarrow> 'db rpc_method" where
  "spectrum_report f Q app params =
     bindR (extract_string_param params 0) (\<lambda>ident.
     bindR (decode_identity Q ident) (\<lambda>key.
     bindR (get_spectrum_entry (q_rocks Q) key (app_storage app)) (\<lambda>d.
       case d of
         Some d \<Rightarrow> bindR (from_slice Q d) (\<lambda>entry.
           Ok (f ident (opt_or (JInt 0) (obj_get entry ''balance'')) True))
       | None \<Rightarrow> Ok (f ident (JInt 0) False))))"

definition getEntityTokens :: "'db rpc_method" where
  "getEntityTokens = spectrum_report (\<lambda>ident balance indexed. JObj [(''identity'', JStr ident),
     (''balance'', balance), (''note'', JStr (if indexed
       then ''Returns Qubic balance from spectrum. Token and contract balances not yet indexed.''
       else ''Entity not found in spectrum''))])"

definition getSpectrumChanges :: "'db rpc_method" where
  "getSpectrumChanges = spectrum_report (\<lambda>ident balance indexed. JObj [(''identity'', JStr ident),
     (''current_balance'', balance), (''changes'', JArr []), (''note'', JStr (if indexed
       then ''Returns current spectrum balance. Historical change tracking is not yet indexed.''
       else ''Entity not found in spectrum''))])"

definition getDeFiPositions :: "'db rpc_method" where
  "getDeFiPositions Q app params =
     bindR (extract_string_param params 0) (\<lambda>_. Ok (JObj [(''positions'', JArr []), (''note'', JStr
       ''DeFi position indexing is not yet implemented. This endpoint will be populated once DeFi contract state indexing is added.'')]))"

definition getEpochInfo :: "'db rpc_method" where
  "getEpochInfo Q app params =
     bindR (warm_get_current_epoch (q_rocks Q) (app_storage app)) (\<lambda>epoch.
     bindR (warm_get_current_tick (q_rocks Q) (app_storage app)) (\<lambda>tick.
       Ok (JObj [(''epoch'', jword (opt_or 0 epoch)), (''currentTick'', jword (opt_or 0 tick))])))"

definition getEpochStats :: "'db rpc_method" where
  "getEpochStats Q app params =
     bindR (extract_u16_param params 0) (\<lambda>epoch.
       value_or_null Q (get_epoch_stats (q_rocks Q) epoch (app_storage app)))"

definition listEpochStats :: "'db rpc_method" where
  "listEpochStats Q app params =
     bindR (list_epoch_stats (q_rocks Q) (app_storage app)) (\<lambda>es. Ok (JArr (parse_values (q_parse Q) es)))"

definition getLogEvents :: "'db rpc_method" where
  "getLogEvents Q app params =
     bindR (extract_u32_param params 0) (\<lambda>tick.
     bindR (get_custom_messages_for_tick (q_rocks Q) tick (app_storage app)) (\<lambda>msgs.
       Ok (JInt (int (length msgs)))))"

section \<open>The dispatcher\<close>

definition rpc_methods :: "(string \<times> 'db rpc_method) list" where
  "rpc_methods = [
     (''getTickInfo'', getTickInfo),
     (''getCurrentTickInfo'', getCurrentTickInfo),
     (''getEntity'', getEntity),
     (''getBalance'', getBalance),
     (''getTransactionsForTick'', getTickTransactions),
     (''getTickTransactions'', getTickTransactions),
     (''getTransaction'', getTransaction),
     (''getBlock'', getBlock),
     (''getQubicInfo'', getQubicInfo),
     (''getSystemInfo'', getSystemInfo),
     (''getComputors'', getComputors),
     (''getContractIPO'', getContractIPO),
     (''getIssuedAssets'', getIssuedAssets),
     (''getOwnedAssets'', getOwnedAssets),
     (''getPossessedAssets'', getPossessedAssets),
     (''getAssetsByOwner'', getAssetsByOwner),
     (''getSpectrumStats'', getSpectrumStats),
     (''getSpectrum'', getSpectrum),
     (''getProposal'', fixed_reply JNull),
     (''getBallot'', fixed_reply JNull),
     (''getVotesForProposal'', fixed_reply (JArr [])),
     (''getVotesForVoter'', fixed_reply (JArr [])),
     (''getActiveIPOs'', getActiveIPOs),
     (''getIPOBids'', getContractIPO),
     (''getContractFunction'', unsupported ''getContractFunction is not yet supported. This requires TCP forwarding to a Qubic node. TODO: Implement via NATS request/reply through the ingestion layer.''),
     (''getSyncState'', getSyncState),
     (''getContractFunctionResult'', unsupported ''getContractFunctionResult is not yet supported. This requires a pending-response cache for contract function calls. TODO: Implement via NATS subscription + dejavu-keyed cache.''),
     (''qonduit_getTick'', getBlock),
     (''qonduit_getTickTransactions'', getTickTransactions),
     (''qonduit_getEntityActivity'', getEntityActivity),
     (''qonduit_getEntityHistory'', getEntityHistory),
     (''qonduit_search'', qonduit_search),
     (''qonduit_getAssetHolders'', getAssetHolders),
     (''qonduit_getCustomMessages'', getCustomMessages),
     (''qonduit_getOracleData'', getOracleData),
     (''qonduit_getEntityTokens'', getEntityTokens),
     (''qonduit_getDeFiPositions'', getDeFiPositions),
     (''qonduit_getEpochInfo'', getEpochInfo),
     (''getEpochStats'', getEpochStats),
     (''listEpochStats'', listEpochStats),
     (''qonduit_getLogEvents'', getLogEvents),
     (''qonduit_getSpectrumChanges'', getSpectrumChanges),
     (''qonduit_getEntityBalances'', getSpectrum)]"

definition dispatch_method :: "string \<Rightarrow> 'db rpc_method" where
  "dispatch_method name Q app params =
     (case map_of rpc_methods name of
        Some m \<Rightarrow> m Q app params
      | None \<Rightarrow> Err (Other (''Method not found: '' @ name)))"

record json_rpc_request =
  rq_jsonrpc :: string
  rq_method :: string
  rq_params :: "json option"
  rq_id :: "json option"

record json_rpc_error =
  je_code :: i32
  je_message :: string
  je_data :: "json option"

record json_rpc_response =
  rs_jsonrpc :: string
  rs_result :: "json option"
  rs_error :: "json_rpc_error option"
  rs_id :: "json option"

definition error_code :: "string \<Rightarrow> i32" where
  "error_code msg =
     (if starts_with msg ''Method not found'' then - 32601
      else if starts_with msg ''Missing params'' \<or> starts_with msg ''Params must be array''
           \<or> starts_with msg ''Missing param at index'' then - 32602
      else - 32000)"

text \<open>The history method counts its calls.\<close>

definition inc_rpc :: "string \<Rightarrow> counters \<Rightarrow> counters" where
  "inc_rpc name c = (let c = c\<lparr>rpc_requests := rpc_requests c + 1\<rparr>
     in if name = ''qonduit_getEntityHistory'' then inc_history c else c)"

definition handle_rpc :: "json_rpc_request \<Rightarrow> 'db query_env \<Rightarrow> 'db app_state \<Rightarrow> counters
    \<Rightarrow> json_rpc_response outcome \<times> counters" where
  "handle_rpc rq Q app c =
     (case dispatch_method (rq_method rq) Q app (rq_params rq) of
        Ok v \<Rightarrow> Ok \<lparr>rs_jsonrpc = ''2.0'', rs_result = Some v, rs_error = None, rs_id = rq_id rq\<rparr>
      | Err e \<Rightarrow> Ok \<lparr>rs_jsonrpc = ''2.0'', rs_result = None,
          rs_error = Some \<lparr>je_code = error_code (error_text Q e), je_message = error_text Q e, je_data = None\<rparr>,
          rs_id = rq_id rq\<rparr>
      | Panic p \<Rightarrow> Panic p, inc_rpc (rq_method rq) c)"

end
