(* ===== verification/Query.thy ===== *)
theory Query
  imports Rpc
begin

text \<open>
  What the query server answers over a database the indexer can reach: every REST handler and every
  JSON-RPC method returns, errors are classified by the parameters alone, and the two interfaces
  give the same data.
\<close>

section \<open>Reads of a serving database\<close>

abbreviation serves :: "'db query_env \<Rightarrow> ('db \<Rightarrow> string \<Rightarrow> (bytes \<times> bytes) list) \<Rightarrow> 'db app_state \<Rightarrow> bool" where
  "serves Q entries app \<equiv> serving (q_rocks Q) entries (app_storage app)"

lemma decode_base26_length: "decode_base26 X s = Some key \<Longrightarrow> length key = 32"
  by (auto simp: decode_base26_iff Identity.identity_key_def numeral_eq_Suc)

lemma map_filter_Some: "List.map_filter Some xs = xs"
  by (induction xs) (simp_all add: map_filter_simps)

lemma collect_stored_total:
  assumes "\<And>k. k \<in> set ks \<Longrightarrow> get k = Ok (val k)"
  shows "collect_stored get parse ks = Ok (List.map_filter (\<lambda>k. Option.bind (val k) parse) ks)"
  using assms by (induction ks) (auto simp: map_filter_simps split: option.split)

lemmas collect_stored_Ok = collect_stored_total [where get = "\<lambda>k. Ok (val k)" for val, OF refl]

lemma collect_txs_total:
  assumes "serving (q_rocks Q) entries db"
  shows "collect_txs Q db hashes = Ok (List.map_filter (\<lambda>h. Option.bind (stored entries CF_TX h db) (q_parse Q)) hashes)"
  by (induction hashes) (auto simp: read_tx.read_val [OF assms] map_filter_simps split: option.split)

lemma collect_served_txs:
  assumes "serving (q_rocks Q) entries db"
  shows "collect_stored (\<lambda>h. get_tx (q_rocks Q) h db) (q_parse Q) hashes = collect_txs Q db hashes"
  by (simp add: collect_txs_total [OF assms] collect_stored_total read_tx.read_val [OF assms])

lemma prefix_results_total:
  assumes "serving (q_rocks Q) entries db"
  shows "prefix_results Q db prefix keys = Ok (map (\<lambda>key. opt_or (JObj [(''identity'', JStr (encode_base26 (q_ext Q) key))])
      (Option.bind (stored entries CF_ENTITY key db) (q_parse Q)))
      (filter (\<lambda>key. starts_with (encode_base26 (q_ext Q) key) prefix) keys))"
  by (induction keys)
    (simp_all add: read_entity.read_val [OF assms] Let_def opt_or_def split: option.split)

lemma assets_of_total:
  assumes "serving (q_rocks Q) entries db" "length key = 32"
  shows "is_ok (assets_of Q field key db)"
  using assms
  by (simp add: assets_of_def Let_def read_entity_assets.read_val [of _ entries]
      read_assets.read_val [of _ entries] collect_stored_total [OF read_asset.read_val [of _ entries]])

section \<open>Calls and their parameters\<close>

text \<open>What a method requires of its parameters: nothing, a string, or an unsigned integer first.\<close>

datatype param = NoParam | StringParam | IntParam

fun accepts :: "param \<Rightarrow> json option \<Rightarrow> bool" where
  "accepts NoParam params = True"
| "accepts StringParam params = (\<exists>s vs. params = Some (JArr (JStr s # vs)))"
| "accepts IntParam params = (\<exists>n vs. params = Some (JArr (JInt n # vs)) \<and> 0 \<le> n \<and> n < 2 ^ 64)"

definition signature :: "string \<Rightarrow> param" where
  "signature name =
     (if name \<in> {''getTickInfo'', ''getCurrentTickInfo'', ''getQubicInfo'', ''getSystemInfo'', ''getComputors'',
        ''getIssuedAssets'', ''getSpectrumStats'', ''getProposal'', ''getBallot'', ''getVotesForProposal'',
        ''getVotesForVoter'', ''getActiveIPOs'', ''getContractFunction'', ''getSyncState'',
        ''getContractFunctionResult'', ''qonduit_getOracleData'', ''qonduit_getEpochInfo'', ''listEpochStats''}
      then NoParam
      else if name \<in> {''getTransactionsForTick'', ''getTickTransactions'', ''getBlock'', ''getContractIPO'',
        ''getIPOBids'', ''qonduit_getTick'', ''qonduit_getTickTransactions'', ''qonduit_getAssetHolders'',
        ''qonduit_getCustomMessages'', ''getEpochStats'', ''qonduit_getLogEvents''}
      then IntParam
      else StringParam)"

text \<open>
  The texts of the errors of other crates are not mistaken for the dispatcher's own: they are
  classified as server errors.
\<close>

definition display_ok :: "'db query_env \<Rightarrow> bool" where
  "display_ok Q \<longleftrightarrow> (\<forall>e. error_code (q_display Q e) = - 32000)"

definition settled :: "'db query_env \<Rightarrow> 'a outcome \<Rightarrow> bool" where
  "settled Q r \<longleftrightarrow> is_ok r \<or> (\<exists>e. r = Err e \<and> error_code (error_text Q e) = - 32000)"

text \<open>A method that honours its signature.\<close>

definition conforms :: "'db query_env \<Rightarrow> 'db app_state \<Rightarrow> param \<Rightarrow> 'db rpc_method \<Rightarrow> bool" where
  "conforms Q app p m \<longleftrightarrow>
     (\<forall>params. if accepts p params then settled Q (m Q app params) else param_failure (m Q app params))"

lemma settled_Ok [simp]: "settled Q (Ok x)"
  by (simp add: settled_def)

lemma settled_Err [simp]: "settled Q (Err e) \<longleftrightarrow> error_code (error_text Q e) = - 32000"
  by (auto simp: settled_def)

lemma error_text_Other [simp]: "error_text Q (Other msg) = msg"
  by (simp add: error_text_def)

lemma settled_bindR: "settled Q r \<Longrightarrow> (\<And>x. r = Ok x \<Longrightarrow> settled Q (f x)) \<Longrightarrow> settled Q (bindR r f)"
  by (cases r) (auto simp: settled_def)

lemma settled_is_ok: "is_ok r \<Longrightarrow> settled Q r"
  by (simp add: settled_def)

lemma settled_from_slice: "display_ok Q \<Longrightarrow> settled Q (from_slice Q d)"
  by (auto simp: from_slice_def of_json_def settled_def display_ok_def error_text_def split: option.split)

lemma settled_identity: "settled Q (decode_identity Q ident)"
  by (simp add: decode_identity_def ok_or_def error_code_def starts_with_def split: option.split)

lemma settled_value_or_null: "display_ok Q \<Longrightarrow> is_ok r \<Longrightarrow> settled Q (value_or_null Q r)"
  unfolding value_or_null_def
  by (rule settled_bindR) (auto intro: settled_is_ok settled_from_slice split: option.split)

lemma extract_string_accepts:
  "accepts StringParam params \<Longrightarrow> \<exists>s vs. params = Some (JArr (JStr s # vs)) \<and> extract_string_param params 0 = Ok s"
  "\<not> accepts StringParam params \<Longrightarrow> param_failure (extract_string_param params 0)"
proof -
  show "accepts StringParam params \<Longrightarrow> \<exists>s vs. params = Some (JArr (JStr s # vs)) \<and> extract_string_param params 0 = Ok s"
    by (auto simp: extract_string_Ok)
  assume na: "\<not> accepts StringParam params"
  have "extract_string_param params 0 \<noteq> Ok s" for s
  proof
    assume "extract_string_param params 0 = Ok s"
    moreover from this obtain vs where "params = Some (JArr vs)"
      by (cases params; cases "the params")
        (auto simp: extract_string_param_def params_array_def ok_or_def as_array_def)
    ultimately show False using na by (cases vs) (auto simp: extract_string_Ok)
  qed
  then show "param_failure (extract_string_param params 0)"
    using extract_cases(1) [of params 0] by (metis is_okE)
qed

lemma extract_int_accepts:
  "accepts IntParam params \<Longrightarrow> is_ok (extract_u32_param params 0) \<and> is_ok (extract_u16_param params 0)"
  "\<not> accepts IntParam params \<Longrightarrow> param_failure (extract_u32_param params 0) \<and> param_failure (extract_u16_param params 0)"
proof -
  show "accepts IntParam params \<Longrightarrow> is_ok (extract_u32_param params 0) \<and> is_ok (extract_u16_param params 0)"
    by (auto simp: extract_u32_param_def extract_u16_param_def params_array_def ok_or_def as_array_def
        arr_get_def as_u64_def)
  assume na: "\<not> accepts IntParam params"
  then have "\<not> is_ok (extract_u32_param params 0) \<and> \<not> is_ok (extract_u16_param params 0)"
    by (cases params)
      (auto simp: extract_u32_param_def extract_u16_param_def params_array_def ok_or_def as_array_def
        arr_get_def as_u64_def nth_Cons' neq_Nil_conv split: json.splits option.splits if_splits)
  then show "param_failure (extract_u32_param params 0) \<and> param_failure (extract_u16_param params 0)"
    using extract_cases(2,3) [of params 0] by blast
qed

lemma param_failure_bindR: "param_failure r \<Longrightarrow> param_failure (bindR r f)"
  by (auto simp: param_failure_def)

lemma conforms_string:
  assumes "\<And>params. m Q app params = bindR (extract_string_param params 0) (f params)"
    and "\<And>s vs. settled Q (f (Some (JArr (JStr s # vs))) s)"
  shows "conforms Q app StringParam m"
  unfolding conforms_def assms(1)
proof (intro allI, split if_split, intro conjI impI)
  fix params
  assume "accepts StringParam params"
  then obtain s vs where p: "params = Some (JArr (JStr s # vs))" "extract_string_param params 0 = Ok s"
    using extract_string_accepts(1) by blast
  show "settled Q (bindR (extract_string_param params 0) (f params))"
    using assms(2) [of s vs] p by simp
qed (rule param_failure_bindR [OF extract_string_accepts(2)])

lemma conforms_int:
  assumes "\<And>params. m Q app params = bindR (extract_u32_param params 0) f" and "\<And>n. settled Q (f n)"
  shows "conforms Q app IntParam m"
  unfolding conforms_def assms(1)
proof (intro allI, split if_split, intro conjI impI)
  fix params
  assume "accepts IntParam params"
  then show "settled Q (bindR (extract_u32_param params 0) f)"
    by (intro settled_bindR settled_is_ok conjunct1 [OF extract_int_accepts(1)] assms(2))
qed (rule param_failure_bindR [OF conjunct1 [OF extract_int_accepts(2)]])

lemma conforms_none: "(\<And>params. settled Q (m Q app params)) \<Longrightarrow> conforms Q app NoParam m"
  by (simp add: conforms_def)

section \<open>Every method honours its signature\<close>

lemma settled_with_tip: "serves Q entries app \<Longrightarrow> settled Q (with_tip Q app f)"
  by (simp add: with_tip_def read_current_tick.bind_val [of _ entries] read_current_epoch.bind_val [of _ entries])

lemma settled_identity_then:
  assumes "\<And>key. length key = 32 \<Longrightarrow> settled Q (f key)"
  shows "settled Q (bindR (decode_identity Q ident) f)"
  by (rule settled_bindR [OF settled_identity])
    (auto simp: decode_identity_def ok_or_def dest: decode_base26_length split: option.splits intro: assms)

lemma conform_without_params:
  assumes "serves Q entries app" "display_ok Q"
  shows "conforms Q app NoParam getTickInfo" "conforms Q app NoParam getCurrentTickInfo"
    "conforms Q app NoParam getQubicInfo" "conforms Q app NoParam getSystemInfo"
    "conforms Q app NoParam getSpectrumStats" "conforms Q app NoParam getComputors"
    "conforms Q app NoParam getIssuedAssets" "conforms Q app NoParam getActiveIPOs"
    "conforms Q app NoParam getSyncState" "conforms Q app NoParam getOracleData"
    "conforms Q app NoParam getEpochInfo" "conforms Q app NoParam listEpochStats"
    "conforms Q app NoParam (fixed_reply v)"
    "error_code msg = - 32000 \<Longrightarrow> conforms Q app NoParam (unsupported msg)"
  by (rule conforms_none,
      auto simp: getTickInfo_def getCurrentTickInfo_def getQubicInfo_def getSystemInfo_def getSpectrumStats_def
        getComputors_def getIssuedAssets_def getActiveIPOs_def getSyncState_def getOracleData_def
        getEpochInfo_def listEpochStats_def fixed_reply_def unsupported_def read_vals [OF assms(1)]
        newest_def case_prod_beta
      intro!: settled_with_tip [OF assms(1)] settled_from_slice [OF assms(2)] settled_bindR)+

lemma conform_with_integer:
  assumes "serves Q entries app" "display_ok Q"
  shows "conforms Q app IntParam getTickTransactions" "conforms Q app IntParam getBlock"
    "conforms Q app IntParam getContractIPO" "conforms Q app IntParam getAssetHolders"
    "conforms Q app IntParam getCustomMessages" "conforms Q app IntParam getLogEvents"
  by (rule conforms_int, fact getTickTransactions_def getBlock_def getContractIPO_def getAssetHolders_def
        getCustomMessages_def getLogEvents_def,
      simp add: read_vals [OF assms(1)] collect_txs_total [OF assms(1)] settled_value_or_null [OF assms(2)])+

lemma conform_epoch_stats:
  assumes "serves Q entries app" "display_ok Q"
  shows "conforms Q app IntParam getEpochStats"
  unfolding conforms_def getEpochStats_def
proof (intro allI, split if_split, intro conjI impI)
  fix params
  assume "accepts IntParam params"
  then show "settled Q (bindR (extract_u16_param params 0) (\<lambda>epoch.
      value_or_null Q (get_epoch_stats (q_rocks Q) epoch (app_storage app))))"
    by (intro settled_bindR [OF settled_is_ok [OF conjunct2 [OF extract_int_accepts(1)]]])
      (auto simp: read_vals [OF assms(1)] settled_value_or_null [OF assms(2)])
qed (rule param_failure_bindR [OF conjunct2 [OF extract_int_accepts(2)]])

lemma settled_search:
  assumes "serves Q entries app"
  shows "settled Q (search_tick_rpc Q (app_storage app) q)" "settled Q (search_tx_rpc Q (app_storage app) q)"
    "settled Q (search_entity_rpc Q (app_storage app) q)" "settled Q (search_prefix_rpc Q (app_storage app) q)"
  by (auto simp: search_tick_rpc_def search_tx_rpc_def search_entity_rpc_def search_prefix_rpc_def
      read_vals [OF assms] collect_stored_Ok split: option.split)

lemma conform_with_string:
  assumes "serves Q entries app" "display_ok Q"
  shows "conforms Q app StringParam getEntity" "conforms Q app StringParam getSpectrum"
    "conforms Q app StringParam getTransaction" "conforms Q app StringParam qonduit_search"
    "conforms Q app StringParam getDeFiPositions"
proof -
  have hex: "settled Q (case hex_decode (q_ext Q) h of None \<Rightarrow> Err (Hex h) | Some bs \<Rightarrow> Ok bs)" for h
    using assms(2) by (auto simp: display_ok_def error_text_def split: option.split)
  show "conforms Q app StringParam getEntity"
    by (rule conforms_string, fact getEntity_def)
      (simp add: settled_identity_then read_vals [OF assms(1)] settled_value_or_null [OF assms(2)])
  show "conforms Q app StringParam getSpectrum"
    by (rule conforms_string, fact getSpectrum_def)
      (simp add: settled_identity_then read_vals [OF assms(1)] settled_value_or_null [OF assms(2)])
  show "conforms Q app StringParam getTransaction"
    by (rule conforms_string, fact getTransaction_def)
      (rule settled_bindR [OF hex], simp add: read_vals [OF assms(1)] settled_value_or_null [OF assms(2)]
        error_code_def starts_with_def)
  show "conforms Q app StringParam qonduit_search"
    by (rule conforms_string, fact qonduit_search_def)
      (auto simp: Let_def intro!: settled_bindR settled_search [OF assms(1)])
  show "conforms Q app StringParam getDeFiPositions"
    by (rule conforms_string, fact getDeFiPositions_def) simp
qed

lemma conform_entity_methods:
  assumes "serves Q entries app" "display_ok Q"
  shows "conforms Q app StringParam getBalance" "conforms Q app StringParam (rpc_assets field)"
    "conforms Q app StringParam (spectrum_report f)" "conforms Q app StringParam getEntityActivity"
    "conforms Q app StringParam getEntityHistory"
proof -
  show "conforms Q app StringParam getBalance"
    by (rule conforms_string, fact getBalance_def)
      (auto simp: read_vals [OF assms(1)] intro!: settled_identity_then settled_bindR
        settled_from_slice [OF assms(2)] split: option.split)
  show "conforms Q app StringParam (rpc_assets field)"
    by (rule conforms_string, fact rpc_assets_def)
      (auto intro!: settled_identity_then settled_bindR [OF settled_is_ok [OF assets_of_total [OF assms(1)]]])
  show "conforms Q app StringParam (spectrum_report f)"
    by (rule conforms_string, fact spectrum_report_def)
      (auto simp: read_vals [OF assms(1)] intro!: settled_identity_then settled_bindR
        settled_from_slice [OF assms(2)] split: option.split)
  show "conforms Q app StringParam getEntityActivity"
    by (rule conforms_string, fact getEntityActivity_def)
      (auto simp: Let_def entity_vals [OF assms(1)] collect_txs_total [OF assms(1)] intro!: settled_identity_then)
  show "conforms Q app StringParam getEntityHistory"
    by (rule conforms_string, fact getEntityHistory_def)
      (auto simp: Let_def extract_optional_u16_param_def params_array_def ok_or_def as_array_def
        entity_vals [OF assms(1)] intro!: settled_identity_then)
qed

lemmas conforming = conform_without_params conform_with_integer conform_epoch_stats conform_with_string
  conform_entity_methods

lemma param_message_code:
  assumes "param_message msg"
  shows "error_code msg = - 32602"
proof -
  have "\<not> starts_with msg ''Method not found''"
    using assms starts_with_nth [of msg "''Method not found''" 2] starts_with_nth [of msg "''Missing params''" 2]
      starts_with_nth [of msg "''Params must be array''" 2] starts_with_nth [of msg "''Missing param at index''" 2]
    by (auto simp: param_message_def)
  then show ?thesis using assms by (auto simp: param_message_def error_code_def)
qed

definition known_methods :: "'db query_env \<Rightarrow> string set" where
  "known_methods Q = fst ` set (rpc_methods :: (string \<times> 'db rpc_method) list)"

lemma methods_conform:
  assumes "serves Q entries app" "display_ok Q"
  shows "list_all (\<lambda>(name, m). conforms Q app (signature name) m) rpc_methods"
  by (simp add: rpc_methods_def signature_def conforming [OF assms] getOwnedAssets_def getPossessedAssets_def
      getAssetsByOwner_def getEntityTokens_def getSpectrumChanges_def error_code_def starts_with_def)

text \<open>
  C15: on a serving database \<^verbatim>\<open>handle_rpc\<close> always answers, with the id of the request and exactly one
  of result and error; the error code is -32601 exactly for a method that does not exist, -32602
  exactly when the parameters do not fit the signature of the method, and -32000 otherwise.
\<close>

theorem handle_rpc_codes:
  fixes Q :: "'db query_env"
  assumes "serves Q entries app" "display_ok Q"
  shows "\<exists>resp. fst (handle_rpc rq Q app c) = Ok resp \<and> rs_jsonrpc resp = ''2.0'' \<and> rs_id resp = rq_id rq
    \<and> (case rs_error resp of
         None \<Rightarrow> rs_result resp \<noteq> None \<and> rq_method rq \<in> known_methods Q
           \<and> accepts (signature (rq_method rq)) (rq_params rq)
       | Some err \<Rightarrow> rs_result resp = None
           \<and> je_code err = (if rq_method rq \<notin> known_methods Q then - 32601
               else if \<not> accepts (signature (rq_method rq)) (rq_params rq) then - 32602 else - 32000))"
proof (cases "map_of (rpc_methods :: (string \<times> 'db rpc_method) list) (rq_method rq)")
  case None
  then have "rq_method rq \<notin> known_methods Q" by (simp add: map_of_eq_None_iff known_methods_def)
  then show ?thesis
    by (simp add: handle_rpc_def dispatch_method_def None error_code_def starts_with_def)
next
  case (Some m)
  then have "(rq_method rq, m) \<in> set rpc_methods" by (rule map_of_SomeD)
  then have known: "rq_method rq \<in> known_methods Q"
    and conf: "conforms Q app (signature (rq_method rq)) m"
    using methods_conform [OF assms] by (force simp: known_methods_def, auto simp: list_all_iff)
  show ?thesis
  proof (cases "accepts (signature (rq_method rq)) (rq_params rq)")
    case True
    then have "settled Q (m Q app (rq_params rq))" using conf by (simp add: conforms_def)
    then show ?thesis
      using Some known True by (auto simp: handle_rpc_def dispatch_method_def settled_def elim!: is_okE)
  next
    case False
    then have "param_failure (m Q app (rq_params rq))" using conf by (simp add: conforms_def)
    then show ?thesis
      using Some known False param_message_code by (auto simp: handle_rpc_def dispatch_method_def param_failure_def)
  qed
qed

section \<open>REST and JSON-RPC give the same data\<close>

text \<open>
  The data an answer carries: a JSON body, the parsed stored bytes, null for 404; none for an error.
\<close>

definition rest_value :: "(bytes \<Rightarrow> json option) \<Rightarrow> response outcome \<Rightarrow> json option" where
  "rest_value parse r =
     (case r of
        Ok resp \<Rightarrow>
          (case resp_body resp of
             JsonBody v \<Rightarrow> if status_code resp = 200 then Some v else None
           | RawJson d \<Rightarrow> parse d
           | NoBody \<Rightarrow> Some JNull
           | MetricsText fs \<Rightarrow> None)
      | _ \<Rightarrow> None)"

definition rpc_value :: "json outcome \<Rightarrow> json option" where
  "rpc_value r = (case r of Ok v \<Rightarrow> Some v | _ \<Rightarrow> None)"

abbreviation call :: "string \<Rightarrow> 'db query_env \<Rightarrow> 'db app_state \<Rightarrow> json list \<Rightarrow> json option" where
  "call name Q app params \<equiv> rpc_value (dispatch_method name Q app (Some (JArr params)))"

abbreviation answer :: "'db query_env \<Rightarrow> response outcome \<times> counters \<Rightarrow> json option" where
  "answer Q rc \<equiv> rest_value (q_parse Q) (fst rc)"

lemmas response_defs = respond_def json_or_404_def json_ok_def not_found_def bad_request_def

lemma rest_value_simps [simp]:
  "rest_value parse (Ok (json_ok v)) = Some v" "rest_value parse (Ok not_found) = Some JNull"
  "rest_value parse (Ok (bad_request msg)) = None" "rest_value parse (Ok (storage_err Q e)) = None"
  "rest_value parse (Ok (json_or_404 d)) = (case d of None \<Rightarrow> Some JNull | Some d \<Rightarrow> parse d)"
  by (simp_all add: rest_value_def json_ok_def not_found_def bad_request_def storage_err_def json_or_404_def
      split: option.split)

lemma rpc_value_simps [simp]: "rpc_value (Ok v) = Some v" "rpc_value (Err e) = None"
  by (simp_all add: rpc_value_def)

lemma rpc_value_lookup [simp]:
  "rpc_value (value_or_null Q (Ok d)) = (case d of None \<Rightarrow> Some JNull | Some d \<Rightarrow> q_parse Q d)"
  by (simp add: value_or_null_def from_slice_def of_json_def split: option.split)

lemma respond_Ok [simp]: "respond Q (Ok x) f = Ok (f x)"
  by (simp add: respond_def)

lemma params_present [simp]:
  "extract_string_param (Some (JArr (JStr s # vs))) 0 = Ok s"
  "extract_u32_param (Some (JArr (jword t # vs))) 0 = Ok (t :: u32)"
  "extract_u32_param (Some (JArr (v # jword t # vs))) (Suc 0) = Ok (t :: u32)"
  "extract_u32_param (Some (JArr (v # w # jword t # vs))) 2 = Ok (t :: u32)"
  "extract_u16_param (Some (JArr (jword e # vs))) 0 = Ok (e :: u16)"
  "extract_optional_u16_param (Some (JArr [v, w, x])) 3 = Ok None"
  "extract_optional_u16_param (Some (JArr [v, w, x, jword e])) 3 = Ok (Some (e :: u16))"
proof -
  have u: "as_u64 (jword (t :: u32)) = Some (ucast t)" "as_u64 (jword (e :: u16)) = Some (ucast e)" for t e
  proof -
    have "uint t < 2 ^ 64" "uint e < 2 ^ 64" using uint_lt2p [of t] uint_lt2p [of e] by simp_all
    then show "as_u64 (jword t) = Some (ucast t)" "as_u64 (jword e) = Some (ucast e)"
      by (simp_all only: as_u64_def jword_def json.case ucast_eq uint_ge_0 simp_thms if_True)
  qed
  have same: "ucast (ucast t :: u64) = t" "ucast (ucast e :: u64) = e" for t :: u32 and e :: u16
    by (rule bit_word_eqI, simp add: bit_simps)+
  show "extract_u32_param (Some (JArr (jword t # vs))) 0 = Ok (t :: u32)"
    "extract_u32_param (Some (JArr (v # jword t # vs))) (Suc 0) = Ok (t :: u32)"
    "extract_u32_param (Some (JArr (v # w # jword t # vs))) 2 = Ok (t :: u32)"
    "extract_u16_param (Some (JArr (jword e # vs))) 0 = Ok (e :: u16)"
    "extract_optional_u16_param (Some (JArr [v, w, x])) 3 = Ok None"
    "extract_optional_u16_param (Some (JArr [v, w, x, jword e])) 3 = Ok (Some (e :: u16))"
    by (simp_all add: extract_u32_param_def extract_u16_param_def extract_optional_u16_param_def
        params_array_def ok_or_def as_array_def arr_get_def u same)
qed (simp add: extract_string_Ok)

lemma identity_agrees:
  assumes "\<And>key. length key = 32 \<Longrightarrow> rest_value parse (f key) = rpc_value (g key)"
  shows "rest_value parse (with_identity Q ident f) = rpc_value (bindR (decode_identity Q ident) g)"
  by (auto simp: with_identity_def decode_identity_def ok_or_def intro: assms decode_base26_length split: option.split)

lemmas dispatch_defs = dispatch_method_def rpc_methods_def

lemma lookups_agree:
  fixes t :: u32 and e :: u16
  assumes "serves Q entries app"
  shows "answer Q (get_transaction h Q app c) = call ''getTransaction'' Q app [JStr h]"
    "answer Q (rest_get_entity i Q app c) = call ''getEntity'' Q app [JStr i]"
    "answer Q (rest_get_spectrum_entry i Q app c) = call ''getSpectrum'' Q app [JStr i]"
    "answer Q (rest_get_tick (show_nat (unat t)) Q app c) = call ''getBlock'' Q app [jword t]"
    "answer Q (rest_get_contract_ipo (show_nat (unat t)) Q app c) = call ''getContractIPO'' Q app [jword t]"
    "answer Q (get_epoch (show_nat (unat e)) Q app c) = call ''getEpochStats'' Q app [jword e]"
proof -
  show "answer Q (get_transaction h Q app c) = call ''getTransaction'' Q app [JStr h]"
    by (simp add: dispatch_defs get_transaction_def getTransaction_def hash_param_def read_vals [OF assms]
        split: option.split)
  show "answer Q (rest_get_entity i Q app c) = call ''getEntity'' Q app [JStr i]"
    by (simp add: dispatch_defs rest_get_entity_def getEntity_def)
      (rule identity_agrees, simp add: read_vals [OF assms])
  show "answer Q (rest_get_spectrum_entry i Q app c) = call ''getSpectrum'' Q app [JStr i]"
    by (simp add: dispatch_defs rest_get_spectrum_entry_def getSpectrum_def)
      (rule identity_agrees, simp add: read_vals [OF assms])
qed (simp_all add: dispatch_defs rest_get_tick_def getBlock_def rest_get_contract_ipo_def getContractIPO_def
    get_epoch_def getEpochStats_def parse_show read_vals [OF assms])

lemma lists_agree:
  fixes t :: u32
  assumes "serves Q entries app"
  shows "answer Q (rest_get_computors Q app c) = call ''getComputors'' Q app []"
    "answer Q (get_issued_assets Q app c) = call ''getIssuedAssets'' Q app []"
    "answer Q (get_active_ipos Q app c) = call ''getActiveIPOs'' Q app []"
    "answer Q (rest_list_epochs Q app c) = call ''listEpochStats'' Q app []"
    "answer Q (get_tick_transactions (show_nat (unat t)) Q app c) = call ''getTickTransactions'' Q app [jword t]"
proof -
  show "answer Q (rest_get_computors Q app c) = call ''getComputors'' Q app []"
    by (simp add: dispatch_defs rest_get_computors_def getComputors_def read_vals [OF assms] newest_def
        from_slice_def of_json_def case_prod_beta split: option.split)
qed (simp_all add: dispatch_defs get_issued_assets_def getIssuedAssets_def get_active_ipos_def getActiveIPOs_def
    rest_list_epochs_def listEpochStats_def get_tick_transactions_def getTickTransactions_def parse_show
    read_vals [OF assms] collect_txs_total [OF assms] collect_stored_Ok Let_def)

lemma entity_lists_agree:
  assumes "serves Q entries app"
  shows "answer Q (get_owned_assets i Q app c) = call ''getOwnedAssets'' Q app [JStr i]"
    "answer Q (get_possessed_assets i Q app c) = call ''getPossessedAssets'' Q app [JStr i]"
    "answer Q (get_entity_transactions i Q app c) = call ''qonduit_getEntityActivity'' Q app [JStr i, jword (100 :: u32)]"
    "answer Q (rest_get_entity_history i \<lparr>hp_offset = unat ofs, hp_limit = unat lmt, hp_epoch = ep\<rparr> Q app c)
      = call ''qonduit_getEntityHistory'' Q app
          ([JStr i, jword (lmt :: u32), jword (ofs :: u32)] @ (case ep of None \<Rightarrow> [] | Some e \<Rightarrow> [jword e]))"
proof -
  have assets: "rest_value parse (respond Q (assets_of Q field key (app_storage app)) (\<lambda>vs. json_ok (JArr vs)))
      = rpc_value (bindR (assets_of Q field key (app_storage app)) (\<lambda>vs. Ok (JArr vs)))" if "length key = 32"
    for parse field key
    using assets_of_total [OF assms that, of field] by (auto elim!: is_okE)
  show "answer Q (get_owned_assets i Q app c) = call ''getOwnedAssets'' Q app [JStr i]"
    by (simp add: dispatch_defs get_owned_assets_def getOwnedAssets_def rpc_assets_def)
      (rule identity_agrees, rule assets)
  show "answer Q (get_possessed_assets i Q app c) = call ''getPossessedAssets'' Q app [JStr i]"
    by (simp add: dispatch_defs get_possessed_assets_def getPossessedAssets_def rpc_assets_def)
      (rule identity_agrees, rule assets)
  show "answer Q (get_entity_transactions i Q app c)
      = call ''qonduit_getEntityActivity'' Q app [JStr i, jword (100 :: u32)]"
    by (simp add: dispatch_defs get_entity_transactions_def getEntityActivity_def Let_def unwrap_or_def)
      (rule identity_agrees, simp add: entity_vals [OF assms] read_vals [OF assms] collect_txs_total [OF assms]
        collect_stored_Ok)
  show "answer Q (rest_get_entity_history i \<lparr>hp_offset = unat ofs, hp_limit = unat lmt, hp_epoch = ep\<rparr> Q app c)
      = call ''qonduit_getEntityHistory'' Q app
          ([JStr i, jword lmt, jword ofs] @ (case ep of None \<Rightarrow> [] | Some e \<Rightarrow> [jword e]))"
    by (cases ep; simp add: dispatch_defs rest_get_entity_history_def getEntityHistory_def Let_def unwrap_or_def;
        rule identity_agrees; simp add: entity_vals [OF assms])
qed


section \<open>Search\<close>

lemma encode_base26_nonempty [simp]: "encode_base26 X k \<noteq> []"
  using length_encode_base26 [of X k] by (metis list.size(3) zero_neq_numeral)

lemma search_letters:
  assumes "q \<noteq> []" "list_all is_ascii_uppercase q" "length q \<noteq> 64"
  shows "fst (search q Q app c) = search_names Q (app_storage app) q"
proof -
  have "list_all (\<lambda>c. CHR ''!'' \<le> c \<and> c \<le> CHR ''~'') q" "\<not> list_all is_ascii_digit q"
    using assms(1,2) by (auto simp: list_all_iff is_ascii_uppercase_def is_ascii_digit_def less_eq_char_def neq_Nil_conv)
  then show ?thesis using assms by (simp add: search_def Let_def trim_ascii search_hash_def)
qed

text \<open>
  a stored entity is found by its identity, and by every prefix of it from four letters on as
  long as its key is among the first ten thousand.
\<close>

theorem search_finds_entity:
  assumes "serves Q entries app" "(key, d) \<in> set (entries (app_storage app) CF_ENTITY)" "q_parse Q d = Some v"
  shows "fst (search (encode_base26 (q_ext Q) key) Q app c) = Ok (entity_results [v])
    \<and> (4 \<le> n \<and> n < 60 \<and> key \<in> set (take 10000 (map fst (entries (app_storage app) CF_ENTITY)))
       \<longrightarrow> (\<exists>vs. fst (search (take n (encode_base26 (q_ext Q) key)) Q app c) = Ok (entity_results vs) \<and> v \<in> set vs))"
proof -
  let ?id = "encode_base26 (q_ext Q) key" and ?db = "app_storage app"
  have len: "length key = 32" using serving_ok [OF assms(1,2)] by (simp add: op_ok_cf)
  have st: "stored entries CF_ENTITY key ?db = Some d"
    using assms(2) distinct_ascending [OF serving_ascending [OF assms(1)]] by simp
  have up: "list_all is_ascii_uppercase ?id" using encode_base26_upper by (simp add: list_all_iff)
  have dec: "decode_base26 (q_ext Q) ?id = Some key"
    using len by (rule decode_encode_key)
  have "fst (search ?id Q app c) = search_names Q ?db ?id"
    by (rule search_letters) (use up length_encode_base26 [of "q_ext Q" key] in \<open>auto simp del: length_encode_base26\<close>)
  also have "\<dots> = Ok (entity_results [v])"
    using up by (simp add: search_names_def search_identity_def dec read_vals [OF assms(1)] st assms(3))
  moreover have "\<exists>vs. fst (search (take n ?id) Q app c) = Ok (entity_results vs) \<and> v \<in> set vs"
    if n: "4 \<le> n" "n < 60" "key \<in> set (take 10000 (map fst (entries ?db CF_ENTITY)))"
  proof -
    have up': "list_all is_ascii_uppercase (take n ?id)" using up by (auto simp: list_all_iff dest: in_set_takeD)
    let ?val = "\<lambda>k. opt_or (JObj [(''identity'', JStr (encode_base26 (q_ext Q) k))])
      (Option.bind (stored entries CF_ENTITY k ?db) (q_parse Q))"
    define keys where "keys = take 10000 (map fst (entries ?db CF_ENTITY))"
    let ?hits = "filter (\<lambda>k. starts_with (encode_base26 (q_ext Q) k) (take n ?id)) keys"
    have "key \<in> set keys" unfolding keys_def by (rule n(3))
    then have "key \<in> set ?hits" using n(2) by (simp add: starts_with_def)
    moreover have "?val key = v" by (simp add: st assms(3) opt_or_def)
    ultimately have "v \<in> set (map ?val ?hits)" using image_eqI [of v ?val key "set ?hits"] by (simp only: set_map)
    moreover have "search_entities_by_prefix Q ?db (take n ?id) = Ok (map ?val ?hits)"
      by (simp add: search_entities_by_prefix_def read_vals [OF assms(1)] prefix_results_total [OF assms(1)] keys_def)
    ultimately obtain vs where vs: "search_entities_by_prefix Q ?db (take n ?id) = Ok vs" "v \<in> set vs" by blast
    have "fst (search (take n ?id) Q app c) = search_names Q ?db (take n ?id)"
      by (rule search_letters) (use up' n in auto)
    also have "\<dots> = Ok (entity_results vs)" using up' n vs by (auto simp: search_names_def)
    finally show ?thesis using vs(2) by blast
  qed
  ultimately show ?thesis by simp
qed

end
