(* ===== verification/Query_Metrics.thy ===== *)
theory Query_Metrics
  imports Pipeline Epochs
begin

text \<open>
  \<^verbatim>\<open>crates/query/src/metrics.rs\<close> and \<^verbatim>\<open>crates/ingestion/src/metrics.rs\<close>: the lazily registered
  Prometheus metrics and the gauges set from the pipeline state on every scrape.  A static is
  registered when it is first used, and its \<^verbatim>\<open>unwrap\<close> panics when the registry refuses it.  The
  registry is a parameter; \<open>prometheus_ok\<close> states that it refuses exactly a name it already has.
\<close>

section \<open>The statics\<close>

datatype static =
    RPC_REQUESTS | REST_REQUESTS | WS_CONNECTIONS | REST_REQUESTS_BY_ROUTE | RPC_REQUESTS_BY_METHOD
    | ENTITY_HISTORY_REQUESTS | NODE_TICK | NODE_EPOCH | INDEXED_TICK | INDEXED_EPOCH | TICKS_BEHIND
    | TICKS_INDEXED_TOTAL | TXS_INDEXED_TOTAL | ENTITIES_INDEXED_TOTAL | INDEXING_RATE_AVG
    | INDEXING_RATE_CURRENT | UPTIME_SECONDS | ETA_TO_LIVE_SECONDS | INGESTION_CONNECTED
    | INGESTION_DISABLED | NATS_TICK_LAG | NATS_TX_LAG | NATS_ENTITY_LAG | EPOCH_TICK_SPAN
    | EPOCH_TICKS_INDEXED | EPOCH_PROGRESS_PCT | EPOCHS_FULLY_INDEXED | BACKFILL_RUNNING
    | BACKFILL_TICKS_COMPLETED | BACKFILL_TXS_DISCOVERED | BACKFILL_TICKS_DISCOVERED
    | BACKFILL_TICKS_FAILED | BACKFILL_START_TICK | BACKFILL_END_TICK | BACKFILL_PROGRESS_PCT
    | PACKETS_RECEIVED | PACKETS_BY_TYPE | PACKETS_PUBLISHED | PACKETS_DECODE_ERRORS | PEER_COUNT
    | CURRENT_EPOCH | CURRENT_TICK

datatype kind = IntCounter | IntCounterVec | IntGauge

definition api_counters :: "(static \<times> kind \<times> string) list" where
  "api_counters = [
     (RPC_REQUESTS, IntCounter, ''qonduit_rpc_requests_total''),
     (REST_REQUESTS, IntCounter, ''qonduit_rest_requests_total''),
     (WS_CONNECTIONS, IntCounter, ''qonduit_ws_connections_total''),
     (REST_REQUESTS_BY_ROUTE, IntCounterVec, ''qonduit_rest_requests_by_route''),
     (RPC_REQUESTS_BY_METHOD, IntCounterVec, ''qonduit_rpc_requests_by_method''),
     (ENTITY_HISTORY_REQUESTS, IntCounter, ''qonduit_entity_history_requests_total'')]"

definition pipeline_gauges :: "(static \<times> kind \<times> string) list" where
  "pipeline_gauges = [
     (NODE_TICK, IntGauge, ''qonduit_node_tick''),
     (NODE_EPOCH, IntGauge, ''qonduit_node_epoch''),
     (INDEXED_TICK, IntGauge, ''qonduit_indexed_tick''),
     (INDEXED_EPOCH, IntGauge, ''qonduit_indexed_epoch''),
     (TICKS_BEHIND, IntGauge, ''qonduit_ticks_behind''),
     (TICKS_INDEXED_TOTAL, IntGauge, ''qonduit_ticks_indexed_total''),
     (TXS_INDEXED_TOTAL, IntGauge, ''qonduit_txs_indexed_total''),
     (ENTITIES_INDEXED_TOTAL, IntGauge, ''qonduit_entities_indexed_total''),
     (INDEXING_RATE_AVG, IntGauge, ''qonduit_indexing_rate_avg_ticks_per_sec''),
     (INDEXING_RATE_CURRENT, IntGauge, ''qonduit_indexing_rate_current_ticks_per_sec''),
     (UPTIME_SECONDS, IntGauge, ''qonduit_uptime_seconds''),
     (ETA_TO_LIVE_SECONDS, IntGauge, ''qonduit_eta_to_live_seconds'')]"

definition ingestion_gauges :: "(static \<times> kind \<times> string) list" where
  "ingestion_gauges = [
     (INGESTION_CONNECTED, IntGauge, ''qonduit_ingestion_connected''),
     (INGESTION_DISABLED, IntGauge, ''qonduit_ingestion_disabled'')]"

definition lag_gauges :: "(static \<times> kind \<times> string) list" where
  "lag_gauges = [
     (NATS_TICK_LAG, IntGauge, ''qonduit_nats_tick_lag''),
     (NATS_TX_LAG, IntGauge, ''qonduit_nats_tx_lag''),
     (NATS_ENTITY_LAG, IntGauge, ''qonduit_nats_entity_lag'')]"

definition epoch_gauges :: "(static \<times> kind \<times> string) list" where
  "epoch_gauges = [
     (EPOCH_TICK_SPAN, IntGauge, ''qonduit_epoch_tick_span''),
     (EPOCH_TICKS_INDEXED, IntGauge, ''qonduit_epoch_ticks_indexed''),
     (EPOCH_PROGRESS_PCT, IntGauge, ''qonduit_epoch_progress_pct''),
     (EPOCHS_FULLY_INDEXED, IntGauge, ''qonduit_epochs_fully_indexed'')]"

definition backfill_gauges :: "(static \<times> kind \<times> string) list" where
  "backfill_gauges = [
     (BACKFILL_RUNNING, IntGauge, ''qonduit_backfill_running''),
     (BACKFILL_TICKS_COMPLETED, IntGauge, ''qonduit_backfill_ticks_completed_total''),
     (BACKFILL_TXS_DISCOVERED, IntGauge, ''qonduit_backfill_txs_discovered_total''),
     (BACKFILL_TICKS_DISCOVERED, IntGauge, ''qonduit_backfill_ticks_discovered_total''),
     (BACKFILL_TICKS_FAILED, IntGauge, ''qonduit_backfill_ticks_failed_total''),
     (BACKFILL_START_TICK, IntGauge, ''qonduit_backfill_start_tick''),
     (BACKFILL_END_TICK, IntGauge, ''qonduit_backfill_end_tick''),
     (BACKFILL_PROGRESS_PCT, IntGauge, ''qonduit_backfill_progress_pct'')]"

definition ingestion_metrics :: "(static \<times> kind \<times> string) list" where
  "ingestion_metrics = [
     (PACKETS_RECEIVED, IntCounter, ''qonduit_ingestion_packets_received_total''),
     (PACKETS_BY_TYPE, IntCounterVec, ''qonduit_ingestion_packets_by_type''),
     (PACKETS_PUBLISHED, IntCounter, ''qonduit_ingestion_packets_published_total''),
     (PACKETS_DECODE_ERRORS, IntCounter, ''qonduit_ingestion_decode_errors_total''),
     (PEER_COUNT, IntGauge, ''qonduit_ingestion_peer_count''),
     (CURRENT_EPOCH, IntGauge, ''qonduit_ingestion_current_epoch''),
     (CURRENT_TICK, IntGauge, ''qonduit_ingestion_current_tick'')]"

definition query_statics :: "(static \<times> kind \<times> string) list" where
  "query_statics = api_counters @ pipeline_gauges @ ingestion_gauges @ lag_gauges @ epoch_gauges @ backfill_gauges"

section \<open>Registration on first use\<close>

record 'r prometheus =
  new_registry :: 'r
  register :: "string \<Rightarrow> 'r \<Rightarrow> 'r option"
  gather :: "'r \<Rightarrow> string list"

record 'r metrics =
  registry :: 'r
  initialised :: "static set"
  gauge_value :: "static \<Rightarrow> int"

definition new_metrics :: "'r prometheus \<Rightarrow> 'r metrics" where
  "new_metrics P = \<lparr>registry = new_registry P, initialised = {}, gauge_value = (\<lambda>_. 0)\<rparr>"

definition static_name :: "(static \<times> kind \<times> string) list \<Rightarrow> static \<Rightarrow> string option" where
  "static_name statics s = map_option snd (map_of statics s)"

text \<open>\<^verbatim>\<open>Lazy::deref\<close> of a static of one of the two crates.\<close>

definition force :: "'r prometheus \<Rightarrow> (static \<times> kind \<times> string) list \<Rightarrow> static \<Rightarrow> 'r metrics
    \<Rightarrow> unit outcome \<times> 'r metrics" where
  "force P statics s m =
     (if s \<in> initialised m then (Ok (), m)
      else case static_name statics s of
             None \<Rightarrow> (Ok (), m)
           | Some name \<Rightarrow>
               (case register P name (registry m) of
                  None \<Rightarrow> (Panic UnwrapFailed, m)
                | Some r \<Rightarrow> (Ok (), m\<lparr>registry := r, initialised := insert s (initialised m)\<rparr>)))"

definition set_gauge :: "'r prometheus \<Rightarrow> static \<times> int \<Rightarrow> 'r metrics \<Rightarrow> unit outcome \<times> 'r metrics" where
  "set_gauge P sv m = bindS (force P query_statics (fst sv) m) (\<lambda>_ m.
     (Ok (), m\<lparr>gauge_value := (gauge_value m)(fst sv := snd sv)\<rparr>))"

section \<open>The gauges of a scrape\<close>

definition as_i64 :: "u64 \<Rightarrow> i64" where "as_i64 w = sint w"

definition u32_as_i64 :: "u32 \<Rightarrow> i64" where "u32_as_i64 w = int (unat w)"

definition u16_as_i64 :: "u16 \<Rightarrow> i64" where "u16_as_i64 w = int (unat w)"

definition f64_as_i64 :: "rat \<Rightarrow> i64" where
  "f64_as_i64 x = max (- (2 ^ 63)) (min (2 ^ 63 - 1) (if 0 \<le> x then \<lfloor>x\<rfloor> else \<lceil>x\<rceil>))"

definition epoch_progress :: "epoch_range list \<Rightarrow> pipeline_state \<Rightarrow> i64" where
  "epoch_progress ranges p =
     (case epoch_progress_pct ranges (node_epoch p) (indexed_tick p) of
        Some pct \<Rightarrow> f64_as_i64 pct
      | None \<Rightarrow>
          if 0 < behind_of p then 0
          else if 0 < node_tick p
          then f64_as_i64 (of_nat (unat (node_tick p mod 218000)) / 218000 * 100)
          else 0)"

definition backfill_progress :: "pipeline_state \<Rightarrow> i64" where
  "backfill_progress p =
     (let bf_total = u32_as_i64 (sat_sub (backfill_end_tick p) (backfill_start_tick p))
      in if 0 < bf_total
         then f64_as_i64 (u64_as_f64 (backfill_ticks_completed p) / of_int bf_total * 100)
         else 0)"

definition gauge_updates :: "epoch_range list \<Rightarrow> pipeline_state \<Rightarrow> pipeline_status_response \<Rightarrow> (static \<times> int) list" where
  "gauge_updates ranges p st = [
     (NODE_TICK, u32_as_i64 (node_tick p)),
     (NODE_EPOCH, u16_as_i64 (node_epoch p)),
     (INDEXED_TICK, u32_as_i64 (indexed_tick p)),
     (INDEXED_EPOCH, u16_as_i64 (indexed_epoch p)),
     (TICKS_BEHIND, max (behind_of p) 0),
     (TICKS_INDEXED_TOTAL, as_i64 (ticks_indexed p)),
     (TXS_INDEXED_TOTAL, as_i64 (txs_indexed p)),
     (ENTITIES_INDEXED_TOTAL, as_i64 (entities_indexed p)),
     (INGESTION_CONNECTED, of_bool (ingestion_connected p)),
     (INGESTION_DISABLED, of_bool (ingestion_disabled p)),
     (NATS_TICK_LAG, as_i64 (tick_lag p)),
     (NATS_TX_LAG, as_i64 (tx_lag p)),
     (NATS_ENTITY_LAG, as_i64 (entity_lag p)),
     (UPTIME_SECONDS, as_i64 (ps_uptime_seconds st)),
     (INDEXING_RATE_AVG, f64_as_i64 (ps_avg_indexing_rate st * 1000)),
     (INDEXING_RATE_CURRENT, f64_as_i64 (ps_current_indexing_rate st * 1000)),
     (ETA_TO_LIVE_SECONDS, as_i64 (ps_estimated_seconds_to_live st)),
     (EPOCH_PROGRESS_PCT, epoch_progress ranges p),
     (EPOCHS_FULLY_INDEXED, u32_as_i64 (epochs_fully_indexed ranges (indexed_tick p))),
     (BACKFILL_RUNNING, of_bool (backfill_running p)),
     (BACKFILL_TICKS_COMPLETED, as_i64 (backfill_ticks_completed p)),
     (BACKFILL_TXS_DISCOVERED, as_i64 (backfill_txs_discovered p)),
     (BACKFILL_TICKS_DISCOVERED, as_i64 (backfill_ticks_discovered p)),
     (BACKFILL_TICKS_FAILED, as_i64 (backfill_ticks_failed p)),
     (BACKFILL_START_TICK, u32_as_i64 (backfill_start_tick p)),
     (BACKFILL_END_TICK, u32_as_i64 (backfill_end_tick p)),
     (BACKFILL_PROGRESS_PCT, backfill_progress p)]"

text \<open>The snapshot taken on the way rolls the rate window of the pipeline.\<close>

definition update_pipeline_gauges :: "'r prometheus \<Rightarrow> u64 \<Rightarrow> u64 \<Rightarrow> epoch_range list \<Rightarrow> pipeline_state
    \<Rightarrow> 'r metrics \<Rightarrow> unit outcome \<times> 'r metrics \<times> pipeline_state" where
  "update_pipeline_gauges P now uptime ranges p m =
     (let (st, p') = status now uptime p;
          (r, m') = forS (set_gauge P) (gauge_updates ranges p st) m
      in (r, m', p'))"

text \<open>\<^verbatim>\<open>render_metrics\<close>: the families of the query registry, then those of the ingestion registry if any.\<close>

definition rendered_families :: "'r prometheus \<Rightarrow> 'r metrics \<Rightarrow> 'r metrics option \<Rightarrow> string list" where
  "rendered_families P query ingestion =
     gather P (registry query) @ (case ingestion of None \<Rightarrow> [] | Some i \<Rightarrow> gather P (registry i))"

section \<open>Scrapes\<close>

text \<open>
  Documented behaviour of the registry: it refuses exactly a name it has, keeps the others, and
  gathers families of registered names, each once.  \<open>registered\<close> is the set of names it holds.
\<close>

definition prometheus_ok :: "'r prometheus \<Rightarrow> ('r \<Rightarrow> string set) \<Rightarrow> bool" where
  "prometheus_ok P registered \<longleftrightarrow>
     registered (new_registry P) = {} \<and>
     (\<forall>name r. register P name r = None \<longleftrightarrow> name \<in> registered r) \<and>
     (\<forall>name r r'. register P name r = Some r' \<longrightarrow> registered r' = insert name (registered r)) \<and>
     (\<forall>r. set (gather P r) \<subseteq> registered r \<and> distinct (gather P r))"

lemmas statics_defs = query_statics_def api_counters_def pipeline_gauges_def ingestion_gauges_def
  lag_gauges_def epoch_gauges_def backfill_gauges_def ingestion_metrics_def

lemma statics_distinct:
  "distinct (map fst (query_statics @ ingestion_metrics))"
  "distinct (map (snd \<circ> snd) (query_statics @ ingestion_metrics))"
  by (simp_all add: statics_defs)

lemma distinct_static_names:
  assumes "distinct (map (snd \<circ> snd) statics)" "static_name statics s = Some n" "static_name statics t = Some n"
  shows "s = t"
proof -
  obtain k k' where "(s, k, n) \<in> set statics" "(t, k', n) \<in> set statics"
    using assms(2,3) by (auto simp: static_name_def dest: map_of_SomeD)
  then show ?thesis using assms(1) by (force simp: distinct_map inj_on_def)
qed

text \<open>What holds of the metrics of a crate however its statics have been used.\<close>

definition metrics_inv :: "('r \<Rightarrow> string set) \<Rightarrow> (static \<times> kind \<times> string) list \<Rightarrow> 'r metrics \<Rightarrow> bool" where
  "metrics_inv registered statics m \<longleftrightarrow>
     registered (registry m) = {n. \<exists>s\<in>initialised m. static_name statics s = Some n}"

lemma force_inv:
  assumes "prometheus_ok P registered" "distinct (map (snd \<circ> snd) statics)" "metrics_inv registered statics m"
  shows "\<exists>m'. force P statics s m = (Ok (), m') \<and> metrics_inv registered statics m'
    \<and> gauge_value m' = gauge_value m
    \<and> initialised m' = (if static_name statics s = None then initialised m else insert s (initialised m))"
proof (cases "s \<in> initialised m \<or> static_name statics s = None")
  case True
  then show ?thesis using assms(3) by (auto simp: force_def)
next
  case False
  then obtain n where n: "static_name statics s = Some n" "s \<notin> initialised m" by auto
  have "n \<notin> registered (registry m)"
    using assms(3) distinct_static_names [OF assms(2) n(1)] n(2) by (auto simp: metrics_inv_def)
  then obtain r where r: "register P n (registry m) = Some r" "registered r = insert n (registered (registry m))"
    using assms(1) unfolding prometheus_ok_def by (metis option.exhaust)
  then show ?thesis using n assms(3) by (auto simp: force_def metrics_inv_def)
qed

lemma set_gauge_inv:
  assumes "prometheus_ok P registered" "metrics_inv registered query_statics m"
  shows "\<exists>m'. set_gauge P (s, v) m = (Ok (), m') \<and> metrics_inv registered query_statics m'
    \<and> gauge_value m' = (gauge_value m)(s := v)"
proof -
  have "distinct (map (snd \<circ> snd) query_statics)" using statics_distinct(2) by simp
  then show ?thesis
    using force_inv [OF assms(1) _ assms(2), of s] by (auto simp: set_gauge_def metrics_inv_def split: if_splits)
qed

lemma set_gauges:
  assumes "prometheus_ok P registered" "metrics_inv registered query_statics m" "distinct (map fst us)"
  shows "\<exists>m'. forS (set_gauge P) us m = (Ok (), m') \<and> metrics_inv registered query_statics m'
    \<and> gauge_value m' = (\<lambda>s. case map_of us s of None \<Rightarrow> gauge_value m s | Some v \<Rightarrow> v)"
  using assms(2,3)
proof (induction us arbitrary: m)
  case (Cons u us)
  obtain s v where u: "u = (s, v)" by (cases u)
  obtain m1 where m1: "set_gauge P (s, v) m = (Ok (), m1)" "metrics_inv registered query_statics m1"
    "gauge_value m1 = (gauge_value m)(s := v)"
    using set_gauge_inv [OF assms(1) Cons.prems(1)] by blast
  obtain m' where m': "forS (set_gauge P) us m1 = (Ok (), m')" "metrics_inv registered query_statics m'"
    "gauge_value m' = (\<lambda>s. case map_of us s of None \<Rightarrow> gauge_value m1 s | Some v \<Rightarrow> v)"
    using Cons.IH [OF m1(2)] Cons.prems(2) by auto
  have "map_of us s = None" using Cons.prems(2) by (simp add: u map_of_eq_None_iff)
  then have "gauge_value m' = (\<lambda>s. case map_of (u # us) s of None \<Rightarrow> gauge_value m s | Some v \<Rightarrow> v)"
    unfolding m'(3) m1(3) u by (auto simp: fun_eq_iff split: option.split)
  then show ?case using m1(1) m'(1,2) by (simp add: u)
qed (simp add: fun_eq_iff)

lemma gauge_statics:
  "distinct (map fst (gauge_updates ranges p st))"
  by (simp add: gauge_updates_def)

lemma families_disjoint:
  assumes "prometheus_ok P registered" "metrics_inv registered query_statics q"
    "metrics_inv registered ingestion_metrics i"
  shows "distinct (rendered_families P q (Some i))"
proof -
  have names: "registered (registry m) \<subseteq> (snd \<circ> snd) ` set statics" if "metrics_inv registered statics m" for statics m
    using that by (force simp: metrics_inv_def static_name_def dest: map_of_SomeD)
  have "(snd \<circ> snd) ` set query_statics \<inter> (snd \<circ> snd) ` set ingestion_metrics = {}"
    using statics_distinct(2) by simp
  then have "registered (registry q) \<inter> registered (registry i) = {}"
    using names [OF assms(2)] names [OF assms(3)] by blast
  moreover have "set (gather P r) \<subseteq> registered r" "distinct (gather P r)" for r
    using assms(1) by (simp_all add: prometheus_ok_def)
  ultimately show ?thesis by (simp add: rendered_families_def) blast
qed

text \<open>
  whatever statics were used before, a scrape neither panics nor registers a metric twice; it
  sets each of its gauges to the value computed from the pipeline state, leaves the others as they
  were, and the families rendered for the two crates have different names.
\<close>

theorem scrape_reports:
  assumes "prometheus_ok P registered" "metrics_inv registered query_statics m"
    and "metrics_inv registered ingestion_metrics i"
    and "update_pipeline_gauges P now uptime ranges p m = (r, m', p')"
  shows "r = Ok () \<and> p' = roll_window now p
    \<and> gauge_value m' = (\<lambda>s. case map_of (gauge_updates ranges p (fst (status now uptime p))) s of
         None \<Rightarrow> gauge_value m s | Some v \<Rightarrow> v)
    \<and> metrics_inv registered query_statics m' \<and> distinct (rendered_families P m' (Some i))"
proof -
  obtain m1 where m1: "forS (set_gauge P) (gauge_updates ranges p (fst (status now uptime p))) m = (Ok (), m1)"
    "metrics_inv registered query_statics m1"
    "gauge_value m1 = (\<lambda>s. case map_of (gauge_updates ranges p (fst (status now uptime p))) s of
         None \<Rightarrow> gauge_value m s | Some v \<Rightarrow> v)"
    using set_gauges [OF assms(1,2) gauge_statics] by blast
  have "snd (status now uptime p) = roll_window now p" by (simp add: status_def Let_def)
  then show ?thesis
    using assms(4) m1 families_disjoint [OF assms(1) m1(2) assms(3)]
    by (auto simp: update_pipeline_gauges_def split: prod.splits)
qed

lemma f64_as_i64_pct: "0 \<le> x \<Longrightarrow> x \<le> 100 \<Longrightarrow> 0 \<le> f64_as_i64 x \<and> f64_as_i64 x \<le> 100"
proof -
  assume x: "0 \<le> x" "x \<le> (100 :: rat)"
  then have "0 \<le> \<lfloor>x\<rfloor>" "\<lfloor>x\<rfloor> \<le> 100" by (simp_all add: floor_le_iff)
  then show ?thesis using x by (simp add: f64_as_i64_def)
qed

lemma pct_le: "m \<le> n \<Longrightarrow> (of_nat m :: rat) / of_nat n * 100 \<le> 100"
  by (cases "n = 0") (simp_all add: field_simps)

text \<open>
  the percentages of a scrape are between 0 and 100: the epoch progress always, the backfill
  progress as long as no more ticks were counted than the range has.
\<close>

theorem progress_gauges_bounded:
  assumes "unat (backfill_ticks_completed p) \<le> unat (backfill_end_tick p) - unat (backfill_start_tick p)"
  shows "0 \<le> epoch_progress ranges p \<and> epoch_progress ranges p \<le> 100
    \<and> 0 \<le> backfill_progress p \<and> backfill_progress p \<le> 100"
proof -
  have nonneg: "(0 :: rat) \<le> unsigned w" for w :: u32 by (metis of_nat_0_le_iff of_nat_unat)
  then have "0 \<le> pct \<and> pct \<le> 100" if "epoch_progress_pct ranges (node_epoch p) (indexed_tick p) = Some pct" for pct
    using that by (auto simp: epoch_progress_pct_def Let_def split: option.splits if_splits)
  moreover have "unat (node_tick p mod 218000) \<le> 218000"
    by (simp add: unat_mod less_imp_le)
  then have "0 \<le> f64_as_i64 (of_nat (unat (node_tick p mod 218000)) / 218000 * 100)
      \<and> f64_as_i64 (of_nat (unat (node_tick p mod 218000)) / 218000 * 100) \<le> 100"
    using pct_le [of "unat (node_tick p mod 218000)" 218000] nonneg by (intro f64_as_i64_pct) auto
  ultimately have "0 \<le> epoch_progress ranges p \<and> epoch_progress ranges p \<le> 100"
    by (auto simp: epoch_progress_def f64_as_i64_pct split: option.split)
  moreover have "0 \<le> backfill_progress p \<and> backfill_progress p \<le> 100"
  proof -
    define m n where "m = unat (backfill_ticks_completed p)" and "n = unat (backfill_end_tick p) - unat (backfill_start_tick p)"
    have "u32_as_i64 (sat_sub (backfill_end_tick p) (backfill_start_tick p)) = int n"
      by (simp add: u32_as_i64_def unat_sat_sub n_def)
    then have "backfill_progress p = (if 0 < n then f64_as_i64 (of_nat m / of_nat n * 100) else 0)"
      by (simp only: backfill_progress_def Let_def u64_as_f64_def m_def [symmetric] of_int_of_nat_eq of_nat_0_less_iff)
    moreover have "m \<le> n" using assms by (simp only: m_def n_def)
    ultimately show ?thesis using f64_as_i64_pct [of "of_nat m / of_nat n * 100"] pct_le [of m n] by auto
  qed
  ultimately show ?thesis by blast
qed

theorem progress_gauges_bounded_witness:
  "backfill_progress ((new_pipeline 0)\<lparr>backfill_start_tick := 5, backfill_end_tick := 10,
     backfill_ticks_completed := 3\<rparr>) \<le> 100"
  using progress_gauges_bounded [of "(new_pipeline 0)\<lparr>backfill_start_tick := 5, backfill_end_tick := 10,
     backfill_ticks_completed := 3\<rparr>" "[]"] by simp

text \<open>A registry that keeps the list of its names.\<close>

definition demo_prometheus :: "string list prometheus" where
  "demo_prometheus = \<lparr>new_registry = [],
     register = (\<lambda>n r. if n \<in> set r then None else Some (r @ [n])), gather = remdups\<rparr>"

lemma demo_prometheus_ok: "prometheus_ok demo_prometheus set"
  by (auto simp: prometheus_ok_def demo_prometheus_def split: if_splits)

lemma demo_metrics_inv: "metrics_inv set statics (new_metrics demo_prometheus)"
  by (simp add: metrics_inv_def new_metrics_def demo_prometheus_def)

theorem scrape_reports_witness:
  "gauge_value (fst (snd (update_pipeline_gauges demo_prometheus 9 9 [] ((new_pipeline 0)\<lparr>node_tick := 5\<rparr>)
     (new_metrics demo_prometheus)))) TICKS_BEHIND = 5"
  using scrape_reports [OF demo_prometheus_ok demo_metrics_inv demo_metrics_inv prod.collapse [THEN sym, THEN trans [OF _ arg_cong2 [where f = Pair, OF refl prod.collapse [THEN sym]]]],
      of 9 9 "[]" "(new_pipeline 0)\<lparr>node_tick := 5\<rparr>"]
  by (simp add: gauge_updates_def behind_of_def new_pipeline_def)

end
