(* ===== verification/Server.thy ===== *)
theory Server
  imports Query Query_Metrics Streams "HOL-Library.Multiset"
begin

text \<open>
  \<^verbatim>\<open>crates/query/src/lib.rs\<close>, \<^verbatim>\<open>ws.rs\<close> and the route tables: the merged router, the dispatch of a REST
  request to its handler, and the WebSocket topics with the loop that forwards NATS messages.
\<close>

section \<open>WebSocket subscriptions\<close>

definition ws_topics :: "(string \<times> string) list" where
  "ws_topics = [
     (''/ws/tick'', ''Q.*.QONDUIT.TICK''),
     (''/ws/tx'', ''Q.*.QONDUIT.TX''),
     (''/ws/entity'', ''Q.*.QONDUIT.ENTITY''),
     (''/ws/spectrum'', ''Q.*.QONDUIT.SPECTRUM''),
     (''/ws/custom-message'', ''Q.*.QONDUIT.CUSTMSG''),
     (''/ws/contract-fn'', ''Q.*.QONDUIT.CFNR''),
     (''/ws/computors'', ''Q.*.QONDUIT.COMPUTORS''),
     (''/ws/asset'', ''Q.*.QONDUIT.ASSET''),
     (''/ws/contract'', ''Q.*.QONDUIT.CONTRACT''),
     (''/ws/tickvote'', ''Q.*.QONDUIT.TICKVOTE''),
     (''/ws/oracle'', ''Q.*.QONDUIT.ORACLE''),
     (''/ws/log'', ''Q.*.QONDUIT.LOG''),
     (''/ws/quorum'', ''Q.*.QONDUIT.QUORUM''),
     (''/ws/logdigest'', ''Q.*.QONDUIT.LOGDIGEST''),
     (''/ws/mining'', ''Q.*.QONDUIT.MINING'')]"

text \<open>
  What the loop of a connection waits for, in the order it arrives: a NATS message with whether
  the client took it, the end of the subscription, a close frame, the end of the socket, a ping,
  or anything else (also a receive error).
\<close>

datatype ws_event = NatsMessage bytes bool | NatsClosed | WsClose | WsGone | WsPing bytes | WsOther

datatype ws_frame = JsonText json | Text bytes | SubscribeError string | Pong bytes

fun ws_loop :: "ws_event list \<Rightarrow> ws_frame list" where
  "ws_loop [] = []"
| "ws_loop (NatsMessage payload taken # evs) = Text (utf8_lossy payload) # (if taken then ws_loop evs else [])"
| "ws_loop (NatsClosed # evs) = []"
| "ws_loop (WsClose # evs) = []"
| "ws_loop (WsGone # evs) = []"
| "ws_loop (WsPing d # evs) = Pong d # ws_loop evs"
| "ws_loop (WsOther # evs) = ws_loop evs"

definition handle_ws_subscription :: "unit outcome \<Rightarrow> string \<Rightarrow> string \<Rightarrow> ws_event list \<Rightarrow> ws_frame list" where
  "handle_ws_subscription subscribed msg pattern evs =
     (case subscribed of
        Ok u \<Rightarrow> JsonText (JObj [(''status'', JStr ''connected''), (''subject'', JStr pattern)]) # ws_loop evs
      | _ \<Rightarrow> [SubscribeError msg])"

section \<open>Routes\<close>

datatype endpoint =
    EpHealth | EpSystemInfo | EpCurrentTick | EpTick | EpTickTx | EpTx | EpEntity | EpSpectrum
  | EpComputors | EpComputorsEpoch | EpIssuedAssets | EpOwnedAssets | EpPossessedAssets | EpAsset
  | EpContractIpo | EpEntityTransactions | EpEntityHistory | EpActiveIpos | EpEpochs | EpEpoch
  | EpSearch | EpMetrics

definition rest_routes :: "(string \<times> endpoint) list" where
  "rest_routes = [
     (''/health'', EpHealth),
     (''/system-info'', EpSystemInfo),
     (''/v1/tick'', EpCurrentTick),
     (''/v1/tick/:tick'', EpTick),
     (''/v1/tick/:tick/tx'', EpTickTx),
     (''/v1/tx/:hash'', EpTx),
     (''/v1/entity/:id'', EpEntity),
     (''/v1/spectrum/:id'', EpSpectrum),
     (''/v1/computors'', EpComputors),
     (''/v1/computors/:epoch'', EpComputorsEpoch),
     (''/v1/issued-assets'', EpIssuedAssets),
     (''/v1/owned-assets/:id'', EpOwnedAssets),
     (''/v1/possessed-assets/:id'', EpPossessedAssets),
     (''/v1/assets/:index'', EpAsset),
     (''/v1/contract-ipo/:index'', EpContractIpo),
     (''/v1/entity/:id/transactions'', EpEntityTransactions),
     (''/v1/entity/:id/history'', EpEntityHistory),
     (''/v1/active-ipos'', EpActiveIpos),
     (''/v1/epochs'', EpEpochs),
     (''/v1/epochs/:epoch'', EpEpoch),
     (''/v1/search/:query'', EpSearch),
     (''/metrics'', EpMetrics)]"

definition rpc_routes :: "string list" where
  "rpc_routes = [''/rpc'', ''/json-rpc'']"

definition docs_routes :: "string list" where
  "docs_routes = [''/openapi.json'', ''/docs'', ''/guide'']"

definition build_router :: "string list" where
  "build_router = map fst rest_routes @ rpc_routes @ map fst ws_topics @ docs_routes"

text \<open>
  The paths a pattern stands for: as many segments, equal ones where the pattern is fixed, any
  non-empty one for a parameter.
\<close>

fun segments :: "string \<Rightarrow> string list" where
  "segments [] = [[]]"
| "segments (c # cs) =
     (if c = CHR ''/'' then [] # segments cs
      else case segments cs of s # ss \<Rightarrow> (c # s) # ss | [] \<Rightarrow> [[c]])"

fun path_fits :: "string list \<Rightarrow> string list \<Rightarrow> bool" where
  "path_fits [] [] = True"
| "path_fits (p # ps) (s # ss) =
     ((if take 1 p = '':'' then s \<noteq> [] else p = s) \<and> path_fits ps ss)"
| "path_fits _ _ = False"

section \<open>REST requests\<close>

record ('db, 'r) server =
  sv_app :: "'db app_state"
  sv_counters :: counters
  sv_metrics :: "'r metrics"
  sv_ingestion_metrics :: "'r metrics option"

record request =
  rq_now :: u64
  rq_uptime :: u64
  rq_arg :: string
  rq_history :: entity_history_params

text \<open>Most handlers only read the database and count the request.\<close>

definition on_app :: "'db query_env \<Rightarrow> 'db handler \<Rightarrow> ('db, 'r) server \<Rightarrow> response outcome \<times> ('db, 'r) server" where
  "on_app Q h sv = (case h Q (sv_app sv) (sv_counters sv) of (r, c) \<Rightarrow> (r, sv\<lparr>sv_counters := c\<rparr>))"

definition system_info_endpoint :: "'db query_env \<Rightarrow> request \<Rightarrow> ('db, 'r) server \<Rightarrow> response outcome \<times> ('db, 'r) server" where
  "system_info_endpoint Q rq sv =
     (case system_info (rq_now rq) (rq_uptime rq) Q (sv_app sv) (sv_counters sv) of
        (r, app, c) \<Rightarrow> (r, sv\<lparr>sv_app := app, sv_counters := c\<rparr>))"

text \<open>\<^verbatim>\<open>/system-info\<close> and \<^verbatim>\<open>/metrics\<close> also change the pipeline state or the gauges.\<close>

definition metrics_endpoint :: "'r prometheus \<Rightarrow> request \<Rightarrow> ('db, 'r) server \<Rightarrow> response outcome \<times> ('db, 'r) server" where
  "metrics_endpoint P rq sv =
     (let app = sv_app sv;
          (r, m, pl) = update_pipeline_gauges P (rq_now rq) (rq_uptime rq) (app_ranges app) (app_pipeline app) (sv_metrics sv);
          sv = sv\<lparr>sv_metrics := m, sv_app := app\<lparr>app_pipeline := pl\<rparr>\<rparr>
      in (bindR r (\<lambda>_. Ok \<lparr>status_code = 200,
             resp_body = MetricsText (rendered_families P m (sv_ingestion_metrics sv))\<rparr>), sv))"

fun serve_rest :: "'r prometheus \<Rightarrow> 'db query_env \<Rightarrow> endpoint \<Rightarrow> request \<Rightarrow> ('db, 'r) server
    \<Rightarrow> response outcome \<times> ('db, 'r) server" where
  "serve_rest P Q EpHealth rq = on_app Q (health (rq_uptime rq))"
| "serve_rest P Q EpSystemInfo rq = system_info_endpoint Q rq"
| "serve_rest P Q EpCurrentTick rq = on_app Q current_tick"
| "serve_rest P Q EpTick rq = on_app Q (rest_get_tick (rq_arg rq))"
| "serve_rest P Q EpTickTx rq = on_app Q (get_tick_transactions (rq_arg rq))"
| "serve_rest P Q EpTx rq = on_app Q (get_transaction (rq_arg rq))"
| "serve_rest P Q EpEntity rq = on_app Q (rest_get_entity (rq_arg rq))"
| "serve_rest P Q EpSpectrum rq = on_app Q (rest_get_spectrum_entry (rq_arg rq))"
| "serve_rest P Q EpComputors rq = on_app Q rest_get_computors"
| "serve_rest P Q EpComputorsEpoch rq = on_app Q (get_computors_epoch (rq_arg rq))"
| "serve_rest P Q EpIssuedAssets rq = on_app Q get_issued_assets"
| "serve_rest P Q EpOwnedAssets rq = on_app Q (get_owned_assets (rq_arg rq))"
| "serve_rest P Q EpPossessedAssets rq = on_app Q (get_possessed_assets (rq_arg rq))"
| "serve_rest P Q EpAsset rq = on_app Q (rest_get_asset (rq_arg rq))"
| "serve_rest P Q EpContractIpo rq = on_app Q (rest_get_contract_ipo (rq_arg rq))"
| "serve_rest P Q EpEntityTransactions rq = on_app Q (get_entity_transactions (rq_arg rq))"
| "serve_rest P Q EpEntityHistory rq = on_app Q (rest_get_entity_history (rq_arg rq) (rq_history rq))"
| "serve_rest P Q EpActiveIpos rq = on_app Q get_active_ipos"
| "serve_rest P Q EpEpochs rq = on_app Q rest_list_epochs"
| "serve_rest P Q EpEpoch rq = on_app Q (get_epoch (rq_arg rq))"
| "serve_rest P Q EpSearch rq = on_app Q (search (rq_arg rq))"
| "serve_rest P Q EpMetrics rq = metrics_endpoint P rq"

section \<open>Every request is answered\<close>

definition answered :: "response outcome \<Rightarrow> bool" where
  "answered r \<longleftrightarrow> (\<exists>resp. r = Ok resp \<and> status_code resp \<in> {200, 400, 404})"

lemma answered_simps [simp]:
  "answered (Ok (json_ok v))" "answered (Ok (json_or_404 d))" "answered (Ok (bad_request msg))" "answered (Ok not_found)"
  by (simp_all add: answered_def json_ok_def json_or_404_def bad_request_def not_found_def split: option.split)

lemma answered_identity:
  assumes "\<And>key. length key = 32 \<Longrightarrow> answered (f key)"
  shows "answered (with_identity Q ident f)"
  by (auto simp: with_identity_def intro: assms decode_base26_length split: option.split)

lemma handlers_answer:
  assumes "serves Q entries app"
  shows "answered (fst (health u Q app c))" "answered (fst (current_tick Q app c))"
    "answered (fst (rest_get_tick a Q app c))" "answered (fst (get_tick_transactions a Q app c))"
    "answered (fst (get_transaction a Q app c))" "answered (fst (rest_get_computors Q app c))"
    "answered (fst (get_computors_epoch a Q app c))" "answered (fst (get_issued_assets Q app c))"
    "answered (fst (rest_get_asset a Q app c))" "answered (fst (rest_get_contract_ipo a Q app c))"
    "answered (fst (get_active_ipos Q app c))" "answered (fst (rest_list_epochs Q app c))"
    "answered (fst (get_epoch a Q app c))"
  by (auto simp: health_def current_tick_def rest_get_tick_def get_tick_transactions_def get_transaction_def
      rest_get_computors_def get_computors_epoch_def get_issued_assets_def rest_get_asset_def
      rest_get_contract_ipo_def get_active_ipos_def rest_list_epochs_def get_epoch_def read_vals [OF assms]
      collect_stored_Ok Let_def newest_def case_prod_beta split: option.split)

lemma entity_handlers_answer:
  assumes "serves Q entries app"
  shows "answered (fst (rest_get_entity a Q app c))" "answered (fst (rest_get_spectrum_entry a Q app c))"
    "answered (fst (get_owned_assets a Q app c))" "answered (fst (get_possessed_assets a Q app c))"
    "answered (fst (get_entity_transactions a Q app c))" "answered (fst (rest_get_entity_history a hp Q app c))"
proof -
  have assets: "answered (respond Q (assets_of Q field key (app_storage app)) (\<lambda>vs. json_ok (JArr vs)))"
    if "length key = 32" for field key
    using assets_of_total [OF assms that, of field] by (auto elim!: is_okE)
  show "answered (fst (get_owned_assets a Q app c))" "answered (fst (get_possessed_assets a Q app c))"
    by (auto simp: get_owned_assets_def get_possessed_assets_def intro!: answered_identity assets)
qed (auto simp: rest_get_entity_def rest_get_spectrum_entry_def get_entity_transactions_def
    rest_get_entity_history_def read_vals [OF assms] entity_vals [OF assms] collect_stored_Ok Let_def
    intro!: answered_identity)

lemma search_answers:
  assumes "serves Q entries app"
  shows "answered (fst (search a Q app c))"
  by (auto simp: search_def search_hash_def search_names_def search_identity_def search_entities_by_prefix_def
      entity_results_def no_results_def Let_def read_vals [OF assms] prefix_results_total [OF assms] split: option.split)

text \<open>
  C17: on a serving database every REST request is answered with 200, 400 or 404, never with a
  server error or a panic, whatever its path argument and query parameters, and leaves the database
  as it was.
\<close>

theorem serve_rest_answers:
  assumes "serves Q entries (sv_app sv)" "prometheus_ok P registered"
    and "metrics_inv registered query_statics (sv_metrics sv)"
  shows "answered (fst (serve_rest P Q ep rq sv))
    \<and> app_storage (sv_app (snd (serve_rest P Q ep rq sv))) = app_storage (sv_app sv)"
proof -
  have on_app: "app_storage (sv_app (snd (on_app Q h sv))) = app_storage (sv_app sv)"
    "fst (on_app Q h sv) = fst (h Q (sv_app sv) (sv_counters sv))" for h
    by (simp_all add: on_app_def split: prod.split)
  have info: "answered (fst (system_info_endpoint Q rq sv))
    \<and> app_storage (sv_app (snd (system_info_endpoint Q rq sv))) = app_storage (sv_app sv)"
    by (simp add: system_info_endpoint_def system_info_def Let_def read_vals [OF assms(1)] split: prod.split)
  obtain m where "forS (set_gauge P) (gauge_updates (app_ranges (sv_app sv)) (app_pipeline (sv_app sv))
      (fst (status (rq_now rq) (rq_uptime rq) (app_pipeline (sv_app sv))))) (sv_metrics sv) = (Ok (), m)"
    using set_gauges [OF assms(2,3) gauge_statics] by blast
  then have "answered (fst (metrics_endpoint P rq sv))
    \<and> app_storage (sv_app (snd (metrics_endpoint P rq sv))) = app_storage (sv_app sv)"
    by (auto simp: metrics_endpoint_def update_pipeline_gauges_def Let_def answered_def split: prod.splits)
  then show ?thesis
    using info handlers_answer [OF assms(1)] entity_handlers_answer [OF assms(1)] search_answers [OF assms(1)]
    by (cases ep) (simp_all add: on_app)
qed

section \<open>The router\<close>

text \<open>Two patterns no path fits both: of different length, or with different fixed segments.\<close>

fun apart :: "string list \<Rightarrow> string list \<Rightarrow> bool" where
  "apart [] [] = False"
| "apart (p # ps) (q # qs) = ((take 1 p \<noteq> '':'' \<and> take 1 q \<noteq> '':'' \<and> p \<noteq> q) \<or> apart ps qs)"
| "apart _ _ = True"

lemma apart_fits: "apart ps qs \<Longrightarrow> path_fits ps ss \<Longrightarrow> \<not> path_fits qs ss"
proof (induction ps qs arbitrary: ss rule: apart.induct)
  case (2 p ps q qs)
  then show ?case by (cases ss) (auto split: if_splits)
qed (auto elim: path_fits.elims)

lemma router_apart: "sorted_wrt apart (map segments build_router)"
  by code_simp

text \<open>
  the four merged routers do not conflict: a path fits at most one of their patterns.
\<close>

theorem routes_unambiguous:
  assumes "i < length build_router" "j < length build_router"
    and "path_fits (segments (build_router ! i)) (segments path)" "path_fits (segments (build_router ! j)) (segments path)"
  shows "i = j"
proof (rule ccontr)
  assume "i \<noteq> j"
  then have "apart (segments (build_router ! i)) (segments (build_router ! j))
    \<or> apart (segments (build_router ! j)) (segments (build_router ! i))"
    using router_apart assms(1,2) by (auto simp: sorted_wrt_iff_nth_less neq_iff)
  then show False using assms(3,4) apart_fits by blast
qed

section \<open>Topics\<close>

lemma utf8_lossy_ascii: "list_all (\<lambda>b. b < 0x80) bs \<Longrightarrow> utf8_lossy bs = bs"
  by (induction bs) (simp_all add: utf8_step_def)

definition terminal :: "ws_event \<Rightarrow> bool" where
  "terminal ev \<longleftrightarrow> ev \<in> {NatsClosed, WsClose, WsGone}"

definition payloads :: "ws_event list \<Rightarrow> bytes list" where
  "payloads evs = List.map_filter (\<lambda>ev. case ev of NatsMessage p taken \<Rightarrow> Some p | _ \<Rightarrow> None) evs"

definition texts :: "ws_frame list \<Rightarrow> bytes list" where
  "texts fs = List.map_filter (\<lambda>f. case f of Text b \<Rightarrow> Some b | _ \<Rightarrow> None) fs"

lemma ws_loop_live:
  assumes "\<And>ev. ev \<in> set evs \<Longrightarrow> \<not> terminal ev" "\<And>p. NatsMessage p False \<notin> set evs"
  shows "ws_loop (evs @ rest) = ws_loop evs @ ws_loop rest \<and> texts (ws_loop evs) = map utf8_lossy (payloads evs)"
  using assms
proof (induction evs)
  case (Cons ev evs)
  then have "ws_loop (evs @ rest) = ws_loop evs @ ws_loop rest \<and> texts (ws_loop evs) = map utf8_lossy (payloads evs)"
    by auto
  then show ?case
    using Cons.prems by (cases ev) (auto simp: texts_def payloads_def map_filter_simps terminal_def)
qed (simp add: texts_def payloads_def map_filter_simps)



theorem routes_unambiguous_witness:
  "{i. i < length build_router \<and> path_fits (segments (build_router ! i)) (segments ''/v1/tick/17'')} = {3}"
proof -
  have "3 < length build_router" "path_fits (segments (build_router ! 3)) (segments ''/v1/tick/17'')"
    by (simp_all add: build_router_def rest_routes_def)
  then show ?thesis using routes_unambiguous [of _ 3 "''/v1/tick/17''"] by blast
qed

text \<open>A server over the demonstration database.\<close>

definition demo_query :: "batch_op list query_env" where
  "demo_query = \<lparr>q_rocks = mem_rocks, q_parse = (\<lambda>d. Some (jbytes d)), q_ext = demo_ext,
     q_display = (\<lambda>_. ''error''), q_version = ''0.1.0''\<rparr>"

definition demo_app :: "batch_op list app_state" where
  "demo_app = \<lparr>app_storage = demo_db, app_pipeline = new_pipeline 0, app_ranges = []\<rparr>"

lemma demo_serves: "serves demo_query mem_entries demo_app"
  by (simp add: serving_def demo_query_def demo_app_def mem_rocks_ok demo_db_reachable)

lemma demo_display_ok: "display_ok demo_query"
  by (simp add: display_ok_def demo_query_def error_code_def starts_with_def)

definition demo_server :: "(batch_op list, string list) server" where
  "demo_server = \<lparr>sv_app = demo_app, sv_counters = \<lparr>rpc_requests = 0, rest_requests = 0,
     rest_requests_by_route = (\<lambda>_. 0), entity_history_requests = 0\<rparr>,
     sv_metrics = new_metrics demo_prometheus, sv_ingestion_metrics = None\<rparr>"

theorem serve_rest_answers_witness:
  "answered (fst (serve_rest demo_prometheus demo_query EpMetrics
      \<lparr>rq_now = 9, rq_uptime = 9, rq_arg = [], rq_history = default_params\<rparr> demo_server))"
  using serve_rest_answers [of demo_query mem_entries demo_server demo_prometheus set EpMetrics]
    demo_serves demo_prometheus_ok demo_metrics_inv by (simp add: demo_server_def)

theorem handle_rpc_codes_witness:
  "\<exists>resp. fst (handle_rpc \<lparr>rq_jsonrpc = ''2.0'', rq_method = ''getNothing'', rq_params = None, rq_id = Some JNull\<rparr>
      demo_query demo_app (sv_counters demo_server)) = Ok resp \<and> rs_id resp = Some JNull"
  using handle_rpc_codes [OF demo_serves demo_display_ok, of "\<lparr>rq_jsonrpc = ''2.0'', rq_method = ''getNothing'', rq_params = None, rq_id = Some JNull\<rparr>"
      "sv_counters demo_server"]
  by auto


definition demo_entity_app :: "batch_op list app_state" where
  "demo_entity_app = demo_app\<lparr>app_storage := snd (warm_put_entity mem_rocks (replicate 32 5) [1] demo_db)\<rparr>"

lemma demo_entity_serves: "serves demo_query mem_entries demo_entity_app"
proof -
  have "warm_reachable mem_rocks mem_entries (snd (warm_put_entity mem_rocks (replicate 32 5) [1] demo_db))"
    by (rule warm_reachable.step [OF demo_db_reachable warm_step.put_entity]) simp
  then show ?thesis by (simp add: serving_def demo_query_def demo_entity_app_def mem_rocks_ok)
qed

lemma demo_entity_stored: "(replicate 32 5, [1]) \<in> set (mem_entries (app_storage demo_entity_app) CF_ENTITY)"
proof -
  have "map_of (mem_entries (app_storage demo_entity_app) CF_ENTITY) (replicate 32 5) = Some [1]"
    using mem_rocks_ok demo_serves
    by (simp add: demo_entity_app_def warm_put_entity_def rocks_put [OF mem_rocks_ok] map_of_put_entry
        rocks_ascending [OF mem_rocks_ok])
  then show ?thesis by (rule map_of_SomeD)
qed

theorem search_finds_entity_witness:
  "fst (search (encode_base26 demo_ext (replicate 32 5)) demo_query demo_entity_app (sv_counters demo_server))
     = Ok (entity_results [jbytes [1]])"
  using search_finds_entity [OF demo_entity_serves demo_entity_stored, of "jbytes [1]" "sv_counters demo_server" 0]
  by (simp add: demo_query_def)

end
