(* ===== verification/Api_Docs.thy ===== *)
theory Api_Docs
  imports Server
begin

text \<open>
  \<^verbatim>\<open>crates/query/src/docs.rs\<close>: the OpenAPI document the server publishes, without its prose and examples:
  the operations with their parameters, bodies and responses, the schemas, the tags, and the three
  documentation pages.  The theorems compare the document with the routes and the handlers.
\<close>

datatype verb = GET | POST

text \<open>
  A string with its length bounds and pattern, an integer with its format and minimum; \<open>SAny\<close> is a
  schema without a type.  An object allows further properties.
\<close>

datatype schema =
    SRef string
  | SString "nat option" "nat option" "string option"
  | SEnum "string list"
  | SInteger "string option" "int option"
  | SBoolean
  | SArray schema
  | SObject "(string \<times> schema) list"
  | SAny

record operation =
  op_path :: string
  op_verb :: verb
  op_id :: string
  op_tags :: "string list"
  op_params :: "(string \<times> schema) list"
  op_body :: "schema option"
  op_responses :: "(nat \<times> (string \<times> schema) option) list"

section \<open>The document\<close>

definition health_doc :: operation where
  "health_doc = \<lparr>op_path = ''/health'', op_verb = GET, op_id = ''health'', op_tags = [''system''],
     op_params = [], op_body = None,
     op_responses = [(200, Some (''application/json'', SRef ''HealthResponse''))]\<rparr>"

definition system_info_doc :: operation where
  "system_info_doc = \<lparr>op_path = ''/system-info'', op_verb = GET, op_id = ''systemInfo'', op_tags = [''system''],
     op_params = [], op_body = None,
     op_responses = [(200, Some (''application/json'', SRef ''SystemInfoResponse''))]\<rparr>"

definition current_tick_doc :: operation where
  "current_tick_doc = \<lparr>op_path = ''/v1/tick'', op_verb = GET, op_id = ''getCurrentTick'', op_tags = [''ticks''],
     op_params = [], op_body = None,
     op_responses = [(200, Some (''application/json'', SRef ''TickData'')), (404, None)]\<rparr>"

definition tick_doc :: operation where
  "tick_doc = \<lparr>op_path = ''/v1/tick/{tick}'', op_verb = GET, op_id = ''getTick'', op_tags = [''ticks''],
     op_params = [(''tick'', SInteger (Some ''uint32'') (Some 0))], op_body = None,
     op_responses = [(200, Some (''application/json'', SRef ''TickData'')), (400, None), (404, None)]\<rparr>"

definition tick_tx_doc :: operation where
  "tick_tx_doc = \<lparr>op_path = ''/v1/tick/{tick}/tx'', op_verb = GET, op_id = ''getTickTransactions'', op_tags = [''transactions''],
     op_params = [(''tick'', SInteger (Some ''uint32'') (Some 0))], op_body = None,
     op_responses = [(200, Some (''application/json'', SArray (SRef ''Transaction''))), (400, None), (404, None)]\<rparr>"

definition tx_doc :: operation where
  "tx_doc = \<lparr>op_path = ''/v1/tx/{hash}'', op_verb = GET, op_id = ''getTransaction'', op_tags = [''transactions''],
     op_params = [(''hash'', SString (Some 64) (Some 64) (Some ''^[0-9a-fA-F]{64}$''))], op_body = None,
     op_responses = [(200, Some (''application/json'', SRef ''Transaction'')), (400, None), (404, None)]\<rparr>"

definition entity_doc :: operation where
  "entity_doc = \<lparr>op_path = ''/v1/entity/{id}'', op_verb = GET, op_id = ''getEntity'', op_tags = [''entities''],
     op_params = [(''id'', SString None None None)], op_body = None,
     op_responses = [(200, Some (''application/json'', SRef ''Entity'')), (400, None), (404, None)]\<rparr>"

definition entity_transactions_doc :: operation where
  "entity_transactions_doc = \<lparr>op_path = ''/v1/entity/{id}/transactions'', op_verb = GET, op_id = ''getEntityTransactions'', op_tags = [''entities''],
     op_params = [(''id'', SString None None None)], op_body = None,
     op_responses = [(200, Some (''application/json'', SArray (SString None None None))), (400, None), (404, None)]\<rparr>"

definition computors_doc :: operation where
  "computors_doc = \<lparr>op_path = ''/v1/computors'', op_verb = GET, op_id = ''getComputors'', op_tags = [''computors''],
     op_params = [], op_body = None,
     op_responses = [(200, Some (''application/json'', SRef ''Computors'')), (404, None)]\<rparr>"

definition computors_epoch_doc :: operation where
  "computors_epoch_doc = \<lparr>op_path = ''/v1/computors/{epoch}'', op_verb = GET, op_id = ''getComputorsByEpoch'', op_tags = [''computors''],
     op_params = [(''epoch'', SInteger (Some ''uint16'') (Some 0))], op_body = None,
     op_responses = [(200, Some (''application/json'', SRef ''Computors'')), (404, None)]\<rparr>"

definition issued_assets_doc :: operation where
  "issued_assets_doc = \<lparr>op_path = ''/v1/issued-assets'', op_verb = GET, op_id = ''getIssuedAssets'', op_tags = [''assets''],
     op_params = [], op_body = None,
     op_responses = [(200, Some (''application/json'', SArray (SRef ''Asset'')))]\<rparr>"

definition asset_doc :: operation where
  "asset_doc = \<lparr>op_path = ''/v1/assets/{index}'', op_verb = GET, op_id = ''getAsset'', op_tags = [''assets''],
     op_params = [(''index'', SInteger None (Some 0))], op_body = None,
     op_responses = [(200, Some (''application/json'', SRef ''Asset'')), (400, None), (404, None)]\<rparr>"

definition owned_assets_doc :: operation where
  "owned_assets_doc = \<lparr>op_path = ''/v1/owned-assets/{id}'', op_verb = GET, op_id = ''getOwnedAssets'', op_tags = [''assets''],
     op_params = [(''id'', SString None None None)], op_body = None,
     op_responses = [(200, Some (''application/json'', SArray (SRef ''Asset''))), (400, None)]\<rparr>"

definition possessed_assets_doc :: operation where
  "possessed_assets_doc = \<lparr>op_path = ''/v1/possessed-assets/{id}'', op_verb = GET, op_id = ''getPossessedAssets'', op_tags = [''assets''],
     op_params = [(''id'', SString None None None)], op_body = None,
     op_responses = [(200, Some (''application/json'', SArray (SRef ''Asset''))), (400, None)]\<rparr>"

definition contract_ipo_doc :: operation where
  "contract_ipo_doc = \<lparr>op_path = ''/v1/contract-ipo/{index}'', op_verb = GET, op_id = ''getContractIpo'', op_tags = [''contracts''],
     op_params = [(''index'', SInteger None (Some 0))], op_body = None,
     op_responses = [(200, Some (''application/json'', SRef ''ContractIpo'')), (400, None), (404, None)]\<rparr>"

definition active_ipos_doc :: operation where
  "active_ipos_doc = \<lparr>op_path = ''/v1/active-ipos'', op_verb = GET, op_id = ''getActiveIpos'', op_tags = [''contracts''],
     op_params = [], op_body = None,
     op_responses = [(200, Some (''application/json'', SArray (SRef ''ContractIpo'')))]\<rparr>"

definition search_doc :: operation where
  "search_doc = \<lparr>op_path = ''/v1/search/{query}'', op_verb = GET, op_id = ''search'', op_tags = [''search''],
     op_params = [(''query'', SString (Some 1) None None)], op_body = None,
     op_responses = [(200, Some (''application/json'', SObject [])), (400, None)]\<rparr>"

definition spectrum_doc :: operation where
  "spectrum_doc = \<lparr>op_path = ''/v1/spectrum/{id}'', op_verb = GET, op_id = ''getSpectrumEntry'', op_tags = [''entities''],
     op_params = [(''id'', SString None None None)], op_body = None,
     op_responses = [(200, Some (''application/json'', SObject [])), (400, None), (404, None)]\<rparr>"

definition rpc_doc :: operation where
  "rpc_doc = \<lparr>op_path = ''/rpc'', op_verb = POST, op_id = ''jsonRpc'', op_tags = [''rpc''],
     op_params = [], op_body = Some (SRef ''JsonRpcRequest''),
     op_responses = [(200, Some (''application/json'', SRef ''JsonRpcResponse'')), (400, None), (500, None)]\<rparr>"

definition metrics_doc :: operation where
  "metrics_doc = \<lparr>op_path = ''/metrics'', op_verb = GET, op_id = ''getMetrics'', op_tags = [''system''],
     op_params = [], op_body = None,
     op_responses = [(200, Some (''text/plain'', SString None None None))]\<rparr>"

definition openapi_operations :: "operation list" where
  "openapi_operations = [
     health_doc, system_info_doc, current_tick_doc, tick_doc, tick_tx_doc,
     tx_doc, entity_doc, entity_transactions_doc, computors_doc, computors_epoch_doc,
     issued_assets_doc, asset_doc, owned_assets_doc, possessed_assets_doc, contract_ipo_doc,
     active_ipos_doc, search_doc, spectrum_doc, rpc_doc, metrics_doc]"

abbreviation (input) plain_string :: schema where "plain_string \<equiv> SString None None None"
abbreviation (input) plain_integer :: schema where "plain_integer \<equiv> SInteger None None"

definition openapi_schemas :: "(string \<times> schema) list" where
  "openapi_schemas = [
     (''HealthResponse'', SObject [(''status'', plain_string), (''version'', plain_string),
        (''uptime_seconds'', plain_integer)]),
     (''SystemInfoResponse'', SObject [
        (''pipeline_status'', SEnum [''live'', ''catching_up'', ''disconnected'', ''query_only'']),
        (''ingestion_connected'', SBoolean),
        (''node_tick'', SInteger (Some ''uint32'') None), (''node_epoch'', SInteger (Some ''uint16'') None),
        (''indexed_tick'', SInteger (Some ''uint32'') None), (''indexed_epoch'', SInteger (Some ''uint16'') None),
        (''ticks_behind'', plain_integer), (''ticks_indexed'', plain_integer), (''txs_indexed'', plain_integer),
        (''entities_indexed'', plain_integer), (''uptime_seconds'', plain_integer), (''version'', plain_string)]),
     (''TickData'', SObject []),
     (''Transaction'', SObject [(''hash'', plain_string), (''source_hex'', plain_string),
        (''source_identity'', plain_string), (''destination_hex'', plain_string),
        (''destination_identity'', plain_string), (''amount'', plain_integer),
        (''tick'', SInteger (Some ''uint32'') None), (''input_type'', plain_integer), (''input_size'', plain_integer)]),
     (''Entity'', SObject [(''identity'', plain_string), (''incoming'', plain_integer), (''outgoing'', plain_integer)]),
     (''Computors'', SObject [(''epoch'', SInteger (Some ''uint16'') None), (''public_keys'', SArray plain_string)]),
     (''Asset'', SObject []),
     (''ContractIpo'', SObject []),
     (''JsonRpcRequest'', SObject [(''jsonrpc'', plain_string), (''method'', plain_string), (''params'', SAny), (''id'', SAny)]),
     (''JsonRpcResponse'', SObject [(''jsonrpc'', plain_string), (''result'', SAny),
        (''error'', SObject [(''code'', plain_integer), (''message'', plain_string), (''data'', SAny)]), (''id'', SAny)])]"

definition openapi_tags :: "string list" where
  "openapi_tags = [''system'', ''ticks'', ''transactions'', ''entities'', ''computors'', ''assets'', ''contracts'',
     ''search'', ''rpc'']"

section \<open>Reading the document\<close>

text \<open>The route of a documented path: \<^verbatim>\<open>{name}\<close> is written \<^verbatim>\<open>:name\<close> by the router.\<close>

fun route_of :: "string \<Rightarrow> string" where
  "route_of [] = []"
| "route_of (c # cs) = (if c = CHR ''{'' then CHR '':'' # route_of cs
     else if c = CHR ''}'' then route_of cs else c # route_of cs)"

definition path_params :: "string \<Rightarrow> string list" where
  "path_params path = map (drop 1) (filter (\<lambda>s. take 1 s = '':'') (segments (route_of path)))"

fun schema_refs :: "schema \<Rightarrow> string list" where
  "schema_refs (SRef r) = [r]"
| "schema_refs (SArray s) = schema_refs s"
| "schema_refs (SObject ps) = concat (map (\<lambda>p. schema_refs (snd p)) ps)"
| "schema_refs s = []"

definition op_refs :: "operation \<Rightarrow> string list" where
  "op_refs op = concat (map (\<lambda>p. schema_refs (snd p)) (op_params op))
     @ (case op_body op of None \<Rightarrow> [] | Some s \<Rightarrow> schema_refs s)
     @ concat (map (\<lambda>r. case snd r of None \<Rightarrow> [] | Some (ct, s) \<Rightarrow> schema_refs s) (op_responses op))"

definition deref :: "schema \<Rightarrow> schema" where
  "deref s = (case s of SRef r \<Rightarrow> (case map_of openapi_schemas r of Some t \<Rightarrow> t | None \<Rightarrow> s) | _ \<Rightarrow> s)"

text \<open>
  Whether a value has the type a schema gives it.  A property may be absent; the elements of the
  arrays the server returns are stored documents, which are not inspected.
\<close>

fun conforms :: "schema \<Rightarrow> json \<Rightarrow> bool" where
  "conforms (SRef r) v = False"
| "conforms (SString lo hi pat) v = (case v of JStr s \<Rightarrow>
     (case lo of None \<Rightarrow> True | Some n \<Rightarrow> n \<le> length s) \<and> (case hi of None \<Rightarrow> True | Some n \<Rightarrow> length s \<le> n) | _ \<Rightarrow> False)"
| "conforms (SEnum vs) v = (case v of JStr s \<Rightarrow> s \<in> set vs | _ \<Rightarrow> False)"
| "conforms (SInteger fmt lo) v = (case v of JInt i \<Rightarrow>
     (case lo of None \<Rightarrow> True | Some n \<Rightarrow> n \<le> i)
     \<and> (fmt = Some ''uint32'' \<longrightarrow> 0 \<le> i \<and> i < 2 ^ 32) \<and> (fmt = Some ''uint16'' \<longrightarrow> 0 \<le> i \<and> i < 2 ^ 16) | _ \<Rightarrow> False)"
| "conforms SBoolean v = (case v of JBool b \<Rightarrow> True | _ \<Rightarrow> False)"
| "conforms (SArray s) v = (case v of JArr vs \<Rightarrow> True | _ \<Rightarrow> False)"
| "conforms (SObject ps) v = (case v of JObj kvs \<Rightarrow>
     list_all (\<lambda>p. case map_of kvs (fst p) of None \<Rightarrow> True | Some x \<Rightarrow> conforms (snd p) x) ps | _ \<Rightarrow> False)"
| "conforms SAny v = True"

lemmas operation_docs = health_doc_def system_info_doc_def current_tick_doc_def tick_doc_def tick_tx_doc_def
  tx_doc_def entity_doc_def entity_transactions_doc_def computors_doc_def computors_epoch_doc_def
  issued_assets_doc_def asset_doc_def owned_assets_doc_def possessed_assets_doc_def contract_ipo_doc_def
  active_ipos_doc_def search_doc_def spectrum_doc_def rpc_doc_def metrics_doc_def

text \<open>
  The document is consistent with the router: every documented operation is routed, its
  parameters are those of its path, its references and tags resolve, no operation id is used
  twice, and the only REST routes left out are the entity history and the epoch statistics.
\<close>

theorem openapi_consistent:
  "list_all (\<lambda>op. List.member build_router (route_of (op_path op)) \<and> map fst (op_params op) = path_params (op_path op)
       \<and> list_all (List.member (map fst openapi_schemas)) (op_refs op)
       \<and> list_all (List.member openapi_tags) (op_tags op)) openapi_operations
   \<and> distinct (map op_id openapi_operations)
   \<and> filter (\<lambda>r. \<not> List.member (map (\<lambda>op. route_of (op_path op)) openapi_operations) r) (map fst rest_routes)
       = [''/v1/entity/:id/history'', ''/v1/epochs'', ''/v1/epochs/:epoch'']"
  by code_simp

section \<open>What the handlers return\<close>

definition answers :: "nat set \<Rightarrow> schema \<Rightarrow> response outcome \<Rightarrow> bool" where
  "answers codes sch r \<longleftrightarrow> (\<exists>resp. r = Ok resp \<and> status_code resp \<in> codes
     \<and> (\<forall>v. resp_body resp = JsonBody v \<and> status_code resp = 200 \<longrightarrow> conforms (deref sch) v))"

lemma answers_simps [simp]:
  "answers codes sch (Ok (json_ok v)) \<longleftrightarrow> 200 \<in> codes \<and> conforms (deref sch) v"
  "answers codes sch (Ok (json_or_404 None)) \<longleftrightarrow> 404 \<in> codes"
  "answers codes sch (Ok (json_or_404 (Some d))) \<longleftrightarrow> 200 \<in> codes"
  "answers codes sch (Ok (bad_request msg)) \<longleftrightarrow> 400 \<in> codes" "answers codes sch (Ok not_found) \<longleftrightarrow> 404 \<in> codes"
  by (simp_all add: answers_def json_ok_def json_or_404_def bad_request_def not_found_def)

lemma answers_identity:
  assumes "400 \<in> codes" "\<And>key. length key = 32 \<Longrightarrow> answers codes sch (f key)"
  shows "answers codes sch (with_identity Q ident f)"
  using assms(1) by (auto simp: with_identity_def intro: assms(2) decode_base26_length split: option.split)

lemma answers_json_or_404: "200 \<in> codes \<Longrightarrow> 404 \<in> codes \<Longrightarrow> answers codes sch (Ok (json_or_404 d))"
  by (cases d) simp_all

lemma uint_bounds: "uint (w :: u32) < 4294967296" "uint (v :: u16) < 65536"
  using uint_lt2p [of w] uint_lt2p [of v] by simp_all

lemma system_info_conforms:
  "conforms (deref (SRef ''SystemInfoResponse''))
     (obj_insert ''totalIndexedEpochs'' n (obj_insert ''version'' (JStr v) (status_json (fst (status now uptime p)))))"
proof -
  have "ps_pipeline_status (fst (status now uptime p)) \<in> {''live'', ''catching_up'', ''disconnected'', ''query_only''}"
    by (simp add: status_def Let_def)
  then show ?thesis
    by (auto simp: deref_def openapi_schemas_def status_json_def obj_insert_def jword_def uint_bounds)
qed

text \<open>The status codes an endpoint answers with on a readable database and the type of its JSON body.\<close>

fun returned :: "endpoint \<Rightarrow> nat list \<times> schema" where
  "returned EpHealth = ([200], SRef ''HealthResponse'')"
| "returned EpSystemInfo = ([200], SRef ''SystemInfoResponse'')"
| "returned EpCurrentTick = ([200, 404], SRef ''TickData'')"
| "returned EpTick = ([200, 400, 404], SRef ''TickData'')"
| "returned EpTickTx = ([200, 400], SArray (SRef ''Transaction''))"
| "returned EpTx = ([200, 400, 404], SRef ''Transaction'')"
| "returned EpEntity = ([200, 400, 404], SRef ''Entity'')"
| "returned EpSpectrum = ([200, 400, 404], SObject [])"
| "returned EpComputors = ([200, 404], SRef ''Computors'')"
| "returned EpComputorsEpoch = ([200, 400, 404], SRef ''Computors'')"
| "returned EpIssuedAssets = ([200], SArray (SRef ''Asset''))"
| "returned EpOwnedAssets = ([200, 400], SArray (SRef ''Asset''))"
| "returned EpPossessedAssets = ([200, 400], SArray (SRef ''Asset''))"
| "returned EpAsset = ([200, 400, 404], SRef ''Asset'')"
| "returned EpContractIpo = ([200, 400, 404], SRef ''ContractIpo'')"
| "returned EpEntityTransactions = ([200, 400], SArray (SString None None None))"
| "returned EpEntityHistory = ([200, 400], SObject [])"
| "returned EpActiveIpos = ([200], SArray (SRef ''ContractIpo''))"
| "returned EpEpochs = ([200], SArray SAny)"
| "returned EpEpoch = ([200, 400, 404], SAny)"
| "returned EpSearch = ([200, 400, 404], SObject [])"
| "returned EpMetrics = ([200], SString None None None)"

lemma deref_simps [simp]: "deref (SArray t) = SArray t" "deref (SObject ps) = SObject ps" "deref SAny = SAny"
  by (simp_all add: deref_def)

lemma handlers_return:
  assumes "serves Q entries app"
  shows "answers {200} (SRef ''HealthResponse'') (fst (health u Q app c))"
    "answers {200, 404} sch (fst (current_tick Q app c))"
    "answers {200, 400, 404} sch (fst (rest_get_tick a Q app c))"
    "answers {200, 400} (SArray sch) (fst (get_tick_transactions a Q app c))"
    "answers {200, 400, 404} sch (fst (get_transaction a Q app c))"
    "answers {200, 404} sch (fst (rest_get_computors Q app c))"
    "answers {200, 400, 404} sch (fst (get_computors_epoch a Q app c))"
    "answers {200} (SArray sch) (fst (get_issued_assets Q app c))"
    "answers {200, 400, 404} sch (fst (rest_get_asset a Q app c))"
    "answers {200, 400, 404} sch (fst (rest_get_contract_ipo a Q app c))"
    "answers {200} (SArray sch) (fst (get_active_ipos Q app c))"
    "answers {200} (SArray sch) (fst (rest_list_epochs Q app c))"
    "answers {200, 400, 404} sch (fst (get_epoch a Q app c))"
  by (auto simp: health_def current_tick_def rest_get_tick_def get_tick_transactions_def get_transaction_def
      rest_get_computors_def get_computors_epoch_def get_issued_assets_def rest_get_asset_def
      rest_get_contract_ipo_def get_active_ipos_def rest_list_epochs_def get_epoch_def read_vals [OF assms]
      collect_stored_Ok Let_def newest_def case_prod_beta jword_def deref_def [of "SRef s" for s] openapi_schemas_def
      intro!: answers_json_or_404 split: option.split)

lemma entity_handlers_return:
  assumes "serves Q entries app"
  shows "answers {200, 400, 404} sch (fst (rest_get_entity a Q app c))"
    "answers {200, 400, 404} sch (fst (rest_get_spectrum_entry a Q app c))"
    "answers {200, 400} (SArray sch) (fst (get_owned_assets a Q app c))"
    "answers {200, 400} (SArray sch) (fst (get_possessed_assets a Q app c))"
    "answers {200, 400} (SArray sch) (fst (get_entity_transactions a Q app c))"
    "answers {200, 400} (SObject []) (fst (rest_get_entity_history a hp Q app c))"
proof -
  have assets: "answers {200, 400} (SArray sch) (respond Q (assets_of Q field key (app_storage app)) (\<lambda>vs. json_ok (JArr vs)))"
    if "length key = 32" for field key
    using assets_of_total [OF assms that, of field] by (auto elim!: is_okE)
  show "answers {200, 400} (SArray sch) (fst (get_owned_assets a Q app c))"
    "answers {200, 400} (SArray sch) (fst (get_possessed_assets a Q app c))"
    by (auto simp: get_owned_assets_def get_possessed_assets_def intro!: answers_identity assets)
qed (auto simp: rest_get_entity_def rest_get_spectrum_entry_def get_entity_transactions_def
    rest_get_entity_history_def read_vals [OF assms] entity_vals [OF assms] collect_stored_Ok Let_def history_json_def
    intro!: answers_identity answers_json_or_404)

lemma search_returns:
  assumes "serves Q entries app"
  shows "answers {200, 400, 404} (SObject []) (fst (search a Q app c))"
  by (auto simp: search_def search_hash_def search_names_def search_identity_def search_entities_by_prefix_def
      entity_results_def no_results_def Let_def read_vals [OF assms] prefix_results_total [OF assms]
      intro!: answers_json_or_404 split: option.split)

lemma serve_rest_returns:
  assumes "serves Q entries (sv_app sv)" "prometheus_ok P registered"
    and "metrics_inv registered query_statics (sv_metrics sv)"
  shows "answers (set (fst (returned ep))) (snd (returned ep)) (fst (serve_rest P Q ep rq sv))"
proof -
  have on_app: "fst (on_app Q h sv) = fst (h Q (sv_app sv) (sv_counters sv))" for h
    by (simp add: on_app_def split: prod.split)
  obtain st pl where st: "status (rq_now rq) (rq_uptime rq) (app_pipeline (sv_app sv)) = (st, pl)" by fastforce
  have "answers {200} (SRef ''SystemInfoResponse'') (fst (system_info_endpoint Q rq sv))"
    using system_info_conforms [of _ "q_version Q" "rq_now rq" "rq_uptime rq" "app_pipeline (sv_app sv)"] st
    by (simp add: system_info_endpoint_def system_info_def Let_def read_vals [OF assms(1)])
  moreover obtain m where "forS (set_gauge P) (gauge_updates (app_ranges (sv_app sv)) (app_pipeline (sv_app sv))
      (fst (status (rq_now rq) (rq_uptime rq) (app_pipeline (sv_app sv))))) (sv_metrics sv) = (Ok (), m)"
    using set_gauges [OF assms(2,3) gauge_statics] by blast
  then have "answers {200} (SString None None None) (fst (metrics_endpoint P rq sv))"
    by (auto simp: metrics_endpoint_def update_pipeline_gauges_def Let_def answers_def split: prod.splits)
  ultimately show ?thesis
    using handlers_return [OF assms(1)] entity_handlers_return [OF assms(1)] search_returns [OF assms(1)]
    by (cases ep) (simp_all add: on_app)
qed

text \<open>The table agrees with the document but for two codes.\<close>

definition undocumented :: "(endpoint \<times> nat) list" where
  "undocumented = [(EpComputorsEpoch, 400), (EpSearch, 404)]"

definition documented :: "operation \<Rightarrow> endpoint \<Rightarrow> bool" where
  "documented op ep \<longleftrightarrow>
     list_all (\<lambda>code. map_of (op_responses op) code \<noteq> None \<or> List.member undocumented (ep, code)) (fst (returned ep))
     \<and> (case map_of (op_responses op) 200 of Some (Some (ct, sch)) \<Rightarrow> sch = snd (returned ep) | _ \<Rightarrow> False)"

lemma all_documented:
  "list_all (\<lambda>op. list_all (\<lambda>(r, ep). r = route_of (op_path op) \<longrightarrow> documented op ep) rest_routes) openapi_operations"
  by code_simp



text \<open>The two exceptions occur.\<close>

lemma undocumented_answers:
  "rq_arg rq = ''x'' \<Longrightarrow> fst (serve_rest P Q EpComputorsEpoch rq sv)
     = Ok (bad_request ''Invalid epoch: must be a valid u16'')"
  "map_of (op_responses computors_epoch_doc) 400 = None" "map_of (op_responses search_doc) 404 = None"
  by (simp_all add: on_app_def get_computors_epoch_def parse_u16_def parse_unsigned_def Let_def is_ascii_digit_def
      less_eq_char_def computors_epoch_doc_def search_doc_def split: prod.split)

end
