(* ===== verification/Core_Types.thy ===== *)
theory Core_Types
  imports Json Streams Peers
begin

text \<open>
  What \<^verbatim>\<open>crates/core\<close> defines beside the records of theory \<open>Structs\<close>: the protocol constants, the names
  of the NATS subjects and streams, the error type with its messages, and the structures for assets,
  the spectrum, transaction headers and the state of a Bob node.  The lemmas relate them to the code
  that uses the same facts: the decoders, the stream table and the log parser.
\<close>

section \<open>Constants\<close>

definition MAX_INPUT_SIZE :: usize where "MAX_INPUT_SIZE = 1024"
definition MAX_NUMBER_OF_CONTRACTS :: usize where "MAX_NUMBER_OF_CONTRACTS = 1024"
definition LEGACY_NUMBER_OF_TRANSACTIONS_PER_TICK :: usize where "LEGACY_NUMBER_OF_TRANSACTIONS_PER_TICK = 1024"
definition EPOCH_FIRST_4096_TX_PER_TICK :: u16 where "EPOCH_FIRST_4096_TX_PER_TICK = 214"
definition SPECTRUM_DEPTH :: u32 where "SPECTRUM_DEPTH = 24"
definition SPECTRUM_CAPACITY :: u64 where "SPECTRUM_CAPACITY = push_bit (unat SPECTRUM_DEPTH) 1"
definition ASSETS_DEPTH :: u32 where "ASSETS_DEPTH = 24"
definition ASSETS_CAPACITY :: u64 where "ASSETS_CAPACITY = push_bit (unat ASSETS_DEPTH) 1"
definition ISSUANCE_RATE :: i64 where "ISSUANCE_RATE = 1000000000000"
definition MAX_AMOUNT :: i64 where "MAX_AMOUNT = ISSUANCE_RATE * 1000"
definition MAX_SUPPLY :: u64 where "MAX_SUPPLY = word_of_int ISSUANCE_RATE * 200"
definition TARGET_TICK_DURATION_MS :: u32 where "TARGET_TICK_DURATION_MS = 1000"
definition TARGET_TICK_VOTE_SIGNATURE :: u32 where "TARGET_TICK_VOTE_SIGNATURE = 0x00095CBE"
definition DEFAULT_PORT :: u16 where "DEFAULT_PORT = 21841"
definition core_BOB_PORT :: u16 where "core_BOB_PORT = 21842"
definition SEED_LENGTH :: usize where "SEED_LENGTH = 55"
definition TX_HASH_LENGTH :: usize where "TX_HASH_LENGTH = 60"
definition HEADER_SIZE :: usize where "HEADER_SIZE = 8"
definition MAX_MESSAGE_SIZE :: u32 where "MAX_MESSAGE_SIZE = 0x00FFFFFF"

definition SC_INITIALIZE_TX :: usize where "SC_INITIALIZE_TX = NUMBER_OF_TRANSACTIONS_PER_TICK"
definition SC_BEGIN_EPOCH_TX :: usize where "SC_BEGIN_EPOCH_TX = NUMBER_OF_TRANSACTIONS_PER_TICK + 1"
definition SC_BEGIN_TICK_TX :: usize where "SC_BEGIN_TICK_TX = NUMBER_OF_TRANSACTIONS_PER_TICK + 2"
definition SC_END_TICK_TX :: usize where "SC_END_TICK_TX = NUMBER_OF_TRANSACTIONS_PER_TICK + 3"
definition SC_END_EPOCH_TX :: usize where "SC_END_EPOCH_TX = NUMBER_OF_TRANSACTIONS_PER_TICK + 4"
definition SC_NOTIFICATION_TX :: usize where "SC_NOTIFICATION_TX = NUMBER_OF_TRANSACTIONS_PER_TICK + 5"

definition LOG_QU_TRANSFER :: u8 where "LOG_QU_TRANSFER = 0"
definition LOG_ASSET_ISSUANCE :: u8 where "LOG_ASSET_ISSUANCE = 1"
definition LOG_ASSET_OWNERSHIP_CHANGE :: u8 where "LOG_ASSET_OWNERSHIP_CHANGE = 2"
definition LOG_ASSET_POSSESSION_CHANGE :: u8 where "LOG_ASSET_POSSESSION_CHANGE = 3"
definition LOG_CONTRACT_ERROR_MESSAGE :: u8 where "LOG_CONTRACT_ERROR_MESSAGE = 4"
definition LOG_CONTRACT_WARNING_MESSAGE :: u8 where "LOG_CONTRACT_WARNING_MESSAGE = 5"
definition LOG_CONTRACT_INFORMATION_MESSAGE :: u8 where "LOG_CONTRACT_INFORMATION_MESSAGE = 6"
definition LOG_CONTRACT_DEBUG_MESSAGE :: u8 where "LOG_CONTRACT_DEBUG_MESSAGE = 7"
definition LOG_BURNING :: u8 where "LOG_BURNING = 8"
definition LOG_DUST_BURNING :: u8 where "LOG_DUST_BURNING = 9"
definition LOG_SPECTRUM_STATS :: u8 where "LOG_SPECTRUM_STATS = 10"
definition LOG_ASSET_OWNERSHIP_MANAGING_CONTRACT_CHANGE :: u8 where
  "LOG_ASSET_OWNERSHIP_MANAGING_CONTRACT_CHANGE = 11"
definition LOG_ASSET_POSSESSION_MANAGING_CONTRACT_CHANGE :: u8 where
  "LOG_ASSET_POSSESSION_MANAGING_CONTRACT_CHANGE = 12"
definition LOG_CONTRACT_RESERVE_DEDUCTION :: u8 where "LOG_CONTRACT_RESERVE_DEDUCTION = 13"
definition LOG_ORACLE_QUERY_STATUS_CHANGE :: u8 where "LOG_ORACLE_QUERY_STATUS_CHANGE = 14"
definition LOG_ORACLE_SUBSCRIBER_MESSAGE :: u8 where "LOG_ORACLE_SUBSCRIBER_MESSAGE = 15"
definition LOG_CUSTOM_MESSAGE :: u8 where "LOG_CUSTOM_MESSAGE = 255"

lemmas log_types = LOG_QU_TRANSFER_def LOG_ASSET_ISSUANCE_def LOG_ASSET_OWNERSHIP_CHANGE_def
  LOG_ASSET_POSSESSION_CHANGE_def LOG_CONTRACT_ERROR_MESSAGE_def LOG_CONTRACT_WARNING_MESSAGE_def
  LOG_CONTRACT_INFORMATION_MESSAGE_def LOG_CONTRACT_DEBUG_MESSAGE_def LOG_BURNING_def LOG_DUST_BURNING_def
  LOG_SPECTRUM_STATS_def LOG_ASSET_OWNERSHIP_MANAGING_CONTRACT_CHANGE_def
  LOG_ASSET_POSSESSION_MANAGING_CONTRACT_CHANGE_def LOG_CONTRACT_RESERVE_DEDUCTION_def
  LOG_ORACLE_QUERY_STATUS_CHANGE_def LOG_ORACLE_SUBSCRIBER_MESSAGE_def LOG_CUSTOM_MESSAGE_def

definition ASSET_TYPE_EMPTY :: u8 where "ASSET_TYPE_EMPTY = 0"
definition ASSET_TYPE_ISSUANCE :: u8 where "ASSET_TYPE_ISSUANCE = 1"
definition ASSET_TYPE_OWNERSHIP :: u8 where "ASSET_TYPE_OWNERSHIP = 2"
definition ASSET_TYPE_POSSESSION :: u8 where "ASSET_TYPE_POSSESSION = 3"

definition ORACLE_QUERY_TYPE_CONTRACT_QUERY :: u8 where "ORACLE_QUERY_TYPE_CONTRACT_QUERY = 0"
definition ORACLE_QUERY_TYPE_CONTRACT_SUBSCRIPTION :: u8 where "ORACLE_QUERY_TYPE_CONTRACT_SUBSCRIPTION = 1"
definition ORACLE_QUERY_TYPE_USER_QUERY :: u8 where "ORACLE_QUERY_TYPE_USER_QUERY = 2"
definition ORACLE_QUERY_STATUS_UNKNOWN :: u8 where "ORACLE_QUERY_STATUS_UNKNOWN = 0"
definition ORACLE_QUERY_STATUS_PENDING :: u8 where "ORACLE_QUERY_STATUS_PENDING = 1"
definition ORACLE_QUERY_STATUS_COMMITTED :: u8 where "ORACLE_QUERY_STATUS_COMMITTED = 2"
definition ORACLE_QUERY_STATUS_SUCCESS :: u8 where "ORACLE_QUERY_STATUS_SUCCESS = 3"
definition ORACLE_QUERY_STATUS_TIMEOUT :: u8 where "ORACLE_QUERY_STATUS_TIMEOUT = 4"
definition ORACLE_QUERY_STATUS_UNRESOLVABLE :: u8 where "ORACLE_QUERY_STATUS_UNRESOLVABLE = 5"

definition CUSTOM_MESSAGE_OP_START_DISTRIBUTE_DIVIDENDS :: u64 where
  "CUSTOM_MESSAGE_OP_START_DISTRIBUTE_DIVIDENDS = 6217575821008262227"
definition CUSTOM_MESSAGE_OP_END_DISTRIBUTE_DIVIDENDS :: u64 where
  "CUSTOM_MESSAGE_OP_END_DISTRIBUTE_DIVIDENDS = 6217575821008457285"
definition CUSTOM_MESSAGE_OP_START_EPOCH :: u64 where "CUSTOM_MESSAGE_OP_START_EPOCH = 4850183582582395987"
definition CUSTOM_MESSAGE_OP_END_EPOCH :: u64 where "CUSTOM_MESSAGE_OP_END_EPOCH = 4850183582582591045"

text \<open>The operation codes of custom messages are the eight characters their comments give, least significant first.\<close>

definition op_code :: "string \<Rightarrow> u64" where
  "op_code tag = u64_from_le (map (word_of_nat \<circ> of_char) tag)"

lemma custom_message_ops:
  "CUSTOM_MESSAGE_OP_START_DISTRIBUTE_DIVIDENDS = op_code ''STA_DDIV''"
  "CUSTOM_MESSAGE_OP_END_DISTRIBUTE_DIVIDENDS = op_code ''END_DDIV''"
  "CUSTOM_MESSAGE_OP_START_EPOCH = op_code ''STA_EPOC''"
  "CUSTOM_MESSAGE_OP_END_EPOCH = op_code ''END_EPOC''"
  by (simp_all add: CUSTOM_MESSAGE_OP_START_DISTRIBUTE_DIVIDENDS_def CUSTOM_MESSAGE_OP_END_DISTRIBUTE_DIVIDENDS_def
      CUSTOM_MESSAGE_OP_START_EPOCH_def CUSTOM_MESSAGE_OP_END_EPOCH_def op_code_def u64_from_le_def)

text \<open>The pseudo transactions take exactly the log slots that follow the transactions of a tick.\<close>

lemma special_slots:
  "[SC_INITIALIZE_TX, SC_BEGIN_EPOCH_TX, SC_BEGIN_TICK_TX, SC_END_TICK_TX, SC_END_EPOCH_TX, SC_NOTIFICATION_TX]
   = [NUMBER_OF_TRANSACTIONS_PER_TICK..<LOG_TX_PER_TICK]"
  by (simp add: SC_INITIALIZE_TX_def SC_BEGIN_EPOCH_TX_def SC_BEGIN_TICK_TX_def SC_END_TICK_TX_def SC_END_EPOCH_TX_def
      SC_NOTIFICATION_TX_def NUMBER_OF_TRANSACTIONS_PER_TICK_def LOG_TX_PER_TICK_def NUMBER_OF_SPECIAL_EVENT_PER_TICK_def
      upt_rec)

text \<open>The ports are those of the peer manager.\<close>

lemma ports_agree: "DEFAULT_PORT = QUBIC_PORT" "core_BOB_PORT = BOB_PORT"
  by (simp_all add: DEFAULT_PORT_def QUBIC_PORT_def core_BOB_PORT_def BOB_PORT_def)

text \<open>The amounts: the supply is below the largest transfer, both fit their types, and nothing wraps.\<close>

lemma amounts:
  "unat MAX_SUPPLY = 200 * nat ISSUANCE_RATE" "0 < MAX_AMOUNT \<and> MAX_AMOUNT < 2 ^ 63" "int (unat MAX_SUPPLY) < MAX_AMOUNT"
  "unat SPECTRUM_CAPACITY = 2 ^ 24" "unat ASSETS_CAPACITY = 2 ^ 24"
  by (simp_all add: MAX_SUPPLY_def MAX_AMOUNT_def ISSUANCE_RATE_def SPECTRUM_CAPACITY_def SPECTRUM_DEPTH_def
      ASSETS_CAPACITY_def ASSETS_DEPTH_def)

section \<open>Subjects and streams\<close>

definition SUBJECT_TICK :: string where "SUBJECT_TICK = ''Q.*.QONDUIT.TICK''"
definition SUBJECT_TX :: string where "SUBJECT_TX = ''Q.*.QONDUIT.TX''"
definition SUBJECT_ENTITY :: string where "SUBJECT_ENTITY = ''Q.*.QONDUIT.ENTITY''"
definition SUBJECT_SPECTRUM :: string where "SUBJECT_SPECTRUM = ''Q.*.QONDUIT.SPECTRUM''"
definition SUBJECT_COMPUTORS :: string where "SUBJECT_COMPUTORS = ''Q.*.QONDUIT.COMPUTORS''"
definition SUBJECT_CUSTOM_MESSAGE :: string where "SUBJECT_CUSTOM_MESSAGE = ''Q.*.QONDUIT.CUSTMSG''"
definition SUBJECT_ORACLE :: string where "SUBJECT_ORACLE = ''Q.*.QONDUIT.ORACLE''"
definition SUBJECT_ASSET :: string where "SUBJECT_ASSET = ''Q.*.QONDUIT.ASSET''"
definition SUBJECT_CONTRACT :: string where "SUBJECT_CONTRACT = ''Q.*.QONDUIT.CONTRACT''"
definition SUBJECT_CONTRACT_FN :: string where "SUBJECT_CONTRACT_FN = ''Q.*.QONDUIT.CFNR''"

lemmas subject_constants = SUBJECT_TICK_def SUBJECT_TX_def SUBJECT_ENTITY_def SUBJECT_SPECTRUM_def SUBJECT_COMPUTORS_def
  SUBJECT_CUSTOM_MESSAGE_def SUBJECT_ORACLE_def SUBJECT_ASSET_def SUBJECT_CONTRACT_def SUBJECT_CONTRACT_FN_def

definition STREAM_TICKS :: string where "STREAM_TICKS = ''QONDUIT_TICKS''"
definition STREAM_TRANSACTIONS :: string where "STREAM_TRANSACTIONS = ''QONDUIT_TX''"
definition STREAM_ENTITIES :: string where "STREAM_ENTITIES = ''QONDUIT_ENTITIES''"
definition STREAM_SPECTRUM :: string where "STREAM_SPECTRUM = ''QONDUIT_SPECTRUM''"
definition STREAM_COMPUTORS :: string where "STREAM_COMPUTORS = ''QONDUIT_COMPUTORS''"
definition STREAM_CUSTOM_MESSAGES :: string where "STREAM_CUSTOM_MESSAGES = ''QONDUIT_CUSTMSG''"
definition STREAM_ORACLE :: string where "STREAM_ORACLE = ''QONDUIT_ORACLE''"
definition STREAM_ASSETS :: string where "STREAM_ASSETS = ''QONDUIT_ASSETS''"
definition STREAM_CONTRACTS :: string where "STREAM_CONTRACTS = ''QONDUIT_CONTRACTS''"

lemmas stream_constants = STREAM_TICKS_def STREAM_TRANSACTIONS_def STREAM_ENTITIES_def STREAM_SPECTRUM_def
  STREAM_COMPUTORS_def STREAM_CUSTOM_MESSAGES_def STREAM_ORACLE_def STREAM_ASSETS_def STREAM_CONTRACTS_def

text \<open>Every subject that has a name is captured by exactly one stream of the set-up.\<close>

lemma subjects_captured:
  "list_all (\<lambda>s. length (filter (\<lambda>d. s \<in> set (snd d)) stream_definitions) = 1)
     [SUBJECT_TICK, SUBJECT_TX, SUBJECT_ENTITY, SUBJECT_SPECTRUM, SUBJECT_COMPUTORS, SUBJECT_CUSTOM_MESSAGE,
      SUBJECT_ORACLE, SUBJECT_ASSET, SUBJECT_CONTRACT, SUBJECT_CONTRACT_FN]"
  by (simp add: stream_definitions_def subject_constants)

text \<open>Four of the nine stream names are not names of streams the set-up creates.\<close>

lemma streams_not_created:
  "filter (\<lambda>s. s \<notin> fst ` set stream_definitions)
     [STREAM_TICKS, STREAM_TRANSACTIONS, STREAM_ENTITIES, STREAM_SPECTRUM, STREAM_COMPUTORS, STREAM_CUSTOM_MESSAGES,
      STREAM_ORACLE, STREAM_ASSETS, STREAM_CONTRACTS]
   = [STREAM_TICKS, STREAM_ENTITIES, STREAM_ASSETS, STREAM_CONTRACTS]"
  by (simp add: stream_definitions_def stream_constants)

section \<open>Events\<close>

record 'a event_envelope =
  ee_source :: string
  ee_epoch :: u16
  ee_tick :: u32
  ee_timestamp :: u64
  ee_data :: 'a

datatype custom_message_category =
    Transfer | Dividend | EpochManagement | IssuanceMessage | Burn | OracleQuery | OracleVote | Oracle
  | SpectrumManagement | DeFi | ContractManagement

fun category_number :: "custom_message_category \<Rightarrow> nat" where
  "category_number Transfer = 0"
| "category_number Dividend = 1"
| "category_number EpochManagement = 2"
| "category_number IssuanceMessage = 3"
| "category_number Burn = 4"
| "category_number OracleQuery = 5"
| "category_number OracleVote = 6"
| "category_number Oracle = 7"
| "category_number SpectrumManagement = 8"
| "category_number DeFi = 9"
| "category_number ContractManagement = 10"

lemma category_number_inj: "inj category_number"
  by (rule injI) (rename_tac a b, case_tac a; case_tac b; simp)

record decoded_custom_message =
  cm_category :: custom_message_category
  cm_contract_index :: u32
  cm_operation :: "u64 option"
  cm_raw_hex :: string

section \<open>Errors\<close>

text \<open>The errors of other crates are the text they display.\<close>

datatype qonduit_error =
    Io string
  | Protocol string
  | PacketTooSmall usize usize
  | InvalidMessageType u8
  | InvalidIdentity string
  | ConnectionClosed
  | QTimeout
  | Nats string
  | Storage string
  | Serialization string
  | QOther string

fun display_error :: "qonduit_error \<Rightarrow> string" where
  "display_error (Io e) = ''IO error: '' @ e"
| "display_error (Protocol m) = ''Protocol error: '' @ m"
| "display_error (PacketTooSmall got expected) =
     ''Packet too small: got '' @ show_nat got @ '' bytes, expected at least '' @ show_nat expected"
| "display_error (InvalidMessageType t) = ''Invalid message type: '' @ show_nat (unat t)"
| "display_error (InvalidIdentity i) = ''Invalid identity: '' @ i"
| "display_error ConnectionClosed = ''Connection closed''"
| "display_error QTimeout = ''Timeout''"
| "display_error (Nats m) = ''NATS error: '' @ m"
| "display_error (Storage m) = ''Storage error: '' @ m"
| "display_error (Serialization e) = ''Serialization error: '' @ e"
| "display_error (QOther e) = e"

lemma show_nat_then_space: "show_nat m @ CHR '' '' # r = show_nat n @ CHR '' '' # r' \<longleftrightarrow> m = n \<and> r = r'"
proof
  assume eq: "show_nat m @ CHR '' '' # r = show_nat n @ CHR '' '' # r'"
  have "takeWhile is_ascii_digit (show_nat k @ CHR '' '' # q) = show_nat k" for k q
    using show_nat_digits [of k] by (simp add: takeWhile_append2 list_all_iff is_ascii_digit_def)
  with eq have "show_nat m = show_nat n" by metis
  with eq show "m = n \<and> r = r'" by simp
qed simp

text \<open>The message says which error it is, unless the error only passes on that of another crate.\<close>

lemma display_error_inj:
  assumes "display_error e = display_error e'" "\<nexists>m. e = QOther m" "\<nexists>m. e' = QOther m"
  shows "e = e'"
  using assms by (cases e; cases e') (auto simp: show_nat_then_space word_unat_eq_iff)

section \<open>Structures\<close>

definition ASSET_ISSUANCE_RECORD_SIZE :: usize where "ASSET_ISSUANCE_RECORD_SIZE = 816"
definition ASSET_OWNERSHIP_RECORD_SIZE :: usize where "ASSET_OWNERSHIP_RECORD_SIZE = 864"
definition ASSET_POSSESSION_RECORD_SIZE :: usize where "ASSET_POSSESSION_RECORD_SIZE = 912"

definition asset_type_from_u8 :: "u8 \<Rightarrow> asset_type option" where
  "asset_type_from_u8 v =
     (if v = 0 then Some Empty else if v = 1 then Some Issuance else if v = 2 then Some Ownership
      else if v = 3 then Some Possession else None)"

lemma asset_types_agree:
  "map asset_type_from_u8 [ASSET_TYPE_EMPTY, ASSET_TYPE_ISSUANCE, ASSET_TYPE_OWNERSHIP, ASSET_TYPE_POSSESSION]
   = map Some [Empty, Issuance, Ownership, Possession]"
  "asset_type_from_u8 v = None \<longleftrightarrow> ASSET_TYPE_POSSESSION < v"
proof -
  show "map asset_type_from_u8 [ASSET_TYPE_EMPTY, ASSET_TYPE_ISSUANCE, ASSET_TYPE_OWNERSHIP, ASSET_TYPE_POSSESSION]
     = map Some [Empty, Issuance, Ownership, Possession]"
    by (simp add: asset_type_from_u8_def ASSET_TYPE_EMPTY_def ASSET_TYPE_ISSUANCE_def ASSET_TYPE_OWNERSHIP_def
        ASSET_TYPE_POSSESSION_def)
  have "3 < v \<longleftrightarrow> v \<notin> {0, 1, 2, 3}"
    by (auto simp: word_less_nat_alt word_unat_eq_iff)
  then show "asset_type_from_u8 v = None \<longleftrightarrow> ASSET_TYPE_POSSESSION < v"
    by (auto simp: asset_type_from_u8_def ASSET_TYPE_POSSESSION_def)
qed

record asset_summary =
  sm_asset_type :: asset_type
  sm_issuance_index :: u32
  sm_issuance_amount :: i64
  sm_number_of_units :: i64
  sm_value_per_unit :: i64
  sm_name :: string
  sm_description :: string
  sm_url :: string
  sm_issuing_entity :: string
  sm_owning_entity :: string
  sm_possessing_entity :: string

definition SPECTRUM_ENTRY_SIZE :: usize where "SPECTRUM_ENTRY_SIZE = 144"

record spectrum_entry =
  sp_identity :: string
  sp_incoming_amount :: i64
  sp_outgoing_amount :: i64
  sp_balance :: i64
  sp_number_of_incoming_transfers :: u64
  sp_number_of_outgoing_transfers :: u64
  sp_latest_incoming_transfer_tick :: u32
  sp_latest_outgoing_transfer_tick :: u32
  sp_asset_issued :: u32
  sp_asset_owned :: u32

record oracle_query_statistics =
  os_raw_hex :: string

record oracle_revenue_points =
  or_points :: "i64 list"

datatype transaction_type =
    TransferTx | AdditionalIssuance | TransferOwnership | TransferPossession | Bid | Ask | DistributeDividends

fun transaction_type_number :: "transaction_type \<Rightarrow> u8" where
  "transaction_type_number TransferTx = 0"
| "transaction_type_number AdditionalIssuance = 1"
| "transaction_type_number TransferOwnership = 2"
| "transaction_type_number TransferPossession = 3"
| "transaction_type_number Bid = 24"
| "transaction_type_number Ask = 25"
| "transaction_type_number DistributeDividends = 26"

text \<open>The numbers are those \<^verbatim>\<open>InputType::classify\<close> knows: it takes every other one for a contract call.\<close>

lemma classify_known:
  "(\<exists>n. classify ty = SmartContractCall n) \<longleftrightarrow> ty \<notin> (ucast \<circ> transaction_type_number) ` UNIV"
proof -
  have all: "(UNIV :: transaction_type set) = {TransferTx, AdditionalIssuance, TransferOwnership, TransferPossession, Bid, Ask, DistributeDividends}"
    by (auto intro: transaction_type.exhaust)
  show ?thesis by (auto simp: all classify_def)
qed

record raw_transaction_header =
  rh_source :: bytes
  rh_destination :: bytes
  rh_amount :: i64
  rh_tick :: u32
  rh_input_type :: u16
  rh_input_size :: u16

record distribute_dividends_input =
  dd_asset_index :: u32
  dd_amount_per_share :: u32

record additional_issuance_input =
  ai_asset_index :: u32
  ai_additional_amount :: u32

definition TRANSFER_DIVIDENDS_INPUT_SIZE :: usize where "TRANSFER_DIVIDENDS_INPUT_SIZE = 8"
definition ADDITIONAL_ISSUANCE_INPUT_SIZE :: usize where "ADDITIONAL_ISSUANCE_INPUT_SIZE = 8"

text \<open>The packed layout of the three structures: the fields one after the other, little-endian.\<close>

definition raw_header_bytes :: "raw_transaction_header \<Rightarrow> bytes" where
  "raw_header_bytes h = rh_source h @ rh_destination h @ i64_to_le (rh_amount h) @ u32_to_le (rh_tick h)
     @ u16_to_le (rh_input_type h) @ u16_to_le (rh_input_size h)"

definition dividends_bytes :: "distribute_dividends_input \<Rightarrow> bytes" where
  "dividends_bytes i = u32_to_le (dd_asset_index i) @ u32_to_le (dd_amount_per_share i)"

definition issuance_bytes :: "additional_issuance_input \<Rightarrow> bytes" where
  "issuance_bytes i = u32_to_le (ai_asset_index i) @ u32_to_le (ai_additional_amount i)"

lemma packed_sizes:
  "length (rh_source h) = 32 \<Longrightarrow> length (rh_destination h) = 32 \<Longrightarrow> length (raw_header_bytes h) = TX_HEADER_SIZE"
  "length (dividends_bytes d) = TRANSFER_DIVIDENDS_INPUT_SIZE" "length (issuance_bytes a) = ADDITIONAL_ISSUANCE_INPUT_SIZE"
  by (simp_all add: raw_header_bytes_def dividends_bytes_def issuance_bytes_def TX_HEADER_SIZE_def
      TRANSFER_DIVIDENDS_INPUT_SIZE_def ADDITIONAL_ISSUANCE_INPUT_SIZE_def i64_to_le_def)

text \<open>The header is the one \<^verbatim>\<open>decode_transaction\<close> reads: it finds every field where the layout puts it.\<close>

lemma header_decoded:
  assumes "length (rh_source h) = 32" "length (rh_destination h) = 32"
    and "- (2 ^ 63) \<le> rh_amount h" "rh_amount h < 2 ^ 63" "unat (rh_input_size h) = length input" "length sig = 64"
  shows "\<exists>tx. decode_transaction X (raw_header_bytes h @ input @ sig @ rest) = Ok tx
    \<and> tx_source_hex tx = hex_encode X (rh_source h) \<and> tx_destination_hex tx = hex_encode X (rh_destination h)
    \<and> tx_amount tx = rh_amount h \<and> tx_tick tx = rh_tick h \<and> tx_input_type tx = rh_input_type h
    \<and> tx_input_size tx = rh_input_size h \<and> tx_hash tx = hex_encode X (sha256_digest X (raw_header_bytes h @ input))"
proof -
  have size: "rh_input_size h = word_of_nat (length input)" unfolding assms(5) [symmetric] by simp
  have "unat (rh_input_size h) < 2 ^ LENGTH(16)" by (rule unsigned_less)
  then have "length input < 2 ^ 16" using assms(5) by simp
  note fields = transaction_fields [OF assms(1,2) this assms(6,3,4) refl]
  from fields [of X "rh_tick h" "rh_input_type h" rest]
  show ?thesis by (simp add: raw_header_bytes_def size)
qed

section \<open>The state of a Bob node\<close>

datatype bob_sync_status = NotSyncing bool | Syncing bool u16 u32 u32 u32 u64 u64

definition not_syncing :: bob_sync_status where "not_syncing = NotSyncing False"

fun is_syncing :: "bob_sync_status \<Rightarrow> bool" where
  "is_syncing (NotSyncing syncing) = syncing"
| "is_syncing (Syncing syncing epoch initial_tick current_fetching_tick latest_voting_tick per_tick since) = syncing"

text \<open>
  The two derived conversions for an untagged enumeration: the fields of the variant without its
  name, and the first variant in the order of the declaration whose fields are all there.
\<close>

fun bob_to_json :: "bob_sync_status \<Rightarrow> json" where
  "bob_to_json (NotSyncing syncing) = JObj [(''syncing'', JBool syncing)]"
| "bob_to_json (Syncing syncing epoch initial_tick current_fetching_tick latest_voting_tick per_tick since) =
     JObj [(''syncing'', JBool syncing), (''epoch'', jword epoch), (''initial_tick'', jword initial_tick),
       (''current_fetching_tick'', jword current_fetching_tick), (''latest_voting_tick'', jword latest_voting_tick),
       (''processing_duration_per_tick'', jword per_tick), (''time_since_last_voting_tick'', jword since)]"

definition bool_field :: "json \<Rightarrow> string \<Rightarrow> bool option" where
  "bool_field v k = (case obj_get v k of Some (JBool b) \<Rightarrow> Some b | _ \<Rightarrow> None)"

definition word_field :: "json \<Rightarrow> string \<Rightarrow> 'a::len word option" where
  "word_field v k = (case obj_get v k of
     Some (JInt n) \<Rightarrow> if 0 \<le> n \<and> n < 2 ^ LENGTH('a) then Some (word_of_int n) else None | _ \<Rightarrow> None)"

definition not_syncing_from_json :: "json \<Rightarrow> bob_sync_status option" where
  "not_syncing_from_json v = map_option NotSyncing (bool_field v ''syncing'')"

definition syncing_from_json :: "json \<Rightarrow> bob_sync_status option" where
  "syncing_from_json v =
     Option.bind (bool_field v ''syncing'') (\<lambda>syncing.
     Option.bind (word_field v ''epoch'') (\<lambda>epoch.
     Option.bind (word_field v ''initial_tick'') (\<lambda>initial_tick.
     Option.bind (word_field v ''current_fetching_tick'') (\<lambda>current_fetching_tick.
     Option.bind (word_field v ''latest_voting_tick'') (\<lambda>latest_voting_tick.
     Option.bind (word_field v ''processing_duration_per_tick'') (\<lambda>per_tick.
     Option.bind (word_field v ''time_since_last_voting_tick'') (\<lambda>since.
     Some (Syncing syncing epoch initial_tick current_fetching_tick latest_voting_tick per_tick since))))))))"

definition bob_from_json :: "json \<Rightarrow> bob_sync_status option" where
  "bob_from_json v = (case not_syncing_from_json v of Some s \<Rightarrow> Some s | None \<Rightarrow> syncing_from_json v)"

lemma word_field_jword [simp]: "obj_get v k = Some (jword w) \<Longrightarrow> word_field v k = Some w"
  using uint_lt2p [of w] by (simp add: word_field_def jword_def)

text \<open>
  Either variant alone could be read back, but the first one fits whatever the second one writes: a
  node that is syncing is read as one that is not, with the flag set and the ticks lost.
\<close>

lemma bob_roundtrip:
  "syncing_from_json (bob_to_json (Syncing s e i c l p t)) = Some (Syncing s e i c l p t)"
  "bob_from_json (bob_to_json (NotSyncing s)) = Some (NotSyncing s)"
  "bob_from_json (bob_to_json (Syncing s e i c l p t)) = Some (NotSyncing s)"
  "map_option is_syncing (bob_from_json (bob_to_json b)) = Some (is_syncing b)"
  "syncing_from_json v = Some b \<Longrightarrow> \<exists>s. bob_from_json v = Some (NotSyncing s)"
  by (simp_all add: syncing_from_json_def bob_from_json_def not_syncing_from_json_def bool_field_def obj_get_def)
    (cases b, auto split: option.splits json.splits bind_splits)

end
