(* ===== verification/Services.thy ===== *)
theory Services
  imports Startup Api_Docs Core_Types
begin

text \<open>
  The outer layer of the program: the publisher as an object (\<^verbatim>\<open>crates/ingestion/src/nats_publish.rs\<close>),
  the documentation pages (\<^verbatim>\<open>crates/query/src/docs.rs\<close>), the server task
  (\<^verbatim>\<open>crates/query/src/lib.rs\<close>) and the tasks \<^verbatim>\<open>main\<close> spawns and stops
  (\<^verbatim>\<open>crates/qonduit/src/main.rs\<close>).
\<close>

section \<open>The publisher\<close>

record 'n nats_publisher =
  np_js :: 'n
  np_fire_and_forget :: bool

text \<open>\<open>jetstream\<close> makes a context from a client of the NATS library.\<close>

definition new_publisher :: "('c \<Rightarrow> 'n) \<Rightarrow> 'c \<Rightarrow> 'n nats_publisher" where
  "new_publisher jetstream nats = \<lparr>np_js = jetstream nats, np_fire_and_forget = False\<rparr>"

definition from_context :: "'n \<Rightarrow> 'n nats_publisher" where
  "from_context ctx = \<lparr>np_js = ctx, np_fire_and_forget = False\<rparr>"

definition set_fire_and_forget :: "bool \<Rightarrow> 'n nats_publisher \<Rightarrow> 'n nats_publisher" where
  "set_fire_and_forget enabled P = P\<lparr>np_fire_and_forget := enabled\<rparr>"

text \<open>
  The three methods whose payload is not one of the events of theory \<open>Packet_Decoder\<close>; \<open>ser\<close> is the
  JSON serialisation of the payload.
\<close>

definition publish_value :: "'n nats \<Rightarrow> ('v \<Rightarrow> bytes outcome) \<Rightarrow> string \<Rightarrow> 'v \<Rightarrow> 'n nats_publisher
    \<Rightarrow> unit outcome \<times> 'n nats_publisher" where
  "publish_value N ser subj v P =
     (case bindS (liftS (ser v) (np_js P)) (\<lambda>payload. do_publish N (np_fire_and_forget P) subj payload) of
        (r, n) \<Rightarrow> (r, P\<lparr>np_js := n\<rparr>))"

definition publish_oracle :: "'n nats \<Rightarrow> (json \<Rightarrow> bytes outcome) \<Rightarrow> u16 \<Rightarrow> u32 \<Rightarrow> json \<Rightarrow> 'n nats_publisher
    \<Rightarrow> unit outcome \<times> 'n nats_publisher" where
  "publish_oracle N ser epoch tick data = publish_value N ser (subject epoch ''ORACLE'') data"

definition publish_asset :: "'n nats \<Rightarrow> (asset_record \<Rightarrow> bytes outcome) \<Rightarrow> u16 \<Rightarrow> asset_record \<Rightarrow> 'n nats_publisher
    \<Rightarrow> unit outcome \<times> 'n nats_publisher" where
  "publish_asset N ser epoch asset = publish_value N ser (subject epoch ''ASSET'') asset"

definition publish_spectrum :: "'n nats \<Rightarrow> (json \<Rightarrow> bytes outcome) \<Rightarrow> u16 \<Rightarrow> json \<Rightarrow> 'n nats_publisher
    \<Rightarrow> unit outcome \<times> 'n nats_publisher" where
  "publish_spectrum N ser epoch entry = publish_value N ser (subject epoch ''SPECTRUM'') entry"

text \<open>A value without a serialisation is refused before anything is sent.\<close>

lemma publish_value_unserialised:
  "ser v = Err e \<Longrightarrow> publish_value N ser subj v P = (Err e, P)"
  by (simp add: publish_value_def)

text \<open>A publisher that does not wait gives what the sending gives; one that waits needs the acknowledgement too.\<close>

lemma publish_value_waits:
  assumes "ser v = Ok payload" "js_publish N subj payload (np_js P) = (Ok (), n)" "nats.js_ack N subj n = (r, n')"
  shows "publish_value N ser subj v (set_fire_and_forget True P) = (Ok (), P\<lparr>np_js := n, np_fire_and_forget := True\<rparr>)"
    and "publish_value N ser subj v (set_fire_and_forget False P) = (r, P\<lparr>np_js := n', np_fire_and_forget := False\<rparr>)"
  using assms by (simp_all add: publish_value_def set_fire_and_forget_def do_publish_def)

text \<open>On a healthy connection each method stores its payload once, under a subject one stream captures.\<close>

lemma publish_value_healthy:
  assumes "nats_healthy N kept J" "ser v = Ok payload"
  obtains P' where "publish_value N ser subj v P = (Ok (), P')" "kept (np_js P') = kept (np_js P) @ [(subj, payload)]"
    "np_fire_and_forget P' = np_fire_and_forget P"
proof -
  obtain n1 where n1: "js_publish N subj payload (np_js P) = (Ok (), n1)" "kept n1 = kept (np_js P) @ [(subj, payload)]"
    using assms(1) unfolding nats_healthy_def by blast
  obtain n2 where n2: "nats.js_ack N subj n1 = (Ok (), n2)" "kept n2 = kept n1"
    using assms(1) unfolding nats_healthy_def by blast
  show thesis
    using that [of "P\<lparr>np_js := if np_fire_and_forget P then n1 else n2\<rparr>"] assms(2) n1 n2
    by (simp add: publish_value_def do_publish_def)
qed

lemma values_captured:
  assumes "nats_healthy N kept J" "ser v = Ok payload" "kind \<in> set [''ORACLE'', ''ASSET'', ''SPECTRUM'']"
  shows "\<exists>P'. publish_value N ser (subject epoch kind) v P = (Ok (), P')
    \<and> kept (np_js P') = kept (np_js P) @ [(subject epoch kind, payload)]
    \<and> length (filter (\<lambda>(name, patterns). ''Q.*.QONDUIT.'' @ kind \<in> set patterns) stream_definitions) = 1"
proof -
  have "length (filter (\<lambda>(name, patterns). ''Q.*.QONDUIT.'' @ kind \<in> set patterns) stream_definitions) = 1"
    using assms(3) by (auto simp: stream_definitions_def)
  moreover obtain P' where "publish_value N ser (subject epoch kind) v P = (Ok (), P')"
    "kept (np_js P') = kept (np_js P) @ [(subject epoch kind, payload)]"
    by (rule publish_value_healthy [where ser = ser and v = v, OF assms(1,2)])
  ultimately show ?thesis by blast
qed

section \<open>The documentation pages\<close>

datatype page = OpenapiJson json | Html string

record page_response =
  pr_status :: nat
  pr_content_type :: string
  pr_page :: page

definition openapi_json :: "json \<Rightarrow> page_response" where
  "openapi_json spec = \<lparr>pr_status = 200, pr_content_type = ''application/json'', pr_page = OpenapiJson spec\<rparr>"

text \<open>\<open>docs_page\<close> is the text of the file \<^verbatim>\<open>docs_page.html\<close>, \<open>scalar_html\<close> the template of the Scalar library.\<close>

definition guide_page :: "string \<Rightarrow> page_response" where
  "guide_page docs_page = \<lparr>pr_status = 200, pr_content_type = ''text/html; charset=utf-8'', pr_page = Html docs_page\<rparr>"

definition scalar_configuration :: json where
  "scalar_configuration = JObj [(''url'', JStr ''/openapi.json''), (''theme'', JStr ''purple''), (''layout'', JStr ''modern'')]"

definition scalar_docs :: "(json \<Rightarrow> string) \<Rightarrow> page_response" where
  "scalar_docs scalar_html =
     \<lparr>pr_status = 200, pr_content_type = ''text/html; charset=utf-8'', pr_page = Html (scalar_html scalar_configuration)\<rparr>"

definition docs_table :: "json \<Rightarrow> (json \<Rightarrow> string) \<Rightarrow> string \<Rightarrow> (string \<times> page_response) list" where
  "docs_table spec scalar_html docs_page =
     [(''/openapi.json'', openapi_json spec), (''/docs'', scalar_docs scalar_html), (''/guide'', guide_page docs_page)]"

text \<open>The pages are served under the documentation routes, and the reference page loads its document from one of them.\<close>

lemma docs_served:
  "map fst (docs_table spec scalar_html docs_page) = docs_routes"
  "list_all (\<lambda>(path, r). pr_status r = 200) (docs_table spec scalar_html docs_page)"
  "\<exists>url. obj_get scalar_configuration ''url'' = Some (JStr url) \<and> url \<in> set build_router
     \<and> map_of (docs_table spec scalar_html docs_page) url = Some (openapi_json spec)"
  by (simp_all add: docs_table_def docs_routes_def openapi_json_def scalar_docs_def guide_page_def build_router_def
      scalar_configuration_def obj_get_def)

section \<open>The tasks of the program\<close>

record cli =
  cli_config :: string

definition default_cli :: cli where
  "default_cli = \<lparr>cli_config = ''qonduit.toml''\<rparr>"

record query_config =
  qc_listen_addr :: socket_addr

definition default_query_config :: query_config where
  "default_query_config = \<lparr>qc_listen_addr = (V4 0 0 0 0, 8080)\<rparr>"

text \<open>The query server: \<open>bind\<close> and \<open>serve\<close> are the calls into tokio and axum.\<close>

definition query_run :: "(socket_addr \<Rightarrow> 'l outcome) \<Rightarrow> ('l \<Rightarrow> string list \<Rightarrow> unit outcome) \<Rightarrow> query_config \<Rightarrow> unit outcome" where
  "query_run bind serve cfg = bindR (bind (qc_listen_addr cfg)) (\<lambda>listener. serve listener build_router)"

text \<open>
  One poll of a service task: \<^verbatim>\<open>tokio::select!\<close> on the service itself and on its stop channel, which
  it polls in a random order; \<open>service_first\<close> says in which.  \<open>None\<close> is a task still pending; an
  error of the service is logged and ends the task normally.
\<close>

definition poll_service :: "bool \<Rightarrow> unit outcome option \<Rightarrow> unit outcome option" where
  "poll_service stop service =
     (case service of Some (Panic p) \<Rightarrow> Some (Panic p) | Some r \<Rightarrow> Some (Ok ()) | None \<Rightarrow> if stop then Some (Ok ()) else None)"

definition service_task :: "bool \<Rightarrow> bool \<Rightarrow> unit outcome option \<Rightarrow> unit outcome option" where
  "service_task service_first stop service =
     (if service_first then poll_service stop service
      else if stop then Some (Ok ()) else poll_service stop service)"

text \<open>What \<^verbatim>\<open>main\<close> reports of a task it stops: the task ended, it panicked, or the wait timed out.\<close>

datatype stop_report = StoppedGracefully | TaskPanicked panic | StopTimedOut

definition await_stop :: "nat \<Rightarrow> (nat \<times> unit outcome) option \<Rightarrow> stop_report" where
  "await_stop limit ended =
     (case ended of
        Some (after, Panic p) \<Rightarrow> if after \<le> limit then TaskPanicked p else StopTimedOut
      | Some (after, r) \<Rightarrow> if after \<le> limit then StoppedGracefully else StopTimedOut
      | None \<Rightarrow> StopTimedOut)"

text \<open>
  A task that is polled after its stop signal ends with that poll, whatever its service does and
  whichever branch is polled first; before the signal it ends only with its service.
\<close>

lemma service_task_stops:
  "service_task first True service \<noteq> None"
  "service_task first False service = None \<longleftrightarrow> service = None"
  "(\<nexists>p. service = Some (Panic p)) \<Longrightarrow> service_task first stop service \<in> {None, Some (Ok ())}"
  by (auto simp: service_task_def poll_service_def split: option.splits outcome.splits)

text \<open>
  So when every task is polled within its limit after the signal, and no service panics in that
  poll, the shutdown reports every service as stopped gracefully.
\<close>

lemma stops_gracefully:
  assumes "\<And>svc limit. (svc, limit) \<in> set (shutdown_plan s) \<Longrightarrow> polled svc \<le> limit"
    and "\<And>svc p. service svc \<noteq> Some (Panic p)" "(svc, limit) \<in> set (shutdown_plan s)"
  shows "await_stop limit (map_option (Pair (polled svc)) (service_task (first svc) True (service svc))) = StoppedGracefully"
proof -
  obtain r where "service_task (first svc) True (service svc) = Some r" using service_task_stops(1) by fastforce
  moreover from this have "r = Ok ()" using service_task_stops(3) [of "service svc" "first svc" True] assms(2) by auto
  ultimately show ?thesis using assms(1,3) by (simp add: await_stop_def)
qed

end
