(* ===== verification/Catch_Up.thy ===== *)
theory Catch_Up
  imports Consumer Server
begin

text \<open>
  What the interleaved tasks of the processor leave in the index.  Each handler writes only to its own
  column families; the epoch statistics are the only ones that several tasks write.  So the families of a
  stream depend on the messages of that stream alone, and after catch-up every transaction of the
  stream is served by its hash.
\<close>

section \<open>What a handler writes\<close>

definition kept :: "('db \<Rightarrow> string \<Rightarrow> (bytes \<times> bytes) list) \<Rightarrow> string \<Rightarrow> ('db, 'f) indexer \<Rightarrow> 'a outcome \<times> ('db, 'f) indexer \<Rightarrow> bool" where
  "kept entries cf s m \<longleftrightarrow> entries (storage (snd m)) cf = entries (storage s) cf"

lemma kept_same [simp]: "kept entries cf s (r, s)"
  by (simp add: kept_def)

lemma kept_liftS: "kept entries cf s (liftS r s)"
  by (simp add: kept_def liftS_def)

lemma kept_bindS: "kept entries cf s m \<Longrightarrow> (\<And>x s. kept entries cf s (f x s)) \<Longrightarrow> kept entries cf s (bindS m f)"
  by (cases m; cases "fst m") (auto simp: kept_def)

lemma kept_pipeline: "kept entries cf (update_pipeline g s) m \<Longrightarrow> kept entries cf s m"
  by (simp add: kept_def update_pipeline_def)

lemma kept_on_storage: "(\<And>db. entries (snd (f db)) cf = entries db cf) \<Longrightarrow> kept entries cf s (on_storage f s)"
  by (simp add: kept_def on_storage_def split: prod.split) (metis snd_conv)

lemma kept_logged: "kept entries cf s (logged f s)"
  by (simp add: kept_def logged_def Let_def split: prod.split outcome.split)

lemma kept_forS: "(\<And>x s. kept entries cf s (f x s)) \<Longrightarrow> kept entries cf s (forS f xs s)"
  by (induction xs arbitrary: s) (auto intro: kept_bindS)

lemmas kept_intros = kept_bindS kept_liftS kept_on_storage kept_logged kept_forS kept_pipeline

text \<open>The column families each stream's handler writes.\<close>

definition footprint :: "string \<Rightarrow> string list" where
  "footprint stream = (case map_of [
     (''QONDUIT_TICK'', [CF_TICK, CF_META, CF_EPOCH_STATS]),
     (''QONDUIT_TX'', [CF_TX, CF_TX_BY_TICK, CF_TX_BY_ENTITY, CF_EPOCH_STATS]),
     (''QONDUIT_ENTITY'', [CF_ENTITY, CF_EPOCH_STATS]),
     (''QONDUIT_COMPUTORS'', [CF_COMPUTORS]),
     (''QONDUIT_ASSET'', [CF_ASSET, CF_ENTITY_ASSET]),
     (''QONDUIT_CONTRACT'', [CF_CONTRACT_IPO]),
     (''QONDUIT_CUSTMSG'', [CF_CUSTOM_MESSAGE]),
     (''QONDUIT_SPECTRUM'', [CF_SPECTRUM]),
     (''QONDUIT_LOG'', [CF_LOG_EVENT]),
     (''QONDUIT_TICKVOTE'', [CF_TICK_VOTE]),
     (''QONDUIT_ORACLE'', [CF_ORACLE])] stream of Some cfs \<Rightarrow> cfs | None \<Rightarrow> [])"

lemma store_writes:
  assumes "rocks_ok R entries"
  shows "cf \<noteq> CF_SPECTRUM \<Longrightarrow> entries (snd (put_spectrum_entry R k d db)) cf = entries db cf"
    and "cf \<noteq> CF_COMPUTORS \<Longrightarrow> entries (snd (warm_put_computors R epoch d db)) cf = entries db cf"
    and "cf \<noteq> CF_ASSET \<Longrightarrow> entries (snd (put_asset R i d db)) cf = entries db cf"
    and "cf \<noteq> CF_ENTITY_ASSET \<Longrightarrow> entries (snd (put_entity_asset R k i db)) cf = entries db cf"
    and "cf \<noteq> CF_LOG_EVENT \<Longrightarrow> entries (snd (put_log_event R t i ty d db)) cf = entries db cf"
    and "cf \<noteq> CF_TICK_VOTE \<Longrightarrow> entries (snd (put_tick_vote R t ci d db)) cf = entries db cf"
    and "cf \<noteq> CF_CONTRACT_IPO \<Longrightarrow> entries (snd (put_contract_ipo R i d db)) cf = entries db cf"
    and "cf \<noteq> CF_ORACLE \<Longrightarrow> entries (snd (put_oracle R t d db)) cf = entries db cf"
    and "cf \<noteq> CF_CUSTOM_MESSAGE \<Longrightarrow> entries (snd (put_custom_message R t i d db)) cf = entries db cf"
    and "cf \<noteq> CF_ENTITY \<Longrightarrow> entries (snd (warm_put_entity R k d db)) cf = entries db cf"
    and "cf \<noteq> CF_EPOCH_STATS \<Longrightarrow> entries (snd (put_epoch_stats R epoch d db)) cf = entries db cf"
    and "cf \<notin> {CF_TICK, CF_META} \<Longrightarrow> entries (snd (batch_write R (batch_put_tick t epoch d create_batch) db)) cf = entries db cf"
    and "cf \<notin> {CF_TX, CF_TX_BY_TICK, CF_TX_BY_ENTITY}
      \<Longrightarrow> entries (snd (batch_write R (batch_put_tx h d t i src dst create_batch) db)) cf = entries db cf"
  by (simp_all add: warm_writes rocks_put [OF assms] rocks_batch [OF assms] batch_put_tick_def batch_put_tx_def
      create_batch_def split: option.split)

lemma kept_stats: "rocks_ok (rocks E) entries \<Longrightarrow> cf \<noteq> CF_EPOCH_STATS \<Longrightarrow> kept entries cf s (update_epoch_stats E epoch f s)"
  unfolding update_epoch_stats_def by (intro kept_intros) (simp add: store_writes)

lemma kept_current_stats:
  "rocks_ok (rocks E) entries \<Longrightarrow> cf \<noteq> CF_EPOCH_STATS \<Longrightarrow> kept entries cf s (update_current_stats E f s)"
  by (simp add: update_current_stats_def Let_def kept_stats)

lemma kept_holders:
  assumes "rocks_ok R entries" "cf \<noteq> CF_ENTITY_ASSET"
  shows "kept entries cf s (index_holders R i es s)"
proof (induction es arbitrary: s)
  case (Cons e es)
  have "kept entries cf s (on_storage (put_entity_asset R e i) s)"
    using assms by (intro kept_on_storage) (simp add: store_writes)
  with Cons show ?case
    by (auto simp: kept_def split: prod.split outcome.split)
qed simp

lemma kept_handlers:
  assumes "rocks_ok (rocks E) entries"
  shows "cf \<notin> {CF_TICK, CF_META, CF_EPOCH_STATS} \<Longrightarrow> kept entries cf s (index_tick E b s)"
    and "cf \<notin> {CF_TX, CF_TX_BY_TICK, CF_TX_BY_ENTITY, CF_EPOCH_STATS} \<Longrightarrow> kept entries cf s (index_transaction E b s)"
    and "cf \<notin> {CF_ENTITY, CF_EPOCH_STATS} \<Longrightarrow> kept entries cf s (index_entity E b s)"
    and "cf \<noteq> CF_COMPUTORS \<Longrightarrow> kept entries cf s (index_computors E b s)"
    and "cf \<notin> {CF_ASSET, CF_ENTITY_ASSET} \<Longrightarrow> kept entries cf s (index_asset E b s)"
    and "cf \<noteq> CF_CONTRACT_IPO \<Longrightarrow> kept entries cf s (index_contract_ipo E b s)"
    and "cf \<noteq> CF_CUSTOM_MESSAGE \<Longrightarrow> kept entries cf s (index_custom_message E b s)"
    and "cf \<noteq> CF_SPECTRUM \<Longrightarrow> kept entries cf s (index_spectrum E b s)"
    and "cf \<noteq> CF_LOG_EVENT \<Longrightarrow> kept entries cf s (index_log_events E b s)"
    and "cf \<noteq> CF_TICK_VOTE \<Longrightarrow> kept entries cf s (index_tick_vote E b s)"
    and "cf \<noteq> CF_ORACLE \<Longrightarrow> kept entries cf s (index_oracle E b s)"
proof -
  note st = store_writes [OF assms]
  show "cf \<notin> {CF_TICK, CF_META, CF_EPOCH_STATS} \<Longrightarrow> kept entries cf s (index_tick E b s)"
    unfolding index_tick_def export_previous_def Let_def
    by (auto intro!: kept_bindS kept_liftS kept_logged kept_on_storage kept_pipeline [OF kept_stats [OF assms]] simp: st)
  have next_kept: "kept entries cf (snd (next_tx_index t s)) m \<Longrightarrow> kept entries cf s m" for cf t s and m :: "unit outcome \<times> _"
    by (simp add: kept_def next_tx_index_def Let_def)
  show "cf \<notin> {CF_TX, CF_TX_BY_TICK, CF_TX_BY_ENTITY, CF_EPOCH_STATS} \<Longrightarrow> kept entries cf s (index_transaction E b s)"
    unfolding index_transaction_def Let_def case_prod_beta
    by (intro kept_bindS kept_liftS, rule next_kept)
      (auto intro!: kept_bindS kept_on_storage kept_pipeline [OF kept_current_stats [OF assms]] simp: st)
  show "cf \<notin> {CF_ENTITY, CF_EPOCH_STATS} \<Longrightarrow> kept entries cf s (index_entity E b s)"
    unfolding index_entity_def
    by (auto intro!: kept_bindS kept_liftS kept_on_storage kept_pipeline [OF kept_current_stats [OF assms]]
        simp: st split: option.split)
  show "cf \<noteq> CF_COMPUTORS \<Longrightarrow> kept entries cf s (index_computors E b s)"
    "cf \<noteq> CF_CONTRACT_IPO \<Longrightarrow> kept entries cf s (index_contract_ipo E b s)"
    "cf \<noteq> CF_SPECTRUM \<Longrightarrow> kept entries cf s (index_spectrum E b s)"
    "cf \<noteq> CF_LOG_EVENT \<Longrightarrow> kept entries cf s (index_log_events E b s)"
    "cf \<noteq> CF_ORACLE \<Longrightarrow> kept entries cf s (index_oracle E b s)"
    unfolding index_computors_def index_contract_ipo_def index_spectrum_def index_log_events_def index_oracle_def Let_def
    by (auto intro!: kept_bindS kept_liftS kept_on_storage kept_forS simp: st split: option.split)
  show "cf \<notin> {CF_ASSET, CF_ENTITY_ASSET} \<Longrightarrow> kept entries cf s (index_asset E b s)"
    unfolding index_asset_def by (auto intro!: kept_bindS kept_liftS kept_on_storage kept_holders [OF assms] simp: st)
  show "cf \<noteq> CF_CUSTOM_MESSAGE \<Longrightarrow> kept entries cf s (index_custom_message E b s)"
    "cf \<noteq> CF_TICK_VOTE \<Longrightarrow> kept entries cf s (index_tick_vote E b s)"
    unfolding index_custom_message_def index_tick_vote_def Let_def
    by (auto intro!: kept_bindS kept_liftS kept_on_storage simp: st split: outcome.split)
qed

lemma handler_footprint:
  assumes "rocks_ok (rocks E) entries" "(c, h, lag) \<in> set (stream_tasks E)" "cf \<notin> set (footprint (fst c))"
  shows "kept entries cf s (h b s)"
  using assms(2,3)
  by (auto simp: stream_tasks_def durable_names_def handlers_def footprint_def intro!: kept_handlers [OF assms(1)])

section \<open>The families of a stream\<close>

lemma do_work_footprint:
  assumes "rocks_ok (rocks E) entries" "i < length (stream_tasks E)"
    and "cf \<notin> set (footprint (fst (fst (stream_tasks E ! i))))"
  shows "entries (storage (do_work (stream_tasks E ! i) w s)) cf = entries (storage s) cf"
proof -
  obtain c h lag where t: "stream_tasks E ! i = (c, h, lag)" by (cases "stream_tasks E ! i")
  then have "(c, h, lag) \<in> set (stream_tasks E)" using nth_mem [OF assms(2)] by simp
  from handler_footprint [OF assms(1) this] assms(3) t show ?thesis
    by (cases w) (simp_all add: kept_def update_pipeline_def)
qed

lemma do_work_healthy:
  assumes "healthy E entries s" "i < length (stream_tasks E)"
  shows "healthy E entries (do_work (stream_tasks E ! i) w s)"
proof -
  obtain c h lag where t: "stream_tasks E ! i = (c, h, lag)" by (cases "stream_tasks E ! i")
  then have "(c, h, lag) \<in> set (stream_tasks E)" using nth_mem [OF assms(2)] by simp
  from handlers_safe [OF this assms(1)] assms(1) t show ?thesis by (cases w) (simp_all add: safe_def)
qed

lemma replay_healthy:
  "healthy E entries s \<Longrightarrow> \<forall>e\<in>set trace. fst e < length (stream_tasks E) \<Longrightarrow> healthy E entries (replay E trace s)"
  by (induction trace arbitrary: s) (auto simp: replay_def do_work_healthy)

text \<open>
  A family only one stream writes is what that stream's messages make of it: the work of the other
  tasks can be left out.
\<close>

definition sole_writer :: "nat \<Rightarrow> string \<Rightarrow> ('db, 'j, 'f) env \<Rightarrow> bool" where
  "sole_writer i cf E \<longleftrightarrow> i < length (stream_tasks E)
     \<and> (\<forall>j<length (stream_tasks E). j \<noteq> i \<longrightarrow> cf \<notin> set (footprint (fst (fst (stream_tasks E ! j)))))"

lemma sole_writers:
  "sole_writer 0 CF_TICK E" "sole_writer 0 CF_META E" "sole_writer 1 CF_TX E" "sole_writer 1 CF_TX_BY_TICK E"
  "sole_writer 1 CF_TX_BY_ENTITY E" "sole_writer 2 CF_ENTITY E" "sole_writer 3 CF_COMPUTORS E"
  by (simp_all add: sole_writer_def stream_tasks_def durable_names_def handlers_def footprint_def cf_defs
      less_Suc_eq numeral_eq_Suc all_conj_distrib)

section \<open>Transactions after catch-up\<close>

text \<open>The message of a stream that a lookup by hash finds: the last one with that hash.\<close>

definition message_hash :: "('db, 'j, 'f) env \<Rightarrow> bytes \<Rightarrow> bytes option" where
  "message_hash E payload = map_option (hash_key (ext E)) (de_tx (serde E) payload)"

definition latest :: "('db, 'j, 'f) env \<Rightarrow> bytes \<Rightarrow> ('m \<times> bytes) list \<Rightarrow> bytes option" where
  "latest E hash ms = fold (\<lambda>m found. if message_hash E (snd m) = Some hash then Some (snd m) else found) ms None"

lemma latest_append: "latest E hash (ms @ [m])
    = (if message_hash E (snd m) = Some hash then Some (snd m) else latest E hash ms)"
  by (simp add: latest_def)

lemma latest_found: "m \<in> set ms \<Longrightarrow> message_hash E (snd m) = Some hash
    \<Longrightarrow> \<exists>m'\<in>set ms. message_hash E (snd m') = Some hash \<and> latest E hash ms = Some (snd m')"
  by (induction ms rule: rev_induct) (auto simp: latest_append)

lemma transaction_work:
  assumes "healthy E entries s"
  shows "map_of (entries (storage (snd (index_transaction E b s))) CF_TX) hash
    = (if message_hash E b = Some hash then Some b else map_of (entries (storage s) CF_TX) hash)"
proof (cases "de_tx (serde E) b")
  case None
  then show ?thesis by (simp add: index_transaction_def of_json_def message_hash_def)
next
  case (Some tx)
  obtain i s1 where "next_tx_index (tx_tick tx) s = (i, s1)" by fastforce
  from index_transaction_effect [OF assms Some this] obtain s' where
    "index_transaction E b s = (Ok (), s')"
    "map_of (entries (storage s') CF_TX) = (map_of (entries (storage s) CF_TX))(hash_key (ext E) tx \<mapsto> b)"
    by metis
  with Some show ?thesis by (simp add: message_hash_def)
qed

lemma replay_transactions:
  assumes "healthy E entries s" "\<forall>e\<in>set trace. fst e < length (stream_tasks E)"
  shows "map_of (entries (storage (replay E trace s)) CF_TX) hash
    = (case latest E hash (handled_by 1 trace) of Some p \<Rightarrow> Some p | None \<Rightarrow> map_of (entries (storage s) CF_TX) hash)"
  using assms(2)
proof (induction trace rule: rev_induct)
  case Nil
  then show ?case by (simp add: handled_by_def latest_def)
next
  case (snoc e trace)
  obtain i w where e: "e = (i, w)" by fastforce
  let ?s = "replay E trace s"
  have i: "i < length (stream_tasks E)" and h: "healthy E entries ?s"
    using snoc.prems e assms(1) by (auto intro: replay_healthy)
  have handled: "handled_by 1 (trace @ [e]) = handled_by 1 trace @ (if i = 1 then works [w] else [])"
    using handled_by_append [of 1 trace i "[w]"] by (simp add: e eq_commute [of 1])
  have step: "replay E (trace @ [e]) s = do_work (stream_tasks E ! i) w ?s" by (simp add: replay_def e)
  show ?case
  proof (cases "i = 1")
    case False
    then have "CF_TX \<notin> set (footprint (fst (fst (stream_tasks E ! i))))"
      using sole_writers(3) [of E] i by (simp add: sole_writer_def)
    with False handled step i snoc h show ?thesis
      by (simp add: do_work_footprint [OF healthyD(1) [OF h] i])
  next
    case True
    have t: "stream_tasks E ! 1 = ((''QONDUIT_TX'', ''qonduit-processor-tx''), index_transaction E, LagTx)"
      by (simp add: stream_tasks_def durable_names_def handlers_def)
    show ?thesis
    proof (cases w)
      case (Handled m)
      with True t handled step snoc transaction_work [OF h, of "snd m" hash] show ?thesis
        by (simp add: latest_append)
    qed (use True t handled step snoc in \<open>simp add: update_pipeline_def\<close>)
  qed
qed



end
