(* ===== verification/Backfill_Tasks.thy ===== *)
theory Backfill_Tasks
  imports Backfill_Run
begin

text \<open>
  \<^verbatim>\<open>crates/ingestion/src/backfill.rs\<close> as the tasks it spawns: the tick workers, the transaction
  workers, the progress reporter and \<^verbatim>\<open>run\<close> itself, which waits for them.  They run concurrently on the
  atomic counters, the pipeline state, the peer manager (behind a lock) and the NATS connection.
  Every task is a state machine whose steps touch what is shared at most once: one counter update,
  one call of the peer manager, one publish.  An execution is a list of events that says which task
  moves next and what its environment does, so the theorems over all lists are theorems over all
  interleavings.  What a step does to the window of a connection is what theory \<open>Backfill\<close> defines.
\<close>

section \<open>What the tasks share\<close>

record 'n commons =
  cm_client :: backfill_client
  cm_peers :: peers
  cm_nats :: 'n

datatype counter_op = AddCompleted | AddDiscovered | AddFailed | AddTxs | MaxIndexed u32

text \<open>One \<^verbatim>\<open>fetch_add\<close> or \<^verbatim>\<open>fetch_max\<close>.\<close>

fun perform :: "counter_op \<Rightarrow> backfill_client \<Rightarrow> backfill_client" where
  "perform AddCompleted b = b\<lparr>bc_shared := (bc_shared b)\<lparr>ticks_completed := ticks_completed (bc_shared b) + 1\<rparr>\<rparr>"
| "perform AddDiscovered b = b\<lparr>bc_shared := (bc_shared b)\<lparr>ticks_discovered := ticks_discovered (bc_shared b) + 1\<rparr>\<rparr>"
| "perform AddFailed b = b\<lparr>bc_shared := failed_one (bc_shared b)\<rparr>"
| "perform AddTxs b = b\<lparr>bc_shared := (bc_shared b)\<lparr>txs_discovered := txs_discovered (bc_shared b) + 1\<rparr>\<rparr>"
| "perform (MaxIndexed t) b =
     b\<lparr>bc_pipeline := (bc_pipeline b)\<lparr>indexed_tick := max (indexed_tick (bc_pipeline b)) t\<rparr>\<rparr>"

abbreviation on_client :: "(backfill_client \<Rightarrow> backfill_client) \<Rightarrow> ('n, 'z) commons_scheme \<Rightarrow> ('n, 'z) commons_scheme" where
  "on_client f g \<equiv> g\<lparr>cm_client := f (cm_client g)\<rparr>"

abbreviation on_peers :: "(peers \<Rightarrow> peers) \<Rightarrow> ('n, 'z) commons_scheme \<Rightarrow> ('n, 'z) commons_scheme" where
  "on_peers f g \<equiv> g\<lparr>cm_peers := f (cm_peers g)\<rparr>"

section \<open>A tick worker\<close>

text \<open>
  \<open>left\<close> counts the peers \<^verbatim>\<open>connect_and_process\<close> may still try and \<open>a\<close> is the peer of the connection;
  \<open>epoch\<close> is the one the connection started with.  A worker that publishes or counts knows how it
  goes on: it refills its window, reads the next packet, or gives the connection up.
\<close>

datatype after = Refill | Resume | Bail

datatype 's tick_task =
    Choosing nat
  | Connecting nat socket_addr
  | Merging nat socket_addr "bytes list" 's
  | Crediting nat socket_addr 's
  | Asking nat socket_addr 's
  | Reading nat socket_addr u16 "'s window"
  | Publishing nat socket_addr u16 "'s window" "u8 \<times> bytes \<times> u16" "counter_op list" "counter_op list" after
  | Counting nat socket_addr u16 "'s window" "counter_op list" after
  | Blaming nat socket_addr
  | Finished u32
  | Crashed panic

text \<open>What the environment decides in a step: the clock, the draws, the connection and the timeout.\<close>

record 's tick_input = "'s attempt" +
  ti_rand :: "nat \<Rightarrow> u32"
  ti_elapsed :: bool

definition new_window :: "u32 \<Rightarrow> 's \<Rightarrow> 's window" where
  "new_window current_tick stream = \<lparr>wk_stream = stream, next_tick_to_request = current_tick, expected = [],
     consecutive_failures = 0, skip_size = FAILURE_SKIP_INITIAL, drawn = 0\<rparr>"

text \<open>Fill the window, then read; a send that fails ends the connection.\<close>

definition refill :: "'s tcp \<Rightarrow> 's tick_input \<Rightarrow> u32 \<Rightarrow> nat \<Rightarrow> socket_addr \<Rightarrow> u16 \<Rightarrow> 's window \<Rightarrow> 's tick_task" where
  "refill T inp worker_end left a epoch w =
     (case fill_pipeline T (ti_rand inp) worker_end w of
        (Ok _, w) \<Rightarrow> Reading left a epoch w
      | (Err e, w) \<Rightarrow> Blaming left a
      | (Panic p, w) \<Rightarrow> Crashed p)"

text \<open>A packet, up to the first shared effect it has.\<close>

definition on_read :: "nat \<Rightarrow> socket_addr \<Rightarrow> u16 \<Rightarrow> packet \<Rightarrow> 's window \<Rightarrow> 's tick_task" where
  "on_read left a epoch pkt w =
     (case pkt of (ty, d, payload) \<Rightarrow>
       if ty = 8
       then (case remove_match d (expected w) of
               None \<Rightarrow> Reading left a epoch w
             | Some (_, rest) \<Rightarrow>
                 if length payload < 8 then Counting left a epoch (w\<lparr>expected := rest\<rparr>) [AddFailed] Refill
                 else Publishing left a epoch
                        (w\<lparr>expected := rest, consecutive_failures := 0, skip_size := FAILURE_SKIP_INITIAL\<rparr>)
                        (8, payload, u16_from_le (take 2 (drop 2 payload))) [AddDiscovered]
                        [AddCompleted, MaxIndexed (u32_from_le (take 4 (drop 4 payload)))] Refill)
       else if ty = 35 \<or> ty = 54
       then (case remove_match d (expected w) of
               None \<Rightarrow> Reading left a epoch w
             | Some (TransactionEnd _ _, rest) \<Rightarrow> Reading left a epoch (w\<lparr>expected := rest\<rparr>)
             | Some (TickDataReq _ _, rest) \<Rightarrow>
                 Counting left a epoch (w\<lparr>expected := rest, consecutive_failures := consecutive_failures w + 1\<rparr>)
                   [AddFailed] Refill)
       else if ty = 24 then Publishing left a epoch w (24, payload, epoch) [AddTxs] [] Resume
       else Reading left a epoch w)"

definition tick_reading :: "'s tcp \<Rightarrow> 's tick_input \<Rightarrow> nat \<Rightarrow> socket_addr \<Rightarrow> u16 \<Rightarrow> 's window \<Rightarrow> 's tick_task" where
  "tick_reading T inp left a epoch w =
     (if expected w = [] then Finished (next_tick_to_request w)
      else if ti_elapsed inp
      then Counting left a epoch w (replicate (length (filter is_tick_data (expected w))) AddFailed) Bail
      else case read_packet T (wk_stream w) of
             Err e \<Rightarrow> Blaming left a
           | Panic p \<Rightarrow> Crashed p
           | Ok (pkt, stream) \<Rightarrow> on_read left a epoch pkt (w\<lparr>wk_stream := stream\<rparr>))"

fun tick_step :: "'s tcp \<Rightarrow> ext \<Rightarrow> 'n nats \<Rightarrow> u32 \<times> u32 \<Rightarrow> 's tick_input \<Rightarrow> 's tick_task \<Rightarrow> ('n, 'z) commons_scheme
    \<Rightarrow> 's tick_task \<times> ('n, 'z) commons_scheme" where
  "tick_step T X N rng inp (Choosing left) g =
     (if left = 0 then (Choosing MAX_PEERS_PER_WORKER, g)
      else case best_peer (at_now inp) (at_pick inp) (cm_peers g) of
             None \<Rightarrow> (Choosing MAX_PEERS_PER_WORKER, g)
           | Some a \<Rightarrow> (Connecting (left - 1) a, g))"
| "tick_step T X N rng inp (Connecting left a) g =
     (case open_connection T inp of
        None \<Rightarrow> (Connecting left a, g)
      | Some (Err e) \<Rightarrow> (Blaming left a, g)
      | Some (Panic p) \<Rightarrow> (Crashed p, g)
      | Some (Ok (remote_peers, stream)) \<Rightarrow> (Merging left a remote_peers stream, g))"
| "tick_step T X N rng inp (Merging left a remote_peers stream) g =
     (Crediting left a stream, on_peers (add_peers_from_exchange (map quad remote_peers)) g)"
| "tick_step T X N rng inp (Crediting left a stream) g =
     (Asking left a stream, on_peers (mark_success (at_now inp) a) g)"
| "tick_step T X N rng inp (Asking left a stream) g =
     (case connection_epoch T inp (bc_pipeline (cm_client g)) stream of
        None \<Rightarrow> (Asking left a stream, g)
      | Some (Err e) \<Rightarrow> (Blaming left a, g)
      | Some (Panic p) \<Rightarrow> (Crashed p, g)
      | Some (Ok (epoch, stream)) \<Rightarrow> (refill T inp (snd rng) left a epoch (new_window (fst rng) stream), g))"
| "tick_step T X N rng inp (Reading left a epoch w) g = (tick_reading T inp left a epoch w, g)"
| "tick_step T X N rng inp (Publishing left a epoch w (ty, payload, pub_epoch) on_ok ops next) g =
     (case backfill_publish X N ty payload pub_epoch (cm_nats g) of
        (Ok _, n) \<Rightarrow> (Counting left a epoch w (on_ok @ ops) next, g\<lparr>cm_nats := n\<rparr>)
      | (Err e, n) \<Rightarrow> (Counting left a epoch w ops next, g\<lparr>cm_nats := n\<rparr>)
      | (Panic p, n) \<Rightarrow> (Crashed p, g\<lparr>cm_nats := n\<rparr>))"
| "tick_step T X N rng inp (Counting left a epoch w (op # ops) next) g =
     (Counting left a epoch w ops next, on_client (perform op) g)"
| "tick_step T X N rng inp (Counting left a epoch w [] next) g =
     (case next of
        Refill \<Rightarrow> refill T inp (snd rng) left a epoch w
      | Resume \<Rightarrow> Reading left a epoch w
      | Bail \<Rightarrow> Blaming left a, g)"
| "tick_step T X N rng inp (Blaming left a) g = (Choosing left, on_peers (mark_failure (at_now inp) a) g)"
| "tick_step T X N rng inp (Finished t) g = (Finished t, g)"
| "tick_step T X N rng inp (Crashed p) g = (Crashed p, g)"

fun tick_over :: "'s tick_task \<Rightarrow> bool" where
  "tick_over (Finished t) = True"
| "tick_over (Crashed p) = True"
| "tick_over _ = False"

section \<open>A transaction worker\<close>

datatype 's tx_task =
    TxChoosing u32
  | TxConnecting u32 socket_addr
  | TxAsking u32 socket_addr 's
  | TxSending u32 socket_addr u16 u32 's
  | TxReading u32 socket_addr u16 u32 's
  | TxPublishing u32 socket_addr u16 u32 's transaction
  | TxCounting u32 socket_addr u16 u32 's
  | TxBlaming u32 socket_addr
  | TxDone u32
  | TxCrashed panic

record 's tx_input = "'s attempt" +
  xi_rand :: u32
  xi_lost :: "nat option"

definition tx_reading :: "'s tcp \<Rightarrow> ext \<Rightarrow> 's tx_input \<Rightarrow> u32 \<Rightarrow> socket_addr \<Rightarrow> u16 \<Rightarrow> u32 \<Rightarrow> 's \<Rightarrow> 's tx_task" where
  "tx_reading T X inp current a epoch tick stream =
     (case xi_lost inp of
        Some lost \<Rightarrow> TxSending current a epoch (tick + 1) (drop_read T lost stream)
      | None \<Rightarrow>
          (case read_packet T stream of
             Err e \<Rightarrow> TxBlaming current a
           | Panic p \<Rightarrow> TxCrashed p
           | Ok ((ty, d, payload), stream) \<Rightarrow>
               if ty = 24
               then (case decode_transaction X payload of
                       Err e \<Rightarrow> TxBlaming current a
                     | Panic p \<Rightarrow> TxCrashed p
                     | Ok tx \<Rightarrow> TxPublishing current a epoch tick stream tx)
               else if ty = 35 \<or> ty = 54 then TxSending current a epoch (tick + 1) stream
               else TxReading current a epoch tick stream))"

fun tx_step :: "'s tcp \<Rightarrow> ext \<Rightarrow> 'n nats \<Rightarrow> u32 \<times> u32 \<Rightarrow> 's tx_input \<Rightarrow> 's tx_task \<Rightarrow> ('n, 'z) commons_scheme
    \<Rightarrow> 's tx_task \<times> ('n, 'z) commons_scheme" where
  "tx_step T X N rng inp (TxChoosing current) g =
     (if \<not> current < snd rng then (TxDone current, g)
      else case best_peer (at_now inp) (at_pick inp) (cm_peers g) of
             None \<Rightarrow> (TxDone current, g)
           | Some a \<Rightarrow> (TxConnecting current a, g))"
| "tx_step T X N rng inp (TxConnecting current a) g =
     (case open_connection T inp of
        None \<Rightarrow> (TxConnecting current a, g)
      | Some (Err e) \<Rightarrow> (TxBlaming current a, g)
      | Some (Panic p) \<Rightarrow> (TxCrashed p, g)
      | Some (Ok (remote_peers, stream)) \<Rightarrow> (TxAsking current a stream, g))"
| "tx_step T X N rng inp (TxAsking current a stream) g =
     (case connection_epoch T inp (bc_pipeline (cm_client g)) stream of
        None \<Rightarrow> (TxAsking current a stream, g)
      | Some (Err e) \<Rightarrow> (TxBlaming current a, g)
      | Some (Panic p) \<Rightarrow> (TxCrashed p, g)
      | Some (Ok (epoch, stream)) \<Rightarrow> (TxSending current a epoch current stream, g))"
| "tx_step T X N rng inp (TxSending current a epoch tick stream) g =
     (if \<not> tick < min (snd rng) (current + 1000) then (TxChoosing tick, g)
      else case send_raw T stream 29 (u32_to_le tick) (max (xi_rand inp) 1) of
             Err e \<Rightarrow> (TxBlaming current a, g)
           | Panic p \<Rightarrow> (TxCrashed p, g)
           | Ok stream \<Rightarrow> (TxReading current a epoch tick stream, g))"
| "tx_step T X N rng inp (TxReading current a epoch tick stream) g =
     (tx_reading T X inp current a epoch tick stream, g)"
| "tx_step T X N rng inp (TxPublishing current a epoch tick stream tx) g =
     (case publish_tx N True epoch tx (cm_nats g) of
        (Ok _, n) \<Rightarrow> (TxCounting current a epoch tick stream, g\<lparr>cm_nats := n\<rparr>)
      | (Err e, n) \<Rightarrow> (TxReading current a epoch tick stream, g\<lparr>cm_nats := n\<rparr>)
      | (Panic p, n) \<Rightarrow> (TxCrashed p, g\<lparr>cm_nats := n\<rparr>))"
| "tx_step T X N rng inp (TxCounting current a epoch tick stream) g =
     (TxReading current a epoch tick stream, on_client (perform AddTxs) g)"
| "tx_step T X N rng inp (TxBlaming current a) g =
     (TxChoosing current, on_peers (mark_failure (at_now inp) a) g)"
| "tx_step T X N rng inp (TxDone t) g = (TxDone t, g)"
| "tx_step T X N rng inp (TxCrashed p) g = (TxCrashed p, g)"

fun tx_over :: "'s tx_task \<Rightarrow> bool" where
  "tx_over (TxDone t) = True"
| "tx_over (TxCrashed p) = True"
| "tx_over _ = False"

section \<open>The reporter and the run\<close>

text \<open>A report loads the four counters one after the other, then stores them one after the other.\<close>

datatype counter = TicksCompleted | TicksFailed | TxsDiscovered | TicksDiscovered

datatype report = Loading "counter list" backfill_shared | Storing "counter list" backfill_shared

fun load_counter :: "counter \<Rightarrow> backfill_shared \<Rightarrow> backfill_shared \<Rightarrow> backfill_shared" where
  "load_counter TicksCompleted sh snap = snap\<lparr>ticks_completed := ticks_completed sh\<rparr>"
| "load_counter TicksFailed sh snap = snap\<lparr>ticks_failed := ticks_failed sh\<rparr>"
| "load_counter TxsDiscovered sh snap = snap\<lparr>txs_discovered := txs_discovered sh\<rparr>"
| "load_counter TicksDiscovered sh snap = snap\<lparr>ticks_discovered := ticks_discovered sh\<rparr>"

fun store_counter :: "counter \<Rightarrow> backfill_shared \<Rightarrow> pipeline_state \<Rightarrow> pipeline_state" where
  "store_counter TicksCompleted snap p = p\<lparr>backfill_ticks_completed := ticks_completed snap\<rparr>"
| "store_counter TicksFailed snap p = p\<lparr>backfill_ticks_failed := ticks_failed snap\<rparr>"
| "store_counter TxsDiscovered snap p = p\<lparr>backfill_txs_discovered := txs_discovered snap\<rparr>"
| "store_counter TicksDiscovered snap p = p\<lparr>backfill_ticks_discovered := ticks_discovered snap\<rparr>"

definition load_order :: "counter list" where
  "load_order = [TicksCompleted, TicksFailed, TxsDiscovered, TicksDiscovered]"

definition store_order :: "counter list" where
  "store_order = [TicksCompleted, TxsDiscovered, TicksDiscovered, TicksFailed]"

definition new_report :: report where
  "new_report = Loading load_order new_shared"

text \<open>\<open>None\<close>: the report is complete.\<close>

fun report_step :: "report \<Rightarrow> backfill_client \<Rightarrow> report option \<times> backfill_client" where
  "report_step (Loading (c # cs) snap) b = (Some (Loading cs (load_counter c (bc_shared b) snap)), b)"
| "report_step (Loading [] snap) b = (Some (Storing store_order snap), b)"
| "report_step (Storing (c # cs) snap) b =
     (Some (Storing cs snap), b\<lparr>bc_pipeline := store_counter c snap (bc_pipeline b)\<rparr>)"
| "report_step (Storing [] snap) b = (None, b)"

text \<open>
  \<^verbatim>\<open>abort\<close> does not wait: a reporter in the middle of a report goes on to the end of it, and one that
  waits for its next interval ends.
\<close>

datatype reporter = Waiting | Reporting report | Stopped

datatype main_task = JoinTicks | JoinTxs | Closing | FinalReport report | Returned

record ('s, 'n) backfill_world = "'n commons" +
  bw_ranges :: "(u32 \<times> u32) list"
  bw_ticks :: "'s tick_task list"
  bw_tx_ranges :: "(u32 \<times> u32) list"
  bw_txs :: "'s tx_task list"
  bw_reporter :: reporter
  bw_aborted :: bool
  bw_main :: main_task

definition reporter_step :: "('s, 'n) backfill_world \<Rightarrow> ('s, 'n) backfill_world" where
  "reporter_step g =
     (case bw_reporter g of
        Stopped \<Rightarrow> g
      | Waiting \<Rightarrow> g\<lparr>bw_reporter := (if bw_aborted g then Stopped else Reporting new_report)\<rparr>
      | Reporting r \<Rightarrow>
          (case report_step r (cm_client g) of
             (Some r, b) \<Rightarrow> g\<lparr>cm_client := b, bw_reporter := Reporting r\<rparr>
           | (None, b) \<Rightarrow> g\<lparr>cm_client := b, bw_reporter := Waiting\<rparr>))"

text \<open>\<^verbatim>\<open>run\<close> from the joining of the workers on.\<close>

fun main_step :: "backfill_config \<Rightarrow> ('s, 'n) backfill_world \<Rightarrow> main_task \<Rightarrow> ('s, 'n) backfill_world" where
  "main_step cfg g JoinTicks =
     (if list_all tick_over (bw_ticks g)
      then let b = cm_client g;
               ranges = tx_ranges (workers cfg) (ticks_discovered (bc_shared b)) (bc_start b) (bc_end b)
           in g\<lparr>bw_aborted := True, bw_tx_ranges := ranges, bw_txs := map (TxChoosing \<circ> fst) ranges, bw_main := JoinTxs\<rparr>
      else g)"
| "main_step cfg g JoinTxs =
     (if list_all tx_over (bw_txs g)
      then on_client (\<lambda>b. b\<lparr>bc_running := False\<rparr>) (g\<lparr>bw_main := Closing\<rparr>) else g)"
| "main_step cfg g Closing =
     on_client (\<lambda>b. b\<lparr>bc_pipeline := (bc_pipeline b)\<lparr>backfill_running := False\<rparr>\<rparr>) (g\<lparr>bw_main := FinalReport new_report\<rparr>)"
| "main_step cfg g (FinalReport r) =
     (case report_step r (cm_client g) of
        (Some r, b) \<Rightarrow> g\<lparr>cm_client := b, bw_main := FinalReport r\<rparr>
      | (None, b) \<Rightarrow> g\<lparr>cm_client := b, bw_main := Returned\<rparr>)"
| "main_step cfg g Returned = g"

section \<open>Executions\<close>

text \<open>\<open>Live\<close> is the live client, which moves the epoch and the indexed tick of the pipeline meanwhile.\<close>

datatype 's backfill_event =
    TickMoves nat "'s tick_input"
  | TxMoves nat "'s tx_input"
  | ReporterMoves
  | MainMoves
  | LiveMoves u16 u32

fun backfill_step :: "'s tcp \<Rightarrow> ext \<Rightarrow> 'n nats \<Rightarrow> backfill_config \<Rightarrow> 's backfill_event \<Rightarrow> ('s, 'n) backfill_world
    \<Rightarrow> ('s, 'n) backfill_world" where
  "backfill_step T X N cfg (TickMoves i inp) g =
     (if i < length (bw_ticks g)
      then let (t, g) = tick_step T X N (bw_ranges g ! i) inp (bw_ticks g ! i) g in g\<lparr>bw_ticks := (bw_ticks g)[i := t]\<rparr>
      else g)"
| "backfill_step T X N cfg (TxMoves i inp) g =
     (if i < length (bw_txs g)
      then let (t, g) = tx_step T X N (bw_tx_ranges g ! i) inp (bw_txs g ! i) g in g\<lparr>bw_txs := (bw_txs g)[i := t]\<rparr>
      else g)"
| "backfill_step T X N cfg ReporterMoves g = reporter_step g"
| "backfill_step T X N cfg MainMoves g = main_step cfg g (bw_main g)"
| "backfill_step T X N cfg (LiveMoves epoch tick) g =
     on_client (\<lambda>b. b\<lparr>bc_pipeline := (bc_pipeline b)\<lparr>node_epoch := epoch,
       indexed_tick := max (indexed_tick (bc_pipeline b)) tick\<rparr>\<rparr>) g"

text \<open>The state in which the workers have just been spawned.\<close>

definition spawned :: "(u32 \<times> u32) list \<Rightarrow> backfill_client \<Rightarrow> peers \<Rightarrow> 'n \<Rightarrow> ('s, 'n) backfill_world" where
  "spawned ranges b ps n = \<lparr>cm_client = b, cm_peers = ps, cm_nats = n, bw_ranges = ranges,
     bw_ticks = map (\<lambda>_. Choosing MAX_PEERS_PER_WORKER) ranges, bw_tx_ranges = [], bw_txs = [],
     bw_reporter = Waiting, bw_aborted = False, bw_main = JoinTicks\<rparr>"

text \<open>
  \<^verbatim>\<open>BackfillClient::run\<close> up to there: the peers, the end of the range, the flags.  \<open>Inl\<close> is the early
  return, with an empty range or with the error.
\<close>

definition backfill_begin :: "'s tcp \<Rightarrow> backfill_config \<Rightarrow> (string list \<times> string list) outcome \<Rightarrow> (nat \<Rightarrow> 's attempt)
    \<Rightarrow> epoch_range list \<Rightarrow> pipeline_state \<Rightarrow> 'n \<Rightarrow> (unit outcome \<times> backfill_client + ('s, 'n) backfill_world) option" where
  "backfill_begin T cfg api atts ranges p n =
     (let ps = snd (bootstrap_from_api api (new_peer_manager (bootstrap_addrs cfg)))
      in case (if cfg_end_tick cfg = 0 then resolve_end_tick T atts ps else Some (Ok (cfg_end_tick cfg), ps)) of
           None \<Rightarrow> None
         | Some (resolved, ps) \<Rightarrow>
             Some (case run_prepare cfg ranges resolved (new_backfill p) of
                     (Ok [], b) \<Rightarrow> Inl (Ok (), b)
                   | (Ok parts, b) \<Rightarrow> Inr (spawned parts b ps n)
                   | (Err e, b) \<Rightarrow> Inl (Err e, b)
                   | (Panic x, b) \<Rightarrow> Inl (Panic x, b)))"

definition backfill_run :: "'s tcp \<Rightarrow> ext \<Rightarrow> 'n nats \<Rightarrow> backfill_config \<Rightarrow> ('s, 'n) backfill_world \<Rightarrow> 's backfill_event list
    \<Rightarrow> ('s, 'n) backfill_world" where
  "backfill_run T X N cfg g events = fold (backfill_step T X N cfg) events g"

end
