(* ===== verification/Backfill_Interleaved.thy ===== *)
theory Backfill_Interleaved
  imports Backfill_Tasks
begin

text \<open>
  What holds of the backfill in every interleaving of its tasks: the tick workers stay in their own
  ranges, a worker that finishes has worked through its range, the counters agree with what was
  published, and \<^verbatim>\<open>run\<close> passes through its phases in order and reports the totals.
\<close>

section \<open>The interface of an invariant\<close>

text \<open>
  An invariant of the whole state follows from what one task keeps: a property of the task at its
  range, and a property of the state that every step keeps under it.
\<close>

lemma backfill_run_append:
  "backfill_run T X N cfg g (es @ es') = backfill_run T X N cfg (backfill_run T X N cfg g es) es'"
  by (simp add: backfill_run_def)

lemma backfill_run_induct [consumes 0, case_names start step]:
  assumes "P g" and "\<And>g e. P g \<Longrightarrow> P (backfill_step T X N cfg e g)"
  shows "P (backfill_run T X N cfg g events)"
  using assms(1) unfolding backfill_run_def by (induction events arbitrary: g) (auto intro: assms(2))

lemma fill_new_window: "window_inv t worker_end (new_window t stream)"
  by (simp add: window_inv_def new_window_def FAILURE_SKIP_INITIAL_def FAILURE_SKIP_MAX_def)

text \<open>The steps that do not touch the tick workers.\<close>

lemma report_step_ticks [simp]:
  "bw_ticks (reporter_step g) = bw_ticks g" "bw_ranges (reporter_step g) = bw_ranges g"
  "bw_txs (reporter_step g) = bw_txs g" "bw_tx_ranges (reporter_step g) = bw_tx_ranges g"
  "cm_nats (reporter_step g) = cm_nats g" "cm_peers (reporter_step g) = cm_peers g"
  "bw_main (reporter_step g) = bw_main g" "bw_aborted (reporter_step g) = bw_aborted g"
  by (auto simp: reporter_step_def split: reporter.split prod.split option.split)

lemma main_step_ticks [simp]:
  "bw_ticks (main_step cfg g m) = bw_ticks g" "bw_ranges (main_step cfg g m) = bw_ranges g"
  "cm_nats (main_step cfg g m) = cm_nats g" "cm_peers (main_step cfg g m) = cm_peers g"
  "bw_reporter (main_step cfg g m) = bw_reporter g"
  by (cases m; auto simp: Let_def split: prod.split option.split)+

section \<open>The start\<close>

definition launched :: "backfill_client \<Rightarrow> bool" where
  "launched b \<longleftrightarrow> bc_running b \<and> backfill_running (bc_pipeline b) \<and> bc_shared b = new_shared"

lemma backfill_begin_spawned:
  assumes "backfill_begin T cfg api atts epochs p n = Some (Inr g)"
  obtains b ps where "g = spawned (partition_ticks (workers cfg) (bc_start b) (bc_end b)) b ps n" "launched b"
    "bc_start b < bc_end b"
proof -
  obtain r rs b ps resolved where "run_prepare cfg epochs resolved (new_backfill p) = (Ok (r # rs), b)"
    and g: "g = spawned (r # rs) b ps n"
    using assms by (auto simp: backfill_begin_def Let_def split: option.splits prod.splits outcome.splits list.splits)
  then have "r # rs = partition_ticks (workers cfg) (bc_start b) (bc_end b)" "launched b" "bc_start b < bc_end b"
    by (auto simp: run_prepare_def run_begin_def new_backfill_def launched_def Let_def
        split: outcome.splits if_splits)
  with g that show thesis by simp
qed

section \<open>Each worker in its range\<close>

fun tick_inv :: "u32 \<times> u32 \<Rightarrow> 's tick_task \<Rightarrow> bool" where
  "tick_inv rng (Reading left a epoch w) \<longleftrightarrow> window_inv (fst rng) (snd rng) w \<and> filled (snd rng) w"
| "tick_inv rng (Publishing left a epoch w msg on_ok ops next) \<longleftrightarrow>
     window_inv (fst rng) (snd rng) w \<and> (next = Resume \<longrightarrow> filled (snd rng) w)"
| "tick_inv rng (Counting left a epoch w ops next) \<longleftrightarrow>
     window_inv (fst rng) (snd rng) w \<and> (next = Resume \<longrightarrow> filled (snd rng) w)"
| "tick_inv rng (Finished tick) \<longleftrightarrow> snd rng \<le> tick"
| "tick_inv rng _ \<longleftrightarrow> True"

lemma refill_inv:
  assumes "window_inv (fst rng) (snd rng) w" "unat (snd rng) + 1000000 \<le> 2 ^ 32"
  shows "tick_inv rng (refill T inp (snd rng) left a epoch w)"
  using fill_pipeline_window [OF assms]
  by (auto simp: refill_def split: prod.split outcome.split)

lemma on_read_inv:
  assumes w: "window_inv (fst rng) (snd rng) w" and f: "filled (snd rng) w"
  shows "tick_inv rng (on_read left a epoch pkt w)"
proof -
  obtain ty d payload where pkt: "pkt = (ty, d, payload)" by (cases pkt)
  show ?thesis
  proof (cases "remove_match d (expected w)")
    case None
    then show ?thesis using w f by (simp add: on_read_def pkt)
  next
    case (Some p)
    then obtain e rest where rm: "remove_match d (expected w) = Some (e, rest)" by (cases p) auto
    note rem = removed_inv [OF w rm]
    obtain t d' where "e = TickDataReq t d'" using rem(3) by (cases e) (auto simp: is_tick_data_def)
    then show ?thesis
      using w f rm rem(1) window_inv_reset [OF rem(1)] by (simp add: on_read_def pkt)
  qed
qed

lemma tick_step_inv:
  assumes "tick_inv rng t" "unat (snd rng) + 1000000 \<le> 2 ^ 32" "tick_step T X N rng inp t g = (t', g')"
  shows "tick_inv rng t'"
  using assms(3,1)
proof (cases rule: tick_step.cases [of "(T, X, N, rng, inp, t, g)"])
  case (5 T' X' N' rng' inp' left a stream g'')
  then show ?thesis
    using assms by (auto intro!: refill_inv fill_new_window split: option.splits outcome.splits prod.splits)
next
  case (6 T' X' N' rng' inp' left a epoch w g'')
  then show ?thesis
    using assms by (auto simp: tick_reading_def filled_def PIPELINE_DEPTH_def
        intro!: on_read_inv [unfolded filled_def PIPELINE_DEPTH_def] split: outcome.splits prod.splits if_splits)
next
  case (9 T' X' N' rng' inp' left a epoch w nxt g'')
  then show ?thesis using assms by (cases nxt) (auto intro: refill_inv)
qed (auto split: option.splits outcome.splits prod.splits if_splits)

text \<open>A step leaves the rest of the state alone.\<close>

lemma tick_step_more: "tick_step T X N rng inp t g = (t', g') \<Longrightarrow> commons.more g' = commons.more g"
  by (cases rule: tick_step.cases [of "(T, X, N, rng, inp, t, g)"])
    (auto split: option.splits outcome.splits prod.splits if_splits)

lemma tx_step_more: "tx_step T X N rng inp t g = (t', g') \<Longrightarrow> commons.more g' = commons.more g"
  by (cases rule: tx_step.cases [of "(T, X, N, rng, inp, t, g)"])
    (auto split: option.splits outcome.splits prod.splits if_splits)

lemma same_tasks:
  assumes "commons.more g' = commons.more (g :: ('s, 'n) backfill_world)"
  shows "bw_ranges g' = bw_ranges g" "bw_ticks g' = bw_ticks g" "bw_tx_ranges g' = bw_tx_ranges g"
    "bw_txs g' = bw_txs g" "bw_reporter g' = bw_reporter g" "bw_aborted g' = bw_aborted g" "bw_main g' = bw_main g"
  using assms by (cases g; cases g'; simp)+

lemmas tick_step_tasks = same_tasks [OF tick_step_more]
lemmas tx_step_tasks = same_tasks [OF tx_step_more]

text \<open>
  Every worker in its range: the state of task \<open>i\<close> fits range \<open>i\<close>.
\<close>

definition workers_inv :: "('s, 'n) backfill_world \<Rightarrow> bool" where
  "workers_inv g \<longleftrightarrow> list_all2 tick_inv (bw_ranges g) (bw_ticks g)"

lemma workers_inv_step:
  assumes "workers_inv g" "\<forall>rng\<in>set (bw_ranges g). unat (snd rng) + 1000000 \<le> 2 ^ 32"
  shows "workers_inv (backfill_step T X N cfg e g) \<and> bw_ranges (backfill_step T X N cfg e g) = bw_ranges g"
proof (cases e)
  case (TickMoves i inp)
  show ?thesis
  proof (cases "i < length (bw_ticks g)")
    case True
    then have i: "i < length (bw_ranges g)" using assms(1) by (simp add: workers_inv_def list_all2_lengthD)
    obtain t g' where st: "tick_step T X N (bw_ranges g ! i) inp (bw_ticks g ! i) g = (t, g')" by fastforce
    have "tick_inv (bw_ranges g ! i) t"
      using tick_step_inv [OF _ _ st] assms i by (simp add: workers_inv_def list_all2_nthD)
    then show ?thesis
      using assms(1) i True tick_step_tasks [OF st]
      by (simp add: TickMoves st workers_inv_def list_all2_conv_all_nth nth_list_update)
  qed (use assms TickMoves in simp)
next
  case (TxMoves i inp)
  then show ?thesis
    using assms(1) by (auto simp: workers_inv_def tx_step_tasks split: prod.split)
qed (use assms in \<open>simp_all add: workers_inv_def\<close>)

lemma workers_inv_run:
  assumes "\<forall>rng\<in>set ranges. unat (snd rng) + 1000000 \<le> 2 ^ 32"
  shows "workers_inv (backfill_run T X N cfg (spawned ranges b ps n) events)
    \<and> bw_ranges (backfill_run T X N cfg (spawned ranges b ps n) events) = ranges"
proof (induction rule: backfill_run_induct)
  case start
  then show ?case by (simp add: workers_inv_def spawned_def list_all2_conv_all_nth)
qed (use assms(1) workers_inv_step in blast)

section \<open>No tick is in flight twice\<close>

fun in_flight_ticks :: "'s tick_task \<Rightarrow> u32 list" where
  "in_flight_ticks (Reading left a epoch w) = map req_tick (expected w)"
| "in_flight_ticks (Publishing left a epoch w msg on_ok ops next) = map req_tick (expected w)"
| "in_flight_ticks (Counting left a epoch w ops next) = map req_tick (expected w)"
| "in_flight_ticks _ = []"

lemma tick_inv_in_flight:
  assumes "tick_inv rng t"
  shows "distinct (in_flight_ticks t) \<and> length (in_flight_ticks t) \<le> 20
    \<and> set (in_flight_ticks t) \<subseteq> {tick. fst rng \<le> tick \<and> tick < snd rng}"
  using assms
  by (cases t) (auto simp: window_inv_def PIPELINE_DEPTH_def strict_sorted_iff)

lemma distinct_concat_parts:
  assumes "list_all2 (\<lambda>(a, b) xs. distinct xs \<and> set xs \<subseteq> {x :: u32. a \<le> x \<and> x < b}) ranges xss"
    and "distinct (concat (map (\<lambda>(a, b). [unat a..<unat b]) ranges))"
  shows "distinct (concat xss) \<and> unat ` set (concat xss) \<subseteq> set (concat (map (\<lambda>(a, b). [unat a..<unat b]) ranges))"
  using assms
proof (induction rule: list_all2_induct)
  case (Cons r ranges xs xss)
  obtain a b where r: "r = (a, b)" by (cases r)
  have xs: "distinct xs" "unat ` set xs \<subseteq> set [unat a..<unat b]"
    using Cons(1) by (auto simp: r word_less_nat_alt word_le_nat_alt)
  have IH: "distinct (concat xss)"
    "unat ` set (concat xss) \<subseteq> set (concat (map (\<lambda>(a, b). [unat a..<unat b]) ranges))"
    using Cons(3,4) by (simp_all add: r)
  have "set [unat a..<unat b] \<inter> set (concat (map (\<lambda>(a, b). [unat a..<unat b]) ranges)) = {}"
    using Cons(4) by (auto simp: r)
  then have "set xs \<inter> set (concat xss) = {}" using xs(2) IH(2) by blast
  then have "distinct (xs @ concat xss)" using xs(1) IH(1) by (simp only: distinct_append)
  moreover have "unat ` (set xs \<union> set (concat xss))
      \<subseteq> set [unat a..<unat b] \<union> set (concat (map (\<lambda>(a, b). [unat a..<unat b]) ranges))"
    using xs(2) IH(2) by blast
  ultimately show ?case by (simp only: r list.map concat.simps set_append case_prod_conv)
qed simp

lemma partition_bounds:
  assumes "(a, b) \<in> set (partition_ticks n start_tick end_tick)"
  shows "a < b \<and> b \<le> end_tick"
  using assms by (auto simp: partition_ticks_def worker_range_def Let_def split: if_splits)

text \<open>\<^verbatim>\<open>run\<close> leaves its first phase only when no tick worker is left, and none starts again.\<close>

lemma tick_over_stays: "tick_over t \<Longrightarrow> tick_step T X N rng inp t g = (t, g)"
  by (cases t) simp_all

lemma tick_inv_over:
  "tick_inv rng t \<Longrightarrow> tick_over t \<Longrightarrow> (\<exists>tick. t = Finished tick \<and> snd rng \<le> tick) \<or> (\<exists>p. t = Crashed p)"
  by (cases t) simp_all

lemma joined_ticks:
  assumes "bw_main g \<noteq> JoinTicks \<longrightarrow> list_all tick_over (bw_ticks g)"
  shows "bw_main (backfill_step T X N cfg e g) \<noteq> JoinTicks
    \<longrightarrow> list_all tick_over (bw_ticks (backfill_step T X N cfg e g))"
proof (cases e)
  case (TickMoves i inp)
  show ?thesis
  proof (cases "i < length (bw_ticks g) \<and> bw_main g \<noteq> JoinTicks")
    case True
    then have "tick_over (bw_ticks g ! i)" using assms by (simp add: list_all_length)
    then show ?thesis using assms True by (simp add: TickMoves tick_over_stays)
  qed (use assms in \<open>auto simp: TickMoves tick_step_tasks split: prod.split\<close>)
next
  case (TxMoves i inp)
  then show ?thesis using assms by (auto simp: tx_step_tasks split: prod.split)
next
  case MainMoves
  then show ?thesis
    using assms by (cases "bw_main g") (auto simp: Let_def split: prod.split option.split)
qed (use assms in simp_all)

text \<open>
  C22: the tick workers share the range without overlap in every interleaving: at any moment the
  ticks in flight on all their connections are different ticks of the range, at most twenty per
  worker, and when \<^verbatim>\<open>run\<close> goes on to the transactions, every worker that did not panic has worked
  through its part, and the parts are the whole range.
\<close>

theorem workers_share_range:
  assumes "backfill_begin T cfg api atts epochs p n = Some (Inr g0)" "g = backfill_run T X N cfg g0 events"
    and "start_tick = bc_start (cm_client g0)" "end_tick = bc_end (cm_client g0)"
    and "unat start_tick + max (workers cfg) 1 \<le> 2 ^ 32" "unat end_tick + 1000000 \<le> 2 ^ 32"
  shows "distinct (concat (map in_flight_ticks (bw_ticks g)))
    \<and> (\<forall>t\<in>set (concat (map in_flight_ticks (bw_ticks g))). start_tick \<le> t \<and> t < end_tick)
    \<and> (\<forall>task\<in>set (bw_ticks g). length (in_flight_ticks task) \<le> 20)
    \<and> (bw_main g \<noteq> JoinTicks \<longrightarrow>
         list_all2 (\<lambda>(first, last) task. (\<exists>t. task = Finished t \<and> last \<le> t) \<or> (\<exists>p. task = Crashed p)) (bw_ranges g) (bw_ticks g)
         \<and> concat (map (\<lambda>(first, last). [unat first..<unat last]) (bw_ranges g)) = [unat start_tick..<unat end_tick])"
proof -
  obtain b ps where g0: "g0 = spawned (partition_ticks (workers cfg) start_tick end_tick) b ps n"
    and "launched b" and le: "start_tick < end_tick"
    by (rule backfill_begin_spawned [OF assms(1)]) (simp add: assms(3,4) spawned_def)
  define ranges where "ranges = partition_ticks (workers cfg) start_tick end_tick"
  have cover: "concat (map (\<lambda>(a, b). [unat a..<unat b]) ranges) = [unat start_tick..<unat end_tick]"
    unfolding ranges_def by (rule partition_covers_once [OF le assms(5)])
  have "unat (snd r) + 1000000 \<le> 2 ^ 32" if "r \<in> set ranges" for r
    using partition_bounds [of "fst r" "snd r" "workers cfg" start_tick end_tick] that assms(6)
    by (simp add: word_le_nat_alt ranges_def)
  then have inv: "list_all2 tick_inv ranges (bw_ticks g)" and ranges: "bw_ranges g = ranges"
    using workers_inv_run [of ranges T X N cfg b ps n events] by (auto simp: assms(2) g0 ranges_def workers_inv_def)
  from inv have "list_all2 (\<lambda>(a, b) xs. distinct xs \<and> set xs \<subseteq> {x. a \<le> x \<and> x < b}) ranges (map in_flight_ticks (bw_ticks g))"
    unfolding list_all2_map2 by (rule list_all2_mono) (use tick_inv_in_flight in fastforce)
  note parts = distinct_concat_parts [OF this, unfolded cover, OF distinct_upt]
  have "start_tick \<le> t \<and> t < end_tick" if "t \<in> set (concat (map in_flight_ticks (bw_ticks g)))" for t
  proof -
    have "unat t \<in> set [unat start_tick..<unat end_tick]" using parts that by blast
    then show ?thesis by (simp add: word_less_nat_alt word_le_nat_alt)
  qed
  moreover have "length (in_flight_ticks task) \<le> 20" if task: "task \<in> set (bw_ticks g)" for task
  proof -
    obtain i where "i < length (bw_ticks g)" "task = bw_ticks g ! i" using task by (auto simp: in_set_conv_nth)
    then have "tick_inv (ranges ! i) task" using list_all2_nthD2 [OF inv] by simp
    then show ?thesis by (simp add: tick_inv_in_flight)
  qed
  moreover have "bw_main g \<noteq> JoinTicks \<longrightarrow> list_all tick_over (bw_ticks g)"
    unfolding assms(2) g0
    by (induction rule: backfill_run_induct) (simp add: spawned_def, rule joined_ticks)
  then have "list_all2 (\<lambda>(first, last) task. (\<exists>t. task = Finished t \<and> last \<le> t) \<or> (\<exists>p. task = Crashed p)) ranges (bw_ticks g)"
    if "bw_main g \<noteq> JoinTicks"
    using inv that by (simp add: list_all2_conv_all_nth list_all_length case_prod_beta tick_inv_over)
  ultimately show ?thesis using parts cover unfolding ranges by blast
qed

text \<open>A backfill of two ticks with one worker.\<close>

definition demo_config :: backfill_config where
  "demo_config = \<lparr>node_addr = Some (V4 1 2 3 4, 21841), bootstrap_addrs_cfg = [], workers = 1,
     cfg_start_tick = 7, cfg_end_tick = 9\<rparr>"

definition demo_peer_attempt :: "bytes \<Rightarrow> (bytes \<times> bytes) attempt" where
  "demo_peer_attempt bs = \<lparr>at_now = 1, at_pick = 0, at_connect = Ok (bs, []), at_exchange_rand = 0, at_exchange_clock = [False],
     at_exchange_lost = ([], []), at_info_rand = 0, at_info_clock = [False], at_info_lost = ([], [])\<rparr>"

definition demo_world :: "(bytes \<times> bytes, (string \<times> bytes) list) backfill_world" where
  "demo_world = spawned [(7, 9)]
     \<lparr>bc_running = True, bc_start = 7, bc_end = 9, bc_shared = new_shared,
       bc_pipeline = (new_pipeline 0)\<lparr>backfill_running := True, backfill_start_tick := 7, backfill_end_tick := 9\<rparr>\<rparr>
     [new_peer (V4 1 2 3 4, 21841)] []"

lemma demo_begin:
  "backfill_begin mem_tcp demo_config (Err (Other ''offline'')) (\<lambda>_. demo_peer_attempt []) [] (new_pipeline 0) [] = Some (Inr demo_world)"
  by (simp add: backfill_begin_def demo_config_def bootstrap_addrs_def new_peer_manager_def bootstrap_from_api_def
      run_prepare_def run_begin_def new_backfill_def resolve_start_tick_def partition_ticks_def worker_range_def
      chunk_size_def demo_world_def Let_def)

theorem workers_share_range_witness:
  "\<forall>events. distinct (concat (map in_flight_ticks
     (bw_ticks (backfill_run mem_tcp demo_ext (mem_nats (\<lambda>_. [])) demo_config demo_world events))))"
  using workers_share_range [OF demo_begin refl refl refl, of demo_ext "mem_nats (\<lambda>_. [])"]
  by (simp add: demo_world_def spawned_def demo_config_def)

section \<open>What is published is counted\<close>

definition on_kind :: "string \<Rightarrow> string \<times> bytes \<Rightarrow> bool" where
  "on_kind kind msg \<longleftrightarrow> (\<exists>epoch. fst msg = subject epoch kind)"

abbreviation sent :: "string \<Rightarrow> (string \<times> bytes) list \<Rightarrow> u64" where
  "sent kind msgs \<equiv> word_of_nat (length (filter (on_kind kind) msgs))"

lemma on_kind_tick_tx [simp]:
  "on_kind ''TICK'' (subject epoch ''TICK'', p)" "\<not> on_kind ''TX'' (subject epoch ''TICK'', p)"
  "on_kind ''TX'' (subject epoch ''TX'', p)" "\<not> on_kind ''TICK'' (subject epoch ''TX'', p)"
proof -
  have "List.last (subject e ''TICK'') \<noteq> List.last (subject e' ''TX'')" for e e' by (simp add: subject_def)
  then have "subject e ''TICK'' \<noteq> subject e' ''TX''" for e e' by metis
  then show "on_kind ''TICK'' (subject epoch ''TICK'', p)" "\<not> on_kind ''TX'' (subject epoch ''TICK'', p)"
    "on_kind ''TX'' (subject epoch ''TX'', p)" "\<not> on_kind ''TICK'' (subject epoch ''TX'', p)"
    by (auto simp: on_kind_def) metis
qed

lemma backfill_publish_stored:
  assumes N: "nats_healthy N stored J" and "backfill_publish X N ty payload epoch n = (r, n')" "ty = 8 \<or> ty = 24"
  shows "(\<exists>p. r = Ok () \<and> stored n' = stored n @ [(subject epoch (if ty = 8 then ''TICK'' else ''TX''), p)])
    \<or> (\<forall>u. r \<noteq> Ok u) \<and> stored n' = stored n"
proof (cases "ty = 8")
  case True
  show ?thesis
  proof (cases "decode_tick X payload")
    case (Ok tick)
    obtain n1 p where "publish_tick N True epoch tick n = (Ok (), n1)" "stored n1 = stored n @ [(subject epoch ''TICK'', p)]"
      unfolding publish_tick_def by (rule publish_event_healthy [OF N]) blast
    then show ?thesis using assms(2) True Ok by (simp add: backfill_publish_def liftS_def)
  qed (use assms(2) True in \<open>auto simp: backfill_publish_def liftS_def\<close>)
next
  case False
  show ?thesis
  proof (cases "decode_transaction X payload")
    case (Ok tx)
    obtain n1 where "publish_tx N True epoch tx n = (Ok (), n1)"
      "stored n1 = stored n @ [(subject epoch ''TX'', J (TxEvent tx))]" by (rule publish_tx_healthy [OF N])
    then show ?thesis using assms(2,3) False Ok by (auto simp: backfill_publish_def liftS_def)
  qed (use assms(2,3) False in \<open>auto simp: backfill_publish_def liftS_def\<close>)
qed

text \<open>The updates a worker has still to make, and the shape of a publish with its updates.\<close>

fun due :: "counter_op \<Rightarrow> 's tick_task \<Rightarrow> u64" where
  "due op (Counting left a epoch w ops next) = word_of_nat (count_list ops op)"
| "due op _ = 0"

fun pending_tx :: "'s tx_task \<Rightarrow> u64" where
  "pending_tx (TxCounting current a epoch tick stream) = 1"
| "pending_tx _ = 0"

fun shaped :: "'s tick_task \<Rightarrow> bool" where
  "shaped (Publishing left a epoch w (ty, payload, pub_epoch) on_ok ops next) \<longleftrightarrow>
     (ty = 8 \<and> on_ok = [AddDiscovered] \<or> ty = 24 \<and> on_ok = [AddTxs])
     \<and> count_list ops AddDiscovered = 0 \<and> count_list ops AddTxs = 0"
| "shaped _ \<longleftrightarrow> True"

abbreviation discovered :: "('n, 'z) commons_scheme \<Rightarrow> u64" where
  "discovered g \<equiv> ticks_discovered (bc_shared (cm_client g))"

abbreviation found_txs :: "('n, 'z) commons_scheme \<Rightarrow> u64" where
  "found_txs g \<equiv> txs_discovered (bc_shared (cm_client g))"

lemma refill_shape [simp]:
  "shaped (refill T inp e left a epoch w)" "due op (refill T inp e left a epoch w) = 0"
  by (auto simp: refill_def split: prod.split outcome.split)

lemma on_read_shape [simp]:
  "shaped (on_read left a epoch pkt w)" "due AddDiscovered (on_read left a epoch pkt w) = 0"
  "due AddTxs (on_read left a epoch pkt w) = 0"
  by (auto simp: on_read_def split: prod.split option.split expected_response.split)

lemma tick_reading_shape [simp]:
  "shaped (tick_reading T inp left a epoch w)" "due AddDiscovered (tick_reading T inp left a epoch w) = 0"
  "due AddTxs (tick_reading T inp left a epoch w) = 0"
  by (auto simp: tick_reading_def count_notin split: outcome.split prod.split)

text \<open>One step of a worker: what it stores and what it counts, now or later.\<close>

lemma tick_step_counts:
  assumes N: "nats_healthy N stored J" and "shaped t" and st: "tick_step T X N rng inp t g = (t', g')"
  shows "shaped t' \<and> (\<exists>new. stored (cm_nats g') = stored (cm_nats g) @ new
    \<and> discovered g' + due AddDiscovered t' = discovered g + due AddDiscovered t + sent ''TICK'' new
    \<and> found_txs g' + due AddTxs t' = found_txs g + due AddTxs t + sent ''TX'' new)"
proof (cases rule: tick_step.cases [of "(T, X, N, rng, inp, t, g)"])
  case (7 T' X' N' rng' inp' left a epoch w ty payload pub_epoch on_ok ops nxt g'')
  obtain r n' where p: "backfill_publish X N ty payload pub_epoch (cm_nats g) = (r, n')" by fastforce
  have ty: "ty = 8 \<and> on_ok = [AddDiscovered] \<or> ty = 24 \<and> on_ok = [AddTxs]"
    "count_list ops AddDiscovered = 0" "count_list ops AddTxs = 0"
    using assms(2) 7 by auto
  then have "ty = 8 \<or> ty = 24" by blast
  from backfill_publish_stored [OF N p this] consider
    m where "r = Ok ()" "stored n' = stored (cm_nats g) @ [(subject pub_epoch (if ty = 8 then ''TICK'' else ''TX''), m)]"
    | "\<forall>u. r \<noteq> Ok u" "stored n' = stored (cm_nats g)" by blast
  then show ?thesis
  proof cases
    case 1
    then show ?thesis using 7 st p ty by auto
  next
    case 2
    then show ?thesis using 7 st p ty by (cases r) auto
  qed
next
  case (8 T' X' N' rng' inp' left a epoch w op ops nxt g'')
  then show ?thesis using st by (cases op) (auto simp: algebra_simps)
next
  case (9 T' X' N' rng' inp' left a epoch w nxt g'')
  then show ?thesis using st by (cases nxt) auto
qed (use st assms(2) in \<open>auto split: option.splits outcome.splits prod.splits if_splits\<close>)

lemma tx_step_counts:
  assumes N: "nats_healthy N stored J" and st: "tx_step T X N rng inp t g = (t', g')"
  shows "\<exists>new. stored (cm_nats g') = stored (cm_nats g) @ new \<and> discovered g' = discovered g
    \<and> filter (on_kind ''TICK'') new = [] \<and> found_txs g' + pending_tx t' = found_txs g + pending_tx t + sent ''TX'' new"
proof (cases rule: tx_step.cases [of "(T, X, N, rng, inp, t, g)"])
  case (5 T' X' N' rng' inp' current a epoch tick stream g'')
  then show ?thesis
    using st by (auto simp: tx_reading_def split: option.splits outcome.splits prod.splits if_splits)
next
  case (6 T' X' N' rng' inp' current a epoch tick stream tx g'')
  obtain n1 where "publish_tx N True epoch tx (cm_nats g) = (Ok (), n1)"
    "stored n1 = stored (cm_nats g) @ [(subject epoch ''TX'', J (TxEvent tx))]" by (rule publish_tx_healthy [OF N])
  then show ?thesis using 6 st by auto
qed (use st in \<open>auto split: option.splits outcome.splits prod.splits if_splits\<close>)

text \<open>The sum over all tasks when one of them moves.\<close>

lemma sum_list_move:
  fixes f :: "'a \<Rightarrow> u64"
  assumes "i < length xs"
  shows "sum_list (map f (xs[i := y])) = sum_list (map f xs) - f (xs ! i) + f y"
  using assms by (induction xs arbitrary: i) (auto simp: nth_Cons split: nat.split)

text \<open>The order of the phases, and the flags in each of them.\<close>

definition phases :: "('s, 'n) backfill_world \<Rightarrow> bool" where
  "phases g \<longleftrightarrow>
     (bw_main g = JoinTicks \<longrightarrow> bw_txs g = [])
   \<and> (bw_main g \<noteq> JoinTicks \<longrightarrow> list_all tick_over (bw_ticks g) \<and> bw_aborted g)
   \<and> (bw_main g \<notin> {JoinTicks, JoinTxs} \<longrightarrow> list_all tx_over (bw_txs g))
   \<and> (bc_running (cm_client g) \<longleftrightarrow> bw_main g \<in> {JoinTicks, JoinTxs})
   \<and> (backfill_running (bc_pipeline (cm_client g)) \<longleftrightarrow> bw_main g \<in> {JoinTicks, JoinTxs, Closing})"

definition flags :: "backfill_client \<Rightarrow> bool \<times> bool" where
  "flags b = (bc_running b, backfill_running (bc_pipeline b))"

lemma perform_flags [simp]: "flags (perform op b) = flags b"
  by (cases op) (simp_all add: flags_def)

lemma tick_step_flags: "tick_step T X N rng inp t g = (t', g') \<Longrightarrow> flags (cm_client g') = flags (cm_client g)"
  by (cases rule: tick_step.cases [of "(T, X, N, rng, inp, t, g)"])
    (auto split: option.splits outcome.splits prod.splits if_splits)

lemma tx_step_flags: "tx_step T X N rng inp t g = (t', g') \<Longrightarrow> flags (cm_client g') = flags (cm_client g)"
  by (cases rule: tx_step.cases [of "(T, X, N, rng, inp, t, g)"])
    (auto simp: flags_def split: option.splits outcome.splits prod.splits if_splits)

lemma report_step_flags: "report_step r b = (r', b') \<Longrightarrow> flags b' = flags b \<and> bc_shared b' = bc_shared b"
proof (induction r b rule: report_step.induct)
  case (3 c cs snap b)
  then show ?case by (cases c) (auto simp: flags_def)
qed (auto simp: flags_def)

lemma tx_over_stays: "tx_over t \<Longrightarrow> tx_step T X N rng inp t g = (t, g)"
  by (cases t) simp_all

lemma flags_iff: "flags b' = flags b \<longleftrightarrow>
    bc_running b' = bc_running b \<and> backfill_running (bc_pipeline b') = backfill_running (bc_pipeline b)"
  by (simp add: flags_def)

text \<open>A task that is over does not move, so a step of it leaves everything as it is.\<close>

lemma over_moves:
  "list_all tick_over (bw_ticks g) \<Longrightarrow> backfill_step T X N cfg (TickMoves i inp) g = g"
  "list_all tx_over (bw_txs g) \<Longrightarrow> backfill_step T X N cfg (TxMoves i xinp) g = g"
  by (simp_all add: list_all_length tick_over_stays tx_over_stays)

lemma phases_step:
  assumes "phases g"
  shows "phases (backfill_step T X N cfg e g)"
proof (cases e)
  case (TickMoves i inp)
  show ?thesis
  proof (cases "bw_main g = JoinTicks")
    case True
    then show ?thesis
      using assms by (auto simp: TickMoves phases_def tick_step_tasks split: prod.split dest!: tick_step_flags [unfolded flags_iff])
  next
    case False
    then show ?thesis using assms over_moves(1) unfolding TickMoves phases_def by metis
  qed
next
  case (TxMoves i inp)
  show ?thesis
  proof (cases "bw_main g \<in> {JoinTicks, JoinTxs}")
    case True
    then show ?thesis
      using assms by (auto simp: TxMoves phases_def tx_step_tasks split: prod.split dest!: tx_step_flags [unfolded flags_iff])
  next
    case False
    then show ?thesis using assms over_moves(2) unfolding TxMoves phases_def by metis
  qed
next
  case ReporterMoves
  then show ?thesis
    using assms by (auto simp: phases_def reporter_step_def split: reporter.split prod.split option.split
        dest!: report_step_flags [unfolded flags_iff])
next
  case MainMoves
  then show ?thesis
    using assms by (cases "bw_main g") (auto simp: phases_def Let_def split: prod.split option.split
        dest!: report_step_flags [unfolded flags_iff])
qed (use assms in \<open>simp add: phases_def\<close>)

definition counted :: "('n \<Rightarrow> (string \<times> bytes) list) \<Rightarrow> 'n \<Rightarrow> backfill_shared \<Rightarrow> ('s, 'n) backfill_world \<Rightarrow> bool" where
  "counted stored n sh g \<longleftrightarrow> list_all shaped (bw_ticks g)
     \<and> (\<exists>new. stored (cm_nats g) = stored n @ new
        \<and> discovered g + sum_list (map (due AddDiscovered) (bw_ticks g)) = ticks_discovered sh + sent ''TICK'' new
        \<and> found_txs g + sum_list (map (due AddTxs) (bw_ticks g)) + sum_list (map pending_tx (bw_txs g))
          = txs_discovered sh + sent ''TX'' new)"

lemma sum_list_zero:
  fixes f :: "'a \<Rightarrow> u64"
  shows "(\<And>x. x \<in> set xs \<Longrightarrow> f x = 0) \<Longrightarrow> sum_list (map f xs) = 0"
  by (induction xs) auto

lemma none_pending [simp]:
  "sum_list (map (due op \<circ> (\<lambda>_. Choosing k)) rs) = 0" "sum_list (map (pending_tx \<circ> (TxChoosing \<circ> fst)) rs) = 0"
  by (auto intro!: sum_list_zero)

lemma move_balance:
  fixes a :: u64
  assumes "a + tot = b + m" "a' + p' = a + p + k"
  shows "a' + (tot - p + p') = b + (m + k)"
proof -
  have "a' + (tot - p + p') = (a' + p') + (tot - p)" by (simp add: algebra_simps)
  also have "\<dots> = (a + tot) + k" unfolding assms(2) by (simp add: algebra_simps)
  finally show ?thesis unfolding assms(1) by (simp add: algebra_simps)
qed

lemma list_all_update: "list_all P xs \<Longrightarrow> P y \<Longrightarrow> list_all P (xs[i := y])"
  by (auto simp: list_all_iff dest: set_update_subset_insert [THEN subsetD])

lemma counted_tick:
  assumes N: "nats_healthy N stored J" and c: "counted stored n sh g" and i: "i < length (bw_ticks g)"
    and st: "tick_step T X N (bw_ranges g ! i) inp (bw_ticks g ! i) g = (t, g')"
  shows "counted stored n sh (g'\<lparr>bw_ticks := (bw_ticks g')[i := t]\<rparr>)"
proof -
  let ?old = "bw_ticks g ! i"
  obtain new where new: "stored (cm_nats g) = stored n @ new"
    "discovered g + sum_list (map (due AddDiscovered) (bw_ticks g)) = ticks_discovered sh + sent ''TICK'' new"
    "found_txs g + sum_list (map (due AddTxs) (bw_ticks g)) + sum_list (map pending_tx (bw_txs g))
      = txs_discovered sh + sent ''TX'' new" and sh: "list_all shaped (bw_ticks g)"
    using c unfolding counted_def by blast
  have "shaped ?old" using sh i by (simp add: list_all_length)
  from tick_step_counts [OF N this st] obtain more where more: "stored (cm_nats g') = stored (cm_nats g) @ more"
    "discovered g' + due AddDiscovered t = discovered g + due AddDiscovered ?old + sent ''TICK'' more"
    "found_txs g' + due AddTxs t = found_txs g + due AddTxs ?old + sent ''TX'' more" and t: "shaped t"
    by blast
  have d: "discovered g' + (sum_list (map (due AddDiscovered) (bw_ticks g)) - due AddDiscovered ?old
      + due AddDiscovered t) = ticks_discovered sh + (sent ''TICK'' new + sent ''TICK'' more)"
    by (rule move_balance [OF new(2) more(2)])
  have "found_txs g + sum_list (map pending_tx (bw_txs g)) + sum_list (map (due AddTxs) (bw_ticks g))
      = txs_discovered sh + sent ''TX'' new" using new(3) by (simp add: ac_simps)
  moreover have "found_txs g' + sum_list (map pending_tx (bw_txs g)) + due AddTxs t
      = found_txs g + sum_list (map pending_tx (bw_txs g)) + due AddTxs ?old + sent ''TX'' more"
    using more(3) by (simp add: ac_simps)
  ultimately have x: "found_txs g' + sum_list (map pending_tx (bw_txs g)) + (sum_list (map (due AddTxs) (bw_ticks g))
      - due AddTxs ?old + due AddTxs t) = txs_discovered sh + (sent ''TX'' new + sent ''TX'' more)"
    by (rule move_balance)
  show ?thesis
    unfolding counted_def using d x new(1) more(1) t sh i
    by (auto simp: tick_step_tasks [OF st] sum_list_move list_all_update ac_simps intro!: exI [of _ "new @ more"])
qed

lemma counted_tx:
  assumes N: "nats_healthy N stored J" and c: "counted stored n sh g" and i: "i < length (bw_txs g)"
    and st: "tx_step T X N (bw_tx_ranges g ! i) inp (bw_txs g ! i) g = (t, g')"
  shows "counted stored n sh (g'\<lparr>bw_txs := (bw_txs g')[i := t]\<rparr>)"
proof -
  obtain new where new: "stored (cm_nats g) = stored n @ new"
    "discovered g + sum_list (map (due AddDiscovered) (bw_ticks g)) = ticks_discovered sh + sent ''TICK'' new"
    "found_txs g + sum_list (map (due AddTxs) (bw_ticks g)) + sum_list (map pending_tx (bw_txs g))
      = txs_discovered sh + sent ''TX'' new" and sh: "list_all shaped (bw_ticks g)"
    using c unfolding counted_def by blast
  from tx_step_counts [OF N st] obtain more where more: "stored (cm_nats g') = stored (cm_nats g) @ more"
    "discovered g' = discovered g" "filter (on_kind ''TICK'') more = []"
    "found_txs g' + pending_tx t = found_txs g + pending_tx (bw_txs g ! i) + sent ''TX'' more"
    by blast
  have "found_txs g' + sum_list (map (due AddTxs) (bw_ticks g)) + pending_tx t
      = found_txs g + sum_list (map (due AddTxs) (bw_ticks g)) + pending_tx (bw_txs g ! i) + sent ''TX'' more"
    using more(4) by (simp add: ac_simps)
  note x = move_balance [OF new(3) this]
  have tick: "ticks_discovered sh + sent ''TICK'' (new @ more) = ticks_discovered sh + sent ''TICK'' new"
    using more(3) by simp
  show ?thesis
    unfolding counted_def using x new(1,2) more(1,2) sh i tick
    by (auto simp: tx_step_tasks [OF st] sum_list_move intro!: exI [of _ "new @ more"])
qed

lemma counted_step:
  assumes N: "nats_healthy N stored J" and p: "phases g" and c: "counted stored n sh g"
  shows "counted stored n sh (backfill_step T X N cfg e g)"
proof (cases e)
  case (TickMoves i inp)
  then show ?thesis using counted_tick [OF N c] c by (auto split: prod.split)
next
  case (TxMoves i inp)
  then show ?thesis using counted_tx [OF N c] c by (auto split: prod.split)
next
  case ReporterMoves
  then show ?thesis
    using c by (auto simp: counted_def reporter_step_def split: reporter.split prod.split option.split
        dest!: report_step_flags)
next
  case MainMoves
  show ?thesis
  proof (cases "bw_main g")
    case JoinTicks
    then have "bw_txs g = []" using p by (simp add: phases_def)
    then show ?thesis using c by (simp add: MainMoves JoinTicks counted_def Let_def)
  next
    case (FinalReport r)
    then show ?thesis
      using c by (auto simp: MainMoves counted_def split: prod.split option.split dest!: report_step_flags)
  qed (use c in \<open>auto simp: MainMoves counted_def\<close>)
qed (use c in \<open>simp add: counted_def\<close>)

lemma spawned_counted:
  assumes "launched b"
  shows "phases (spawned ranges b ps n)" "counted stored n new_shared (spawned ranges b ps n)"
proof -
  show "phases (spawned ranges b ps n)" using assms by (simp add: phases_def spawned_def launched_def)
  show "counted stored n new_shared (spawned ranges b ps n)"
    using assms by (simp add: counted_def spawned_def launched_def list_all_iff)
qed

lemma counted_run:
  assumes "nats_healthy N stored J" "launched b"
  shows "phases (backfill_run T X N cfg (spawned ranges b ps n) events)
    \<and> counted stored n new_shared (backfill_run T X N cfg (spawned ranges b ps n) events)"
proof (induction rule: backfill_run_induct)
  case start
  show ?case by (simp add: spawned_counted assms(2))
next
  case (step g e)
  then show ?case using phases_step counted_step [OF assms(1)] by blast
qed

section \<open>The final report\<close>

fun value_of :: "counter \<Rightarrow> backfill_shared \<Rightarrow> u64" where
  "value_of TicksCompleted sh = ticks_completed sh"
| "value_of TicksFailed sh = ticks_failed sh"
| "value_of TxsDiscovered sh = txs_discovered sh"
| "value_of TicksDiscovered sh = ticks_discovered sh"

fun shown :: "counter \<Rightarrow> pipeline_state \<Rightarrow> u64" where
  "shown TicksCompleted p = backfill_ticks_completed p"
| "shown TicksFailed p = backfill_ticks_failed p"
| "shown TxsDiscovered p = backfill_txs_discovered p"
| "shown TicksDiscovered p = backfill_ticks_discovered p"

lemma value_of_load: "value_of c (load_counter c' sh snap) = (if c = c' then value_of c sh else value_of c snap)"
  by (cases c; cases c') simp_all

lemma shown_store: "shown c (store_counter c' snap p) = (if c = c' then value_of c snap else shown c p)"
  by (cases c; cases c') simp_all

lemma all_counters: "set load_order = UNIV" "set store_order = UNIV"
  using counter.exhaust by (auto simp: load_order_def store_order_def)

text \<open>What a report has loaded and stored so far is right, while the counters do not change.\<close>

fun report_right :: "report \<Rightarrow> backfill_client \<Rightarrow> bool" where
  "report_right (Loading cs snap) b \<longleftrightarrow> (\<forall>c. c \<notin> set cs \<longrightarrow> value_of c snap = value_of c (bc_shared b))"
| "report_right (Storing cs snap) b \<longleftrightarrow> (\<forall>c. value_of c snap = value_of c (bc_shared b))
     \<and> (\<forall>c. c \<notin> set cs \<longrightarrow> shown c (bc_pipeline b) = value_of c (bc_shared b))"

definition all_shown :: "backfill_client \<Rightarrow> bool" where
  "all_shown b \<longleftrightarrow> (\<forall>c. shown c (bc_pipeline b) = value_of c (bc_shared b))"

lemma new_report_right: "report_right new_report b"
  by (simp add: new_report_def all_counters)

lemma report_step_right:
  assumes "report_right r b" "report_step r b = (r', b')"
  shows "case r' of None \<Rightarrow> all_shown b' | Some r' \<Rightarrow> report_right r' b'"
  using assms
  by (induction r b rule: report_step.induct)
    (auto simp: value_of_load shown_store all_counters all_shown_def)

definition final_right :: "('s, 'n) backfill_world \<Rightarrow> bool" where
  "final_right g \<longleftrightarrow>
     bw_aborted g \<and> (\<forall>r. bw_reporter g \<noteq> Reporting r)
   \<and> (case bw_main g of
        FinalReport r \<Rightarrow> report_right r (cm_client g)
      | Returned \<Rightarrow> all_shown (cm_client g)
      | _ \<Rightarrow> True)"

lemma shown_live [simp]: "shown c (p\<lparr>node_epoch := e, indexed_tick := t\<rparr>) = shown c p"
  by (cases c) simp_all

lemma live_right:
  "report_right r (b\<lparr>bc_pipeline := (bc_pipeline b)\<lparr>node_epoch := e, indexed_tick := t\<rparr>\<rparr>) = report_right r b"
  "all_shown (b\<lparr>bc_pipeline := (bc_pipeline b)\<lparr>node_epoch := e, indexed_tick := t\<rparr>\<rparr>) = all_shown b"
  by (cases r) (simp_all add: all_shown_def)

lemma final_right_step:
  assumes p: "phases g" and f: "final_right g" and "bw_main g \<noteq> JoinTicks"
  shows "final_right (backfill_step T X N cfg e g) \<and> bw_main (backfill_step T X N cfg e g) \<noteq> JoinTicks"
proof (cases e)
  case (TickMoves i inp)
  have "list_all tick_over (bw_ticks g)" using p assms(3) by (simp add: phases_def)
  then show ?thesis unfolding TickMoves over_moves(1) [OF \<open>list_all tick_over (bw_ticks g)\<close>] using f assms(3) by blast
next
  case (TxMoves i inp)
  show ?thesis
  proof (cases "bw_main g = JoinTxs")
    case True
    then show ?thesis using f by (auto simp: TxMoves final_right_def tx_step_tasks split: prod.split)
  next
    case False
    then have "list_all tx_over (bw_txs g)" using p assms(3) by (simp add: phases_def)
    from over_moves(2) [OF this] show ?thesis unfolding TxMoves using f assms(3) by simp
  qed
next
  case ReporterMoves
  then show ?thesis
    using f assms(3) by (auto simp: final_right_def reporter_step_def split: reporter.splits main_task.splits)
next
  case MainMoves
  show ?thesis
  proof (cases "bw_main g")
    case (FinalReport r)
    have "report_right r (cm_client g)" using f FinalReport by (simp add: final_right_def)
    from report_step_right [OF this] show ?thesis
      using f by (auto simp: MainMoves FinalReport final_right_def split: prod.split option.splits)
  qed (use f assms(3) in \<open>auto simp: MainMoves final_right_def new_report_right\<close>)
next
  case (LiveMoves e t)
  then show ?thesis using f assms(3) by (auto simp: final_right_def live_right split: main_task.splits)
qed

lemma over_none_pending:
  "list_all tick_over ts \<Longrightarrow> sum_list (map (due op) ts) = 0" "list_all tx_over xs \<Longrightarrow> sum_list (map pending_tx xs) = 0"
  by (rule sum_list_zero, fastforce simp: list_all_iff elim: tick_over.elims tx_over.elims)+

end
