(* ===== verification/Backfill_Complete.thy ===== *)
theory Backfill_Complete
  imports Backfill_Interleaved "HOL-Library.Multiset"
begin

text \<open>
  The backfill gets through: when every tick worker's node answers its requests, with any other
  packets in between, every interleaving that lets each worker move often enough ends with every
  tick of the range published exactly once.
\<close>

section \<open>What a node sends\<close>

text \<open>
  The connection of one worker: its range, the correlation ids it will draw, the stream its node
  opens and the bytes behind the last answer.  \<open>payload\<close> is the data of a tick and \<open>noise\<close> the packets
  a node sends before it.
\<close>

record 's feed =
  fd_range :: "u32 \<times> u32"
  fd_rand :: "nat \<Rightarrow> u32"
  fd_stream :: 's
  fd_rest :: bytes

definition ticks_left :: "'s feed \<Rightarrow> nat" where
  "ticks_left F = unat (snd (fd_range F)) - unat (fst (fd_range F))"

definition tick_at :: "'s feed \<Rightarrow> nat \<Rightarrow> u32" where
  "tick_at F k = fst (fd_range F) + word_of_nat k"

definition dejavu_at :: "'s feed \<Rightarrow> nat \<Rightarrow> u32" where
  "dejavu_at F k = max (fd_rand F k) 1"

definition answer_to :: "(u32 \<Rightarrow> bytes) \<Rightarrow> (u32 \<Rightarrow> packet list) \<Rightarrow> 's feed \<Rightarrow> nat \<Rightarrow> bytes" where
  "answer_to payload noise F k =
     concat (map wire_packet (noise (tick_at F k))) @ wire_packet (8, dejavu_at F k, payload (tick_at F k))"

definition answers_from :: "(u32 \<Rightarrow> bytes) \<Rightarrow> (u32 \<Rightarrow> packet list) \<Rightarrow> 's feed \<Rightarrow> nat \<Rightarrow> bytes" where
  "answers_from payload noise F k = concat (map (answer_to payload noise F) [k..<ticks_left F]) @ fd_rest F"

definition quiet :: "packet \<Rightarrow> bool" where
  "quiet pkt \<longleftrightarrow> fits pkt \<and> fst pkt \<notin> {8, 24, 35, 54}"

definition tick_known :: "ext \<Rightarrow> (u32 \<Rightarrow> bytes) \<Rightarrow> (u32 \<Rightarrow> packet list) \<Rightarrow> u32 \<Rightarrow> bool" where
  "tick_known X payload noise t \<longleftrightarrow>
     is_ok (decode_tick X (payload t)) \<and> length (payload t) + 8 < 2 ^ 24 \<and> list_all quiet (noise t)"

definition handshake :: "bytes \<Rightarrow> bool" where
  "handshake bs \<longleftrightarrow> (\<exists>dx peers di info. length peers = 16 \<and> length info = 16
     \<and> bs = wire_packet (0, dx, peers) @ wire_packet (28, di, info))"

definition answering :: "('s \<Rightarrow> bytes) \<Rightarrow> ext \<Rightarrow> (u32 \<Rightarrow> bytes) \<Rightarrow> (u32 \<Rightarrow> packet list) \<Rightarrow> 's feed \<Rightarrow> bool" where
  "answering input X payload noise F \<longleftrightarrow>
     (\<forall>t. fst (fd_range F) \<le> t \<longrightarrow> t < snd (fd_range F) \<longrightarrow> tick_known X payload noise t)
     \<and> (\<exists>hello. handshake hello \<and> input (fd_stream F) = hello @ answers_from payload noise F 0)"

text \<open>A move of the worker on that connection: nothing times out.\<close>

definition on_line :: "'s feed \<Rightarrow> 's tick_input \<Rightarrow> bool" where
  "on_line F inp \<longleftrightarrow> at_connect inp = Ok (fd_stream F) \<and> at_exchange_clock inp = [False]
     \<and> at_info_clock inp = [False] \<and> ti_rand inp = fd_rand F \<and> \<not> ti_elapsed inp"

text \<open>The message for a tick, without the large fields.\<close>

definition tick_message :: "ext \<Rightarrow> (event \<Rightarrow> bytes) \<Rightarrow> bytes \<Rightarrow> string \<times> bytes" where
  "tick_message X J payload =
     (subject (u16_from_le (take 2 (drop 2 payload))) ''TICK'',
      case decode_tick X payload of
        Ok tick \<Rightarrow> J (TickEvent (tick\<lparr>td_transaction_digests_hex := [], td_contract_fees_hex := [], td_signature_hex := []\<rparr>))
      | _ \<Rightarrow> [])"

section \<open>The window keeps up\<close>

definition requests :: "'s feed \<Rightarrow> nat \<Rightarrow> nat \<Rightarrow> expected_response list" where
  "requests F k m = map (\<lambda>j. TickDataReq (tick_at F j) (dejavu_at F j)) [k..<m]"

definition window_at :: "'s feed \<Rightarrow> nat \<Rightarrow> nat \<Rightarrow> 's window \<Rightarrow> bool" where
  "window_at F k m w \<longleftrightarrow> next_tick_to_request w = tick_at F m \<and> expected w = requests F k m
     \<and> consecutive_failures w = 0 \<and> drawn w = m \<and> k \<le> m \<and> m \<le> ticks_left F"

definition depth :: "'s feed \<Rightarrow> nat \<Rightarrow> nat" where
  "depth F k = min (ticks_left F) (k + PIPELINE_DEPTH)"

lemma tick_at_less:
  assumes "m \<le> ticks_left F"
  shows "tick_at F m < snd (fd_range F) \<longleftrightarrow> m < ticks_left F" "fst (fd_range F) \<le> tick_at F m"
proof -
  have "unat (snd (fd_range F)) < 2 ^ 32" "unat (fst (fd_range F)) < 2 ^ 32"
    using unat_lt_pow [of "snd (fd_range F)"] unat_lt_pow [of "fst (fd_range F)"] by simp_all
  then have "unat (fst (fd_range F)) + m < 2 ^ 32" using assms unfolding ticks_left_def by linarith
  moreover have "tick_at F m = word_of_nat (unat (fst (fd_range F)) + m)" by (simp add: tick_at_def)
  ultimately have "unat (tick_at F m) = unat (fst (fd_range F)) + m" using unat_word_of_nat_u32 by metis
  then show "tick_at F m < snd (fd_range F) \<longleftrightarrow> m < ticks_left F" "fst (fd_range F) \<le> tick_at F m"
    using assms unfolding word_less_nat_alt word_le_nat_alt ticks_left_def by linarith+
qed

lemma tick_at_Suc: "tick_at F m + 1 = tick_at F (Suc m)"
  by (simp add: tick_at_def)

lemma fill_pipeline_keeps_up:
  assumes T: "tcp_ok T input output" and "window_at F k m w" "m \<le> depth F k"
  shows "\<exists>w'. fill_pipeline T (fd_rand F) (snd (fd_range F)) w = (Ok (), w') \<and> window_at F k (depth F k) w'
    \<and> input (wk_stream w') = input (wk_stream w)"
  using assms(2,3)
proof (induction "depth F k - m" arbitrary: m w)
  case 0
  then have m: "m = depth F k" by simp
  have "\<not> (next_tick_to_request w < snd (fd_range F) \<and> length (expected w) < PIPELINE_DEPTH)"
    using 0(2) m tick_at_less(1) [of m F] by (auto simp: window_at_def requests_def depth_def)
  then show ?case using 0(2) m fill_pipeline.simps [of T "fd_rand F" "snd (fd_range F)" w] by auto
next
  case (Suc j)
  then have lt: "m < ticks_left F" "m < k + PIPELINE_DEPTH" "m - k < PIPELINE_DEPTH" by (auto simp: depth_def PIPELINE_DEPTH_def)
  obtain s where s: "send_raw T (wk_stream w) 16 (u32_to_le (tick_at F m)) (dejavu_at F m) = Ok s"
    "input s = input (wk_stream w)" by (rule send_raw_wire [OF T])
  define w1 where "w1 = w\<lparr>drawn := Suc m, wk_stream := s, expected := requests F k (Suc m),
    next_tick_to_request := tick_at F (Suc m)\<rparr>"
  have "send_request T (fd_rand F) w = (Ok (), w1)"
    using Suc.prems(1) s(1) by (simp add: send_request_def window_at_def w1_def requests_def tick_at_Suc dejavu_at_def)
  then have "fill_pipeline T (fd_rand F) (snd (fd_range F)) w = fill_pipeline T (fd_rand F) (snd (fd_range F)) w1"
    using Suc.prems(1) lt tick_at_less(1) [of m F] fill_pipeline.simps [of T "fd_rand F" "snd (fd_range F)" w]
    by (simp add: window_at_def requests_def MAX_CONSECUTIVE_FAILURES_def)
  moreover have "window_at F k (Suc m) w1" using Suc.prems(1) lt by (simp add: window_at_def w1_def)
  then have "\<exists>w'. fill_pipeline T (fd_rand F) (snd (fd_range F)) w1 = (Ok (), w') \<and> window_at F k (depth F k) w'
      \<and> input (wk_stream w') = input (wk_stream w1)"
    using Suc.hyps(1) [of "Suc m" w1] Suc.hyps(2) lt by (simp add: depth_def)
  ultimately show ?case using s(2) by (simp add: w1_def)
qed

section \<open>How far a worker is\<close>

definition packets_from :: "(u32 \<Rightarrow> packet list) \<Rightarrow> 's feed \<Rightarrow> nat \<Rightarrow> nat" where
  "packets_from noise F k = sum_list (map (\<lambda>j. Suc (length (noise (tick_at F j)))) [k..<ticks_left F])"

text \<open>
  \<open>progress k r t\<close>: the worker in state \<open>t\<close> has published the first \<open>k\<close> ticks of its range, and \<open>r\<close> more
  moves of it finish the range.
\<close>

inductive progress :: "('s \<Rightarrow> bytes) \<Rightarrow> (u32 \<Rightarrow> bytes) \<Rightarrow> (u32 \<Rightarrow> packet list) \<Rightarrow> 's feed \<Rightarrow> nat \<Rightarrow> nat \<Rightarrow> 's tick_task \<Rightarrow> bool"
  for input payload noise F where
  choosing: "progress input payload noise F 0 (7 * packets_from noise F 0 + 6) (Choosing (Suc left))"
| connecting: "progress input payload noise F 0 (7 * packets_from noise F 0 + 5) (Connecting left a)"
| merging: "input s = wire_packet (28, di, info) @ answers_from payload noise F 0 \<Longrightarrow> length info = 16
    \<Longrightarrow> progress input payload noise F 0 (7 * packets_from noise F 0 + 4) (Merging left a remote_peers s)"
| crediting: "input s = wire_packet (28, di, info) @ answers_from payload noise F 0 \<Longrightarrow> length info = 16
    \<Longrightarrow> progress input payload noise F 0 (7 * packets_from noise F 0 + 3) (Crediting left a s)"
| asking: "input s = wire_packet (28, di, info) @ answers_from payload noise F 0 \<Longrightarrow> length info = 16
    \<Longrightarrow> progress input payload noise F 0 (7 * packets_from noise F 0 + 2) (Asking left a s)"
| reading: "k < ticks_left F \<Longrightarrow> window_at F k (depth F k) w \<Longrightarrow> list_all quiet ns
    \<Longrightarrow> input (wk_stream w) = concat (map wire_packet ns)
          @ wire_packet (8, dejavu_at F k, payload (tick_at F k)) @ answers_from payload noise F (Suc k)
    \<Longrightarrow> progress input payload noise F k (7 * (Suc (length ns) + packets_from noise F (Suc k)) + 1) (Reading left a epoch w)"
| drained: "k = ticks_left F \<Longrightarrow> window_at F k k w \<Longrightarrow> progress input payload noise F k 1 (Reading left a epoch w)"
| publishing: "k < ticks_left F \<Longrightarrow> window_at F (Suc k) (depth F k) w
    \<Longrightarrow> input (wk_stream w) = answers_from payload noise F (Suc k) \<Longrightarrow> bs = payload (tick_at F k)
    \<Longrightarrow> progress input payload noise F k (7 * packets_from noise F (Suc k) + 7)
          (Publishing left a epoch w (8, bs, u16_from_le (take 2 (drop 2 bs))) [AddDiscovered] [AddCompleted, MaxIndexed t] Refill)"
| counting: "k < ticks_left F \<Longrightarrow> window_at F (Suc k) (depth F k) w
    \<Longrightarrow> input (wk_stream w) = answers_from payload noise F (Suc k) \<Longrightarrow> length ops \<le> 3 \<Longrightarrow> AddFailed \<notin> set ops
    \<Longrightarrow> progress input payload noise F (Suc k) (7 * packets_from noise F (Suc k) + 2 + length ops)
          (Counting left a epoch w ops Refill)"
| finished: "progress input payload noise F (ticks_left F) 0 (Finished t)"

inductive_cases progress_zero: "progress input payload noise F k 0 t"

lemma progress_over: "progress input payload noise F k 0 t \<Longrightarrow> tick_over t \<and> (\<exists>tick. t = Finished tick) \<and> k = ticks_left F"
  by (erule progress_zero) simp_all

lemma packets_from_step:
  "k < ticks_left F \<Longrightarrow> packets_from noise F k = Suc (length (noise (tick_at F k))) + packets_from noise F (Suc k)"
  "packets_from noise F (ticks_left F) = 0"
  by (simp_all add: packets_from_def upt_conv_Cons)

lemma answers_from_step:
  "k < ticks_left F \<Longrightarrow> answers_from payload noise F k = concat (map wire_packet (noise (tick_at F k)))
     @ wire_packet (8, dejavu_at F k, payload (tick_at F k)) @ answers_from payload noise F (Suc k)"
  by (simp add: answers_from_def answer_to_def upt_conv_Cons)

lemma answering_tick:
  assumes "answering input X payload noise F" "k < ticks_left F"
  shows "tick_known X payload noise (tick_at F k)"
  using assms tick_at_less [of k F] by (simp add: answering_def)

lemma refill_progress:
  assumes T: "tcp_ok T input output" and ans: "answering input X payload noise F" and inp: "on_line F inp"
    and w: "window_at F k m w" "m \<le> depth F k" and s: "input (wk_stream w) = answers_from payload noise F k"
  shows "progress input payload noise F k (7 * packets_from noise F k + 1)
    (refill T inp (snd (fd_range F)) left a epoch w)"
proof -
  obtain w' where w': "fill_pipeline T (fd_rand F) (snd (fd_range F)) w = (Ok (), w')"
    "window_at F k (depth F k) w'" "input (wk_stream w') = answers_from payload noise F k"
    using fill_pipeline_keeps_up [OF T w] s by auto
  have r: "refill T inp (snd (fd_range F)) left a epoch w = Reading left a epoch w'"
    using inp w'(1) by (simp add: refill_def on_line_def)
  have le: "k \<le> ticks_left F" using w(1) by (simp add: window_at_def)
  show ?thesis
  proof (cases "k < ticks_left F")
    case True
    then have "list_all quiet (noise (tick_at F k))" using answering_tick [OF ans] by (simp add: tick_known_def)
    then show ?thesis
      using progress.reading [OF True w'(2), of "noise (tick_at F k)" input payload noise left a epoch] w'(3) r
      by (simp add: answers_from_step [OF True] packets_from_step(1) [OF True])
  next
    case False
    then have "k = ticks_left F" using le by simp
    then show ?thesis
      using progress.drained [of k F w'] w'(2) r by (simp add: packets_from_step(2) depth_def)
  qed
qed

section \<open>Every move advances\<close>

lemma peers_kept:
  assumes "ps \<noteq> []"
  shows "mark_failure now a ps \<noteq> []" "mark_success now a ps \<noteq> []" "add_peers_from_exchange raw ps \<noteq> []"
proof -
  show "mark_failure now a ps \<noteq> []" using map_addr_marks(2) [of now a ps] assms by (metis map_is_Nil_conv)
  show "mark_success now a ps \<noteq> []"
    using map_addr_mark_success [of now a ps] assms by (metis Nil_is_append_conv map_is_Nil_conv)
  show "add_peers_from_exchange raw ps \<noteq> []"
    using assms by (induction raw ps rule: add_peers_from_exchange.induct) (auto simp: add_peer_def)
qed

definition advanced :: "('n \<Rightarrow> (string \<times> bytes) list) \<Rightarrow> (string \<times> bytes) list \<Rightarrow> 's tick_task \<Rightarrow> ('n, 'z) commons_scheme
    \<Rightarrow> 's tick_task \<Rightarrow> ('n, 'z) commons_scheme \<Rightarrow> bool" where
  "advanced stored msgs t g t' g' \<longleftrightarrow> stored (cm_nats g') = stored (cm_nats g) @ msgs
     \<and> ticks_completed (bc_shared (cm_client g')) + due AddCompleted t'
       = ticks_completed (bc_shared (cm_client g)) + due AddCompleted t + word_of_nat (length msgs)
     \<and> ticks_failed (bc_shared (cm_client g')) = ticks_failed (bc_shared (cm_client g)) \<and> cm_peers g' \<noteq> []"

text \<open>A worker that counts.\<close>

lemma counting_advances:
  assumes "cm_peers g \<noteq> []" "tick_step T X N rng inp (Counting left a epoch w (op # ops) next) g = (t', g')" "op \<noteq> AddFailed"
  shows "advanced stored [] (Counting left a epoch w (op # ops) next) g t' g'"
  using assms by (cases op) (auto simp: advanced_def)

text \<open>A worker that publishes the data of a tick.\<close>

lemma publishing_advances:
  assumes N: "nats_healthy N stored J" and "cm_peers g \<noteq> []" and known: "tick_known X payload noise tk"
    and bs: "bs = payload tk"
    and "tick_step T X N rng inp (Publishing left a epoch w (8, bs, u16_from_le (take 2 (drop 2 bs)))
      [AddDiscovered] [AddCompleted, MaxIndexed t] next) g = (t', g')"
  shows "t' = Counting left a epoch w [AddDiscovered, AddCompleted, MaxIndexed t] next
    \<and> advanced stored [tick_message X J bs] (Publishing left a epoch w (8, bs, u16_from_le (take 2 (drop 2 bs)))
      [AddDiscovered] [AddCompleted, MaxIndexed t] next) g t' g'"
proof -
  obtain tick where tick: "decode_tick X bs = Ok tick" using known bs by (auto simp: tick_known_def elim: is_okE)
  let ?slim = "tick\<lparr>td_transaction_digests_hex := [], td_contract_fees_hex := [], td_signature_hex := []\<rparr>"
  let ?e = "u16_from_le (take 2 (drop 2 bs))"
  obtain n1 where "publish_tick N True ?e tick (cm_nats g) = (Ok (), n1)"
    "stored n1 = stored (cm_nats g) @ [(subject ?e ''TICK'', J (TickEvent ?slim))]"
    unfolding publish_tick_def by (rule publish_event_healthy [OF N])
  then show ?thesis
    using assms(2,5) tick by (auto simp: backfill_publish_def liftS_def advanced_def tick_message_def)
qed

text \<open>A worker that reads: a packet that is none of its business, the answer to its oldest request, or nothing.\<close>

lemma reading_noise:
  assumes T: "tcp_ok T input output" and "k < ticks_left F" "window_at F k (depth F k) w" "on_line F inp"
    and q: "quiet pkt" and s: "input (wk_stream w) = wire_packet pkt @ rest"
  obtains s' where "tick_reading T inp left a epoch w = Reading left a epoch (w\<lparr>wk_stream := s'\<rparr>)" "input s' = rest"
proof -
  obtain ty d bs where pkt: "pkt = (ty, d, bs)" by (cases pkt)
  have "fits (ty, d, bs)" "ty \<notin> {8, 24, 35, 54}" using q by (simp_all add: quiet_def pkt)
  moreover obtain s' where "read_packet T (wk_stream w) = Ok ((ty, d, bs), s')" "input s' = rest"
    by (rule read_packet_wire [OF T \<open>fits (ty, d, bs)\<close> s [unfolded pkt]])
  moreover have "expected w \<noteq> []"
    using assms(2,3) by (auto simp: window_at_def requests_def depth_def PIPELINE_DEPTH_def)
  ultimately show thesis
    using that assms(4) by (simp add: tick_reading_def on_line_def on_read_def)
qed

lemma reading_answer:
  assumes T: "tcp_ok T input output" and k: "k < ticks_left F" and w: "window_at F k (depth F k) w" and "on_line F inp"
    and known: "tick_known X payload noise tk" and bs: "bs = payload tk"
    and s: "input (wk_stream w) = wire_packet (8, dejavu_at F k, bs) @ rest"
  obtains w' t where "tick_reading T inp left a epoch w = Publishing left a epoch w' (8, bs, u16_from_le (take 2 (drop 2 bs)))
      [AddDiscovered] [AddCompleted, MaxIndexed t] Refill"
    "window_at F (Suc k) (depth F k) w'" "input (wk_stream w') = rest"
proof -
  have "fits (8, dejavu_at F k, bs)" using known bs by (simp add: tick_known_def fits_def)
  then obtain s' where s': "read_packet T (wk_stream w) = Ok ((8, dejavu_at F k, bs), s')" "input s' = rest"
    by (rule read_packet_wire [OF T _ s])
  have ex: "expected w = TickDataReq (tick_at F k) (dejavu_at F k) # requests F (Suc k) (depth F k)"
    using w k by (simp add: window_at_def requests_def depth_def upt_conv_Cons PIPELINE_DEPTH_def)
  have len: "\<not> length bs < 8"
    using known bs by (auto simp: tick_known_def decode_tick_def elim!: is_okE split: if_splits)
  let ?w = "w\<lparr>wk_stream := s', expected := requests F (Suc k) (depth F k), consecutive_failures := 0,
    skip_size := FAILURE_SKIP_INITIAL\<rparr>"
  have "window_at F (Suc k) (depth F k) ?w"
    using w k by (simp add: window_at_def depth_def PIPELINE_DEPTH_def)
  moreover have "tick_reading T inp left a epoch w = Publishing left a epoch ?w (8, bs, u16_from_le (take 2 (drop 2 bs)))
      [AddDiscovered] [AddCompleted, MaxIndexed (u32_from_le (take 4 (drop 4 bs)))] Refill"
    using assms(4) s'(1) ex len by (simp add: tick_reading_def on_line_def on_read_def)
  ultimately show thesis using that s'(2) by simp
qed

lemma connecting_advances:
  assumes T: "tcp_ok T input output" and ans: "answering input X payload noise F" and inp: "on_line F inp"
  obtains remote_peers s di info where "open_connection T inp = Some (Ok (remote_peers, s))"
    "input s = wire_packet (28, di, info) @ answers_from payload noise F 0" "length info = 16"
proof -
  obtain dx peers di info where h: "length peers = 16" "length info = 16"
    "input (fd_stream F) = wire_packet (0, dx, peers) @ wire_packet (28, di, info) @ answers_from payload noise F 0"
    using ans by (auto simp: answering_def handshake_def)
  show thesis
    using exchange_answered [OF T _ _ h(1,3), of inp "[]"] inp h(2) that by (auto simp: on_line_def)
qed

lemma asking_advances:
  assumes T: "tcp_ok T input output" and inp: "on_line F inp" and s: "input s = wire_packet (28, di, info) @ rest" "length info = 16"
  obtains epoch s' where "connection_epoch T inp p s = Some (Ok (epoch, s'))" "input s' = rest"
proof -
  have "fits (28, di, info)" using s(2) by (simp add: fits_def)
  from tick_info_answered [OF T refl this s(1), of "at_info_rand inp" "[]"] obtain s' where
    "request_current_tick_info T (at_info_rand inp) [False] s = Some (Ok (info, s'))" "input s' = rest" by blast
  then show thesis using that inp s(2) by (simp add: connection_epoch_def on_line_def read_simps)
qed

lemma new_window_at: "window_at F 0 0 (new_window (fst (fd_range F)) s)"
  by (simp add: window_at_def new_window_def requests_def tick_at_def)

lemma backfill_peer_some: "ps \<noteq> [] \<Longrightarrow> \<exists>a. best_peer now pick ps = Some a"
  by (simp add: best_peer_def pick_top_def Let_def)

text \<open>One move of a worker that gets closer to the end of its range.\<close>

definition goes_on :: "('s \<Rightarrow> bytes) \<Rightarrow> ('n \<Rightarrow> (string \<times> bytes) list) \<Rightarrow> ext \<Rightarrow> (event \<Rightarrow> bytes) \<Rightarrow> (u32 \<Rightarrow> bytes)
    \<Rightarrow> (u32 \<Rightarrow> packet list) \<Rightarrow> 's feed \<Rightarrow> nat \<Rightarrow> nat \<Rightarrow> 's tick_task \<times> ('n, 'z) commons_scheme
    \<Rightarrow> 's tick_task \<times> ('n, 'z) commons_scheme \<Rightarrow> bool" where
  "goes_on input stored X J payload noise F k r tg tg' \<longleftrightarrow>
     (\<exists>k' r'. progress input payload noise F k' r' (fst tg') \<and> r' < r \<and> k \<le> k'
       \<and> advanced stored (map (\<lambda>j. tick_message X J (payload (tick_at F j))) [k..<k']) (fst tg) (snd tg) (fst tg') (snd tg'))"

lemma progress_move:
  assumes "progress input payload noise F k' r' t'" "r' < r" "k \<le> k'"
    "advanced stored (map (\<lambda>j. tick_message X J (payload (tick_at F j))) [k..<k']) t g t' g'"
  shows "goes_on input stored X J payload noise F k r (t, g) (t', g')"
  unfolding goes_on_def using assms by auto

text \<open>A move that neither publishes nor counts.\<close>

lemma silent_move:
  assumes "progress input payload noise F k r' t'" "r' < r" "cm_nats g' = cm_nats g" "cm_client g' = cm_client g"
    "cm_peers g' \<noteq> []" "due AddCompleted t' = due AddCompleted t"
  shows "goes_on input stored X J payload noise F k r (t, g) (t', g')"
  using assms(1,2) le_refl by (rule progress_move) (use assms(3-) in \<open>simp add: advanced_def\<close>)

lemma connecting_goes_on:
  assumes T: "tcp_ok T input output" and ans: "answering input X payload noise F" and inp: "on_line F inp" and ps: "cm_peers g \<noteq> []"
  shows "goes_on input stored X J payload noise F 0 (7 * packets_from noise F 0 + 5) (Connecting left a, g)
    (tick_step T X N (fd_range F) inp (Connecting left a) g)"
proof -
  obtain rp s di info where c: "open_connection T inp = Some (Ok (rp, s))"
    "input s = wire_packet (28, di, info) @ answers_from payload noise F 0" "length info = 16"
    by (rule connecting_advances [OF T ans inp])
  have "progress input payload noise F 0 (7 * packets_from noise F 0 + 4) (Merging left a rp s)"
    using c(2,3) by (rule progress.merging)
  then show ?thesis using ps c(1) by (auto intro: silent_move)
qed

lemma asking_goes_on:
  assumes T: "tcp_ok T input output" and ans: "answering input X payload noise F" and inp: "on_line F inp" and ps: "cm_peers g \<noteq> []"
    and s: "input s = wire_packet (28, di, info) @ answers_from payload noise F 0" "length info = 16"
  shows "goes_on input stored X J payload noise F 0 (7 * packets_from noise F 0 + 2) (Asking left a s, g)
    (tick_step T X N (fd_range F) inp (Asking left a s) g)"
proof -
  obtain epoch s' where s': "connection_epoch T inp (bc_pipeline (cm_client g)) s = Some (Ok (epoch, s'))"
    "input s' = answers_from payload noise F 0" by (rule asking_advances [OF T inp s])
  have "input (wk_stream (new_window (fst (fd_range F)) s')) = answers_from payload noise F 0"
    using s'(2) by (simp add: new_window_def)
  from refill_progress [OF T ans inp new_window_at _ this, of left a epoch]
  show ?thesis using ps s'(1) by (auto intro: silent_move)
qed

lemma answered_goes_on:
  assumes T: "tcp_ok T input output" and ans: "answering input X payload noise F" and inp: "on_line F inp" and ps: "cm_peers g \<noteq> []"
    and k: "k < ticks_left F" and w: "window_at F k (depth F k) w"
    and s: "input (wk_stream w) = wire_packet (8, dejavu_at F k, payload (tick_at F k)) @ answers_from payload noise F (Suc k)"
  shows "goes_on input stored X J payload noise F k (7 * (1 + packets_from noise F (Suc k)) + 1) (Reading left a epoch w, g)
    (tick_step T X N (fd_range F) inp (Reading left a epoch w) g)"
proof -
  from reading_answer [OF T k w inp answering_tick [OF ans k] refl s] obtain w' tk where w':
    "tick_reading T inp left a epoch w = Publishing left a epoch w' (8, payload (tick_at F k),
      u16_from_le (take 2 (drop 2 (payload (tick_at F k))))) [AddDiscovered] [AddCompleted, MaxIndexed tk] Refill"
    "window_at F (Suc k) (depth F k) w'" "input (wk_stream w') = answers_from payload noise F (Suc k)" by blast
  have "progress input payload noise F k (7 * packets_from noise F (Suc k) + 7) (tick_reading T inp left a epoch w)"
    unfolding w'(1) using k w'(2,3) refl by (rule progress.publishing)
  then show ?thesis unfolding tick_step.simps by (rule silent_move) (simp_all add: ps w'(1))
qed

lemma noise_goes_on:
  assumes T: "tcp_ok T input output" and inp: "on_line F inp" and ps: "cm_peers g \<noteq> []"
    and k: "k < ticks_left F" and w: "window_at F k (depth F k) w" and q: "quiet pkt" "list_all quiet ns"
    and s: "input (wk_stream w) = wire_packet pkt @ concat (map wire_packet ns)
      @ wire_packet (8, dejavu_at F k, payload (tick_at F k)) @ answers_from payload noise F (Suc k)"
  shows "goes_on input stored X J payload noise F k (7 * (Suc (Suc (length ns)) + packets_from noise F (Suc k)) + 1)
    (Reading left a epoch w, g) (tick_step T X N (fd_range F) inp (Reading left a epoch w) g)"
proof -
  from reading_noise [OF T k w inp q(1) s] obtain s' where s':
    "tick_reading T inp left a epoch w = Reading left a epoch (w\<lparr>wk_stream := s'\<rparr>)"
    "input s' = concat (map wire_packet ns) @ wire_packet (8, dejavu_at F k, payload (tick_at F k))
      @ answers_from payload noise F (Suc k)" by blast
  have w': "window_at F k (depth F k) (w\<lparr>wk_stream := s'\<rparr>)"
    "input (wk_stream (w\<lparr>wk_stream := s'\<rparr>)) = concat (map wire_packet ns)
      @ wire_packet (8, dejavu_at F k, payload (tick_at F k)) @ answers_from payload noise F (Suc k)"
    using w s'(2) by (simp_all add: window_at_def)
  have "progress input payload noise F k (7 * (Suc (length ns) + packets_from noise F (Suc k)) + 1) (tick_reading T inp left a epoch w)"
    unfolding s'(1) using k w'(1) q(2) w'(2) by (rule progress.reading)
  then show ?thesis unfolding tick_step.simps by (rule silent_move) (simp_all add: ps s'(1))
qed

lemma publishing_goes_on:
  assumes N: "nats_healthy N stored J" and ans: "answering input X payload noise F" and ps: "cm_peers g \<noteq> []"
    and k: "k < ticks_left F" and w: "window_at F (Suc k) (depth F k) w" "input (wk_stream w) = answers_from payload noise F (Suc k)"
    and bs: "bs = payload (tick_at F k)"
    and t: "t = Publishing left a epoch w (8, bs, u16_from_le (take 2 (drop 2 bs))) [AddDiscovered] [AddCompleted, MaxIndexed tk] Refill"
  shows "goes_on input stored X J payload noise F k (7 * packets_from noise F (Suc k) + 7) (t, g)
    (tick_step T X N (fd_range F) inp t g)"
proof -
  obtain t' g' where st: "tick_step T X N (fd_range F) inp t g = (t', g')" by fastforce
  from publishing_advances [OF N ps answering_tick [OF ans k] bs st [unfolded t]]
  have t': "t' = Counting left a epoch w [AddDiscovered, AddCompleted, MaxIndexed tk] Refill"
    and adv: "advanced stored [tick_message X J bs] t g t' g'" unfolding t by blast+
  have "progress input payload noise F (Suc k)
      (7 * packets_from noise F (Suc k) + 2 + length [AddDiscovered, AddCompleted, MaxIndexed tk]) t'"
    unfolding t' using k w by (rule progress.counting) simp_all
  then show ?thesis unfolding st
    by (rule progress_move [where k' = "Suc k"]) (use adv bs in \<open>simp_all add: upt_conv_Cons\<close>)
qed

lemma counting_goes_on:
  assumes T: "tcp_ok T input output" and ans: "answering input X payload noise F" and inp: "on_line F inp" and ps: "cm_peers g \<noteq> []"
    and k: "k < ticks_left F" and w: "window_at F (Suc k) (depth F k) w" "input (wk_stream w) = answers_from payload noise F (Suc k)"
    and ops: "length ops \<le> 3" "AddFailed \<notin> set ops"
  shows "goes_on input stored X J payload noise F (Suc k) (7 * packets_from noise F (Suc k) + 2 + length ops)
    (Counting left a epoch w ops Refill, g) (tick_step T X N (fd_range F) inp (Counting left a epoch w ops Refill) g)"
proof (cases ops)
  case Nil
  have "depth F k \<le> depth F (Suc k)" using k by (simp add: depth_def PIPELINE_DEPTH_def)
  from refill_progress [OF T ans inp w(1) this w(2), of left a epoch]
  show ?thesis unfolding Nil tick_step.simps after.case by (rule silent_move) (simp_all add: ps)
next
  case (Cons op ops')
  obtain t' g' where st: "tick_step T X N (fd_range F) inp (Counting left a epoch w ops Refill) g = (t', g')" by fastforce
  have f: "op \<noteq> AddFailed" "AddFailed \<notin> set ops'" "length ops' \<le> 3" using ops Cons by auto
  have t': "t' = Counting left a epoch w ops' Refill" using st Cons by auto
  have adv: "advanced stored [] (Counting left a epoch w ops Refill) g t' g'"
    unfolding Cons by (rule counting_advances [OF ps st [unfolded Cons] f(1)])
  have "progress input payload noise F (Suc k) (7 * packets_from noise F (Suc k) + 2 + length ops') t'"
    unfolding t' by (rule progress.counting [where input = input, OF k w f(3,2)])
  then show ?thesis unfolding st
    by (rule progress_move [where k' = "Suc k"]) (use adv Cons in simp_all)
qed

lemma tick_step_advances:
  assumes T: "tcp_ok T input output" and N: "nats_healthy N stored J" and ans: "answering input X payload noise F"
    and inp: "on_line F inp" and ps: "cm_peers g \<noteq> []" and pr: "progress input payload noise F k r t" and "0 < r"
  shows "goes_on input stored X J payload noise F k r (t, g) (tick_step T X N (fd_range F) inp t g)"
  using pr
proof cases
  case (choosing left)
  obtain a where a: "best_peer (at_now inp) (at_pick inp) (cm_peers g) = Some a"
    using backfill_peer_some [OF ps] by blast
  have "progress input payload noise F 0 (7 * packets_from noise F 0 + 5) (Connecting left a)" by (rule progress.connecting)
  then show ?thesis using choosing ps a by (auto intro: silent_move)
next
  case connecting
  then show ?thesis using connecting_goes_on [OF T ans inp ps] by simp
next
  case (merging s di info left a rp)
  from merging(4,5) have "progress input payload noise F 0 (7 * packets_from noise F 0 + 3) (Crediting left a s)"
    by (rule progress.crediting)
  then show ?thesis unfolding merging(1-3) tick_step.simps by (rule silent_move) (simp_all add: peers_kept(3) [OF ps])
next
  case (crediting s di info left a)
  from crediting(4,5) have "progress input payload noise F 0 (7 * packets_from noise F 0 + 2) (Asking left a s)"
    by (rule progress.asking)
  then show ?thesis unfolding crediting(1-3) tick_step.simps by (rule silent_move) (simp_all add: peers_kept(2) [OF ps])
next
  case asking
  then show ?thesis using asking_goes_on [OF T ans inp ps] by simp
next
  case (reading w ns left a epoch)
  show ?thesis
  proof (cases ns)
    case Nil
    then show ?thesis using answered_goes_on [OF T ans inp ps reading(3,4)] reading(1,2,6) by simp
  next
    case (Cons pkt ns')
    then have "quiet pkt" "list_all quiet ns'" using reading(5) by simp_all
    from noise_goes_on [OF T inp ps reading(3,4) this, of payload noise] show ?thesis
      using reading(1,2,6) Cons by simp
  qed
next
  case (drained w left a epoch)
  then have t': "tick_step T X N (fd_range F) inp t g = (Finished (next_tick_to_request w), g)"
    by (auto simp: tick_reading_def window_at_def requests_def)
  have "progress input payload noise F k 0 (Finished (next_tick_to_request w))" unfolding drained(3) by (rule progress.finished)
  then show ?thesis unfolding t' by (rule silent_move) (simp_all add: drained(1,2) ps)
next
  case publishing
  then show ?thesis using publishing_goes_on [OF N ans ps] by simp
next
  case counting
  then show ?thesis using counting_goes_on [OF T ans inp ps] by simp
qed (use \<open>0 < r\<close> in simp)

section \<open>All workers\<close>

definition moves_of :: "nat \<Rightarrow> 's backfill_event list \<Rightarrow> nat" where
  "moves_of i events = length (filter (\<lambda>e. case e of TickMoves j inp \<Rightarrow> j = i | _ \<Rightarrow> False) events)"

definition moves_needed :: "(u32 \<Rightarrow> packet list) \<Rightarrow> 's feed \<Rightarrow> nat" where
  "moves_needed noise F = 7 * packets_from noise F 0 + 6"

text \<open>The ticks a worker has published, as messages.\<close>

definition tick_messages :: "ext \<Rightarrow> (event \<Rightarrow> bytes) \<Rightarrow> (u32 \<Rightarrow> bytes) \<Rightarrow> 's feed \<Rightarrow> nat \<Rightarrow> (string \<times> bytes) list" where
  "tick_messages X J payload F k = map (\<lambda>j. tick_message X J (payload (tick_at F j))) [0..<k]"

text \<open>
  After some moves: worker \<open>i\<close> has published \<open>K i\<close> ticks and needs at most \<open>R i\<close> more moves, and what
  the workers stored and counted together is the sum of their parts.
\<close>

definition on_the_way :: "('s \<Rightarrow> bytes) \<Rightarrow> ('n \<Rightarrow> (string \<times> bytes) list) \<Rightarrow> ext \<Rightarrow> (event \<Rightarrow> bytes) \<Rightarrow> (u32 \<Rightarrow> bytes)
    \<Rightarrow> (u32 \<Rightarrow> packet list) \<Rightarrow> (nat \<Rightarrow> 's feed) \<Rightarrow> (u32 \<times> u32) list \<Rightarrow> 'n \<Rightarrow> (nat \<Rightarrow> nat) \<Rightarrow> (nat \<Rightarrow> nat) \<Rightarrow> ('s, 'n) backfill_world \<Rightarrow> bool" where
  "on_the_way input stored X J payload noise F ranges n K R g \<longleftrightarrow>
     bw_ranges g = ranges \<and> length (bw_ticks g) = length ranges \<and> cm_peers g \<noteq> []
   \<and> (\<forall>i<length ranges. \<exists>r\<le>R i. progress input payload noise (F i) (K i) r (bw_ticks g ! i))
   \<and> (\<exists>new. stored (cm_nats g) = stored n @ new
        \<and> mset (filter (on_kind ''TICK'') new) = (\<Sum>i<length ranges. mset (tick_messages X J payload (F i) (K i))))
   \<and> ticks_completed (bc_shared (cm_client g)) + sum_list (map (due AddCompleted) (bw_ticks g))
     = word_of_nat (\<Sum>i<length ranges. K i)
   \<and> ticks_failed (bc_shared (cm_client g)) = 0"

lemma tick_message_kind [simp]: "on_kind ''TICK'' (tick_message X J bs)"
  by (simp add: tick_message_def)

lemma sum_upd:
  fixes f :: "nat \<Rightarrow> 'a \<Rightarrow> 'b :: comm_monoid_add"
  assumes "i < m" "f i y = f i (K i) + d"
  shows "(\<Sum>j<m. f j ((K(i := y)) j)) = (\<Sum>j<m. f j (K j)) + d"
proof -
  have "(\<Sum>j<m. f j ((K(i := y)) j)) = f i y + (\<Sum>j\<in>{..<m} - {i}. f j (K j))"
    using assms(1) by (subst sum.remove [of _ i]) (auto intro!: arg_cong2 [of _ _ _ _ plus] sum.cong)
  also have "\<dots> = (f i (K i) + (\<Sum>j\<in>{..<m} - {i}. f j (K j))) + d" using assms(2) by (simp add: ac_simps)
  also have "f i (K i) + (\<Sum>j\<in>{..<m} - {i}. f j (K j)) = (\<Sum>j<m. f j (K j))"
    using assms(1) by (subst sum.remove [of "{..<m}" i]) auto
  finally show ?thesis .
qed

lemma messages_grow:
  fixes F :: "nat \<Rightarrow> 's feed"
  assumes i: "i < length ranges" and k': "K i \<le> k'"
    and new: "mset (filter (on_kind ''TICK'') new) = (\<Sum>j<length ranges. mset (tick_messages X J payload (F j) (K j)))"
  defines "msgs \<equiv> map (\<lambda>j. tick_message X J (payload (tick_at (F i) j))) [K i..<k']"
  shows "mset (filter (on_kind ''TICK'') (new @ msgs)) = (\<Sum>j<length ranges. mset (tick_messages X J payload (F j) ((K(i := k')) j)))"
    and "(\<Sum>j<length ranges. (K(i := k')) j) = (\<Sum>j<length ranges. K j) + length msgs"
proof -
  have "tick_messages X J payload (F i) k' = tick_messages X J payload (F i) (K i) @ msgs"
    using k' by (simp add: tick_messages_def msgs_def upt_split flip: map_append)
  then have "(\<Sum>j<length ranges. mset (tick_messages X J payload (F j) ((K(i := k')) j)))
      = (\<Sum>j<length ranges. mset (tick_messages X J payload (F j) (K j))) + mset msgs"
    by (intro sum_upd [where f = "\<lambda>j k. mset (tick_messages X J payload (F j) k)"]) (use i in simp_all)
  moreover have "filter (on_kind ''TICK'') msgs = msgs" by (auto simp: msgs_def intro!: filter_True)
  ultimately show "mset (filter (on_kind ''TICK'') (new @ msgs))
      = (\<Sum>j<length ranges. mset (tick_messages X J payload (F j) ((K(i := k')) j)))"
    using new by simp
  show "(\<Sum>j<length ranges. (K(i := k')) j) = (\<Sum>j<length ranges. K j) + length msgs"
    using sum_upd [OF i, of "\<lambda>j k. k" k' K "length msgs"] k' by (simp add: msgs_def)
qed

lemma on_the_way_moved:
  assumes ow: "on_the_way input stored X J payload noise F ranges n K R g" and i: "i < length ranges"
    and st: "tick_step T X N rng inp (bw_ticks g ! i) g = (t', g')"
    and k': "progress input payload noise (F i) k' r' t'" "r' < R i" "K i \<le> k'"
    and adv: "advanced stored (map (\<lambda>j. tick_message X J (payload (tick_at (F i) j))) [K i..<k']) (bw_ticks g ! i) g t' g'"
  shows "on_the_way input stored X J payload noise F ranges n (K(i := k')) (R(i := R i - 1)) (g'\<lparr>bw_ticks := (bw_ticks g)[i := t']\<rparr>)"
proof -
  define msgs where "msgs = map (\<lambda>j. tick_message X J (payload (tick_at (F i) j))) [K i..<k']"
  have len: "i < length (bw_ticks g)" using ow i by (simp add: on_the_way_def)
  obtain new where new: "stored (cm_nats g) = stored n @ new"
    "mset (filter (on_kind ''TICK'') new) = (\<Sum>j<length ranges. mset (tick_messages X J payload (F j) (K j)))"
    using ow by (auto simp: on_the_way_def)
  note grow = messages_grow [OF i k'(3) new(2), folded msgs_def]
  have stored: "stored (cm_nats g') = stored n @ (new @ msgs)" using new(1) adv by (simp add: advanced_def msgs_def)
  have "ticks_completed (bc_shared (cm_client g')) + (sum_list (map (due AddCompleted) (bw_ticks g))
      - due AddCompleted (bw_ticks g ! i) + due AddCompleted t') = 0 + (word_of_nat (\<Sum>j<length ranges. K j) + word_of_nat (length msgs))"
    by (rule move_balance) (use ow adv in \<open>simp_all add: on_the_way_def advanced_def msgs_def\<close>)
  then have fin: "ticks_completed (bc_shared (cm_client g')) + sum_list (map (due AddCompleted) ((bw_ticks g)[i := t']))
      = word_of_nat (\<Sum>j<length ranges. (K(i := k')) j)"
    unfolding grow(2) using len by (simp add: sum_list_move)
  have "\<exists>r\<le>(R(i := R i - 1)) j. progress input payload noise (F j) ((K(i := k')) j) r ((bw_ticks g)[i := t'] ! j)"
    if "j < length ranges" for j
    using that ow k'(1,2) len unfolding on_the_way_def by (cases "j = i") (auto intro!: exI [of _ r'])
  moreover have "ticks_failed (bc_shared (cm_client g')) = 0" "cm_peers g' \<noteq> []"
    using ow adv unfolding on_the_way_def advanced_def by simp_all
  ultimately show ?thesis
    unfolding on_the_way_def using stored grow(1) fin len ow [unfolded on_the_way_def] by (simp add: tick_step_tasks [OF st])
qed

lemma on_the_way_tick:
  assumes T: "tcp_ok T input output" and N: "nats_healthy N stored J"
    and ow: "on_the_way input stored X J payload noise F ranges n K R g" and i: "i < length ranges"
    and F: "fd_range (F i) = ranges ! i" "answering input X payload noise (F i)" "on_line (F i) inp"
  shows "\<exists>K. on_the_way input stored X J payload noise F ranges n K (R(i := R i - 1)) (backfill_step T X N cfg (TickMoves i inp) g)"
proof -
  let ?t = "bw_ticks g ! i"
  have all: "\<exists>r\<le>R j. progress input payload noise (F j) (K j) r (bw_ticks g ! j)" if "j < length ranges" for j
    using ow that unfolding on_the_way_def by blast
  obtain r where r: "r \<le> R i" "progress input payload noise (F i) (K i) r ?t" using all [OF i] by blast
  have len: "i < length (bw_ticks g)" "bw_ranges g = ranges" using ow i by (simp_all add: on_the_way_def)
  show ?thesis
  proof (cases "r = 0")
    case True
    with r(2) have "tick_over ?t" using progress_over by blast
    then have same: "backfill_step T X N cfg (TickMoves i inp) g = g" using len by (simp add: tick_over_stays)
    have "\<exists>r\<le>(R(i := R i - 1)) j. progress input payload noise (F j) (K j) r (bw_ticks g ! j)" if "j < length ranges" for j
      using all [OF that] r(2) True by (cases "j = i") auto
    then have "on_the_way input stored X J payload noise F ranges n K (R(i := R i - 1)) g"
      using ow unfolding on_the_way_def by blast
    then show ?thesis unfolding same by blast
  next
    case False
    obtain t' g' where st: "tick_step T X N (ranges ! i) inp ?t g = (t', g')" by fastforce
    have "cm_peers g \<noteq> []" using ow by (simp add: on_the_way_def)
    from tick_step_advances [where T = T, OF T N F(2,3) this r(2)] False obtain k' r' where
      k': "progress input payload noise (F i) k' r' t'" "r' < r" "K i \<le> k'"
      "advanced stored (map (\<lambda>j. tick_message X J (payload (tick_at (F i) j))) [K i..<k']) ?t g t' g'"
      by (auto simp: goes_on_def F(1) st)
    have "backfill_step T X N cfg (TickMoves i inp) g = g'\<lparr>bw_ticks := (bw_ticks g)[i := t']\<rparr>"
      using len st by (simp add: tick_step_tasks [OF st])
    then show ?thesis using on_the_way_moved [OF ow i st k'(1) _ k'(3,4)] k'(2) r(1) by fastforce
  qed
qed

text \<open>The moves of the other tasks do not touch the tick workers, their messages or their counters.\<close>

lemma tx_step_apart:
  assumes "tx_step T X N rng inp t g = (t', g')"
  shows "ticks_completed (bc_shared (cm_client g')) = ticks_completed (bc_shared (cm_client g))
    \<and> ticks_failed (bc_shared (cm_client g')) = ticks_failed (bc_shared (cm_client g))
    \<and> (cm_peers g \<noteq> [] \<longrightarrow> cm_peers g' \<noteq> [])"
  using assms
  by (cases rule: tx_step.cases [of "(T, X, N, rng, inp, t, g)"])
    (auto simp: peers_kept split: option.splits outcome.splits prod.splits if_splits)

lemma on_the_way_same:
  assumes "on_the_way input stored X J payload noise F ranges n K R g"
    and "bw_ranges g' = bw_ranges g" "bw_ticks g' = bw_ticks g" "cm_peers g' \<noteq> []"
    and "stored (cm_nats g') = stored (cm_nats g) @ extra" "filter (on_kind ''TICK'') extra = []"
    and "ticks_completed (bc_shared (cm_client g')) = ticks_completed (bc_shared (cm_client g))"
    and "ticks_failed (bc_shared (cm_client g')) = ticks_failed (bc_shared (cm_client g))"
  shows "on_the_way input stored X J payload noise F ranges n K R g'"
proof -
  obtain new where "stored (cm_nats g) = stored n @ new"
    "mset (filter (on_kind ''TICK'') new) = (\<Sum>i<length ranges. mset (tick_messages X J payload (F i) (K i)))"
    using assms(1) unfolding on_the_way_def by blast
  then have "stored (cm_nats g') = stored n @ (new @ extra)"
    "mset (filter (on_kind ''TICK'') (new @ extra)) = (\<Sum>i<length ranges. mset (tick_messages X J payload (F i) (K i)))"
    using assms(5,6) by simp_all
  then show ?thesis
    using assms(1) unfolding on_the_way_def assms(2,3,7,8) by (intro conjI exI [of _ "new @ extra"]) (simp_all add: assms(4))
qed

lemma on_the_way_apart:
  assumes N: "nats_healthy N stored J" and ow: "on_the_way input stored X J payload noise F ranges n K R g"
    and e: "\<And>i inp. e \<noteq> TickMoves i inp"
  shows "on_the_way input stored X J payload noise F ranges n K R (backfill_step T X N cfg e g)"
proof -
  have ps: "cm_peers g \<noteq> []" using ow unfolding on_the_way_def by blast
  note same = on_the_way_same [OF ow, where extra = "[]"]
  show ?thesis
  proof (cases e)
    case (TxMoves i inp)
    show ?thesis
    proof (cases "i < length (bw_txs g)")
      case True
      obtain t' g' where st: "tx_step T X N (bw_tx_ranges g ! i) inp (bw_txs g ! i) g = (t', g')" by fastforce
      from tx_step_counts [OF N st] obtain extra where extra: "stored (cm_nats g') = stored (cm_nats g) @ extra"
        "filter (on_kind ''TICK'') extra = []" by blast
      have "on_the_way input stored X J payload noise F ranges n K R (g'\<lparr>bw_txs := (bw_txs g')[i := t']\<rparr>)"
        by (rule on_the_way_same [OF ow, where extra = extra])
          (use tx_step_apart [OF st] ps extra in \<open>simp_all add: tx_step_tasks [OF st]\<close>)
      then show ?thesis using True st by (simp add: TxMoves)
    qed (use ow in \<open>simp add: TxMoves\<close>)
  next
    case ReporterMoves
    have "bc_shared (cm_client (reporter_step g)) = bc_shared (cm_client g)"
      by (auto simp: reporter_step_def split: reporter.split prod.split option.split dest!: report_step_flags)
    then show ?thesis by (intro same) (use ps in \<open>simp_all add: ReporterMoves\<close>)
  next
    case MainMoves
    have "bc_shared (cm_client (main_step cfg g (bw_main g))) = bc_shared (cm_client g)"
      by (cases "bw_main g") (auto simp: Let_def split: prod.split option.split dest!: report_step_flags)
    then show ?thesis by (intro same) (use ps in \<open>simp_all add: MainMoves\<close>)
  next
    case (LiveMoves ep tick)
    then show ?thesis by (intro same) (use ps in simp_all)
  qed (use e in blast)
qed

lemma on_the_way_step:
  assumes T: "tcp_ok T input output" and N: "nats_healthy N stored J"
    and ow: "on_the_way input stored X J payload noise F ranges n K R g"
    and F: "\<And>i. i < length ranges \<Longrightarrow> fd_range (F i) = ranges ! i \<and> answering input X payload noise (F i)"
    and e: "\<And>i inp. e = TickMoves i inp \<Longrightarrow> i < length ranges \<Longrightarrow> on_line (F i) inp"
  shows "\<exists>K. on_the_way input stored X J payload noise F ranges n K (\<lambda>i. R i - moves_of i [e]) (backfill_step T X N cfg e g)"
proof (cases "\<exists>i inp. e = TickMoves i inp")
  case True
  then obtain i inp where e': "e = TickMoves i inp" by blast
  have R: "(\<lambda>j. R j - moves_of j [e]) = R(i := R i - 1)" by (auto simp: moves_of_def e')
  show ?thesis
  proof (cases "i < length ranges")
    case True
    show ?thesis unfolding R unfolding e' using F [OF True] e [OF e' True]
      by (intro on_the_way_tick [OF T N ow True]) blast+
  next
    case False
    then have "backfill_step T X N cfg e g = g" using ow unfolding on_the_way_def by (simp add: e')
    moreover have "on_the_way input stored X J payload noise F ranges n K (R(i := R i - 1)) g"
      using ow False unfolding on_the_way_def by auto
    ultimately show ?thesis unfolding R by metis
  qed
next
  case False
  then have "(\<lambda>j. R j - moves_of j [e]) = R" by (auto simp: moves_of_def split: backfill_event.split)
  then show ?thesis using on_the_way_apart [where e = e, OF N ow] False by auto
qed

lemma on_the_way_run:
  assumes T: "tcp_ok T input output" and N: "nats_healthy N stored J"
    and F: "\<And>i. i < length ranges \<Longrightarrow> fd_range (F i) = ranges ! i \<and> answering input X payload noise (F i)"
    and "\<And>i inp. TickMoves i inp \<in> set events \<Longrightarrow> i < length ranges \<Longrightarrow> on_line (F i) inp"
    and "on_the_way input stored X J payload noise F ranges n K R g"
  shows "\<exists>K. on_the_way input stored X J payload noise F ranges n K (\<lambda>i. R i - moves_of i events) (backfill_run T X N cfg g events)"
  using assms(4,5)
proof (induction events arbitrary: K R g)
  case Nil
  then show ?case by (auto simp: backfill_run_def moves_of_def)
next
  case (Cons e events)
  have e: "e = TickMoves i inp \<Longrightarrow> i < length ranges \<Longrightarrow> on_line (F i) inp" for i inp using Cons.prems(1) by auto
  have more: "TickMoves i inp \<in> set events \<Longrightarrow> i < length ranges \<Longrightarrow> on_line (F i) inp" for i inp
    using Cons.prems(1) by auto
  obtain K' where "on_the_way input stored X J payload noise F ranges n K' (\<lambda>i. R i - moves_of i [e]) (backfill_step T X N cfg e g)"
    using on_the_way_step [OF T N Cons.prems(2) F e, where cfg = cfg] by blast
  from Cons.IH [OF more this] have "\<exists>K. on_the_way input stored X J payload noise F ranges n K
      (\<lambda>i. R i - moves_of i [e] - moves_of i events) (backfill_run T X N cfg g (e # events))"
    by (simp add: backfill_run_def)
  moreover have "R i - moves_of i [e] - moves_of i events = R i - moves_of i (e # events)" for i
    by (simp add: moves_of_def)
  ultimately show ?case by simp
qed

lemma spawned_on_the_way:
  assumes "launched b" "ps \<noteq> []"
  shows "on_the_way input stored X J payload noise F ranges n (\<lambda>_. 0) (\<lambda>i. moves_needed noise (F i)) (spawned ranges b ps n)"
proof -
  have "progress input payload noise (F i) 0 (moves_needed noise (F i)) (Choosing MAX_PEERS_PER_WORKER)" for i
    using progress.choosing [of input payload noise "F i" 7] by (simp add: moves_needed_def MAX_PEERS_PER_WORKER_def numeral_eq_Suc)
  then show ?thesis
    using assms by (auto simp: on_the_way_def spawned_def launched_def new_shared_def tick_messages_def)
qed

section \<open>The whole range\<close>

lemma ticks_of_feed:
  assumes "fst (fd_range F) \<le> snd (fd_range F)"
  shows "map (tick_at F) [0..<ticks_left F] = tick_list (fst (fd_range F)) (snd (fd_range F))"
proof -
  have "unat (fst (fd_range F)) \<le> unat (snd (fd_range F))" using assms by (simp add: word_le_nat_alt)
  then have "[unat (fst (fd_range F))..<unat (snd (fd_range F))] = map (\<lambda>k. unat (fst (fd_range F)) + k) [0..<ticks_left F]"
    by (simp add: ticks_left_def map_add_upt add.commute)
  then show ?thesis by (simp add: tick_list_def tick_at_def comp_def)
qed

lemma sum_mset_concat: "(\<Sum>i<length xss. mset (f (xss ! i))) = mset (concat (map f xss))"
  by (induction xss) (simp_all add: sum.lessThan_Suc_shift del: sum.lessThan_Suc)

text \<open>The workers' parts are the whole range.\<close>

lemma published_everything:
  assumes le: "start_tick < end_tick" and "unat start_tick + max k 1 \<le> 2 ^ 32"
    and r: "ranges = partition_ticks k start_tick end_tick"
    and F: "\<And>i. i < length ranges \<Longrightarrow> fd_range (F i) = ranges ! i"
    and K: "\<And>i. i < length ranges \<Longrightarrow> K i = ticks_left (F i)"
  shows "(\<Sum>i<length ranges. mset (tick_messages X J payload (F i) (K i)))
    = mset (map (\<lambda>t. tick_message X J (payload t)) (tick_list start_tick end_tick))"
proof -
  let ?part = "\<lambda>(a, b). map (\<lambda>t. tick_message X J (payload t)) (tick_list a b)"
  have cover: "concat (map (\<lambda>(a, b). [unat a..<unat b]) ranges) = [unat start_tick..<unat end_tick]"
    unfolding r by (rule partition_covers_once [OF assms(1,2)])
  have "tick_messages X J payload (F i) (K i) = ?part (ranges ! i)" if i: "i < length ranges" for i
  proof -
    have "fst (ranges ! i) \<le> snd (ranges ! i)"
      using partition_bounds [of "fst (ranges ! i)" "snd (ranges ! i)" k start_tick end_tick] nth_mem [OF i]
      by (simp add: r less_imp_le)
    then have "map (tick_at (F i)) [0..<ticks_left (F i)] = tick_list (fst (ranges ! i)) (snd (ranges ! i))"
      using ticks_of_feed [of "F i"] F [OF i] by simp
    moreover have "tick_messages X J payload (F i) (K i)
        = map (\<lambda>t. tick_message X J (payload t)) (map (tick_at (F i)) [0..<ticks_left (F i)])"
      using K [OF i] by (simp add: tick_messages_def)
    ultimately show ?thesis by (simp only: case_prod_beta)
  qed
  then have "(\<Sum>i<length ranges. mset (tick_messages X J payload (F i) (K i))) = mset (concat (map ?part ranges))"
    by (simp flip: sum_mset_concat)
  moreover have "concat (map ?part rs) = map (\<lambda>t. tick_message X J (payload (word_of_nat t)))
      (concat (map (\<lambda>(a, b). [unat a..<unat b]) rs))" for rs
    by (induction rs) (auto simp: tick_list_def)
  ultimately show ?thesis using cover by (simp add: tick_list_def comp_def)
qed

lemma on_the_way_over:
  assumes ow: "on_the_way input stored X J payload noise F ranges n K R g" and i: "i < length ranges" "R i = 0"
  shows "tick_over (bw_ticks g ! i) \<and> (\<exists>t. bw_ticks g ! i = Finished t) \<and> K i = ticks_left (F i)"
proof -
  obtain r where "r \<le> R i" "progress input payload noise (F i) (K i) r (bw_ticks g ! i)"
    using ow i(1) unfolding on_the_way_def by blast
  then have "progress input payload noise (F i) (K i) 0 (bw_ticks g ! i)" using i(2) by simp
  then show ?thesis by (rule progress_over)
qed

lemma tick_phase:
  assumes T: "tcp_ok T input output" and N: "nats_healthy N stored J"
    and g0: "backfill_begin T cfg api atts epochs p n = Some (Inr g0)" "cm_peers g0 \<noteq> []"
    and se: "start_tick = bc_start (cm_client g0)" "end_tick = bc_end (cm_client g0)"
      "unat start_tick + max (workers cfg) 1 \<le> 2 ^ 32"
    and F: "\<And>i. i < length (bw_ranges g0) \<Longrightarrow> fd_range (F i) = bw_ranges g0 ! i \<and> answering input X payload noise (F i)"
    and events: "\<And>i inp. TickMoves i inp \<in> set events \<Longrightarrow> i < length (bw_ranges g0) \<Longrightarrow> on_line (F i) inp"
      "\<And>i. i < length (bw_ranges g0) \<Longrightarrow> moves_needed noise (F i) \<le> moves_of i events"
    and g: "g = backfill_run T X N cfg g0 events"
  shows "(\<forall>task\<in>set (bw_ticks g). \<exists>t. task = Finished t)
    \<and> (\<exists>new. stored (cm_nats g) = stored n @ new
        \<and> mset (filter (on_kind ''TICK'') new) = mset (map (\<lambda>t. tick_message X J (payload t)) (tick_list start_tick end_tick)))
    \<and> ticks_discovered (bc_shared (cm_client g)) = word_of_nat (unat end_tick - unat start_tick)
    \<and> ticks_completed (bc_shared (cm_client g)) = word_of_nat (unat end_tick - unat start_tick)
    \<and> ticks_failed (bc_shared (cm_client g)) = 0 \<and> cm_peers g \<noteq> []"
proof -
  obtain b ps where sp: "g0 = spawned (partition_ticks (workers cfg) start_tick end_tick) b ps n" "launched b"
    and le: "start_tick < end_tick"
    by (rule backfill_begin_spawned [OF g0(1)]) (simp add: se(1,2) spawned_def)
  define ranges where "ranges = partition_ticks (workers cfg) start_tick end_tick"
  have ranges: "bw_ranges g0 = ranges" "ps \<noteq> []" using sp(1) g0(2) by (simp_all add: spawned_def ranges_def)
  obtain K where ow: "on_the_way input stored X J payload noise F ranges n K (\<lambda>i. moves_needed noise (F i) - moves_of i events) g"
    using on_the_way_run [OF T N F [unfolded ranges] events(1) [unfolded ranges] spawned_on_the_way [OF sp(2) ranges(2)], where cfg = cfg]
    unfolding g sp(1) ranges_def [symmetric] by blast
  have len: "length (bw_ticks g) = length ranges" using ow unfolding on_the_way_def by blast
  have over: "tick_over (bw_ticks g ! i) \<and> (\<exists>t. bw_ticks g ! i = Finished t) \<and> K i = ticks_left (F i)"
    if "i < length ranges" for i
    using on_the_way_over [OF ow that] events(2) that ranges(1) by simp
  then have none: "sum_list (map (due op) (bw_ticks g)) = 0" for op
    using len by (intro over_none_pending) (simp add: list_all_length)
  have all: "(\<Sum>i<length ranges. mset (tick_messages X J payload (F i) (K i)))
      = mset (map (\<lambda>t. tick_message X J (payload t)) (tick_list start_tick end_tick))"
    by (rule published_everything [OF le se(3) ranges_def]) (use F over ranges(1) in simp_all)
  obtain new where new: "stored (cm_nats g) = stored n @ new"
    "mset (filter (on_kind ''TICK'') new) = mset (map (\<lambda>t. tick_message X J (payload t)) (tick_list start_tick end_tick))"
    using ow unfolding on_the_way_def all by blast
  have len_new: "length (filter (on_kind ''TICK'') new) = unat end_tick - unat start_tick"
    using arg_cong [OF new(2), of size] by (simp only: size_mset length_map tick_list_def length_upt)
  have "counted stored n new_shared g"
    using counted_run [OF N sp(2), of T X cfg ranges ps n events] by (simp add: g sp(1) ranges_def)
  then have disc: "discovered g = word_of_nat (unat end_tick - unat start_tick)"
    using new(1) by (auto simp: counted_def none new_shared_def len_new)
  have "(\<Sum>i<length ranges. K i) = size (\<Sum>i<length ranges. mset (tick_messages X J payload (F i) (K i)))"
    by (simp add: size_multiset_sum tick_messages_def)
  also have "\<dots> = unat end_tick - unat start_tick" unfolding all by (simp add: tick_list_def)
  finally have "ticks_completed (bc_shared (cm_client g)) = word_of_nat (unat end_tick - unat start_tick)"
    "ticks_failed (bc_shared (cm_client g)) = 0" "cm_peers g \<noteq> []"
    using ow by (simp_all add: on_the_way_def none)
  then show ?thesis using new disc over len by (auto simp: in_set_conv_nth)
qed

text \<open>
  C13: the backfill gets through.  When every tick worker is connected to a node that answers its
  requests in order, with data that decodes and any packets of other kinds in between, then in every
  interleaving of the tasks in which each worker moves often enough, all tick workers finish, every
  tick of the range has been published exactly once, none is counted as failed, and both counters
  are the length of the range.
\<close>

theorem tick_phase_complete:
  assumes T: "tcp_ok T input output" and N: "nats_healthy N stored J"
    and g0: "backfill_begin T cfg api atts epochs p n = Some (Inr g0)" "cm_peers g0 \<noteq> []"
    and se: "start_tick = bc_start (cm_client g0)" "end_tick = bc_end (cm_client g0)"
      "unat start_tick + max (workers cfg) 1 \<le> 2 ^ 32"
    and F: "\<And>i. i < length (bw_ranges g0) \<Longrightarrow> fd_range (F i) = bw_ranges g0 ! i \<and> answering input X payload noise (F i)"
    and events: "\<And>i inp. TickMoves i inp \<in> set events \<Longrightarrow> i < length (bw_ranges g0) \<Longrightarrow> on_line (F i) inp"
      "\<And>i. i < length (bw_ranges g0) \<Longrightarrow> moves_needed noise (F i) \<le> moves_of i events"
    and g: "g = backfill_run T X N cfg g0 events"
  shows "(\<forall>task\<in>set (bw_ticks g). \<exists>t. task = Finished t)
    \<and> (\<exists>new. stored (cm_nats g) = stored n @ new
        \<and> mset (filter (on_kind ''TICK'') new) = mset (map (\<lambda>t. tick_message X J (payload t)) (tick_list start_tick end_tick)))
    \<and> ticks_discovered (bc_shared (cm_client g)) = word_of_nat (unat end_tick - unat start_tick)
    \<and> ticks_completed (bc_shared (cm_client g)) = word_of_nat (unat end_tick - unat start_tick)
    \<and> ticks_failed (bc_shared (cm_client g)) = 0"
  using tick_phase [OF assms] by blast

section \<open>A run\<close>

text \<open>The backfill of two ticks again; the node also sends its state before each answer.\<close>

definition demo_tick_payload :: bytes where
  "demo_tick_payload = u16_to_le 5 @ u16_to_le 218 @ u32_to_le 7 @ u16_to_le 0 @ [30, 15, 12, 29, 2, 24] @ replicate 32 1"

definition demo_noise :: "packet list" where
  "demo_noise = [(28, 0, replicate 16 0)]"

definition demo_feed :: "(bytes \<times> bytes) feed" where
  "demo_feed = (let F = \<lparr>fd_range = (7, 9), fd_rand = (\<lambda>k. word_of_nat k), fd_stream = ([], []), fd_rest = []\<rparr>
     in F\<lparr>fd_stream := (demo_handshake @ answers_from (\<lambda>_. demo_tick_payload) (\<lambda>_. demo_noise) F 0, [])\<rparr>)"

definition demo_input :: "(bytes \<times> bytes) tick_input" where
  "demo_input = attempt.extend (demo_peer_attempt (fst (fd_stream demo_feed))) \<lparr>ti_rand = fd_rand demo_feed, ti_elapsed = False\<rparr>"

lemma demo_tick_known: "tick_known demo_ext (\<lambda>_. demo_tick_payload) (\<lambda>_. demo_noise) t"
proof -
  have "is_ok (decode_tick demo_ext demo_tick_payload)"
    by (simp add: demo_tick_payload_def decode_tick_def read_simps qubic_date_to_unix_Ok nth_append)
  then show ?thesis by (simp add: tick_known_def demo_noise_def quiet_def fits_def demo_tick_payload_def)
qed

lemma answers_from_stream: "answers_from payload noise (F\<lparr>fd_stream := s\<rparr>) k = answers_from payload noise F k"
proof -
  have "answer_to payload noise (F\<lparr>fd_stream := s\<rparr>) = answer_to payload noise F"
    by (rule ext) (simp add: answer_to_def tick_at_def dejavu_at_def)
  then show ?thesis by (simp add: answers_from_def ticks_left_def)
qed

lemma demo_answering: "answering fst demo_ext (\<lambda>_. demo_tick_payload) (\<lambda>_. demo_noise) demo_feed"
proof -
  have "handshake demo_handshake" unfolding handshake_def demo_handshake_def by (metis length_replicate)
  moreover have "fst (fd_stream demo_feed) = demo_handshake @ answers_from (\<lambda>_. demo_tick_payload) (\<lambda>_. demo_noise) demo_feed 0"
    by (simp only: demo_feed_def Let_def answers_from_stream) simp
  ultimately show ?thesis unfolding answering_def using demo_tick_known by blast
qed

lemma demo_on_line: "on_line demo_feed demo_input"
  by (simp add: on_line_def demo_input_def demo_peer_attempt_def attempt.defs demo_feed_def Let_def)

lemma demo_moves:
  "moves_needed (\<lambda>_. demo_noise) demo_feed = 34" "moves_of 0 (replicate 40 (TickMoves 0 inp)) = 40"
  by (simp_all add: moves_needed_def packets_from_def ticks_left_def demo_feed_def demo_noise_def Let_def upt_conv_Cons moves_of_def)

lemma demo_fields:
  "bw_ranges demo_world = [(7, 9)]" "cm_peers demo_world \<noteq> []" "bc_start (cm_client demo_world) = 7"
  "bc_end (cm_client demo_world) = 9" "workers demo_config = 1" "fd_range demo_feed = (7, 9)"
  "bw_main demo_world = JoinTicks" "bw_reporter demo_world = Waiting"
  by (simp_all add: demo_world_def spawned_def demo_config_def demo_feed_def Let_def)

theorem tick_phase_complete_witness:
  "\<exists>g. g = backfill_run mem_tcp demo_ext (mem_nats (\<lambda>_. [1])) demo_config demo_world (replicate 40 (TickMoves 0 demo_input))
    \<and> (\<forall>task\<in>set (bw_ticks g). \<exists>t. task = Finished t)
    \<and> mset (filter (on_kind ''TICK'') (cm_nats g)) = {#(subject 218 ''TICK'', [1]), (subject 218 ''TICK'', [1])#}
    \<and> ticks_discovered (bc_shared (cm_client g)) = 2"
proof -
  define g where "g = backfill_run mem_tcp demo_ext (mem_nats (\<lambda>_. [1])) demo_config demo_world (replicate 40 (TickMoves 0 demo_input))"
  note w = demo_fields
  have g: "(\<forall>task\<in>set (bw_ticks g). \<exists>t. task = Finished t)
    \<and> (\<exists>new. id (cm_nats g) = id [] @ new \<and> mset (filter (on_kind ''TICK'') new)
        = mset (map (\<lambda>t. tick_message demo_ext (\<lambda>_. [1]) demo_tick_payload) (tick_list 7 9)))
    \<and> ticks_discovered (bc_shared (cm_client g)) = word_of_nat (unat (9 :: u32) - unat (7 :: u32))
    \<and> ticks_completed (bc_shared (cm_client g)) = word_of_nat (unat (9 :: u32) - unat (7 :: u32))
    \<and> ticks_failed (bc_shared (cm_client g)) = 0"
    by (intro tick_phase_complete [OF mem_tcp_ok mem_nats_healthy demo_begin w(2), where F = "\<lambda>_. demo_feed"
          and payload = "\<lambda>_. demo_tick_payload" and noise = "\<lambda>_. demo_noise"])
      (simp_all add: w demo_answering demo_on_line demo_moves(1) demo_moves(2) [of demo_input] g_def)
  have "decode_tick demo_ext demo_tick_payload \<noteq> Err e" "decode_tick demo_ext demo_tick_payload \<noteq> Panic x" for e x
    using demo_tick_known [of 0] by (auto simp: tick_known_def elim!: is_okE)
  then have "tick_message demo_ext (\<lambda>_. [1]) demo_tick_payload = (subject 218 ''TICK'', [1])"
    by (cases "decode_tick demo_ext demo_tick_payload") (simp_all add: tick_message_def demo_tick_payload_def)
  with g show ?thesis unfolding g_def [symmetric] by (auto simp: tick_list_def upt_conv_Cons)
qed

section \<open>What a finished run shows\<close>


text \<open>The run above goes on: its transaction worker gets no answer to either of its requests in time.\<close>

lemma tick_moves_only:
  "bw_main (backfill_run T X N cfg g (replicate k (TickMoves i inp))) = bw_main g
   \<and> bw_reporter (backfill_run T X N cfg g (replicate k (TickMoves i inp))) = bw_reporter g
   \<and> bc_start (cm_client (backfill_run T X N cfg g (replicate k (TickMoves i inp)))) = bc_start (cm_client g)
   \<and> bc_end (cm_client (backfill_run T X N cfg g (replicate k (TickMoves i inp)))) = bc_end (cm_client g)"
proof (induction k arbitrary: g)
  case (Suc k)
  have "bc_start (perform op b) = bc_start b \<and> bc_end (perform op b) = bc_end b" for op b by (cases op) simp_all
  then have "bc_start (cm_client g') = bc_start (cm_client g) \<and> bc_end (cm_client g') = bc_end (cm_client g)"
    if "tick_step T X N rng inp t g = (t', g')" for rng t t' g'
    using that by (cases rule: tick_step.cases [of "(T, X, N, rng, inp, t, g)"])
      (auto split: option.splits outcome.splits prod.splits if_splits)
  then have "bw_main (backfill_step T X N cfg (TickMoves i inp) g) = bw_main g
      \<and> bw_reporter (backfill_step T X N cfg (TickMoves i inp) g) = bw_reporter g
      \<and> bc_start (cm_client (backfill_step T X N cfg (TickMoves i inp) g)) = bc_start (cm_client g)
      \<and> bc_end (cm_client (backfill_step T X N cfg (TickMoves i inp) g)) = bc_end (cm_client g)"
    by (auto simp: tick_step_tasks split: prod.split)
  then show ?case using Suc [of "backfill_step T X N cfg (TickMoves i inp) g"] by (simp add: backfill_run_def)
qed (simp add: backfill_run_def)

definition demo_tx_input :: "(bytes \<times> bytes) tx_input" where
  "demo_tx_input = attempt.extend (demo_peer_attempt demo_handshake) \<lparr>xi_rand = 5, xi_lost = Some 0\<rparr>"

lemma demo_txs_end:
  fixes g :: "(bytes \<times> bytes, 'n) backfill_world"
  assumes "bw_txs g = [TxChoosing 7]" "bw_tx_ranges g = [(7, 9)]" "cm_peers g \<noteq> []"
  shows "backfill_run mem_tcp X N cfg g (replicate 9 (TxMoves 0 demo_tx_input)) = g\<lparr>bw_txs := [TxDone 9]\<rparr>"
proof -
  let ?g = "\<lambda>t. g\<lparr>bw_txs := [t]\<rparr>" and ?in = demo_tx_input
  have at: "at_connect ?in = Ok (demo_handshake @ [], [])" "at_exchange_clock ?in = [False]" "at_info_clock ?in = [False]"
    by (simp_all add: demo_tx_input_def demo_peer_attempt_def attempt.defs)
  obtain a where a: "best_peer (at_now ?in) (at_pick ?in) (cm_peers g) = Some a" using backfill_peer_some [OF assms(3)] by blast
  obtain s epoch s' where c: "open_connection mem_tcp ?in = Some (Ok (map (chunk 4 (replicate 16 0)) [0..<4], s))"
    "connection_epoch mem_tcp ?in (bc_pipeline (cm_client g)) s = Some (Ok (epoch, s'))"
    by (rule demo_connection [OF at])
  have "\<exists>s''. send_raw mem_tcp st 29 bs d = Ok s''" for st bs d
    using send_raw_wire [OF mem_tcp_ok, of st 29 bs d] by blast
  then obtain s7 s8 where s: "send_raw mem_tcp s' 29 (u32_to_le 7) 5 = Ok s7" "send_raw mem_tcp s7 29 (u32_to_le 8) 5 = Ok s8"
    by metis
  have x: "xi_rand ?in = 5" "xi_lost ?in = Some 0" by (simp_all add: demo_tx_input_def attempt.defs)
  have move: "backfill_step mem_tcp X N cfg (TxMoves 0 ?in) (?g t) = ?g t'"
    if "tx_step mem_tcp X N (7, 9) ?in t (?g t) = (t', ?g t)" for t t'
    using that assms(2) by simp
  have "backfill_step mem_tcp X N cfg (TxMoves 0 ?in) (?g (TxChoosing 7)) = ?g (TxConnecting 7 a)"
    "backfill_step mem_tcp X N cfg (TxMoves 0 ?in) (?g (TxConnecting 7 a)) = ?g (TxAsking 7 a s)"
    "backfill_step mem_tcp X N cfg (TxMoves 0 ?in) (?g (TxAsking 7 a s)) = ?g (TxSending 7 a epoch 7 s')"
    "backfill_step mem_tcp X N cfg (TxMoves 0 ?in) (?g (TxSending 7 a epoch 7 s')) = ?g (TxReading 7 a epoch 7 s7)"
    "backfill_step mem_tcp X N cfg (TxMoves 0 ?in) (?g (TxReading 7 a epoch 7 s7)) = ?g (TxSending 7 a epoch 8 s7)"
    "backfill_step mem_tcp X N cfg (TxMoves 0 ?in) (?g (TxSending 7 a epoch 8 s7)) = ?g (TxReading 7 a epoch 8 s8)"
    "backfill_step mem_tcp X N cfg (TxMoves 0 ?in) (?g (TxReading 7 a epoch 8 s8)) = ?g (TxSending 7 a epoch 9 s8)"
    "backfill_step mem_tcp X N cfg (TxMoves 0 ?in) (?g (TxSending 7 a epoch 9 s8)) = ?g (TxChoosing 9)"
    "backfill_step mem_tcp X N cfg (TxMoves 0 ?in) (?g (TxChoosing 9)) = ?g (TxDone 9)"
    by (intro move; simp add: a c s x tx_reading_def drop_read_def)+
  moreover have "g = ?g (TxChoosing 7)" using assms(1) by simp
  ultimately show ?thesis by (simp add: backfill_run_def numeral_eq_Suc del: backfill_step.simps)
qed

lemma main_returns:
  assumes "bw_main g = JoinTxs" "list_all tx_over (bw_txs g)"
  shows "bw_main (backfill_run T X N cfg g (replicate 12 MainMoves)) = Returned"
  using assms by (simp add: backfill_run_def numeral_eq_Suc new_report_def load_order_def store_order_def)


end
