(* ===== verification/Backfill_Serial.thy ===== *)
theory Backfill_Serial
  imports Backfill_Interleaved
begin

text \<open>
  The two models of a tick worker agree: whatever the worker of theory \<open>Backfill_Run\<close>, which runs to
  the end in one call, does to its connection, to the shared counters, to the peers and to NATS, the
  worker of theory \<open>Backfill_Tasks\<close> does in steps when no other task moves in between.  What is proved
  of either is so proved of the same code.
\<close>

section \<open>One task alone\<close>

fun tick_moves :: "'s tcp \<Rightarrow> ext \<Rightarrow> 'n nats \<Rightarrow> u32 \<times> u32 \<Rightarrow> 's tick_input list \<Rightarrow> 's tick_task \<times> ('n, 'z) commons_scheme
    \<Rightarrow> 's tick_task \<times> ('n, 'z) commons_scheme" where
  "tick_moves T X N rng [] tg = tg"
| "tick_moves T X N rng (inp # inps) (t, g) = tick_moves T X N rng inps (tick_step T X N rng inp t g)"

lemma tick_moves_append:
  "tick_moves T X N rng (inps @ inps') tg = tick_moves T X N rng inps' (tick_moves T X N rng inps tg)"
  by (induction T X N rng inps tg rule: tick_moves.induct) simp_all

text \<open>The shared state of the tasks is the one the sequential worker carries.\<close>

definition agrees :: "peers \<Rightarrow> ('s, 'n) worker \<Rightarrow> ('n, 'z) commons_scheme \<Rightarrow> bool" where
  "agrees ps w g \<longleftrightarrow> cm_peers g = ps \<and> bc_shared (cm_client g) = shared w
     \<and> bc_pipeline (cm_client g) = wk_pipeline w \<and> cm_nats g = wk_nats w"

text \<open>\<open>reaches\<close>: some inputs take the task there, with the shared state in agreement.\<close>

definition reaches :: "'s tcp \<Rightarrow> ext \<Rightarrow> 'n nats \<Rightarrow> u32 \<times> u32 \<Rightarrow> 's tick_task \<times> ('n, 'z) commons_scheme \<Rightarrow> 's tick_task \<Rightarrow> peers
    \<Rightarrow> ('s, 'n) worker \<Rightarrow> bool" where
  "reaches T X N rng tg t' ps w \<longleftrightarrow> (\<exists>inps g'. tick_moves T X N rng inps tg = (t', g') \<and> agrees ps w g')"

lemma reaches_refl: "agrees ps w g \<Longrightarrow> reaches T X N rng (t, g) t ps w"
  unfolding reaches_def by (rule exI [of _ "[]"]) simp

lemma reaches_step:
  assumes "tick_step T X N rng inp t g = (t1, g1)" "reaches T X N rng (t1, g1) t' ps w"
  shows "reaches T X N rng (t, g) t' ps w"
  using assms unfolding reaches_def by (metis tick_moves.simps(2))

lemma reaches_move:
  "reaches T X N rng (tick_step T X N rng inp t g) t' ps w \<Longrightarrow> reaches T X N rng (t, g) t' ps w"
  by (cases "tick_step T X N rng inp t g") (simp add: reaches_step)

lemma reaches_trans:
  fixes tg :: "'s tick_task \<times> ('n, 'z) commons_scheme"
  assumes "reaches T X N rng tg t1 ps1 w1" "\<And>g1 :: ('n, 'z) commons_scheme. agrees ps1 w1 g1 \<Longrightarrow> reaches T X N rng (t1, g1) t' ps w"
  shows "reaches T X N rng tg t' ps w"
proof -
  obtain inps g1 where g1: "tick_moves T X N rng inps tg = (t1, g1)" "agrees ps1 w1 g1"
    using assms(1) unfolding reaches_def by blast
  then obtain inps' g' where "tick_moves T X N rng inps' (t1, g1) = (t', g')" "agrees ps w g'"
    using assms(2) unfolding reaches_def by blast
  with g1(1) have "tick_moves T X N rng (inps @ inps') tg = (t', g')" by (simp add: tick_moves_append)
  then show ?thesis using \<open>agrees ps w g'\<close> unfolding reaches_def by blast
qed

section \<open>Filling and counting\<close>

lemma send_request_truncate:
  "send_request T rand (window.truncate w) = map_prod id window.truncate (send_request T rand w)"
  by (auto simp: send_request_def window.defs Let_def split: outcome.split)

lemma skip_ahead_truncate: "skip_ahead e (window.truncate w) = window.truncate (skip_ahead e w)"
  by (simp add: skip_ahead_def window.defs)

lemma fill_pipeline_truncate:
  "fill_pipeline T rand e (window.truncate w) = map_prod id window.truncate (fill_pipeline T rand e w)"
proof (induction T rand e w rule: fill_pipeline.induct)
  case (1 T rand e w)
  have same: "next_tick_to_request (window.truncate w) = next_tick_to_request w" "expected (window.truncate w) = expected w"
    "consecutive_failures (window.truncate w) = consecutive_failures w" by (simp_all add: window.defs)
  show ?case
    unfolding fill_pipeline.simps [of T rand e "window.truncate w"] fill_pipeline.simps [of T rand e w] same
    using 1 by (auto simp: skip_ahead_truncate send_request_truncate split: prod.split outcome.split)
qed

text \<open>How the end of a call of the sequential worker looks in the task.\<close>

fun after_call :: "nat \<Rightarrow> socket_addr \<Rightarrow> u16 \<Rightarrow> unit outcome \<Rightarrow> ('s, 'n) worker \<Rightarrow> 's tick_task" where
  "after_call left a epoch (Ok u) w = Reading left a epoch (window.truncate w)"
| "after_call left a epoch (Err e) w = Blaming left a"
| "after_call left a epoch (Panic p) w = Crashed p"

lemma refill_serial:
  assumes "fill_pipeline T (ti_rand inp) e w = (r, w')"
  shows "refill T inp e left a epoch (window.truncate w) = after_call left a epoch r w'"
  using assms by (cases r) (simp_all add: refill_def fill_pipeline_truncate)

lemma agrees_fill:
  assumes "fill_pipeline T rand e w = (r, w')" "agrees ps w g"
  shows "agrees ps w' g"
  using assms fill_pipeline_shared [OF assms(1)] by (simp add: agrees_def)

fun tally :: "counter_op \<Rightarrow> ('s, 'n) worker \<Rightarrow> ('s, 'n) worker" where
  "tally AddCompleted w = count (\<lambda>sh. sh\<lparr>ticks_completed := ticks_completed sh + 1\<rparr>) w"
| "tally AddDiscovered w = count (\<lambda>sh. sh\<lparr>ticks_discovered := ticks_discovered sh + 1\<rparr>) w"
| "tally AddFailed w = count failed_one w"
| "tally AddTxs w = count (\<lambda>sh. sh\<lparr>txs_discovered := txs_discovered sh + 1\<rparr>) w"
| "tally (MaxIndexed t) w =
     w\<lparr>wk_pipeline := (wk_pipeline w)\<lparr>indexed_tick := max (indexed_tick (wk_pipeline w)) t\<rparr>\<rparr>"

lemma tally_truncate [simp]: "window.truncate (tally op w) = window.truncate w"
  by (cases op) (simp_all add: count_def window.defs)

lemma agrees_tally: "agrees ps w g \<Longrightarrow> agrees ps (tally op w) (on_client (perform op) g)"
  by (cases op) (simp_all add: agrees_def count_def)

text \<open>The updates one after the other, then the refill.\<close>

lemma counting_refills:
  fixes T :: "'s tcp" and inp :: "'s tick_input"
  assumes "agrees ps w g" "fill_pipeline T (ti_rand inp) (snd rng) (fold tally ops w) = (r, w')"
  shows "reaches T X N rng (Counting left a epoch (window.truncate w) ops Refill, g) (after_call left a epoch r w') ps w'"
  using assms
proof (induction ops arbitrary: w g)
  case Nil
  then have "refill T inp (snd rng) left a epoch (window.truncate w) = after_call left a epoch r w'"
    by (simp add: refill_serial)
  with Nil agrees_fill show ?case by (intro reaches_step [where inp = inp, OF _ reaches_refl]) auto
next
  case (Cons op ops)
  from Cons.IH [OF agrees_tally [OF Cons.prems(1), of op]] Cons.prems(2) show ?case
    by (intro reaches_step [where inp = inp, OF tick_step.simps(8)]) simp
qed

lemma counting_resumes:
  assumes "agrees ps w g" "w' = fold tally ops w"
  shows "reaches T X N rng (Counting left a epoch (window.truncate w) ops Resume, g)
    (Reading left a epoch (window.truncate w')) ps w'"
  using assms
proof (induction ops arbitrary: w g)
  case Nil
  then show ?case by (intro reaches_step [OF tick_step.simps(9)]) (simp add: reaches_refl)
next
  case (Cons op ops)
  from Cons.IH [OF agrees_tally [OF Cons.prems(1), of op]] Cons.prems(2) show ?case
    by (intro reaches_step [OF tick_step.simps(8)]) simp
qed

section \<open>A packet\<close>

lemma expected_truncate [simp]: "expected (window.truncate w) = expected w" "wk_stream (window.truncate w) = wk_stream w"
  by (simp_all add: window.defs)

lemma publish_agrees:
  "agrees ps w g \<Longrightarrow> backfill_publish X N ty payload ep (cm_nats g) = backfill_publish X N ty payload ep (wk_nats w)"
  "agrees ps w g \<Longrightarrow> agrees ps (w\<lparr>wk_nats := n\<rparr>) (g\<lparr>cm_nats := n\<rparr>)"
  "window.truncate (w\<lparr>wk_nats := n\<rparr>) = window.truncate w"
  by (simp_all add: agrees_def window.defs)

text \<open>A publish with its counter, then the updates that follow it.\<close>

fun after_publish :: "nat \<Rightarrow> socket_addr \<Rightarrow> u16 \<Rightarrow> ('s, 'n) worker \<Rightarrow> counter_op list \<Rightarrow> after \<Rightarrow> unit outcome \<Rightarrow> 's tick_task" where
  "after_publish left a epoch w ops next (Panic p) = Crashed p"
| "after_publish left a epoch w ops next r = Counting left a epoch (window.truncate w) ops next"

lemma publishing_serial:
  fixes w :: "('s, 'n) worker"
  assumes g: "agrees ps w g" and pub: "publish_counted X N ty payload ep f w = (q, w1)"
    and op: "\<And>v :: ('s, 'n) worker. tally op v = count f v"
  shows "reaches T X N rng (Publishing left a epoch (window.truncate w) (ty, payload, ep) [op] ops next, g)
    (after_publish left a epoch w1 ops next q) ps w1"
proof -
  obtain r n where r: "backfill_publish X N ty payload ep (wk_nats w) = (r, n)" by fastforce
  note gn = publish_agrees(2) [OF g, of n]
  have pg: "backfill_publish X N ty payload ep (cm_nats g) = (r, n)" using publish_agrees(1) [OF g] r by simp
  show ?thesis
  proof (cases r)
    case (Ok u)
    then have w1: "q = Ok ()" "w1 = tally op (w\<lparr>wk_nats := n\<rparr>)" using pub r by (simp_all add: publish_counted_def op)
    have "reaches T X N rng (Counting left a epoch (window.truncate w1) ops next, on_client (perform op) (g\<lparr>cm_nats := n\<rparr>))
        (Counting left a epoch (window.truncate w1) ops next) ps w1"
      unfolding w1(2) by (rule reaches_refl [OF agrees_tally [OF gn]])
    from reaches_step [OF tick_step.simps(8) this]
    show ?thesis using w1 Ok pg by (intro reaches_move) (simp add: publish_agrees(3))
  qed (use pub r pg gn in \<open>intro reaches_move, auto simp: publish_counted_def publish_agrees(3) reaches_refl\<close>)+
qed

lemma on_tick_data_serial:
  fixes T :: "'s tcp" and inp :: "'s tick_input" and w :: "('s, 'n) worker"
  assumes g: "agrees ps w g" and op: "on_tick_data T X N (ti_rand inp) (snd rng) d payload w = (r, w')"
  shows "reaches T X N rng (on_read left a epoch (8, d, payload) (window.truncate w), g) (after_call left a epoch r w') ps w'"
proof (cases "remove_match d (expected w)")
  case None
  then have "r = Ok ()" "w' = w" using op by (simp_all add: on_tick_data_def)
  moreover have "on_read left a epoch (8, d, payload) (window.truncate w) = Reading left a epoch (window.truncate w)"
    using None by (simp add: on_read_def)
  ultimately show ?thesis using reaches_refl [OF g] by simp
next
  case (Some p)
  then obtain e rest where rm: "remove_match d (expected w) = Some (e, rest)" by (cases p) auto
  define w1 where "w1 = w\<lparr>expected := rest\<rparr>"
  define w2 where "w2 = w\<lparr>expected := rest, consecutive_failures := 0, skip_size := FAILURE_SKIP_INITIAL\<rparr>"
  define ops where "ops = [AddCompleted, MaxIndexed (u32_from_le (take 4 (drop 4 payload)))]"
  let ?e = "u16_from_le (take 2 (drop 2 payload))"
  have g1: "agrees ps w1 g" and g2: "agrees ps w2 g" using g by (simp_all add: agrees_def w1_def w2_def)
  show ?thesis
  proof (cases "length payload < 8")
    case True
    have "on_read left a epoch (8, d, payload) (window.truncate w) = Counting left a epoch (window.truncate w1) [AddFailed] Refill"
      using True rm by (simp add: on_read_def w1_def window.defs)
    moreover have "fill_pipeline T (ti_rand inp) (snd rng) (fold tally [AddFailed] w1) = (r, w')"
      using op rm True by (simp add: on_tick_data_def w1_def)
    ultimately show ?thesis using counting_refills [OF g1] by metis
  next
    case False
    have read: "on_read left a epoch (8, d, payload) (window.truncate w)
        = Publishing left a epoch (window.truncate w2) (8, payload, ?e) [AddDiscovered] ops Refill"
      using False rm by (simp add: on_read_def w2_def ops_def window.defs)
    have both: "fold tally ops v = count (\<lambda>sh. sh\<lparr>ticks_completed := ticks_completed sh + 1\<rparr>) (v\<lparr>wk_pipeline :=
        (wk_pipeline v)\<lparr>indexed_tick := max (indexed_tick (wk_pipeline v)) (u32_from_le (take 4 (drop 4 payload)))\<rparr>\<rparr>)"
      for v :: "('s, 'n) worker" unfolding ops_def by (cases v) (simp add: count_def)
    have op2: "bindS (publish_counted X N 8 payload ?e (\<lambda>sh. sh\<lparr>ticks_discovered := ticks_discovered sh + 1\<rparr>) w2)
        (\<lambda>_ w. fill_pipeline T (ti_rand inp) (snd rng) (fold tally ops w)) = (r, w')"
      using op rm False by (simp add: on_tick_data_def w2_def both Let_def)
    obtain q w3 where q: "publish_counted X N 8 payload ?e (\<lambda>sh. sh\<lparr>ticks_discovered := ticks_discovered sh + 1\<rparr>) w2 = (q, w3)"
      by fastforce
    have reach: "reaches T X N rng (on_read left a epoch (8, d, payload) (window.truncate w), g)
        (after_publish left a epoch w3 ops Refill q) ps w3"
      unfolding read by (rule publishing_serial [OF g2 q]) simp
    show ?thesis
    proof (cases q)
      case (Ok u)
      then have "fill_pipeline T (ti_rand inp) (snd rng) (fold tally ops w3) = (r, w')" using op2 q by simp
      then show ?thesis using reaches_trans [OF reach] counting_refills Ok by (metis after_publish.simps(2))
    qed (use op2 q reach in \<open>auto simp: publish_counted_def split: prod.splits outcome.splits\<close>)
  qed
qed

lemma on_refusal_serial:
  fixes T :: "'s tcp" and inp :: "'s tick_input" and w :: "('s, 'n) worker"
  assumes g: "agrees ps w g" and op: "on_refusal T (ti_rand inp) (snd rng) d w = (r, w')" and ty: "ty = 35 \<or> ty = 54"
  shows "reaches T X N rng (on_read left a epoch (ty, d, payload) (window.truncate w), g) (after_call left a epoch r w') ps w'"
proof (cases "remove_match d (expected w)")
  case None
  then have "r = Ok ()" "w' = w" using op by (simp_all add: on_refusal_def)
  moreover have "on_read left a epoch (ty, d, payload) (window.truncate w) = Reading left a epoch (window.truncate w)"
    using None ty by (auto simp: on_read_def)
  ultimately show ?thesis using reaches_refl [OF g] by simp
next
  case (Some p)
  then obtain e rest where rm: "remove_match d (expected w) = Some (e, rest)" by (cases p) auto
  show ?thesis
  proof (cases e)
    case (TickDataReq t d')
    define w1 where "w1 = w\<lparr>expected := rest, consecutive_failures := consecutive_failures w + 1\<rparr>"
    have g1: "agrees ps w1 g" using g by (simp add: agrees_def w1_def)
    have "on_read left a epoch (ty, d, payload) (window.truncate w) = Counting left a epoch (window.truncate w1) [AddFailed] Refill"
      using ty rm TickDataReq by (auto simp: on_read_def w1_def window.defs)
    moreover have "fill_pipeline T (ti_rand inp) (snd rng) (fold tally [AddFailed] w1) = (r, w')"
      using op rm TickDataReq by (simp add: on_refusal_def w1_def)
    ultimately show ?thesis using counting_refills [OF g1] by metis
  next
    case (TransactionEnd t d')
    then have "r = Ok ()" "w' = w\<lparr>expected := rest\<rparr>" using op rm by (simp_all add: on_refusal_def)
    moreover have "on_read left a epoch (ty, d, payload) (window.truncate w) = Reading left a epoch (window.truncate (w\<lparr>expected := rest\<rparr>))"
      using ty rm TransactionEnd by (auto simp: on_read_def window.defs)
    ultimately show ?thesis using reaches_refl [of ps "w\<lparr>expected := rest\<rparr>" g] g by (simp add: agrees_def)
  qed
qed

lemma on_packet_serial:
  fixes T :: "'s tcp" and inp :: "'s tick_input" and w :: "('s, 'n) worker"
  assumes g: "agrees ps w g" and op: "on_packet T X N (ti_rand inp) (snd rng) epoch pkt w = (r, w')"
  shows "reaches T X N rng (on_read left a epoch pkt (window.truncate w), g) (after_call left a epoch r w') ps w'"
proof -
  obtain ty d payload where pkt: "pkt = (ty, d, payload)" by (cases pkt)
  consider "ty = 8" | "ty = 35 \<or> ty = 54" | "ty = 24" | "ty \<notin> {8, 35, 54, 24}" by auto
  then show ?thesis
  proof cases
    case 1
    then show ?thesis using on_tick_data_serial [OF g] op by (simp add: on_packet_def pkt)
  next
    case 2
    then have "on_refusal T (ti_rand inp) (snd rng) d w = (r, w')" using op by (auto simp: on_packet_def pkt)
    from on_refusal_serial [OF g this 2] show ?thesis by (simp add: pkt)
  next
    case 3
    have read: "on_read left a epoch pkt (window.truncate w)
        = Publishing left a epoch (window.truncate w) (24, payload, epoch) [AddTxs] [] Resume"
      using 3 by (simp add: on_read_def pkt)
    have "publish_counted X N 24 payload epoch (\<lambda>sh. sh\<lparr>txs_discovered := txs_discovered sh + 1\<rparr>) w = (r, w')"
      using op 3 by (simp add: on_packet_def pkt)
    then have reach: "reaches T X N rng (on_read left a epoch pkt (window.truncate w), g) (after_publish left a epoch w' [] Resume r) ps w'"
      unfolding read by (rule publishing_serial [OF g]) simp
    show ?thesis
    proof (cases r)
      case (Ok u)
      from reach show ?thesis unfolding Ok after_publish.simps after_call.simps
        by (rule reaches_trans) (rule counting_resumes, simp_all)
    qed (use op 3 reach in \<open>auto simp: on_packet_def pkt publish_counted_def split: prod.splits outcome.splits\<close>)
  next
    case 4
    then have "r = Ok ()" "w' = w" using op by (simp_all add: on_packet_def pkt)
    then show ?thesis using 4 reaches_refl [OF g] by (simp add: on_read_def pkt)
  qed
qed

section \<open>A connection\<close>

fun call_end :: "nat \<Rightarrow> socket_addr \<Rightarrow> u32 outcome \<Rightarrow> 's tick_task" where
  "call_end left a (Ok t) = Finished t"
| "call_end left a (Err e) = Blaming left a"
| "call_end left a (Panic p) = Crashed p"

lemma counting_bails:
  assumes "agrees ps w g"
  shows "reaches T X N rng (Counting left a epoch (window.truncate w) ops Bail, g) (Blaming left a) ps (fold tally ops w)"
  using assms
proof (induction ops arbitrary: w g)
  case Nil
  then show ?case by (intro reaches_step [OF tick_step.simps(9)]) (simp add: reaches_refl)
next
  case (Cons op ops)
  from Cons.IH [OF agrees_tally [OF Cons.prems, of op]] show ?case
    by (intro reaches_step [OF tick_step.simps(8)]) simp
qed

lemma fail_pending_tally: "fold tally (replicate k AddFailed) w = count (\<lambda>sh. sh\<lparr>ticks_failed := ticks_failed sh + word_of_nat k\<rparr>) w"
  by (induction k arbitrary: w) (simp_all add: count_def algebra_simps)

text \<open>One packet that arrives in time.\<close>

lemma read_serial:
  fixes T :: "'s tcp" and w :: "('s, 'n) worker" and inp :: "'s tick_input"
  assumes g: "agrees ps w g" and "expected w \<noteq> []" "\<not> ti_elapsed inp" "read_packet T (wk_stream w) = Ok (pkt, stream)"
    and q: "on_packet T X N (ti_rand inp) (snd rng) epoch pkt (w\<lparr>wk_stream := stream\<rparr>) = (q, w1)"
  shows "reaches T X N rng (Reading left a epoch (window.truncate w), g) (after_call left a epoch q w1) ps w1"
proof -
  have "agrees ps (w\<lparr>wk_stream := stream\<rparr>) g" using g by (simp add: agrees_def)
  moreover have "(window.truncate w)\<lparr>wk_stream := stream\<rparr> = window.truncate (w\<lparr>wk_stream := stream\<rparr>)" by (simp add: window.defs)
  ultimately show ?thesis
    using on_packet_serial [OF _ q, of ps g left a] assms(2-4)
    by (intro reaches_step [where inp = inp, OF tick_step.simps(6)]) (simp add: tick_reading_def)
qed

lemma window_loop_serial:
  fixes T :: "'s tcp" and w :: "('s, 'n) worker" and I :: "bool \<Rightarrow> 's tick_input"
  assumes "\<And>b. ti_rand (I b) = rand" "\<And>b. ti_elapsed (I b) = b"
    and "agrees ps w g" "window_loop T X N rand (snd rng) epoch clock w = Some (r, w')"
  shows "reaches T X N rng (Reading left a epoch (window.truncate w), g)
    (call_end left a (bindR r (\<lambda>_. Ok (next_tick_to_request w')))) ps w'"
  using assms(3,4)
proof (induction clock arbitrary: w g)
  case Nil
  then have "expected w = []" "r = Ok ()" "w' = w"
    by (simp_all add: window_loop.simps [of T X N rand "snd rng" epoch "[]"] split: if_splits)
  then show ?case using Nil(1)
    by (intro reaches_step [OF tick_step.simps(6)]) (simp add: tick_reading_def reaches_refl window.defs)
next
  case (Cons elapsed clock)
  note loop = window_loop.simps [of T X N rand "snd rng" epoch "elapsed # clock" w]
  show ?case
  proof (cases "expected w = []")
    case True
    then have "r = Ok ()" "w' = w" using Cons.prems(2) by (simp_all add: loop)
    then show ?thesis using True Cons.prems(1)
      by (intro reaches_step [OF tick_step.simps(6)]) (simp add: tick_reading_def reaches_refl window.defs)
  next
    case False
    note step = reaches_step [where inp = "I elapsed", OF tick_step.simps(6)]
    show ?thesis
    proof (cases elapsed)
      case True
      then have "r = Err (Timeout ''Pipeline'')" "w' = fail_pending w" using Cons.prems(2) [unfolded loop] False by auto
      then show ?thesis
        using counting_bails [OF Cons.prems(1), where ops = "replicate (length (filter is_tick_data (expected w))) AddFailed",
            unfolded fail_pending_tally, folded fail_pending_def] True False
        by (intro step) (simp add: tick_reading_def assms(2))
    next
      case inTime: False
      show ?thesis
      proof (cases "read_packet T (wk_stream w)")
        case (Ok x)
        then obtain pkt stream where rd: "read_packet T (wk_stream w) = Ok (pkt, stream)" by (cases x) auto
        obtain q w1 where q: "on_packet T X N rand (snd rng) epoch pkt (w\<lparr>wk_stream := stream\<rparr>) = (q, w1)" by fastforce
        have reach: "reaches T X N rng (Reading left a epoch (window.truncate w), g) (after_call left a epoch q w1) ps w1"
          by (rule read_serial [where inp = "I elapsed", OF Cons.prems(1) False _ rd]) (simp_all add: assms(1,2) q inTime)
        have res: "case q of Ok u \<Rightarrow> window_loop T X N rand (snd rng) epoch clock w1 = Some (r, w')
            | Err e \<Rightarrow> r = Err e \<and> w' = w1 | Panic p \<Rightarrow> r = Panic p \<and> w' = w1"
          using Cons.prems(2) [unfolded loop] False inTime rd q by (cases q) auto
        show ?thesis
        proof (cases q)
          case (Ok u)
          then show ?thesis using reaches_trans [OF reach] Cons.IH res by simp
        qed (use res reach in simp_all)
      qed (use Cons.prems(1) Cons.prems(2) [unfolded loop] False inTime in
          \<open>(intro step, auto simp: tick_reading_def assms(2) reaches_refl)+\<close>)
    qed
  qed
qed

text \<open>The environment of an attempt, as the inputs of the steps it takes.\<close>

definition as_input :: "'s worker_attempt \<Rightarrow> bool \<Rightarrow> 's tick_input" where
  "as_input A elapsed = attempt.extend (attempt.truncate A) \<lparr>ti_rand = wa_rand A, ti_elapsed = elapsed\<rparr>"

lemma as_input_simps [simp]:
  "ti_rand (as_input A b) = wa_rand A" "ti_elapsed (as_input A b) = b" "at_now (as_input A b) = at_now A"
  "at_pick (as_input A b) = at_pick A" "at_connect (as_input A b) = at_connect A"
  "at_exchange_rand (as_input A b) = at_exchange_rand A" "at_exchange_clock (as_input A b) = at_exchange_clock A"
  "at_exchange_lost (as_input A b) = at_exchange_lost A" "at_info_rand (as_input A b) = at_info_rand A"
  "at_info_clock (as_input A b) = at_info_clock A" "at_info_lost (as_input A b) = at_info_lost A"
  by (simp_all add: as_input_def attempt.defs tick_input.defs)

lemma as_input_connection [simp]:
  "open_connection T (as_input A b) = open_connection T A"
  "connection_epoch T (as_input A b) p s = connection_epoch T A p s"
  unfolding open_connection_def connection_epoch_def as_input_simps by (rule refl)+

lemma truncate_fresh: "window.truncate (fresh_window t (w\<lparr>wk_stream := s\<rparr>)) = new_window t s"
  by (simp add: fresh_window_def new_window_def window.defs)

lemma run_window_serial:
  fixes T :: "'s tcp" and w :: "('s, 'n) worker"
  assumes "agrees ps w g" "run_window T X N (wa_rand A) (snd rng) epoch clock t (w\<lparr>wk_stream := s\<rparr>) = Some (r, w')"
  shows "reaches T X N rng (refill T (as_input A b) (snd rng) left a epoch (new_window t s), g) (call_end left a r) ps w'"
proof -
  let ?w = "fresh_window t (w\<lparr>wk_stream := s\<rparr>)"
  obtain q w1 where q: "fill_pipeline T (wa_rand A) (snd rng) ?w = (q, w1)" by fastforce
  have "agrees ps ?w g" using assms(1) by (simp add: agrees_def fresh_window_def)
  note g1 = agrees_fill [OF q this]
  have fill: "refill T (as_input A b) (snd rng) left a epoch (new_window t s) = after_call left a epoch q w1"
    using refill_serial [of T "as_input A b", unfolded as_input_simps, OF q] by (simp add: truncate_fresh)
  show ?thesis
  proof (cases q)
    case (Ok u)
    then obtain r0 where loop: "window_loop T X N (wa_rand A) (snd rng) epoch clock w1 = Some (r0, w')"
      and r: "r = bindR r0 (\<lambda>_. Ok (next_tick_to_request w'))"
      using assms(2) q by (auto simp: run_window_def)
    then show ?thesis
      using window_loop_serial [OF _ _ g1 loop, of "as_input A"] by (simp add: fill Ok)
  qed (use assms(2) q fill g1 in \<open>auto simp: run_window_def reaches_refl\<close>)
qed

lemma try_peer_serial:
  fixes T :: "'s tcp" and w :: "('s, 'n) worker"
  assumes g: "agrees ps w g" and "try_peer T X N A (snd rng) a (fst rng) (ps, w) = Some (r, ps', w')"
  shows "reaches T X N rng (Connecting left a, g) (call_end left a r) ps' w'"
proof -
  note step = reaches_move [where inp = "as_input A False"]
  obtain q where q: "open_connection T A = Some q" using assms(2) by (auto simp: try_peer_def split: option.splits)
  show ?thesis
  proof (cases q)
    case (Ok x)
    then obtain remote stream where op: "open_connection T A = Some (Ok (remote, stream))" using q by (cases x) auto
    let ?ps = "mark_success (at_now A) a (add_peers_from_exchange (map quad remote) ps)"
    let ?g = "on_peers (mark_success (at_now A) a) (on_peers (add_peers_from_exchange (map quad remote)) g)"
    have gp: "agrees ?ps w ?g" and pl: "bc_pipeline (cm_client ?g) = wk_pipeline w" using g by (simp_all add: agrees_def)
    obtain c where c: "connection_epoch T A (wk_pipeline w) stream = Some c"
      using assms(2) op by (auto simp: try_peer_def Let_def split: option.splits)
    have "reaches T X N rng (Asking left a stream, ?g) (call_end left a r) ps' w'"
    proof (cases c)
      case (Ok y)
      then obtain epoch s1 where ep: "c = Ok (epoch, s1)" by (cases y) auto
      then have "ps' = ?ps" "run_window T X N (wa_rand A) (snd rng) epoch (wa_clock A) (fst rng) (w\<lparr>wk_stream := s1\<rparr>) = Some (r, w')"
        using assms(2) op c by (auto simp: try_peer_def Let_def)
      then show ?thesis using run_window_serial [OF gp] c ep pl
        by (intro step) simp
    qed (use assms(2) op c gp pl in \<open>(intro step, auto simp: try_peer_def Let_def reaches_refl)+\<close>)
    then show ?thesis using op
      by (intro step [of _ _ _ _ "Connecting left a"]) (simp, intro step [of _ _ _ _ "Merging left a remote stream"], simp,
          intro step [of _ _ _ _ "Crediting left a stream"], simp)
  qed (use assms(2) q g in \<open>(intro step, auto simp: try_peer_def reaches_refl)+\<close>)
qed

text \<open>A round over the peers: its end, or the next round.\<close>

fun round_end :: "u32 outcome \<Rightarrow> 's tick_task" where
  "round_end (Ok t) = Finished t"
| "round_end (Err e) = Choosing MAX_PEERS_PER_WORKER"
| "round_end (Panic p) = Crashed p"

lemma process_attempts_serial:
  fixes T :: "'s tcp" and w :: "('s, 'n) worker" and g :: "('n, 'z) commons_scheme"
  assumes "agrees ps w g" "process_attempts T X N atts (snd rng) n (fst rng) (ps, w) = Some (r, ps', w')"
  shows "reaches T X N rng (Choosing n, g) (round_end r) ps' w'"
  using assms
proof (induction n arbitrary: ps w g)
  case 0
  then show ?case by (intro reaches_move) (auto simp: reaches_refl)
next
  case (Suc n)
  let ?A = "atts n"
  note step = reaches_move [where inp = "as_input ?A False"]
  have ps: "cm_peers g = ps" using Suc.prems(1) by (simp add: agrees_def)
  show ?case
  proof (cases "best_peer (at_now ?A) (at_pick ?A) ps")
    case None
    then show ?thesis using Suc.prems by (intro step) (auto simp: reaches_refl ps Let_def)
  next
    case (Some a)
    obtain q ps1 w1 where tried: "try_peer T X N ?A (snd rng) a (fst rng) (ps, w) = Some (q, ps1, w1)"
      using Suc.prems(2) Some by (auto simp: Let_def split: option.splits)
    have reach: "reaches T X N rng (Choosing (Suc n), g) (call_end n a q) ps1 w1"
      using try_peer_serial [OF Suc.prems(1) tried, of n] Some by (intro step) (simp add: ps)
    show ?thesis
    proof (cases q)
      case (Err e)
      then have rest: "process_attempts T X N atts (snd rng) n (fst rng) (mark_failure (at_now ?A) a ps1, w1) = Some (r, ps', w')"
        using Suc.prems(2) Some tried by (simp add: Let_def)
      show ?thesis
      proof (rule reaches_trans [OF reach])
        fix g1 :: "('n, 'z) commons_scheme" assume g1: "agrees ps1 w1 g1"
        let ?g = "on_peers (mark_failure (at_now ?A) a) g1"
        have "agrees (mark_failure (at_now ?A) a ps1) w1 ?g" using g1 by (simp add: agrees_def)
        from Suc.IH [OF this rest] show "reaches T X N rng (call_end n a q, g1) (round_end r) ps' w'"
          unfolding Err call_end.simps by (intro step) simp
      qed
    qed (use Suc.prems(2) Some tried reach in \<open>auto simp: Let_def\<close>)
  qed
qed

lemma worker_run_reaches:
  fixes T :: "'s tcp" and w :: "('s, 'n) worker" and g :: "('n, 'z) commons_scheme"
  assumes "agrees ps w g" "fst rng < snd rng" "worker_run T X N rounds (snd rng) (fst rng) (ps, w) = Some (r, ps', w')"
  shows "reaches T X N rng (Choosing MAX_PEERS_PER_WORKER, g) (round_end r) ps' w'"
  using assms(1,3)
proof (induction rounds arbitrary: ps w g)
  case Nil
  then show ?case using assms(2) by (simp add: worker_run.simps)
next
  case (Cons atts rounds)
  obtain q ps1 w1 where rnd: "connect_and_process T X N atts (snd rng) (fst rng) (ps, w) = Some (q, ps1, w1)"
    using Cons.prems(2) assms(2) by (auto simp: worker_run.simps [of _ _ _ "_ # _"] split: option.splits)
  note reach = process_attempts_serial [OF Cons.prems(1) rnd [unfolded connect_and_process_def]]
  show ?case
  proof (cases q)
    case (Err e)
    then have "worker_run T X N rounds (snd rng) (fst rng) (ps1, w1) = Some (r, ps', w')"
      using Cons.prems(2) assms(2) rnd by (simp add: worker_run.simps [of _ _ _ "_ # _"])
    with Cons.IH have "reaches T X N rng (round_end q, g1) (round_end r) ps' w'" if "agrees ps1 w1 g1" for g1 :: "('n, 'z) commons_scheme"
      using that Err by simp
    then show ?thesis using reaches_trans [OF reach] by blast
  qed (use Cons.prems(2) assms(2) rnd reach in \<open>auto simp: worker_run.simps [of _ _ _ "_ # _"]\<close>)
qed

section \<open>The task among the others\<close>

text \<open>A step of a tick worker neither reads nor writes what the world has besides the shared state.\<close>

lemma tick_step_beside:
  "tick_step T X N rng inp t (g\<lparr>bw_ticks := ts\<rparr>) = map_prod id (bw_ticks_update (\<lambda>_. ts)) (tick_step T X N rng inp t g)"
  by (cases "(T, X, N, rng, inp, t, g)" rule: tick_step.cases) (auto split: option.split outcome.split prod.split)

definition same_range :: "backfill_client \<Rightarrow> backfill_client \<Rightarrow> bool" where
  "same_range b b' \<longleftrightarrow> bc_running b' = bc_running b \<and> bc_start b' = bc_start b \<and> bc_end b' = bc_end b"

lemma perform_same_range: "same_range b (perform op b)"
  by (cases op) (simp_all add: same_range_def)

lemma tick_step_same_range:
  "tick_step T X N rng inp t g = (t', g') \<Longrightarrow> same_range (cm_client g) (cm_client g')"
  by (cases "(T, X, N, rng, inp, t, g)" rule: tick_step.cases)
    (auto simp: perform_same_range, auto simp: same_range_def split: if_splits option.splits outcome.splits prod.splits)

lemma tick_moves_keep:
  "tick_moves T X N rng inps (t, g) = (t', g') \<Longrightarrow> commons.more g' = commons.more g \<and> same_range (cm_client g) (cm_client g')"
proof (induction inps arbitrary: t g)
  case (Cons inp inps)
  obtain t1 g1 where s: "tick_step T X N rng inp t g = (t1, g1)" by fastforce
  with Cons.prems have "tick_moves T X N rng inps (t1, g1) = (t', g')" by simp
  from Cons.IH [OF this] show ?case
    using tick_step_more [OF s] tick_step_same_range [OF s] by (simp add: same_range_def)
qed (simp add: same_range_def)

lemma tick_moves_run:
  assumes "i < length ts" "bw_ranges g ! i = rng" "tick_moves T X N rng inps (ts ! i, g) = (t', g')"
  shows "backfill_run T X N cfg (g\<lparr>bw_ticks := ts\<rparr>) (map (TickMoves i) inps) = g'\<lparr>bw_ticks := ts[i := t']\<rparr>"
  using assms
proof (induction inps arbitrary: ts g)
  case (Cons inp inps)
  obtain t1 g1 where s: "tick_step T X N rng inp (ts ! i) g = (t1, g1)" by fastforce
  then have "backfill_step T X N cfg (TickMoves i inp) (g\<lparr>bw_ticks := ts\<rparr>) = g1\<lparr>bw_ticks := ts[i := t1]\<rparr>"
    using Cons.prems(1,2) by (simp add: tick_step_beside)
  moreover have "bw_ranges g1 ! i = rng" using tick_step_tasks [OF s] Cons.prems(2) by simp
  ultimately show ?case using Cons.IH [of "ts[i := t1]" g1] Cons.prems s by (simp add: backfill_run_def)
qed (auto simp: backfill_run_def)


text \<open>The worker of one tick whose node does not know it, as the first of two workers.\<close>

definition demo_pair :: "(bytes \<times> bytes, (string \<times> bytes) list) backfill_world" where
  "demo_pair = spawned [(0, 1), (1, 2)]
     \<lparr>bc_running = True, bc_start = 0, bc_end = 2, bc_shared = shared (demo_worker ([], [])),
       bc_pipeline = wk_pipeline (demo_worker ([], []))\<rparr>
     [new_peer (V4 1 2 3 4, 21841)] (wk_nats (demo_worker ([], [])))"


end
