(* ===== verification/Spec2Isabelle.thy ===== *)
theory Spec2Isabelle
  imports Pending Hot Services Catch_Up Backfill_Complete Backfill_Serial
begin

text \<open>
  A verification of Qonduit, an indexer and query server for the Qubic network
  (\<^verbatim>\<open>src/crates\<close>).  The program connects to nodes over TCP, decodes the packets they
  broadcast, publishes the decoded records as JSON on NATS JetStream, consumes those streams to
  build indexes in RocksDB, and answers REST, JSON-RPC and WebSocket queries from them.  A backfill
  fetches historical ticks over the same protocol.

  \<^bold>\<open>Parts and theories.\<close>
  \<^item> Shared: \<open>Qonduit_Prelude\<close> (words, bytes, outcomes, checked slices, the interfaces
    \<open>byte_codec\<close> and \<open>order_codec\<close>), \<open>Externals\<close> (hashes and hexadecimal as parameters), \<open>Strings\<close>
    (ASCII, number parsing and printing).
  \<^item> \<^verbatim>\<open>core\<close>: \<open>Identity\<close> (\<^verbatim>\<open>identity.rs\<close>, \<^verbatim>\<open>hash.rs\<close>), \<open>Wire\<close> (\<^verbatim>\<open>header.rs\<close>, \<^verbatim>\<open>message_type.rs\<close>),
    \<open>Structs\<close> and \<open>Core_Types\<close> (\<^verbatim>\<open>structs/\<close>, \<^verbatim>\<open>constants.rs\<close>, \<^verbatim>\<open>event.rs\<close>, \<^verbatim>\<open>error.rs\<close>), \<open>Pipeline\<close> (\<^verbatim>\<open>pipeline.rs\<close>, \<^verbatim>\<open>system.rs\<close>), \<open>Epochs\<close> (\<^verbatim>\<open>epoch_intervals.rs\<close>).
  \<^item> \<^verbatim>\<open>ingestion\<close>: \<open>Protocol\<close> (\<^verbatim>\<open>protocol.rs\<close>), \<open>Decoders\<close> and \<open>Log_Decoder\<close> (\<^verbatim>\<open>decoders.rs\<close>), \<open>Votes\<close> and
    \<open>Packet_Decoder\<close> (\<^verbatim>\<open>decoder.rs\<close>, \<^verbatim>\<open>nats_publish.rs\<close>), \<open>Streams\<close> (\<^verbatim>\<open>nats_setup.rs\<close>), \<open>Peers\<close>
    (\<^verbatim>\<open>peer_manager.rs\<close>), \<open>Pending\<close> (\<^verbatim>\<open>pending.rs\<close>), \<open>Connection\<close> and \<open>Client\<close> (\<^verbatim>\<open>client.rs\<close>),
    \<open>Backfill\<close> (the request window), \<open>Backfill_Run\<close> (a task as one call), \<open>Backfill_Tasks\<close> (the
    concurrent tasks), with \<open>Backfill_Interleaved\<close>, \<open>Backfill_Complete\<close> and \<open>Backfill_Serial\<close> for what
    holds in every interleaving (\<^verbatim>\<open>backfill.rs\<close>).
  \<^item> \<^verbatim>\<open>storage\<close>: \<open>Rocks\<close> (the key-value store the code relies on), \<open>Warm\<close>, \<open>Opening\<close>
    and \<open>Reads\<close> (\<^verbatim>\<open>warm.rs\<close>), \<open>Hot\<close>
    (\<^verbatim>\<open>hot.rs\<close>), \<open>Cold\<close> (\<^verbatim>\<open>cold.rs\<close>).
  \<^item> \<^verbatim>\<open>processor\<close>: \<open>Indexer\<close> and \<open>Indexing\<close> (\<^verbatim>\<open>indexer.rs\<close>), \<open>Consumer\<close> and \<open>Catch_Up\<close>
    (\<^verbatim>\<open>consumer.rs\<close>, \<^verbatim>\<open>lib.rs\<close>).
  \<^item> \<^verbatim>\<open>query\<close>: \<open>Json\<close>, \<open>Rest\<close> (\<^verbatim>\<open>rest.rs\<close>), \<open>Rpc\<close> and \<open>Query\<close> (\<^verbatim>\<open>rpc.rs\<close>), \<open>Query_Metrics\<close> (\<^verbatim>\<open>metrics.rs\<close>),
    \<open>Server\<close> (\<^verbatim>\<open>lib.rs\<close>, \<^verbatim>\<open>ws.rs\<close>), \<open>Api_Docs\<close> (\<^verbatim>\<open>docs.rs\<close>).
  \<^item> \<^verbatim>\<open>qonduit\<close>: \<open>Startup\<close> and \<open>Services\<close> (\<^verbatim>\<open>main.rs\<close>, \<^verbatim>\<open>epoch_fetch.rs\<close> of \<^verbatim>\<open>ingestion\<close>, the publisher object
    and the documentation pages).

  A definition carries the name of the function it models, with a prefix (\<open>warm_\<close>, \<open>rest_\<close>) where two
  crates share a name; a struct is a record, an enum a datatype, and stateful code passes its state.
  The state of the live client is \<open>client\<close> with the byte stream of its connection, of a backfill
  \<open>backfill_world\<close> (its tasks and what they share; \<open>worker\<close> is one of them alone), of the processor \<open>processor\<close> (server, tasks, index), of the handlers \<open>indexer\<close>, of the query
  server \<open>server\<close>.

  \<^bold>\<open>What is proved.\<close>
  \<^item> Wire formats: packets, headers, identities, ticks, transactions and log events are read back as
    written; no decoder panics except \<open>decode_tick\<close>, whose panics are characterised; the log parser
    returns on every payload and what it returns is encoded there.
  \<^item> Votes: in any sequence of votes a quorum event is emitted exactly once for each tick with 451
    voters, by the vote that completes it.
  \<^item> Dispatch: what a packet publishes and counts, against a specification; every published subject
    belongs to one stream.
  \<^item> Client: invariants of every reachable state, a refinement of the byte-level loop by one that
    exchanges packets, and the rounds of connection attempts.
  \<^item> Backfill: the partition covers the range once, the request window stays full and bounded, the
    transaction phase publishes what it received.  In every interleaving of workers, reporter and run
    no tick is requested by two workers, and the totals a finished run shows are what it published;
    with answering nodes and enough moves of each worker, every tick of the range is published once.
    A worker that runs alone does what the sequential worker does.
  \<^item> Storage: every typed write keeps the key layout, so that the scans by tick, entity and epoch
    return complete answers in order (\<open>order_codec\<close>, \<open>total_read\<close>); every column family an operation
    uses is opened; the caches stay bounded.
  \<^item> Processor: no handler panics on any payload (\<open>safe_handler\<close>), and the interleaved stream tasks
    refine a sequential log of handled messages, gapless and in order per stream; in catch-up mode
    every message is reached, and every transaction of the stream is served afterwards, since each
    task writes its own column families.
  \<^item> Queries: every REST request is answered without a server error, REST and JSON-RPC agree, error
    codes are exact, and the answers keep to the published OpenAPI document but for two codes.
  \<^item> This theory: the path of a transaction from the bytes of a connection to the answer of a query.

  \<^bold>\<open>Parameters.\<close>  Code outside the repository is a record argument, and its documented behaviour a named
  hypothesis: \<open>hex_ok\<close>, \<open>sha_ok\<close> (hexadecimal and SHA-256 output), \<open>tcp_ok\<close> (a byte stream), \<open>nats_healthy\<close>,
  \<open>streams_ok\<close>, \<open>jetstream_ok\<close>, \<open>serving_ok\<close> (JetStream publishing, stream set-up, consumers), \<open>rocks_ok\<close>
  (an ordered key-value store with atomic batches), \<open>serde_ok\<close> (JSON), \<open>fs_ok\<close> (files), \<open>display_ok\<close> (error
  texts), \<open>prometheus_ok\<close> (metrics).  Each has a concrete instance (\<open>demo_\<close>, \<open>mem_\<close>) on which the witnesses
  evaluate.

  \<^bold>\<open>Conventions and bounds.\<close>  Arithmetic wraps as in a release build.  \<^verbatim>\<open>f64\<close> is a rational number;
  \<^verbatim>\<open>HashMap\<close> and \<^verbatim>\<open>HashSet\<close> are lists in their iteration order, which the statements do not depend on.
  Clock, random numbers, timeouts and the order in which events become ready are arguments: loops that
  run until the process ends take the list of events or rounds they see (\<open>read_loop\<close>, \<open>run_cycle\<close>,
  \<open>processor_run\<close>), so every finite behaviour is covered and no fuel is chosen; loops that end by
  themselves terminate by their measure.  A round of the client tries at most eight peers, as the
  code does.  The moves \<open>tick_phase_complete\<close> asks of a worker are those of its connection, its ticks and
  the packets its node sends in between.  In \<open>Consumer\<close> the set-up of a task is one step, since it only touches the consumer of
  that task.

  \<^bold>\<open>Not modelled.\<close>  Logging; the axum and tower layers (CORS, tracing, sockets); RocksDB tuning options and
  Parquet encoding; the prose and examples of the documentation and the text of its HTML pages; module
  lists and re-exports.  In \<open>Backfill_Tasks\<close> the delays between attempts take no time, and a step
  touches shared state at most once, so that all interleavings of relaxed atomic accesses to one
  counter are covered; reordering between different counters is not.  \<open>catch_up_complete\<close> is for catch-up mode: in live mode a new consumer
  starts at the end of its stream by design.
\<close>

section \<open>From the indexer to the query server\<close>

text \<open>The transaction handler of the indexer, seen from the query server.\<close>

lemma indexed_transaction_found:
  fixes lmt :: u32
  assumes "healthy E entries s" "hex_ok (ext E)" "de_tx (serde E) p = Some tx"
    and "q_rocks Q = rocks E" "q_ext Q = ext E" "q_parse Q p = Some v"
  shows "\<exists>s'. index_transaction E p s = (Ok (), s') \<and> healthy E entries s'
    \<and> (\<forall>app. app_storage app = storage s' \<longrightarrow>
        fst (get_transaction (hex_encode (ext E) (hash_key (ext E) tx)) Q app c)
          = Ok \<lparr>status_code = 200, resp_body = RawJson p\<rparr>
      \<and> (\<exists>vs. fst (get_tick_transactions (show_nat (unat (tx_tick tx))) Q app c) = Ok (json_ok (JArr vs))
          \<and> v \<in> set vs)
      \<and> (\<forall>e. (key_of (ext E) (tx_source_identity tx) (tx_source_hex tx) = Some e
            \<or> key_of (ext E) (tx_destination_identity tx) (tx_destination_hex tx) = Some e)
          \<and> length (entity_index entries e (storage s')) \<le> unat lmt \<longrightarrow>
          (\<exists>vs. call ''qonduit_getEntityActivity'' Q app [JStr (encode_base26 (ext E) e), jword lmt]
              = Some (JArr vs) \<and> v \<in> set vs)))"
proof -
  let ?h = "hash_key (ext E) tx" and ?t = "tx_tick tx"
  obtain i s1 where next_i: "next_tx_index ?t s = (i, s1)" by fastforce
  obtain s' where s': "index_transaction E p s = (Ok (), s')" "healthy E entries s'"
    "entries (storage s') CF_TX_BY_TICK = put_entry (tick_key ?t i) ?h (entries (storage s) CF_TX_BY_TICK)"
    "map_of (entries (storage s') CF_TX) = (map_of (entries (storage s) CF_TX))(?h \<mapsto> p)"
    "\<And>e. key_of (ext E) (tx_source_identity tx) (tx_source_hex tx) = Some e
        \<or> key_of (ext E) (tx_destination_identity tx) (tx_destination_hex tx) = Some e
      \<Longrightarrow> map_of (entries (storage s') CF_TX_BY_ENTITY) (entity_key e ?t i) = Some ?h"
    using index_transaction_effect [OF assms(1,3) next_i] by blast
  have tick: "?h \<in> set (tick_hashes entries ?t (storage s'))"
  proof -
    have "map_of (entries (storage s') CF_TX_BY_TICK) (tick_key ?t i) = Some ?h"
      unfolding s'(3) by (simp add: map_of_put_entry rocks_ascending [OF healthyD(1) [OF assms(1)]])
    then have "(i, ?h) \<in> set (index_block (entries (storage s') CF_TX_BY_TICK) (tick_key ?t))"
      unfolding key_layouts u32_be.in_index_block .
    then show ?thesis by force
  qed
  have hit: "v \<in> set (List.map_filter (\<lambda>h. Option.bind (stored entries CF_TX h (storage s')) (q_parse Q)) hs)"
    if "?h \<in> set hs" for hs
    using that by (force simp: List.map_filter_def s'(4) assms(6))
  show ?thesis
  proof (intro exI [of _ s'] conjI allI impI s'(1,2))
    fix app :: "'a app_state"
    assume app: "app_storage app = storage s'"
    have sv: "serves Q entries app"
      using healthyD(1,4) [OF s'(2)] by (simp add: serving_def app assms(4))
    note sv' = sv [unfolded app]
    have "hash_param (q_ext Q) (hex_encode (ext E) ?h) = Some ?h"
      by (simp add: hash_param_def assms(5) hex_okD(1) [OF assms(2)])
    then show "fst (get_transaction (hex_encode (ext E) ?h) Q app c) = Ok \<lparr>status_code = 200, resp_body = RawJson p\<rparr>"
      by (simp add: get_transaction_def read_tx.read_val [OF sv'] app s'(4) json_or_404_def)
    show "\<exists>vs. fst (get_tick_transactions (show_nat (unat ?t)) Q app c) = Ok (json_ok (JArr vs)) \<and> v \<in> set vs"
      using hit [OF tick]
      by (simp add: get_tick_transactions_def Let_def parse_show read_vals [OF sv'] collect_stored_Ok app) blast
    fix e
    assume e: "(key_of (ext E) (tx_source_identity tx) (tx_source_hex tx) = Some e
        \<or> key_of (ext E) (tx_destination_identity tx) (tx_destination_hex tx) = Some e)
      \<and> length (entity_index entries e (storage s')) \<le> unat lmt"
    then have len: "length e = 32" using length_key_of by blast
    have "((?t, i), ?h) \<in> set (entity_index entries e (storage s'))"
      using s'(5) e unfolding key_layouts pair_be.in_index_block by (simp add: entity_key_def pair_to_be_def)
    then have "?h \<in> set (take (unat lmt) (rev (map snd (entity_index entries e (storage s')))))"
      using e by force
    from hit [OF this]
    show "\<exists>vs. call ''qonduit_getEntityActivity'' Q app [JStr (encode_base26 (ext E) e), jword lmt]
        = Some (JArr vs) \<and> v \<in> set vs"
      using len
      by (simp add: dispatch_defs getEntityActivity_def Let_def unwrap_or_def decode_identity_def ok_or_def
          assms(5) decode_encode_key entity_vals [OF sv'] collect_txs_total [OF sv'] app)
  qed
qed



section \<open>From the wire to the query server\<close>

text \<open>A transaction payload of well-formed layout: decoded, published, indexed and served.\<close>

lemma packet_found:
  fixes tick :: u32 and ty :: u16
  assumes "length src = 32" "length dst = 32" "length input < 2 ^ 16" "length sig = 64"
    and "- (2 ^ 63) \<le> amount" "amount < 2 ^ 63"
    and header: "header = src @ dst @ i64_to_le amount @ u32_to_le tick @ u16_to_le ty
      @ u16_to_le (word_of_nat (length input))"
    and X: "hex_ok X" "sha_ok X"
    and nats: "nats_healthy N published J"
    and publish: "decode_and_publish X N 24 dejavu (header @ input @ sig @ rest) epoch d = (r, d')"
    and indexer: "healthy E entries s" "ext E = X"
    and json: "\<And>tx. decode_transaction X (header @ input @ sig @ rest) = Ok tx
      \<Longrightarrow> de_tx (serde E) (J (TxEvent tx)) = Some tx \<and> q_parse Q (J (TxEvent tx)) \<noteq> None"
    and server: "q_rocks Q = rocks E" "q_ext Q = X"
  shows "r = Ok ()
    \<and> (\<exists>msg s'. published (js d') = published (js d) @ [(subject epoch ''TX'', msg)]
      \<and> index_transaction E msg s = (Ok (), s')
      \<and> (\<forall>app. app_storage app = storage s' \<longrightarrow>
          fst (get_transaction (hex_encode X (sha256_digest X (header @ input))) Q app c)
            = Ok \<lparr>status_code = 200, resp_body = RawJson msg\<rparr>))"
proof -
  let ?p = "header @ input @ sig @ rest" and ?digest = "sha256_digest X (header @ input)"
  obtain tx where tx: "decode_transaction X ?p = Ok tx" "tx_hash tx = hex_encode X ?digest"
    using transaction_fields [OF assms(1-6) header] by simp
  let ?msg = "J (TxEvent tx)"
  have "route X 24 dejavu ?p epoch = Ok [(subject epoch ''TX'', TxEvent tx)]"
    by (simp add: route_def one_def tx(1))
  then have pub: "r = Ok ()" "published (js d') = published (js d) @ [(subject epoch ''TX'', ?msg)]"
    using decode_and_publish_spec [OF nats _ publish] by simp_all
  have "length (tx_hash tx) = 64"
    using X by (simp add: tx(2) hex_okD(2) sha_ok_def)
  then have "decode_base26 X (tx_hash tx) = None"
    using decode_base26_iff [of X "tx_hash tx"] by (cases "decode_base26 X (tx_hash tx)") auto
  then have key: "hash_key X tx = ?digest"
    using X by (simp add: hash_key_def key_of_def hex_key_def tx(2) hex_okD(1) sha_ok_def)
  obtain v where v: "de_tx (serde E) ?msg = Some tx" "q_parse Q ?msg = Some v" using json [OF tx(1)] by blast
  have "hex_ok (ext E)" using X(1) indexer(2) by simp
  from indexed_transaction_found [OF indexer(1) this v(1) server(1) _ v(2), of c 0]
  show ?thesis using pub key indexer(2) server(2) by auto
qed

text \<open>
  C1: the path of a transaction through the system.  When the next bytes of the connection are a
  transaction packet of well-formed layout, the read of the client's loop takes exactly that packet
  and publishes it as one message of the current epoch; when the consumer hands that message to the
  indexer, it is stored, and \<^verbatim>\<open>GET /v1/tx/<hash>\<close> with the SHA-256 hash of its header and input
  returns the message.  The JSON reader is assumed to read back the transaction that was written.
\<close>

theorem wire_to_query:
  fixes tick :: u32 and ty :: u16
  assumes "length src = 32" "length dst = 32" "length tx_input < 2 ^ 16" "length sig = 64"
    and "- (2 ^ 63) \<le> amount" "amount < 2 ^ 63"
    and header: "header = src @ dst @ i64_to_le amount @ u32_to_le tick @ u16_to_le ty
      @ u16_to_le (word_of_nat (length tx_input))"
    and X: "hex_ok X" "sha_ok X"
    and tcp: "tcp_ok T input output" "input stream = wire_packet (24, dejavu, header @ tx_input @ sig) @ later"
    and nats: "nats_healthy N published J"
    and indexer: "healthy E entries s" "ext E = X"
    and json: "\<And>tx. decode_transaction X (header @ tx_input @ sig) = Ok tx
      \<Longrightarrow> de_tx (serde E) (J (TxEvent tx)) = Some tx \<and> q_parse Q (J (TxEvent tx)) \<noteq> None"
    and server: "q_rocks Q = rocks E" "q_ext Q = X"
  shows "\<exists>client' stats' stream' msg s'.
      select_step T X N a (PacketRead now) ((client, stats), stream) = (Ok (), (client', stats'), stream')
    \<and> input stream' = later
    \<and> published (js (cl_decoder client'))
        = published (js (cl_decoder client)) @ [(subject (cl_epoch client) ''TX'', msg)]
    \<and> index_transaction E msg s = (Ok (), s')
    \<and> (\<forall>app. app_storage app = storage s' \<longrightarrow>
        fst (get_transaction (hex_encode X (sha256_digest X (header @ tx_input))) Q app c)
          = Ok \<lparr>status_code = 200, resp_body = RawJson msg\<rparr>)"
proof -
  let ?p = "header @ tx_input @ sig"
  have "fits (24, dejavu, ?p)" using assms(1-4) by (simp add: fits_def header)
  from read_packet_wire [OF tcp(1) this tcp(2)] obtain stream' where
    read: "read_packet T stream = Ok ((24, dejavu, ?p), stream')" "input stream' = later" .
  define c1 where "c1 = (extract_entities 24 ?p client)
    \<lparr>cl_peers := mark_broadcast now a (cl_peers (extract_entities 24 ?p client))\<rparr>"
  have kept: "cl_decoder (extract_entities 24 ?p client) = cl_decoder client"
    "cl_epoch (extract_entities 24 ?p client) = cl_epoch client"
    by (simp_all add: extract_entities_def)
  obtain r d' where d: "decode_and_publish X N 24 dejavu (header @ tx_input @ sig @ []) (cl_epoch client) (cl_decoder client) = (r, d')"
    by fastforce
  have "\<And>tx. decode_transaction X (header @ tx_input @ sig @ []) = Ok tx
      \<Longrightarrow> de_tx (serde E) (J (TxEvent tx)) = Some tx \<and> q_parse Q (J (TxEvent tx)) \<noteq> None"
    using json by simp
  note found = packet_found [OF assms(1-6) header X nats d indexer this server, of c]
  then have "r = Ok ()" by simp
  then have "\<exists>stats'. select_step T X N a (PacketRead now) ((client, stats), stream) = (Ok (), (c1\<lparr>cl_decoder := d'\<rparr>, stats'), stream')"
    using d by (simp add: read handle_packet_def Let_def c1_def kept)
  then show ?thesis using found read(2) by fastforce
qed

definition demo_packet :: bytes where
  "demo_packet = (replicate 32 1 @ replicate 32 2 @ i64_to_le 5 @ u32_to_le 9 @ u16_to_le 0 @ u16_to_le (word_of_nat (length ([] :: bytes))))
     @ [] @ replicate 64 3"

definition demo_packet_env :: "(batch_op list, bytes, unit) env" where
  "demo_packet_env = demo_env\<lparr>serde := demo_serde\<lparr>de_tx := (\<lambda>_.
     case decode_transaction demo_ext demo_packet of Ok tx \<Rightarrow> Some tx | _ \<Rightarrow> None)\<rparr>\<rparr>"

lemma demo_packet_healthy: "healthy demo_packet_env mem_entries demo_state"
  using demo_healthy by (simp add: healthy_def demo_packet_env_def demo_env_def serde_ok_def)

theorem wire_to_query_witness:
  "\<exists>client' stats' stream' msg s'.
      select_step mem_tcp demo_ext (mem_nats (\<lambda>_. [7])) (V4 1 2 3 4, 21841) (PacketRead 1)
        ((new_client default_config [] (new_pipeline 0), new_stats 0), (wire_packet (24, 0, demo_packet) @ [], []))
      = (Ok (), (client', stats'), stream')
    \<and> js (cl_decoder client') = [(subject 0 ''TX'', msg)] \<and> index_transaction demo_packet_env msg demo_state = (Ok (), s')"
  using wire_to_query [where src = "replicate 32 1" and dst = "replicate 32 2" and tx_input = "[]" and sig = "replicate 64 3"
      and amount = 5 and tick = 9 and ty = 0 and later = "[]" and dejavu = 0 and stream = "(wire_packet (24, 0, demo_packet) @ [], [])"
      and Q = demo_query and a = "(V4 1 2 3 4, 21841)" and now = 1 and stats = "new_stats 0" and c = "sv_counters demo_server"
      and client = "new_client default_config [] (new_pipeline 0)",
      OF _ _ _ _ _ _ refl demo_ext_hex_ok demo_ext_sha_ok mem_tcp_ok _ mem_nats_healthy [of "\<lambda>_. [7]"] demo_packet_healthy]
  by (simp add: demo_packet_env_def demo_env_def demo_query_def demo_packet_def new_client_def new_decoder_def) blast

end
